(* ===== verification/UnicodeCase.thy ===== *)
theory UnicodeCase
  imports Main "HOL-Library.Word"
begin

text \<open>
  The case mappings of JavaScript's \<^verbatim>\<open>String.prototype.toLowerCase\<close> and
  \<^verbatim>\<open>toUpperCase\<close> on UTF-16 code units. Both are the Unicode default case conversions
  of the basic multilingual plane: a table of ranges for the one-to-one mappings and a table
  of the code points whose image has several code units (\<^verbatim>\<open>U+0130\<close> downwards; sharp s,
  the ligatures and the Greek letters with iota subscript upwards).

  A range \<open>(lo, hi, step, img)\<close> maps \<open>lo + k\<close> to \<open>img + k\<close> for every multiple \<open>k\<close> of
  \<open>step\<close> with \<open>lo + k \<le> hi\<close>. ASCII is decided before the tables are consulted. Two things
  of the full conversion are left out: the context-dependent final sigma, which the model
  lowers to the ordinary sigma, and letters outside the basic multilingual plane, whose
  surrogate halves the model leaves unchanged.
\<close>

type_synonym case_range = "nat \<times> nat \<times> nat \<times> nat"

definition lower_ranges :: "case_range list" where
  "lower_ranges = [(192, 214, 1, 224), (216, 222, 1, 248), (256, 302, 2, 257),
    (306, 310, 2, 307), (313, 327, 2, 314), (330, 374, 2, 331), (376, 376, 1, 255),
    (377, 381, 2, 378), (385, 385, 1, 595), (386, 388, 2, 387), (390, 390, 1, 596),
    (391, 391, 1, 392), (393, 394, 1, 598), (395, 395, 1, 396), (398, 398, 1, 477),
    (399, 399, 1, 601), (400, 400, 1, 603), (401, 401, 1, 402), (403, 403, 1, 608),
    (404, 404, 1, 611), (406, 406, 1, 617), (407, 407, 1, 616), (408, 408, 1, 409),
    (412, 412, 1, 623), (413, 413, 1, 626), (415, 415, 1, 629), (416, 420, 2, 417),
    (422, 422, 1, 640), (423, 423, 1, 424), (425, 425, 1, 643), (428, 428, 1, 429),
    (430, 430, 1, 648), (431, 431, 1, 432), (433, 434, 1, 650), (435, 437, 2, 436),
    (439, 439, 1, 658), (440, 440, 1, 441), (444, 444, 1, 445), (452, 452, 1, 454),
    (453, 453, 1, 454), (455, 455, 1, 457), (456, 456, 1, 457), (458, 458, 1, 460),
    (459, 475, 2, 460), (478, 494, 2, 479), (497, 497, 1, 499), (498, 500, 2, 499),
    (502, 502, 1, 405), (503, 503, 1, 447), (504, 542, 2, 505), (544, 544, 1, 414),
    (546, 562, 2, 547), (570, 570, 1, 11365), (571, 571, 1, 572), (573, 573, 1, 410),
    (574, 574, 1, 11366), (577, 577, 1, 578), (579, 579, 1, 384), (580, 580, 1, 649),
    (581, 581, 1, 652), (582, 590, 2, 583), (880, 882, 2, 881), (886, 886, 1, 887),
    (895, 895, 1, 1011), (902, 902, 1, 940), (904, 906, 1, 941), (908, 908, 1, 972),
    (910, 911, 1, 973), (913, 929, 1, 945), (931, 939, 1, 963), (975, 975, 1, 983),
    (984, 1006, 2, 985), (1012, 1012, 1, 952), (1015, 1015, 1, 1016), (1017, 1017, 1, 1010),
    (1018, 1018, 1, 1019), (1021, 1023, 1, 891), (1024, 1039, 1, 1104), (1040, 1071, 1, 1072),
    (1120, 1152, 2, 1121), (1162, 1214, 2, 1163), (1216, 1216, 1, 1231), (1217, 1229, 2, 1218),
    (1232, 1326, 2, 1233), (1329, 1366, 1, 1377), (4256, 4293, 1, 11520),
    (4295, 4295, 1, 11559), (4301, 4301, 1, 11565), (5024, 5103, 1, 43888),
    (5104, 5109, 1, 5112), (7312, 7354, 1, 4304), (7357, 7359, 1, 4349), (7680, 7828, 2, 7681),
    (7838, 7838, 1, 223), (7840, 7934, 2, 7841), (7944, 7951, 1, 7936), (7960, 7965, 1, 7952),
    (7976, 7983, 1, 7968), (7992, 7999, 1, 7984), (8008, 8013, 1, 8000), (8025, 8031, 2, 8017),
    (8040, 8047, 1, 8032), (8072, 8079, 1, 8064), (8088, 8095, 1, 8080), (8104, 8111, 1, 8096),
    (8120, 8121, 1, 8112), (8122, 8123, 1, 8048), (8124, 8124, 1, 8115), (8136, 8139, 1, 8050),
    (8140, 8140, 1, 8131), (8152, 8153, 1, 8144), (8154, 8155, 1, 8054), (8168, 8169, 1, 8160),
    (8170, 8171, 1, 8058), (8172, 8172, 1, 8165), (8184, 8185, 1, 8056), (8186, 8187, 1, 8060),
    (8188, 8188, 1, 8179), (8486, 8486, 1, 969), (8490, 8490, 1, 107), (8491, 8491, 1, 229),
    (8498, 8498, 1, 8526), (8544, 8559, 1, 8560), (8579, 8579, 1, 8580), (9398, 9423, 1, 9424),
    (11264, 11311, 1, 11312), (11360, 11360, 1, 11361), (11362, 11362, 1, 619),
    (11363, 11363, 1, 7549), (11364, 11364, 1, 637), (11367, 11371, 2, 11368),
    (11373, 11373, 1, 593), (11374, 11374, 1, 625), (11375, 11375, 1, 592),
    (11376, 11376, 1, 594), (11378, 11378, 1, 11379), (11381, 11381, 1, 11382),
    (11390, 11391, 1, 575), (11392, 11490, 2, 11393), (11499, 11501, 2, 11500),
    (11506, 11506, 1, 11507), (42560, 42604, 2, 42561), (42624, 42650, 2, 42625),
    (42786, 42798, 2, 42787), (42802, 42862, 2, 42803), (42873, 42875, 2, 42874),
    (42877, 42877, 1, 7545), (42878, 42886, 2, 42879), (42891, 42891, 1, 42892),
    (42893, 42893, 1, 613), (42896, 42898, 2, 42897), (42902, 42920, 2, 42903),
    (42922, 42922, 1, 614), (42923, 42923, 1, 604), (42924, 42924, 1, 609),
    (42925, 42925, 1, 620), (42926, 42926, 1, 618), (42928, 42928, 1, 670),
    (42929, 42929, 1, 647), (42930, 42930, 1, 669), (42931, 42931, 1, 43859),
    (42932, 42946, 2, 42933), (42948, 42948, 1, 42900), (42949, 42949, 1, 642),
    (42950, 42950, 1, 7566), (42951, 42953, 2, 42952), (42960, 42960, 1, 42961),
    (42966, 42968, 2, 42967), (42997, 42997, 1, 42998), (65313, 65338, 1, 65345)]"

definition lower_special :: "(nat \<times> nat list) list" where
  "lower_special = [(304, [105, 775])]"

definition upper_ranges :: "case_range list" where
  "upper_ranges = [(181, 181, 1, 924), (224, 246, 1, 192), (248, 254, 1, 216),
    (255, 255, 1, 376), (257, 303, 2, 256), (305, 305, 1, 73), (307, 311, 2, 306),
    (314, 328, 2, 313), (331, 375, 2, 330), (378, 382, 2, 377), (383, 383, 1, 83),
    (384, 384, 1, 579), (387, 389, 2, 386), (392, 392, 1, 391), (396, 396, 1, 395),
    (402, 402, 1, 401), (405, 405, 1, 502), (409, 409, 1, 408), (410, 410, 1, 573),
    (414, 414, 1, 544), (417, 421, 2, 416), (424, 424, 1, 423), (429, 429, 1, 428),
    (432, 432, 1, 431), (436, 438, 2, 435), (441, 441, 1, 440), (445, 445, 1, 444),
    (447, 447, 1, 503), (453, 453, 1, 452), (454, 454, 1, 452), (456, 456, 1, 455),
    (457, 457, 1, 455), (459, 459, 1, 458), (460, 460, 1, 458), (462, 476, 2, 461),
    (477, 477, 1, 398), (479, 495, 2, 478), (498, 498, 1, 497), (499, 499, 1, 497),
    (501, 501, 1, 500), (505, 543, 2, 504), (547, 563, 2, 546), (572, 572, 1, 571),
    (575, 576, 1, 11390), (578, 578, 1, 577), (583, 591, 2, 582), (592, 592, 1, 11375),
    (593, 593, 1, 11373), (594, 594, 1, 11376), (595, 595, 1, 385), (596, 596, 1, 390),
    (598, 599, 1, 393), (601, 601, 1, 399), (603, 603, 1, 400), (604, 604, 1, 42923),
    (608, 608, 1, 403), (609, 609, 1, 42924), (611, 611, 1, 404), (613, 613, 1, 42893),
    (614, 614, 1, 42922), (616, 616, 1, 407), (617, 617, 1, 406), (618, 618, 1, 42926),
    (619, 619, 1, 11362), (620, 620, 1, 42925), (623, 623, 1, 412), (625, 625, 1, 11374),
    (626, 626, 1, 413), (629, 629, 1, 415), (637, 637, 1, 11364), (640, 640, 1, 422),
    (642, 642, 1, 42949), (643, 643, 1, 425), (647, 647, 1, 42929), (648, 648, 1, 430),
    (649, 649, 1, 580), (650, 651, 1, 433), (652, 652, 1, 581), (658, 658, 1, 439),
    (669, 669, 1, 42930), (670, 670, 1, 42928), (837, 837, 1, 921), (881, 883, 2, 880),
    (887, 887, 1, 886), (891, 893, 1, 1021), (940, 940, 1, 902), (941, 943, 1, 904),
    (945, 961, 1, 913), (962, 962, 1, 931), (963, 971, 1, 931), (972, 972, 1, 908),
    (973, 974, 1, 910), (976, 976, 1, 914), (977, 977, 1, 920), (981, 981, 1, 934),
    (982, 982, 1, 928), (983, 983, 1, 975), (985, 1007, 2, 984), (1008, 1008, 1, 922),
    (1009, 1009, 1, 929), (1010, 1010, 1, 1017), (1011, 1011, 1, 895), (1013, 1013, 1, 917),
    (1016, 1016, 1, 1015), (1019, 1019, 1, 1018), (1072, 1103, 1, 1040), (1104, 1119, 1, 1024),
    (1121, 1153, 2, 1120), (1163, 1215, 2, 1162), (1218, 1230, 2, 1217), (1231, 1231, 1, 1216),
    (1233, 1327, 2, 1232), (1377, 1414, 1, 1329), (4304, 4346, 1, 7312), (4349, 4351, 1, 7357),
    (5112, 5117, 1, 5104), (7296, 7296, 1, 1042), (7297, 7297, 1, 1044), (7298, 7298, 1, 1054),
    (7299, 7300, 1, 1057), (7301, 7301, 1, 1058), (7302, 7302, 1, 1066), (7303, 7303, 1, 1122),
    (7304, 7304, 1, 42570), (7545, 7545, 1, 42877), (7549, 7549, 1, 11363),
    (7566, 7566, 1, 42950), (7681, 7829, 2, 7680), (7835, 7835, 1, 7776),
    (7841, 7935, 2, 7840), (7936, 7943, 1, 7944), (7952, 7957, 1, 7960), (7968, 7975, 1, 7976),
    (7984, 7991, 1, 7992), (8000, 8005, 1, 8008), (8017, 8023, 2, 8025), (8032, 8039, 1, 8040),
    (8048, 8049, 1, 8122), (8050, 8053, 1, 8136), (8054, 8055, 1, 8154), (8056, 8057, 1, 8184),
    (8058, 8059, 1, 8170), (8060, 8061, 1, 8186), (8112, 8113, 1, 8120), (8126, 8126, 1, 921),
    (8144, 8145, 1, 8152), (8160, 8161, 1, 8168), (8165, 8165, 1, 8172), (8526, 8526, 1, 8498),
    (8560, 8575, 1, 8544), (8580, 8580, 1, 8579), (9424, 9449, 1, 9398),
    (11312, 11359, 1, 11264), (11361, 11361, 1, 11360), (11365, 11365, 1, 570),
    (11366, 11366, 1, 574), (11368, 11372, 2, 11367), (11379, 11379, 1, 11378),
    (11382, 11382, 1, 11381), (11393, 11491, 2, 11392), (11500, 11502, 2, 11499),
    (11507, 11507, 1, 11506), (11520, 11557, 1, 4256), (11559, 11559, 1, 4295),
    (11565, 11565, 1, 4301), (42561, 42605, 2, 42560), (42625, 42651, 2, 42624),
    (42787, 42799, 2, 42786), (42803, 42863, 2, 42802), (42874, 42876, 2, 42873),
    (42879, 42887, 2, 42878), (42892, 42892, 1, 42891), (42897, 42899, 2, 42896),
    (42900, 42900, 1, 42948), (42903, 42921, 2, 42902), (42933, 42947, 2, 42932),
    (42952, 42954, 2, 42951), (42961, 42961, 1, 42960), (42967, 42969, 2, 42966),
    (42998, 42998, 1, 42997), (43859, 43859, 1, 42931), (43888, 43967, 1, 5024),
    (65345, 65370, 1, 65313)]"

definition upper_special :: "(nat \<times> nat list) list" where
  "upper_special = [(223, [83, 83]), (329, [700, 78]), (496, [74, 780]),
    (912, [921, 776, 769]), (944, [933, 776, 769]), (1415, [1333, 1362]), (7830, [72, 817]),
    (7831, [84, 776]), (7832, [87, 778]), (7833, [89, 778]), (7834, [65, 702]),
    (8016, [933, 787]), (8018, [933, 787, 768]), (8020, [933, 787, 769]),
    (8022, [933, 787, 834]), (8064, [7944, 921]), (8065, [7945, 921]), (8066, [7946, 921]),
    (8067, [7947, 921]), (8068, [7948, 921]), (8069, [7949, 921]), (8070, [7950, 921]),
    (8071, [7951, 921]), (8072, [7944, 921]), (8073, [7945, 921]), (8074, [7946, 921]),
    (8075, [7947, 921]), (8076, [7948, 921]), (8077, [7949, 921]), (8078, [7950, 921]),
    (8079, [7951, 921]), (8080, [7976, 921]), (8081, [7977, 921]), (8082, [7978, 921]),
    (8083, [7979, 921]), (8084, [7980, 921]), (8085, [7981, 921]), (8086, [7982, 921]),
    (8087, [7983, 921]), (8088, [7976, 921]), (8089, [7977, 921]), (8090, [7978, 921]),
    (8091, [7979, 921]), (8092, [7980, 921]), (8093, [7981, 921]), (8094, [7982, 921]),
    (8095, [7983, 921]), (8096, [8040, 921]), (8097, [8041, 921]), (8098, [8042, 921]),
    (8099, [8043, 921]), (8100, [8044, 921]), (8101, [8045, 921]), (8102, [8046, 921]),
    (8103, [8047, 921]), (8104, [8040, 921]), (8105, [8041, 921]), (8106, [8042, 921]),
    (8107, [8043, 921]), (8108, [8044, 921]), (8109, [8045, 921]), (8110, [8046, 921]),
    (8111, [8047, 921]), (8114, [8122, 921]), (8115, [913, 921]), (8116, [902, 921]),
    (8118, [913, 834]), (8119, [913, 834, 921]), (8124, [913, 921]), (8130, [8138, 921]),
    (8131, [919, 921]), (8132, [905, 921]), (8134, [919, 834]), (8135, [919, 834, 921]),
    (8140, [919, 921]), (8146, [921, 776, 768]), (8147, [921, 776, 769]), (8150, [921, 834]),
    (8151, [921, 776, 834]), (8162, [933, 776, 768]), (8163, [933, 776, 769]),
    (8164, [929, 787]), (8166, [933, 834]), (8167, [933, 776, 834]), (8178, [8186, 921]),
    (8179, [937, 921]), (8180, [911, 921]), (8182, [937, 834]), (8183, [937, 834, 921]),
    (8188, [937, 921]), (64256, [70, 70]), (64257, [70, 73]), (64258, [70, 76]),
    (64259, [70, 70, 73]), (64260, [70, 70, 76]), (64261, [83, 84]), (64262, [83, 84]),
    (64275, [1348, 1350]), (64276, [1348, 1333]), (64277, [1348, 1339]), (64278, [1358, 1350]),
    (64279, [1348, 1341])]"

definition in_range :: "nat \<Rightarrow> case_range \<Rightarrow> bool" where
  "in_range n r = (case r of (lo, hi, step, img) \<Rightarrow> lo \<le> n \<and> n \<le> hi \<and> (n - lo) mod step = 0)"

definition case_image :: "(nat \<times> nat list) list \<Rightarrow> case_range list \<Rightarrow> nat \<Rightarrow> nat list" where
  "case_image special ranges n =
     (case map_of special n of
        Some img \<Rightarrow> img
      | None \<Rightarrow> (case find (in_range n) ranges of
                   None \<Rightarrow> [n]
                 | Some (lo, hi, step, img) \<Rightarrow> [img + (n - lo)]))"

definition lower_unit :: "16 word \<Rightarrow> 16 word list" where
  "lower_unit c =
     (if c < 128 then (if 65 \<le> c \<and> c \<le> 90 then [c + 32] else [c])
      else map of_nat (case_image lower_special lower_ranges (unat c)))"

definition upper_unit :: "16 word \<Rightarrow> 16 word list" where
  "upper_unit c =
     (if c < 128 then (if 97 \<le> c \<and> c \<le> 122 then [c - 32] else [c])
      else map of_nat (case_image upper_special upper_ranges (unat c)))"

definition toLowerCase :: "16 word list \<Rightarrow> 16 word list" where
  "toLowerCase s = concat (map lower_unit s)"

definition toUpperCase :: "16 word list \<Rightarrow> 16 word list" where
  "toUpperCase s = concat (map upper_unit s)"

lemma toLowerCase_simps [simp]:
  "toLowerCase [] = []"
  "toLowerCase (c # s) = lower_unit c @ toLowerCase s"
  "toLowerCase (s @ t) = toLowerCase s @ toLowerCase t"
  by (simp_all add: toLowerCase_def)

lemma toUpperCase_simps [simp]:
  "toUpperCase [] = []"
  "toUpperCase (c # s) = upper_unit c @ toUpperCase s"
  "toUpperCase (s @ t) = toUpperCase s @ toUpperCase t"
  by (simp_all add: toUpperCase_def)

end
