(* ===== verification/Prelude.thy ===== *)
theory Prelude
  imports Main "HOL-Library.Word" "HOL-Library.AList" UnicodeCase
begin

text \<open>
  Shared vocabulary of the development: JavaScript strings as lists of UTF-16 code units and
  the string operations the sources call, byte arrays, decimal printing of numbers,
  insertion-ordered maps (\<^verbatim>\<open>Map\<close>), and the lemma collections and generic facts the
  component theories rely on.
\<close>

unbundle bit_operations_syntax

named_theorems js_eval \<open>equations that evaluate the string operations on concrete text\<close>
named_theorems row_intro \<open>facts about the outcome of a row mapping\<close>

section \<open>Strings\<close>

type_synonym code_unit = "16 word"
type_synonym jstr = "16 word list"
type_synonym byte = "8 word"
type_synonym bytes = "8 word list"

text \<open>A string literal of the source, when its characters are ASCII.\<close>

definition js :: "string \<Rightarrow> jstr" where
  "js s = map of_char s"

abbreviation NL :: code_unit where "NL \<equiv> 10"
abbreviation CR :: code_unit where "CR \<equiv> 13"
abbreviation QUOTE_UNIT :: code_unit where "QUOTE_UNIT \<equiv> 34"
abbreviation COMMA_UNIT :: code_unit where "COMMA_UNIT \<equiv> 44"

text \<open>
  \<^verbatim>\<open>WhiteSpace\<close> and \<^verbatim>\<open>LineTerminator\<close> of ECMAScript: what \<^verbatim>\<open>trim\<close> removes and what
  \<^verbatim>\<open>\s\<close> matches.
\<close>

definition isWhitespace :: "code_unit \<Rightarrow> bool" where
  "isWhitespace c =
     (c = 32 \<or> (9 \<le> c \<and> c \<le> 13) \<or> c = 160 \<or> c = 5760 \<or> (8192 \<le> c \<and> c \<le> 8202) \<or>
      c = 8232 \<or> c = 8233 \<or> c = 8239 \<or> c = 8287 \<or> c = 12288 \<or> c = 65279)"

definition trimStart :: "jstr \<Rightarrow> jstr" where
  "trimStart s = dropWhile isWhitespace s"

definition trim :: "jstr \<Rightarrow> jstr" where
  "trim s = rev (trimStart (rev (trimStart s)))"

definition startsWith :: "jstr \<Rightarrow> jstr \<Rightarrow> bool" where
  "startsWith s p = (take (length p) s = p)"

definition endsWith :: "jstr \<Rightarrow> jstr \<Rightarrow> bool" where
  "endsWith s p = (length p \<le> length s \<and> drop (length s - length p) s = p)"

fun includesStr :: "jstr \<Rightarrow> jstr \<Rightarrow> bool" where
  "includesStr [] p = (p = [])"
| "includesStr (c # s) p = (startsWith (c # s) p \<or> includesStr s p)"

text \<open>\<^verbatim>\<open>charAt\<close>: the empty string past the end.\<close>

definition charAt :: "jstr \<Rightarrow> nat \<Rightarrow> jstr" where
  "charAt s i = (if i < length s then [s ! i] else [])"

text \<open>\<^verbatim>\<open>split\<close>. An empty separator splits into single code units.\<close>

fun splitFrom :: "jstr \<Rightarrow> jstr \<Rightarrow> nat \<Rightarrow> jstr \<Rightarrow> jstr list" where
  "splitFrom sep acc k [] = [rev acc]"
| "splitFrom sep acc (Suc k) (c # s) = splitFrom sep acc k s"
| "splitFrom sep acc 0 (c # s) =
     (if startsWith (c # s) sep then rev acc # splitFrom sep [] (length sep - 1) s
      else splitFrom sep (c # acc) 0 s)"

definition split :: "jstr \<Rightarrow> jstr \<Rightarrow> jstr list" where
  "split s sep = (if sep = [] then map (\<lambda>c. [c]) s else splitFrom sep [] 0 s)"

fun join :: "jstr \<Rightarrow> jstr list \<Rightarrow> jstr" where
  "join sep [] = []"
| "join sep [x] = x"
| "join sep (x # y # ys) = x @ sep @ join sep (y # ys)"

text \<open>\<^verbatim>\<open>String(n)\<close> for a non-negative integer.\<close>

fun showNat :: "nat \<Rightarrow> jstr" where
  "showNat n = (if n < 10 then [48 + of_nat n] else showNat (n div 10) @ [48 + of_nat (n mod 10)])"

declare showNat.simps [simp del]

definition showInt :: "int \<Rightarrow> jstr" where
  "showInt i = (if i < 0 then 45 # showNat (nat (- i)) else showNat (nat i))"

section \<open>Insertion-ordered maps\<close>

text \<open>
  JavaScript's \<^verbatim>\<open>Map\<close> iterates in insertion order, and setting a key it already holds keeps
  that key's place. An association list with distinct keys has the same behaviour.
\<close>

type_synonym ('k, 'v) jmap = "('k \<times> 'v) list"

definition mapGet :: "('k, 'v) jmap \<Rightarrow> 'k \<Rightarrow> 'v option" where
  "mapGet m k = map_of m k"

definition mapHas :: "('k, 'v) jmap \<Rightarrow> 'k \<Rightarrow> bool" where
  "mapHas m k = (map_of m k \<noteq> None)"

definition mapSet :: "('k, 'v) jmap \<Rightarrow> 'k \<Rightarrow> 'v \<Rightarrow> ('k, 'v) jmap" where
  "mapSet m k v = AList.update k v m"

definition mapDelete :: "('k, 'v) jmap \<Rightarrow> 'k \<Rightarrow> ('k, 'v) jmap" where
  "mapDelete m k = AList.delete k m"

definition mapWf :: "('k, 'v) jmap \<Rightarrow> bool" where
  "mapWf m = distinct (map fst m)"

text \<open>A map that keeps the first value given for each key.\<close>

definition mapSetNew :: "('k, 'v) jmap \<Rightarrow> 'k \<Rightarrow> 'v \<Rightarrow> ('k, 'v) jmap" where
  "mapSetNew m k v = (if mapHas m k then m else mapSet m k v)"

text \<open>\<^verbatim>\<open>??\<close> with a default.\<close>

definition orElse :: "'a option \<Rightarrow> 'a \<Rightarrow> 'a" where
  "orElse x d = (case x of None \<Rightarrow> d | Some v \<Rightarrow> v)"

text \<open>Array reads past the end give \<^verbatim>\<open>undefined\<close>.\<close>

definition at :: "'a list \<Rightarrow> nat \<Rightarrow> 'a option" where
  "at xs i = (if i < length xs then Some (xs ! i) else None)"

text \<open>The two ways a computation of the source ends: a thrown value or a result.\<close>

type_synonym ('e, 'a) outcome = "'e + 'a"

definition bindR :: "('e, 'a) outcome \<Rightarrow> ('a \<Rightarrow> ('e, 'b) outcome) \<Rightarrow> ('e, 'b) outcome" where
  "bindR m f = (case m of Inl e \<Rightarrow> Inl e | Inr x \<Rightarrow> f x)"

section \<open>Facts about strings\<close>

lemma js_simps [js_eval]:
  "js [] = []" "js (c # s) = of_char c # js s"
  by (simp_all add: js_def)

lemma of_char_unit_inj: "(of_char c :: code_unit) = of_char d \<longleftrightarrow> c = d"
proof
  assume eq: "(of_char c :: code_unit) = of_char d"
  have unat: "unat (of_char x :: code_unit) = of_char x" for x
  proof -
    have "(of_char x :: nat) < 2 ^ LENGTH(16)" by (rule less_trans [OF nat_of_char_less_256]) simp
    then have "unat (of_nat (of_char x) :: code_unit) = of_char x"
      by (simp only: unat_of_nat mod_less)
    then show ?thesis by (simp only: of_nat_of_char)
  qed
  from eq have "(of_char c :: nat) = of_char d" by (metis unat)
  then show "c = d" by simp
qed simp

lemma js_eq_iff [simp]: "js s = js t \<longleftrightarrow> s = t"
proof -
  have "inj (of_char :: char \<Rightarrow> code_unit)" by (rule injI) (simp only: of_char_unit_inj)
  then show ?thesis by (simp add: js_def inj_map_eq_map)
qed

lemma js_eq_Nil [simp]: "js s = [] \<longleftrightarrow> s = []" "[] = js s \<longleftrightarrow> s = []"
  by (auto simp: js_def)

lemma length_js [simp]: "length (js s) = length s"
  by (simp add: js_def)

lemma unit_less: "unat c < 65536" for c :: code_unit
  using unsigned_less [of c] by simp

lemma js_append: "js (s @ t) = js s @ js t"
  by (simp add: js_def)

lemma bindR_simps [simp]: "bindR (Inl e) f = Inl e" "bindR (Inr x) f = f x"
  by (simp_all add: bindR_def)

lemma bindR_eq_Inr: "bindR m f = Inr y \<longleftrightarrow> (\<exists>x. m = Inr x \<and> f x = Inr y)"
  by (cases m) auto

lemma orElse_simps [simp]: "orElse None d = d" "orElse (Some v) d = v"
  by (simp_all add: orElse_def)

lemma at_simps [simp]: "at [] i = None" "at (x # xs) 0 = Some x" "at (x # xs) (Suc i) = at xs i"
  by (simp_all add: at_def)

lemma at_eq_Some: "at xs i = Some x \<longleftrightarrow> i < length xs \<and> xs ! i = x"
  by (simp add: at_def)

lemma splitFrom_not_Nil [simp]: "splitFrom sep acc k s \<noteq> []"
  by (induction sep acc k s rule: splitFrom.induct) auto

lemma join_Cons: "xs \<noteq> [] \<Longrightarrow> join sep (x # xs) = x @ sep @ join sep xs"
  by (cases xs) auto

text \<open>Splitting at a single code unit and joining again gives the string back.\<close>

lemma join_splitFrom_unit: "join [c] (splitFrom [c] acc 0 s) = rev acc @ s"
proof (induction s arbitrary: acc)
  case (Cons d s)
  then show ?case by (auto simp: startsWith_def join_Cons)
qed simp

lemma join_split_unit: "join [c] (split s [c]) = s"
  by (simp add: split_def join_splitFrom_unit)

lemma trim_Nil [simp]: "trim [] = []" "trimStart [] = []"
  by (simp_all add: trim_def trimStart_def)

lemma trimStart_idem [simp]: "trimStart (trimStart s) = trimStart s"
  by (simp add: trimStart_def)

lemma trimStart_hd: "trimStart s \<noteq> [] \<Longrightarrow> \<not> isWhitespace (hd (trimStart s))"
  using hd_dropWhile by (simp add: trimStart_def)

lemma trimStart_fix: "s = [] \<or> \<not> isWhitespace (hd s) \<Longrightarrow> trimStart s = s"
  by (cases s) (auto simp: trimStart_def)

lemma trimStart_suffix: "\<exists>p. s = p @ trimStart s"
  by (metis takeWhile_dropWhile_id trimStart_def)

lemma trim_idem [simp]: "trim (trim s) = trim s"
proof -
  define u where "u = trimStart (rev (trimStart s))"
  obtain p where p: "rev (trimStart s) = p @ u"
    using trimStart_suffix u_def by blast
  have "rev u = [] \<or> \<not> isWhitespace (hd (rev u))"
  proof (cases "u = []")
    case False
    then have "trimStart s = rev u @ rev p" using p by (metis rev_append rev_rev_ident)
    then have "hd (rev u) = hd (trimStart s)" and "trimStart s \<noteq> []" using False by auto
    then show ?thesis using trimStart_hd by metis
  qed simp
  then have 1: "trimStart (rev u) = rev u" by (rule trimStart_fix)
  have 2: "trimStart u = u" by (simp add: u_def)
  show ?thesis unfolding trim_def u_def [symmetric] by (simp add: 1 2)
qed

section \<open>Facts about maps\<close>

text \<open>The contract of an insertion-ordered map, and what its clients derive from it.\<close>

locale ordered_map =
  fixes get :: "'m \<Rightarrow> 'k \<Rightarrow> 'v option"
    and put :: "'m \<Rightarrow> 'k \<Rightarrow> 'v \<Rightarrow> 'm"
    and remove :: "'m \<Rightarrow> 'k \<Rightarrow> 'm"
    and entries :: "'m \<Rightarrow> ('k \<times> 'v) list"
    and wf :: "'m \<Rightarrow> bool"
  assumes get_put: "get (put m k v) = (get m)(k \<mapsto> v)"
    and get_remove: "get (remove m k) = (get m)(k := None)"
    and get_entries: "wf m \<Longrightarrow> get m k = Some v \<longleftrightarrow> (k, v) \<in> set (entries m)"
    and wf_put: "wf m \<Longrightarrow> wf (put m k v)"
    and wf_remove: "wf m \<Longrightarrow> wf (remove m k)"
    and wf_distinct: "wf m \<Longrightarrow> distinct (map fst (entries m))"
begin

lemma put_twice: "get (put (put m k v) k w) = get (put m k w)"
  by (simp add: get_put)

lemma remove_absent: "get m k = None \<Longrightarrow> get (remove m k) = get m"
  by (auto simp: get_remove)

text \<open>Writing a sequence of entries: the last one written under a key wins.\<close>

lemma get_fold_put: "get (fold (\<lambda>(k, v) m. put m k v) kvs m) = get m ++ map_of (rev kvs)"
  by (induction kvs arbitrary: m) (auto simp: get_put map_add_def fun_eq_iff split: option.split)

lemma wf_fold_put: "wf m \<Longrightarrow> wf (fold (\<lambda>(k, v) m. put m k v) kvs m)"
  by (induction kvs arbitrary: m) (auto simp: wf_put)

end

lemma mapGet_set: "mapGet (mapSet m k v) = (mapGet m)(k \<mapsto> v)"
  by (auto simp: mapGet_def mapSet_def update_conv fun_eq_iff)

lemma mapGet_delete: "mapGet (mapDelete m k) = (mapGet m)(k := None)"
  by (auto simp: mapGet_def mapDelete_def delete_conv fun_eq_iff)

interpretation jm: ordered_map mapGet mapSet mapDelete "\<lambda>m. m" mapWf
proof unfold_locales
  fix m :: "('k, 'v) jmap" and k v
  show "mapGet (mapSet m k v) = (mapGet m)(k \<mapsto> v)" by (rule mapGet_set)
  show "mapGet (mapDelete m k) = (mapGet m)(k := None)" by (rule mapGet_delete)
  show "mapWf m \<Longrightarrow> mapGet m k = Some v \<longleftrightarrow> (k, v) \<in> set m"
    by (simp add: mapGet_def mapWf_def)
  show "mapWf m \<Longrightarrow> mapWf (mapSet m k v)"
    unfolding mapWf_def mapSet_def by (rule distinct_update)
  show "mapWf m \<Longrightarrow> mapWf (mapDelete m k)"
    unfolding mapWf_def mapDelete_def by (rule distinct_delete)
  show "mapWf m \<Longrightarrow> distinct (map fst m)" by (simp add: mapWf_def)
qed

lemma mapHas_iff: "mapHas m k \<longleftrightarrow> k \<in> fst ` set m"
  by (auto simp: mapHas_def map_of_eq_None_iff)

lemma mapGet_setNew: "mapGet (mapSetNew m k v) k' =
    (case mapGet m k' of Some w \<Rightarrow> Some w | None \<Rightarrow> if k' = k then Some v else None)"
  by (auto simp: mapSetNew_def mapHas_def mapGet_set mapGet_def [of m, symmetric] split: option.split)

lemma mapWf_setNew: "mapWf m \<Longrightarrow> mapWf (mapSetNew m k v)"
  by (simp add: mapSetNew_def jm.wf_put)

lemma mapGet_Nil [simp]: "mapGet [] k = None" and mapHas_Nil [simp]: "\<not> mapHas [] k"
  and mapWf_Nil [simp]: "mapWf []"
  by (simp_all add: mapGet_def mapHas_def mapWf_def)

text \<open>The position of the first occurrence of a key, as the header indexes compute it.\<close>

fun indexFrom :: "nat \<Rightarrow> 'k list \<Rightarrow> ('k, nat) jmap \<Rightarrow> ('k, nat) jmap" where
  "indexFrom i [] m = m"
| "indexFrom i (k # ks) m = indexFrom (Suc i) ks (mapSetNew m k i)"

lemma mapGet_indexFrom:
  "mapGet (indexFrom i ks m) k =
     (case mapGet m k of
        Some j \<Rightarrow> Some j
      | None \<Rightarrow> if k \<in> set ks then Some (i + length (takeWhile (\<lambda>x. x \<noteq> k) ks)) else None)"
  by (induction i ks m rule: indexFrom.induct) (auto simp: mapGet_setNew split: option.split)

lemma mapHas_get: "mapHas m k \<longleftrightarrow> mapGet m k \<noteq> None"
  by (simp add: mapHas_def mapGet_def)

end
