(* ===== verification/ImportTypes.thy ===== *)
theory ImportTypes
  imports Prelude
begin

text \<open>
  The intermediate shape every importer produces
  (\<^verbatim>\<open>packages/vault/src/import/types.ts\<close>): items, the things an export carried that
  have no field of their own, per-row errors, and the result of a parser.
\<close>

datatype ImportItemType = Login | Note

datatype ImportFieldKind = Totp | Custom | Metadata

record ImportField =
  fd_name :: jstr
  fd_value :: jstr
  fd_kind :: ImportFieldKind

record ImportItem =
  it_type :: ImportItemType
  it_name :: jstr
  it_username :: jstr
  it_password :: jstr
  it_urls :: "jstr list"
  it_notes :: jstr
  it_favorite :: bool
  it_folderPath :: "jstr list"
  it_extra :: "ImportField list"
  it_sourceRow :: nat

record ImportRowError =
  er_row :: nat
  er_message :: jstr

record ImportResult =
  rs_items :: "ImportItem list"
  rs_errors :: "ImportRowError list"

text \<open>
  What the importers read of a parsed URL. The platform's \<^verbatim>\<open>new URL\<close> is an argument of the
  definitions that call it, \<open>None\<close> where it throws.
\<close>

record Url =
  url_host :: jstr
  url_hostname :: jstr
  url_port :: jstr

type_synonym url_parser = "jstr \<Rightarrow> Url option"

definition blankImportItem :: "nat \<Rightarrow> ImportItem" where
  "blankImportItem sourceRow =
     \<lparr> it_type = Login, it_name = [], it_username = [], it_password = [], it_urls = [],
       it_notes = [], it_favorite = False, it_folderPath = [], it_extra = [],
       it_sourceRow = sourceRow \<rparr>"

definition folderSegments :: "jstr \<Rightarrow> jstr \<Rightarrow> jstr list" where
  "folderSegments path separator = filter (\<lambda>segment. segment \<noteq> []) (split path separator)"

definition rowError :: "nat \<Rightarrow> jstr \<Rightarrow> ImportRowError" where
  "rowError row message = \<lparr> er_row = row, er_message = message \<rparr>"

definition importField :: "jstr \<Rightarrow> jstr \<Rightarrow> ImportFieldKind \<Rightarrow> ImportField" where
  "importField name v kind = \<lparr> fd_name = name, fd_value = v, fd_kind = kind \<rparr>"

lemma blank_simps [simp]:
  "it_type (blankImportItem n) = Login" "it_name (blankImportItem n) = []"
  "it_username (blankImportItem n) = []" "it_password (blankImportItem n) = []"
  "it_urls (blankImportItem n) = []" "it_notes (blankImportItem n) = []"
  "it_favorite (blankImportItem n) = False" "it_folderPath (blankImportItem n) = []"
  "it_extra (blankImportItem n) = []" "it_sourceRow (blankImportItem n) = n"
  by (simp_all add: blankImportItem_def)

lemma rowError_simps [simp]: "er_row (rowError n m) = n" "er_message (rowError n m) = m"
  by (simp_all add: rowError_def)

lemma importField_simps [simp]:
  "fd_name (importField n v k) = n" "fd_value (importField n v k) = v" "fd_kind (importField n v k) = k"
  by (simp_all add: importField_def)

lemma folderSegments_nonempty: "[] \<notin> set (folderSegments p sep)"
  by (simp add: folderSegments_def)

end
