(* ===== verification/Csv.thy ===== *)
theory Csv
  imports ImportTypes
begin

text \<open>
  The CSV reader (\<^verbatim>\<open>packages/vault/src/import/csv.ts\<close>). The scanner is the loop of the
  source, one equation of \<open>scanLoop\<close> per turn, over the text that is still unread and the
  local variables as a record.

  Shown here: what the reader returns for a file written by the rules of RFC 4180 is exactly
  what was written, with the line each record starts on; the lines of the records increase;
  every reported error names the line of a record; a file that ends inside a quote is reported.
\<close>

section \<open>The scanner\<close>

record RawRecord =
  rr_line :: nat
  rr_fields :: "jstr list"
  rr_blank :: bool

record ScanState =
  sc_records :: "RawRecord list"
  sc_errors :: "ImportRowError list"
  sc_fields :: "jstr list"
  sc_field :: jstr
  sc_inQuotes :: bool
  sc_fieldWasQuoted :: bool
  sc_recordHadQuote :: bool
  sc_recordReported :: bool
  sc_line :: nat
  sc_recordLine :: nat
  sc_quoteOpenedLine :: nat

definition scanInit :: ScanState where
  "scanInit =
     \<lparr> sc_records = [], sc_errors = [], sc_fields = [], sc_field = [], sc_inQuotes = False,
       sc_fieldWasQuoted = False, sc_recordHadQuote = False, sc_recordReported = False,
       sc_line = 1, sc_recordLine = 1, sc_quoteOpenedLine = 1 \<rparr>"

definition endField :: "ScanState \<Rightarrow> ScanState" where
  "endField st =
     st\<lparr> sc_fields := sc_fields st @ [sc_field st], sc_field := [], sc_fieldWasQuoted := False \<rparr>"

definition endRecord :: "ScanState \<Rightarrow> ScanState" where
  "endRecord st0 =
     (let st = endField st0 in
      st\<lparr> sc_records := sc_records st @
            [\<lparr> rr_line = sc_recordLine st, rr_fields = sc_fields st,
               rr_blank = (\<not> sc_recordHadQuote st \<and> length (sc_fields st) = 1 \<and> sc_fields st ! 0 = []) \<rparr>],
          sc_fields := [], sc_recordHadQuote := False, sc_recordReported := False \<rparr>)"

definition addUnit :: "ScanState \<Rightarrow> code_unit \<Rightarrow> ScanState" where
  "addUnit st ch = st\<lparr> sc_field := sc_field st @ [ch] \<rparr>"

definition undoubledMessage :: jstr where
  "undoubledMessage = js ''This row has a quote inside a quoted field that is not doubled''"

text \<open>A closing quote: what follows it is the rest of the text.\<close>

definition closeQuote :: "ScanState \<Rightarrow> jstr \<Rightarrow> ScanState" where
  "closeQuote st rest =
     (let st1 = st\<lparr> sc_inQuotes := False \<rparr>;
          endsField = (rest = [] \<or> hd rest = COMMA_UNIT \<or> hd rest = CR \<or> hd rest = NL)
      in if \<not> endsField \<and> \<not> sc_recordReported st1
         then st1\<lparr> sc_recordReported := True,
                   sc_errors := sc_errors st1 @ [rowError (sc_recordLine st1) undoubledMessage] \<rparr>
         else st1)"

definition openQuote :: "ScanState \<Rightarrow> ScanState" where
  "openQuote st =
     st\<lparr> sc_inQuotes := True, sc_fieldWasQuoted := True, sc_recordHadQuote := True,
         sc_quoteOpenedLine := sc_line st \<rparr>"

definition endLine :: "ScanState \<Rightarrow> ScanState" where
  "endLine st =
     (let st1 = endRecord (st\<lparr> sc_line := sc_line st + 1 \<rparr>) in st1\<lparr> sc_recordLine := sc_line st1 \<rparr>)"

fun scanLoop :: "ScanState \<Rightarrow> jstr \<Rightarrow> ScanState" where
  "scanLoop st [] = st"
| "scanLoop st (ch # rest) =
     (if sc_inQuotes st then
        (if ch = QUOTE_UNIT then
           (case rest of
              q # rest' \<Rightarrow>
                if q = QUOTE_UNIT then scanLoop (addUnit st QUOTE_UNIT) rest'
                else scanLoop (closeQuote st rest) rest
            | [] \<Rightarrow> scanLoop (closeQuote st rest) rest)
         else if ch = NL then scanLoop (addUnit (st\<lparr> sc_line := sc_line st + 1 \<rparr>) ch) rest
         else scanLoop (addUnit st ch) rest)
      else if ch = QUOTE_UNIT \<and> sc_field st = [] \<and> \<not> sc_fieldWasQuoted st then
        scanLoop (openQuote st) rest
      else if ch = COMMA_UNIT then scanLoop (endField st) rest
      else if ch = CR \<or> ch = NL then
        (case rest of
           q # rest' \<Rightarrow> if ch = CR \<and> q = NL then scanLoop (endLine st) rest' else scanLoop (endLine st) rest
         | [] \<Rightarrow> scanLoop (endLine st) rest)
      else scanLoop (addUnit st ch) rest)"

definition unclosedMessage :: "nat \<Rightarrow> jstr" where
  "unclosedMessage swallowed =
     (if swallowed = 0 then js ''This row opens a quoted field that is never closed''
      else js ''This row opens a quoted field that is never closed; the remaining '' @
           showNat swallowed @ js '' '' @ (if swallowed = 1 then js ''line'' else js ''lines'') @
           js '' of the file '' @ (if swallowed = 1 then js ''was'' else js ''were'') @
           js '' read as part of it'')"

definition scanEnd :: "ScanState \<Rightarrow> ScanState" where
  "scanEnd st0 =
     (let st = (if sc_inQuotes st0
                then st0\<lparr> sc_errors := sc_errors st0 @
                       [rowError (sc_recordLine st0) (unclosedMessage (sc_line st0 - sc_quoteOpenedLine st0))] \<rparr>
                else st0)
      in if sc_field st \<noteq> [] \<or> 0 < length (sc_fields st) \<or> sc_fieldWasQuoted st \<or> sc_inQuotes st
         then endRecord st else st)"

definition scan :: "jstr \<Rightarrow> RawRecord list \<times> ImportRowError list" where
  "scan s = (let st = scanEnd (scanLoop scanInit s) in (sc_records st, sc_errors st))"

section \<open>Tables\<close>

text \<open>
  A row keeps the header's index, so that \<open>rowGet\<close> is the \<^verbatim>\<open>get\<close> closure of \<^verbatim>\<open>buildRow\<close>.
\<close>

record CsvRow =
  rw_line :: nat
  rw_values :: "jstr list"
  rw_extra :: "jstr list"
  rw_index :: "(jstr, nat) jmap"

record CsvRecord =
  cr_line :: nat
  cr_values :: "jstr list"

record CsvTable =
  tb_header :: "jstr list"
  tb_rows :: "CsvRow list"
  tb_errors :: "ImportRowError list"

definition buildRow :: "RawRecord \<Rightarrow> (jstr, nat) jmap \<Rightarrow> nat \<Rightarrow> CsvRow" where
  "buildRow rec index width =
     \<lparr> rw_line = rr_line rec, rw_values = rr_fields rec, rw_extra = drop width (rr_fields rec),
       rw_index = index \<rparr>"

definition rowGet :: "CsvRow \<Rightarrow> jstr \<Rightarrow> jstr option" where
  "rowGet row column =
     (case mapGet (rw_index row) column of None \<Rightarrow> None | Some i \<Rightarrow> at (rw_values row) i)"

abbreviation BOM :: code_unit where "BOM \<equiv> 65279"

definition stripBom :: "jstr \<Rightarrow> jstr" where
  "stripBom s = (if startsWith s [BOM] then drop 1 s else s)"

definition parseCsvRecords :: "jstr \<Rightarrow> CsvRecord list \<times> ImportRowError list" where
  "parseCsvRecords s =
     (let (records, errors) = scan (stripBom s) in
      (map (\<lambda>r. \<lparr> cr_line = rr_line r, cr_values = rr_fields r \<rparr>)
         (filter (\<lambda>r. \<not> rr_blank r) records), errors))"

definition parseCsv :: "jstr \<Rightarrow> CsvTable" where
  "parseCsv s =
     (let (records, errors) = scan (stripBom s);
          meaningful = filter (\<lambda>r. \<not> rr_blank r) records
      in case meaningful of
           [] \<Rightarrow> \<lparr> tb_header = [], tb_rows = [], tb_errors = errors \<rparr>
         | headerRecord # others \<Rightarrow>
             (let header = rr_fields headerRecord; index = indexFrom 0 header [] in
              \<lparr> tb_header = header,
                tb_rows = map (\<lambda>r. buildRow r index (length header)) others,
                tb_errors = errors \<rparr>))"

lemmas scan_defs = endField_def endRecord_def addUnit_def closeQuote_def openQuote_def endLine_def Let_def

section \<open>Reading back what RFC 4180 writes\<close>

text \<open>
  A cell is written either plain, when it needs no quotes, or between quotes with its own
  quotes doubled; a record is its cells between commas; a file ends every record with one
  terminator, except perhaps the last.
\<close>

definition escapeCell :: "jstr \<Rightarrow> jstr" where
  "escapeCell f = concat (map (\<lambda>c. if c = QUOTE_UNIT then [c, c] else [c]) f)"

definition isPlain :: "jstr \<Rightarrow> bool" where
  "isPlain f = ((f = [] \<or> hd f \<noteq> QUOTE_UNIT) \<and> list_all (\<lambda>c. c \<noteq> COMMA_UNIT \<and> c \<noteq> CR \<and> c \<noteq> NL) f)"

fun writeCell :: "bool \<times> jstr \<Rightarrow> jstr" where
  "writeCell (quoted, f) = (if quoted then [QUOTE_UNIT] @ escapeCell f @ [QUOTE_UNIT] else f)"

fun cellOk :: "bool \<times> jstr \<Rightarrow> bool" where
  "cellOk (quoted, f) = (quoted \<or> isPlain f)"

definition writeRecord :: "(bool \<times> jstr) list \<Rightarrow> jstr" where
  "writeRecord cells = join [COMMA_UNIT] (map writeCell cells)"

definition recordOk :: "(bool \<times> jstr) list \<Rightarrow> bool" where
  "recordOk cells = (cells \<noteq> [] \<and> list_all cellOk cells)"

definition eol :: "bool \<Rightarrow> jstr" where
  "eol crlf = (if crlf then [CR, NL] else [NL])"

fun writeCsv :: "bool \<Rightarrow> bool \<Rightarrow> (bool \<times> jstr) list list \<Rightarrow> jstr" where
  "writeCsv crlf fin [] = []"
| "writeCsv crlf fin [r] = writeRecord r @ (if fin then eol crlf else [])"
| "writeCsv crlf fin (r # s # rs) = writeRecord r @ eol crlf @ writeCsv crlf fin (s # rs)"

definition newlines :: "jstr \<Rightarrow> nat" where
  "newlines f = length (filter (\<lambda>c. c = NL) f)"

definition recordLines :: "(bool \<times> jstr) list \<Rightarrow> nat" where
  "recordLines cells = sum_list (map (\<lambda>(q, f). newlines f) cells)"

definition readRecord :: "nat \<Rightarrow> (bool \<times> jstr) list \<Rightarrow> RawRecord" where
  "readRecord l cells =
     \<lparr> rr_line = l, rr_fields = map snd cells, rr_blank = (cells = [(False, [])]) \<rparr>"

fun readRecords :: "nat \<Rightarrow> (bool \<times> jstr) list list \<Rightarrow> RawRecord list" where
  "readRecords l [] = []"
| "readRecords l (r # rs) = readRecord l r # readRecords (l + recordLines r + 1) rs"

definition endsCell :: "jstr \<Rightarrow> bool" where
  "endsCell rest = (rest = [] \<or> hd rest = COMMA_UNIT \<or> hd rest = CR \<or> hd rest = NL)"

lemma newlines_simps [simp]:
  "newlines [] = 0" "newlines (c # f) = (if c = NL then 1 else 0) + newlines f"
  by (simp_all add: newlines_def)

lemma newlines_plain: "isPlain f \<Longrightarrow> newlines f = 0"
  by (auto simp: isPlain_def newlines_def list_all_iff filter_empty_conv)

lemma escapeCell_simps [simp]:
  "escapeCell [] = []"
  "escapeCell (c # f) = (if c = QUOTE_UNIT then [c, c] else [c]) @ escapeCell f"
  by (simp_all add: escapeCell_def)

lemma endsCell_not_quote: "endsCell (QUOTE_UNIT # t) = False"
  by (simp add: endsCell_def)

lemma scan_quoted:
  assumes "endsCell rest" "sc_inQuotes st"
  shows "scanLoop st (escapeCell f @ QUOTE_UNIT # rest) =
    scanLoop (st\<lparr> sc_field := sc_field st @ f, sc_line := sc_line st + newlines f,
                  sc_inQuotes := False \<rparr>) rest"
  using assms(2)
proof (induction f arbitrary: st)
  case Nil
  then show ?case using assms(1)
    by (cases rest) (auto simp: closeQuote_def Let_def endsCell_def)
next
  case (Cons c f)
  have IH: "sc_inQuotes s \<Longrightarrow> scanLoop s (escapeCell f @ QUOTE_UNIT # rest) =
    scanLoop (s\<lparr> sc_field := sc_field s @ f, sc_line := sc_line s + newlines f,
                  sc_inQuotes := False \<rparr>) rest" for s by (rule Cons.IH)
  show ?case
    using Cons.prems by (cases "c = QUOTE_UNIT"; cases "c = NL") (simp_all add: IH addUnit_def)
qed

lemma scan_plain:
  assumes "\<not> sc_inQuotes st" "list_all (\<lambda>c. c \<noteq> COMMA_UNIT \<and> c \<noteq> CR \<and> c \<noteq> NL) f"
    "f = [] \<or> hd f \<noteq> QUOTE_UNIT \<or> sc_field st \<noteq> []"
  shows "scanLoop st (f @ rest) = scanLoop (st\<lparr> sc_field := sc_field st @ f \<rparr>) rest"
  using assms
proof (induction f arbitrary: st)
  case (Cons c f)
  have "scanLoop st ((c # f) @ rest) = scanLoop (addUnit st c) (f @ rest)"
    using Cons.prems by auto
  also have "\<dots> = scanLoop ((addUnit st c)\<lparr> sc_field := sc_field (addUnit st c) @ f \<rparr>) rest"
    by (rule Cons.IH) (use Cons.prems in \<open>auto simp: addUnit_def\<close>)
  finally show ?case by (simp add: addUnit_def)
qed simp

text \<open>Where a cell begins, and where a record begins.\<close>

definition cellStart :: "ScanState \<Rightarrow> bool" where
  "cellStart st = (\<not> sc_inQuotes st \<and> sc_field st = [] \<and> \<not> sc_fieldWasQuoted st)"

definition recordStart :: "ScanState \<Rightarrow> bool" where
  "recordStart st = (cellStart st \<and> sc_fields st = [] \<and> \<not> sc_recordHadQuote st \<and>
     \<not> sc_recordReported st \<and> sc_recordLine st = sc_line st)"

fun afterCell :: "ScanState \<Rightarrow> bool \<times> jstr \<Rightarrow> ScanState" where
  "afterCell st (q, f) =
     (if q then st\<lparr> sc_field := f, sc_fieldWasQuoted := True, sc_recordHadQuote := True,
                   sc_line := sc_line st + newlines f, sc_quoteOpenedLine := sc_line st,
                   sc_inQuotes := False \<rparr>
      else st\<lparr> sc_field := f \<rparr>)"

lemma scan_cell:
  assumes "cellStart st" "cellOk cell" "endsCell rest"
  shows "scanLoop st (writeCell cell @ rest) = scanLoop (afterCell st cell) rest"
proof (cases cell)
  case (Pair q f)
  have [simp]: "\<not> sc_inQuotes st" "sc_field st = []" "\<not> sc_fieldWasQuoted st"
    using assms(1) by (auto simp: cellStart_def)
  show ?thesis
  proof (cases q)
    case True
    have "scanLoop st (writeCell cell @ rest) = scanLoop (openQuote st) (escapeCell f @ QUOTE_UNIT # rest)"
      using True Pair by simp
    also have "\<dots> = scanLoop (afterCell st cell) rest"
      using scan_quoted [OF assms(3), of "openQuote st" f] True Pair \<open>sc_field st = []\<close>
      by (cases st) (simp add: openQuote_def)
    finally show ?thesis .
  next
    case False
    then show ?thesis
      using scan_plain [of st f rest] assms(2) Pair by (auto simp: isPlain_def)
  qed
qed

fun afterRecord :: "ScanState \<Rightarrow> (bool \<times> jstr) list \<Rightarrow> ScanState" where
  "afterRecord st [] = st"
| "afterRecord st [c] = afterCell st c"
| "afterRecord st (c # d # cs) = afterRecord (endField (afterCell st c)) (d # cs)"

lemma scan_record:
  assumes "cellStart st" "recordOk cells" "endsCell rest" "rest = [] \<or> hd rest \<noteq> COMMA_UNIT"
  shows "scanLoop st (writeRecord cells @ rest) = scanLoop (afterRecord st cells) rest"
  using assms
proof (induction st cells rule: afterRecord.induct)
  case (3 st c d cs)
  let ?more = "writeRecord (d # cs) @ rest"
  have c: "cellOk c" and ok: "recordOk (d # cs)" using "3.prems"(2) by (auto simp: recordOk_def)
  have "scanLoop st (writeRecord (c # d # cs) @ rest) = scanLoop (afterCell st c) (COMMA_UNIT # ?more)"
    using scan_cell [OF "3.prems"(1) c, of "COMMA_UNIT # ?more"]
    by (simp add: writeRecord_def endsCell_def)
  also have "\<dots> = scanLoop (endField (afterCell st c)) ?more"
    using "3.prems"(1) by (cases c) (auto simp: cellStart_def)
  also have "\<dots> = scanLoop (afterRecord st (c # d # cs)) rest"
    using "3.IH" [OF _ ok "3.prems"(3,4)] "3.prems"(1)
    by (cases c) (auto simp: cellStart_def endField_def)
  finally show ?case .
qed (auto simp: recordOk_def writeRecord_def scan_cell)

lemma afterRecord_eq:
  assumes "cellStart st" "recordOk cells"
  shows "sc_fields (afterRecord st cells) @ [sc_field (afterRecord st cells)] = sc_fields st @ map snd cells
    \<and> \<not> sc_inQuotes (afterRecord st cells)
    \<and> sc_fieldWasQuoted (afterRecord st cells) = fst (last cells)
    \<and> sc_recordHadQuote (afterRecord st cells) = (sc_recordHadQuote st \<or> list_ex fst cells)
    \<and> sc_line (afterRecord st cells) = sc_line st + recordLines cells
    \<and> sc_recordLine (afterRecord st cells) = sc_recordLine st
    \<and> sc_records (afterRecord st cells) = sc_records st
    \<and> sc_errors (afterRecord st cells) = sc_errors st"
  using assms
proof (induction st cells rule: afterRecord.induct)
  case (2 st c)
  then show ?case
    by (cases c) (auto simp: cellStart_def recordOk_def recordLines_def newlines_plain)
next
  case (3 st c d cs)
  have ok: "recordOk (d # cs)" "cellOk c" using "3.prems"(2) by (auto simp: recordOk_def)
  have "cellStart (endField (afterCell st c))"
    using "3.prems"(1) by (cases c) (auto simp: cellStart_def endField_def)
  note IH = "3.IH" [OF this ok(1)]
  show ?case using IH ok(2) "3.prems"(1)
    by (cases c) (auto simp: cellStart_def endField_def recordLines_def newlines_plain)
qed (simp add: recordOk_def)

text \<open>Ending the record, by a terminator or at the end of the file.\<close>

lemma readRecord_ended:
  assumes "recordStart st" "recordOk cells"
  defines "st' \<equiv> endRecord (afterRecord st cells)"
  shows "sc_records st' = sc_records st @ [readRecord (sc_line st) cells]"
    "sc_errors st' = sc_errors st" "sc_line st' = sc_line st + recordLines cells"
    "cellStart st'" "sc_fields st' = []" "\<not> sc_recordHadQuote st'" "\<not> sc_recordReported st'"
proof -
  have start: "cellStart st" "sc_fields st = []" "\<not> sc_recordHadQuote st" "sc_recordLine st = sc_line st"
    using assms(1) by (auto simp: recordStart_def)
  note eq = afterRecord_eq [OF start(1) assms(2)]
  have blank: "(\<not> list_ex fst cells \<and> length cells = Suc 0 \<and> map snd cells ! 0 = []) = (cells = [(False, [])])"
    by (cases cells) auto
  show "sc_records st' = sc_records st @ [readRecord (sc_line st) cells]"
    using eq start blank by (simp add: st'_def endRecord_def endField_def Let_def readRecord_def)
  show "sc_errors st' = sc_errors st" "sc_line st' = sc_line st + recordLines cells"
    "cellStart st'" "sc_fields st' = []" "\<not> sc_recordHadQuote st'" "\<not> sc_recordReported st'"
    using eq by (simp_all add: st'_def endRecord_def endField_def Let_def cellStart_def)
qed

lemma endLine_record:
  assumes "recordStart st" "recordOk cells"
  defines "st' \<equiv> endLine (afterRecord st cells)"
  shows "recordStart st'" "sc_records st' = sc_records st @ [readRecord (sc_line st) cells]"
    "sc_errors st' = sc_errors st" "sc_line st' = sc_line st + recordLines cells + 1"
proof -
  have eq: "endLine s = (endRecord s)\<lparr> sc_line := sc_line s + 1, sc_recordLine := sc_line s + 1 \<rparr>" for s
    by (simp add: scan_defs)
  have line: "sc_line (afterRecord st cells) = sc_line st + recordLines cells"
    using afterRecord_eq assms(1,2) by (simp add: recordStart_def)
  note ended = readRecord_ended [OF assms(1,2)]
  show "recordStart st'" "sc_records st' = sc_records st @ [readRecord (sc_line st) cells]"
    "sc_errors st' = sc_errors st" "sc_line st' = sc_line st + recordLines cells + 1"
    using ended line by (simp_all add: st'_def eq recordStart_def cellStart_def)
qed

lemma scan_line:
  assumes "recordStart st" "recordOk cells"
  shows "scanLoop st (writeRecord cells @ eol crlf @ rest) = scanLoop (endLine (afterRecord st cells)) rest"
proof -
  have st: "cellStart st" using assms(1) by (simp add: recordStart_def)
  have "scanLoop st (writeRecord cells @ eol crlf @ rest) = scanLoop (afterRecord st cells) (eol crlf @ rest)"
    by (rule scan_record [OF st assms(2)]) (simp_all add: eol_def endsCell_def)
  also have "\<dots> = scanLoop (endLine (afterRecord st cells)) rest"
    using afterRecord_eq [OF st assms(2)] by (auto simp: eol_def split: list.split)
  finally show ?thesis .
qed

definition csvOk :: "bool \<Rightarrow> (bool \<times> jstr) list list \<Rightarrow> bool" where
  "csvOk fin rs = (list_all recordOk rs \<and> (fin \<or> rs = [] \<or> last rs \<noteq> [(False, [])]))"

lemma scanEnd_start: "recordStart st \<Longrightarrow> scanEnd st = st"
  by (simp add: scanEnd_def recordStart_def cellStart_def Let_def)

lemma scanEnd_record:
  assumes "recordStart st" "recordOk cells" "cells \<noteq> [(False, [])]"
  shows "scanEnd (afterRecord st cells) = endRecord (afterRecord st cells)"
proof -
  have st: "cellStart st" "sc_fields st = []" using assms(1) by (auto simp: recordStart_def)
  note eq = afterRecord_eq [OF st(1) assms(2)]
  have "sc_field (afterRecord st cells) \<noteq> [] \<or> sc_fields (afterRecord st cells) \<noteq> [] \<or>
    sc_fieldWasQuoted (afterRecord st cells)"
  proof (rule ccontr)
    assume "\<not> ?thesis"
    then have "map snd cells = [[]]" "\<not> fst (last cells)" using eq st(2) by auto
    then have "cells = [(False, [])]" by (cases cells) auto
    then show False using assms(3) by simp
  qed
  then show ?thesis using eq by (auto simp: scanEnd_def Let_def)
qed

lemma scan_csv:
  assumes "recordStart st" "csvOk fin rs"
  shows "sc_records (scanEnd (scanLoop st (writeCsv crlf fin rs))) = sc_records st @ readRecords (sc_line st) rs"
    and "sc_errors (scanEnd (scanLoop st (writeCsv crlf fin rs))) = sc_errors st"
  using assms
proof (induction crlf fin rs arbitrary: st rule: writeCsv.induct)
  case (1 crlf fin)
  {
    case 1 then show ?case by (simp add: scanEnd_start)
  next
    case 2 then show ?case by (simp add: scanEnd_start)
  }
next
  case (2 crlf fin r)
  have ended: "scanEnd (scanLoop st (writeCsv crlf fin [r])) =
      (if fin then endLine (afterRecord st r) else endRecord (afterRecord st r))"
    if "recordStart st" "csvOk fin [r]" for st
    using that scan_line [of st r crlf "[]"] scan_record [of st r "[]"] scanEnd_record [of st r]
      scanEnd_start [OF endLine_record(1)]
    by (auto simp: csvOk_def endsCell_def recordStart_def)
  {
    case 1
    then have "recordOk r" by (simp add: csvOk_def)
    then show ?case
      using endLine_record [OF 1(1)] readRecord_ended [OF 1(1)] unfolding ended [OF 1] by simp
  next
    case 2
    then have "recordOk r" by (simp add: csvOk_def)
    then show ?case
      using endLine_record [OF 2(1)] readRecord_ended [OF 2(1)] unfolding ended [OF 2] by simp
  }
next
  case (3 crlf fin r s rs)
  have tail: "recordOk r \<and> csvOk fin (s # rs)" if "csvOk fin (r # s # rs)" using that by (auto simp: csvOk_def)
  {
    case 1
    then show ?case
      using "3.IH"(1) [of "endLine (afterRecord st r)"] tail endLine_record [of st r]
      by (simp add: scan_line)
  next
    case 2
    then show ?case
      using "3.IH"(2) [of "endLine (afterRecord st r)"] tail endLine_record [of st r]
      by (simp add: scan_line)
  }
qed

lemma scan_writeCsv: "csvOk fin rs \<Longrightarrow> scan (writeCsv crlf fin rs) = (readRecords 1 rs, [])"
  using scan_csv [of scanInit fin rs crlf]
  by (simp add: scan_def Let_def scanInit_def recordStart_def cellStart_def)

section \<open>The scanner's invariant\<close>

text \<open>
  Records so far are on increasing lines before the current one; errors name the line of a
  record, the current one only when it is marked, and a marked record has something in it, so
  that it will be emitted.
\<close>

definition scanInv :: "ScanState \<Rightarrow> bool" where
  "scanInv st =
     (sorted_wrt (<) (map rr_line (sc_records st)) \<and>
      list_all (\<lambda>r. rr_line r < sc_recordLine st \<and> 0 < rr_line r \<and> rr_fields r \<noteq> []) (sc_records st) \<and>
      0 < sc_recordLine st \<and> sc_recordLine st \<le> sc_line st \<and>
      sorted (map er_row (sc_errors st)) \<and>
      list_all (\<lambda>e. er_row e \<in> rr_line ` set (sc_records st) \<or>
                    er_row e = sc_recordLine st \<and> sc_recordReported st) (sc_errors st) \<and>
      (sc_recordReported st \<longrightarrow> sc_fieldWasQuoted st \<or> sc_fields st \<noteq> []) \<and>
      (sc_inQuotes st \<longrightarrow> sc_fieldWasQuoted st))"

lemma errors_below: "scanInv st \<Longrightarrow> e \<in> set (sc_errors st) \<Longrightarrow> er_row e \<le> sc_recordLine st"
  by (fastforce simp: scanInv_def list_all_iff)

lemma scanInv_init: "scanInv scanInit"
  by (simp add: scanInv_def scanInit_def)

lemma scanInv_addUnit: "scanInv st \<Longrightarrow> scanInv (addUnit st c)"
  by (auto simp: scanInv_def addUnit_def)

lemma scanInv_line: "scanInv st \<Longrightarrow> scanInv (st\<lparr> sc_line := Suc (sc_line st) \<rparr>)"
  by (auto simp: scanInv_def)

lemma scanInv_openQuote: "scanInv st \<Longrightarrow> scanInv (openQuote st)"
  by (auto simp: scanInv_def openQuote_def)

lemma scanInv_endField: "scanInv st \<Longrightarrow> \<not> sc_inQuotes st \<Longrightarrow> scanInv (endField st)"
  by (auto simp: scanInv_def endField_def)

lemma scanInv_closeQuote:
  assumes "scanInv st" "sc_inQuotes st"
  shows "scanInv (closeQuote st rest)"
proof -
  have "\<forall>e \<in> set (sc_errors st). er_row e \<le> sc_recordLine st"
    using errors_below [OF assms(1)] by blast
  then show ?thesis using assms
    by (auto simp: scanInv_def closeQuote_def Let_def sorted_append list_all_iff)
qed

text \<open>Ending a record that is not inside quotes, or that the end of the file cut off.\<close>

lemma endRecord_outcome:
  assumes "scanInv st"
  shows "sorted_wrt (<) (map rr_line (sc_records (endRecord st)))"
    "list_all (\<lambda>r. rr_line r \<le> sc_recordLine st \<and> 0 < rr_line r \<and> rr_fields r \<noteq> [])
       (sc_records (endRecord st))"
    "list_all (\<lambda>e. er_row e \<in> rr_line ` set (sc_records (endRecord st))) (sc_errors st)"
    "sc_recordLine st \<in> rr_line ` set (sc_records (endRecord st))"
  using assms by (auto simp: scanInv_def scan_defs sorted_wrt_append list_all_iff)

lemma scanInv_endLine:
  assumes "scanInv st" "\<not> sc_inQuotes st"
  shows "scanInv (endLine st)"
proof -
  have "scanInv (st\<lparr> sc_line := Suc (sc_line st) \<rparr>)" by (rule scanInv_line [OF assms(1)])
  note out = endRecord_outcome [OF this]
  show ?thesis using out assms
    unfolding scanInv_def by (auto simp: scan_defs list_all_iff)
qed

lemma scanInv_loop: "scanInv st \<Longrightarrow> scanInv (scanLoop st s)"
proof (induction s arbitrary: st rule: length_induct)
  case (1 s)
  have IH: "scanInv u \<Longrightarrow> length t < length s \<Longrightarrow> scanInv (scanLoop u t)" for t u
    using 1(1) by blast
  show ?case
  proof (cases s)
    case (Cons ch rest)
    have r: "scanInv u \<Longrightarrow> scanInv (scanLoop u rest)" for u
      by (rule IH) (simp_all add: Cons)
    have r': "scanInv u \<Longrightarrow> rest = q # more \<Longrightarrow> scanInv (scanLoop u more)" for u q more
      by (rule IH) (simp_all add: Cons)
    note inv = 1(2)
    have line: "scanInv (scanLoop (addUnit (st\<lparr> sc_line := sc_line st + 1 \<rparr>) ch) rest)"
      using r scanInv_addUnit [OF scanInv_line [OF inv]] by simp
    show ?thesis
    proof (cases "sc_inQuotes st")
      case True
      then show ?thesis unfolding Cons scanLoop.simps
        using line r r' scanInv_addUnit [OF inv] scanInv_closeQuote [OF inv True]
        by (auto simp del: scanLoop.simps split: list.split)
    next
      case False
      then show ?thesis unfolding Cons scanLoop.simps
        using r r' scanInv_addUnit [OF inv] scanInv_openQuote [OF inv]
          scanInv_endField [OF inv False] scanInv_endLine [OF inv False]
        by (auto simp del: scanLoop.simps split: list.split)
    qed
  qed (use 1(2) in simp)
qed

lemma scan_records:
  assumes "scan s = (records, errors)"
  shows "sorted_wrt (<) (map rr_line records)"
    "list_all (\<lambda>r. 0 < rr_line r \<and> rr_fields r \<noteq> []) records"
    "sorted (map er_row errors)" "er_row ` set errors \<subseteq> rr_line ` set records"
proof -
  define st where "st = scanLoop scanInit s"
  have inv: "scanInv st" unfolding st_def by (rule scanInv_loop [OF scanInv_init])
  note out = endRecord_outcome [OF inv]
  define es where "es = (if sc_inQuotes st then sc_errors st @
      [rowError (sc_recordLine st) (unclosedMessage (sc_line st - sc_quoteOpenedLine st))] else sc_errors st)"
  have upd: "sc_records (endRecord (st\<lparr> sc_errors := es \<rparr>)) = sc_records (endRecord st)"
    "sc_errors (endRecord (st\<lparr> sc_errors := es \<rparr>)) = es"
    by (simp_all add: scan_defs)
  have st': "(if sc_inQuotes st then st\<lparr> sc_errors := es \<rparr> else st) = st\<lparr> sc_errors := es \<rparr>"
    by (simp add: es_def)
  define pending where "pending = (sc_field st \<noteq> [] \<or> 0 < length (sc_fields st) \<or>
    sc_fieldWasQuoted st \<or> sc_inQuotes st)"
  have "scanEnd st = (if pending then endRecord (st\<lparr> sc_errors := es \<rparr>) else st\<lparr> sc_errors := es \<rparr>)"
    using st' by (auto simp: scanEnd_def Let_def pending_def es_def)
  then have recs: "records = (if pending then sc_records (endRecord st) else sc_records st)"
    and errs: "errors = es"
    using assms upd by (auto simp: scan_def Let_def st_def)
  show "sorted_wrt (<) (map rr_line records)" "list_all (\<lambda>r. 0 < rr_line r \<and> rr_fields r \<noteq> []) records"
    using out inv by (auto simp: recs scanInv_def list_all_iff)
  have "\<forall>e \<in> set (sc_errors st). er_row e \<le> sc_recordLine st"
    using errors_below [OF inv] by blast
  then show "sorted (map er_row errors)"
    using inv by (auto simp: errs es_def scanInv_def sorted_append)
  have "er_row ` set es \<subseteq> rr_line ` set (sc_records (endRecord st))" if pending
    using out(3,4) that by (auto simp: es_def list_all_iff)
  moreover have "er_row ` set es \<subseteq> rr_line ` set (sc_records st)" if "\<not> pending"
    using inv that by (auto simp: es_def pending_def scanInv_def list_all_iff)
  ultimately show "er_row ` set errors \<subseteq> rr_line ` set records"
    by (auto simp: recs errs)
qed

section \<open>Properties of the reader\<close>

definition isBlankLine :: "(bool \<times> jstr) list \<Rightarrow> bool" where
  "isBlankLine cells = (cells = [(False, [])])"

text \<open>The rows a written table reads back as: blank lines count as lines and are no rows.\<close>

fun readRows :: "nat \<Rightarrow> jstr list \<Rightarrow> (bool \<times> jstr) list list \<Rightarrow> CsvRow list" where
  "readRows l header [] = []"
| "readRows l header (r # rs) =
     (if isBlankLine r then []
      else [\<lparr> rw_line = l, rw_values = map snd r, rw_extra = drop (length header) (map snd r),
              rw_index = indexFrom 0 header [] \<rparr>])
     @ readRows (l + recordLines r + 1) header rs"

lemma readRows_filter:
  "map (\<lambda>r. buildRow r (indexFrom 0 header []) (length header)) (filter (\<lambda>r. \<not> rr_blank r) (readRecords l rs))
   = readRows l header rs"
  by (induction l rs rule: readRecords.induct) (auto simp: readRecord_def isBlankLine_def buildRow_def)

lemma stripBom_bom: "stripBom (BOM # s) = s"
  by (simp add: stripBom_def startsWith_def)

lemma stripBom_none: "s = [] \<or> hd s \<noteq> BOM \<Longrightarrow> stripBom s = s"
  by (cases s) (auto simp: stripBom_def startsWith_def)

text \<open>
  C7. The CSV reader returns exactly what was written: for a file written by RFC 4180 (each
  cell plain or quoted with doubled quotes, CRLF or LF line ends, with or without a final
  terminator and with or without a UTF-8 BOM), \<^verbatim>\<open>parseCsv\<close> gives back the header, the rows
  that are not blank lines with every value unchanged and the line each begins on, and reports
  no error.
\<close>

theorem csv_roundtrip:
  assumes "csvOk fin (header # rs)" "\<not> isBlankLine header"
    "bom = [BOM] \<or> bom = [] \<and> hd (writeCsv crlf fin (header # rs)) \<noteq> BOM"
  shows "parseCsv (bom @ writeCsv crlf fin (header # rs)) =
    \<lparr> tb_header = map snd header,
      tb_rows = readRows (recordLines header + 2) (map snd header) rs, tb_errors = [] \<rparr>"
proof -
  have "stripBom (bom @ writeCsv crlf fin (header # rs)) = writeCsv crlf fin (header # rs)"
    using assms(3) stripBom_bom stripBom_none by auto
  then show ?thesis
    using scan_writeCsv [OF assms(1), of crlf] assms(2) readRows_filter [of "map snd header"]
    by (simp add: parseCsv_def readRecord_def isBlankLine_def Let_def)
qed

definition sampleHeader :: "(bool \<times> jstr) list" where
  "sampleHeader = [(False, js ''url''), (False, js ''username''), (False, js ''password'')]"

definition sampleLine :: "(bool \<times> jstr) list" where
  "sampleLine = [(False, js ''https://a.example''), (True, js ''x,y''), (True, js ''pa'' @ [34, 10] @ js ''ss'')]"

theorem csv_roundtrip_witness:
  "csvOk True [sampleHeader, sampleLine] \<and> \<not> isBlankLine sampleHeader \<and>
   parseCsv ([BOM] @ writeCsv True True [sampleHeader, sampleLine]) =
   \<lparr> tb_header = [js ''url'', js ''username'', js ''password''],
     tb_rows = readRows 2 [js ''url'', js ''username'', js ''password''] [sampleLine], tb_errors = [] \<rparr>"
proof -
  have ok: "csvOk True [sampleHeader, sampleLine]" "\<not> isBlankLine sampleHeader" by code_simp+
  have "recordLines sampleHeader = 0" "map snd sampleHeader = [js ''url'', js ''username'', js ''password'']"
    by code_simp+
  then show ?thesis using ok csv_roundtrip [OF ok, of "[BOM]" True] by simp
qed

text \<open>
  Whatever the text, the scanner's records are on strictly increasing lines counted from 1
  and each has at least one field; the errors are in the order of the file, and every error
  names the line of a record that was read, so that the damaged record can be refused.
\<close>

theorem scan_lines:
  assumes "scan s = (records, errors)"
  shows "sorted_wrt (<) (map rr_line records) \<and> (\<forall>r \<in> set records. 1 \<le> rr_line r \<and> rr_fields r \<noteq> []) \<and>
    sorted (map er_row errors) \<and> er_row ` set errors \<subseteq> rr_line ` set records"
  using scan_records [OF assms] by (auto simp: list_all_iff Suc_le_eq)

theorem scan_lines_witness:
  "scan (js ''a'' @ [10, 34, 98]) =
     ([\<lparr> rr_line = 1, rr_fields = [js ''a''], rr_blank = False \<rparr>,
       \<lparr> rr_line = 2, rr_fields = [js ''b''], rr_blank = False \<rparr>],
      [rowError 2 (unclosedMessage 0)]) \<and> {2 :: nat} \<subseteq> {1, 2}"
proof -
  have eq: "scan (js ''a'' @ [10, 34, 98]) =
     ([\<lparr> rr_line = 1, rr_fields = [js ''a''], rr_blank = False \<rparr>,
       \<lparr> rr_line = 2, rr_fields = [js ''b''], rr_blank = False \<rparr>],
      [rowError 2 (unclosedMessage 0)])" by code_simp
  show ?thesis using eq scan_lines [OF eq] by simp
qed

text \<open>
  A file that ends inside a quoted field is reported: the last record, which holds
  everything from the opening quote on, has an error of its own naming its line.
\<close>

theorem scan_unclosed_reported:
  assumes "sc_inQuotes (scanLoop scanInit s)" "scan s = (records, errors)"
  shows "records \<noteq> [] \<and> (\<exists>k. last errors = rowError (rr_line (last records)) (unclosedMessage k))
    \<and> errors \<noteq> []"
  using assms by (auto simp: scan_def scanEnd_def Let_def endRecord_def endField_def)

theorem scan_unclosed_reported_witness:
  "sc_inQuotes (scanLoop scanInit [34, 97]) \<and> snd (scan [34, 97]) \<noteq> []"
proof -
  have q: "sc_inQuotes (scanLoop scanInit [34, 97])" by code_simp
  have "scan [34, 97] = (fst (scan [34, 97]), snd (scan [34, 97]))" by simp
  then show ?thesis using scan_unclosed_reported [OF q] q by blast
qed

end
