(* ===== verification/Shared.thy ===== *)
theory Shared
  imports Csv
begin

text \<open>
  What every CSV parser shares (\<^verbatim>\<open>packages/vault/src/import/parsers/shared.ts\<close>): columns
  addressed by name, the refusals that are about the row rather than about a format, and the
  loop that runs a row mapping over a table.

  The locale \<open>row_parser\<close> is the contract the parsers' row mappings keep: an outcome names
  its own line, and a login has a non-empty password that is the value the row holds where the
  format keeps its passwords. Its lemmas say what \<^verbatim>\<open>mapCsvRows\<close> then returns; every parser
  interprets it.
\<close>

type_synonym RowOutcome = "ImportRowError + ImportItem"

fun isRowError :: "RowOutcome \<Rightarrow> bool" where
  "isRowError (Inl e) = True"
| "isRowError (Inr it) = False"

record Columns =
  co_at :: "(jstr, nat) jmap"
  co_header :: "jstr list"

definition columnKey :: "jstr \<Rightarrow> jstr" where
  "columnKey cell = toLowerCase (trim cell)"

definition indexColumns :: "jstr list \<Rightarrow> Columns" where
  "indexColumns header = \<lparr> co_at = indexFrom 0 (map columnKey header) [], co_header = header \<rparr>"

definition colHas :: "Columns \<Rightarrow> jstr \<Rightarrow> bool" where
  "colHas columns column = mapHas (co_at columns) column"

definition colValue :: "Columns \<Rightarrow> CsvRow \<Rightarrow> jstr option \<Rightarrow> jstr option" where
  "colValue columns row column =
     (case column of
        None \<Rightarrow> None
      | Some c \<Rightarrow> (case mapGet (co_at columns) c of None \<Rightarrow> None | Some p \<Rightarrow> at (rw_values row) p))"

definition colSourceName :: "Columns \<Rightarrow> jstr \<Rightarrow> jstr" where
  "colSourceName columns column =
     (case mapGet (co_at columns) column of
        None \<Rightarrow> column
      | Some p \<Rightarrow> (case at (co_header columns) p of None \<Rightarrow> column | Some cell \<Rightarrow> trim cell))"

definition surplusFieldsError :: "CsvRow \<Rightarrow> nat \<Rightarrow> ImportRowError option" where
  "surplusFieldsError row width =
     (if length (rw_extra row) = 0 then None
      else
        (let lead = js ''This row has '' @ showNat (length (rw_values row)) @
               js '' fields where the header has '' @ showNat width @ js '', ''
         in Some (rowError (rw_line row)
              (if list_all (\<lambda>v. v = []) (rw_extra row)
               then lead @ js ''though every surplus field is empty, so a trailing comma is the likely cause''
               else lead @ js ''so a value has been split across columns''))))"

definition requiredPassword :: "nat \<Rightarrow> jstr option \<Rightarrow> ImportRowError + jstr" where
  "requiredPassword line v =
     (case v of
        None \<Rightarrow> Inl (rowError line (js ''This row ends before its password column''))
      | Some p \<Rightarrow>
          if p = [] then Inl (rowError line (js ''This row has an empty password, so it was not imported''))
          else Inr p)"

definition carry :: "ImportItem \<Rightarrow> jstr \<Rightarrow> jstr option \<Rightarrow> ImportFieldKind \<Rightarrow> ImportItem" where
  "carry item name v kind =
     (case v of
        None \<Rightarrow> item
      | Some x \<Rightarrow> if x = [] then item else item\<lparr> it_extra := it_extra item @ [importField name x kind] \<rparr>)"

fun mapRowsLoop :: "('r \<Rightarrow> nat) \<Rightarrow> nat set \<Rightarrow> ('r \<Rightarrow> RowOutcome) \<Rightarrow> 'r list \<Rightarrow>
    ImportItem list \<times> ImportRowError list \<Rightarrow> ImportItem list \<times> ImportRowError list" where
  "mapRowsLoop lineOf damaged toItem [] acc = acc"
| "mapRowsLoop lineOf damaged toItem (row # rows) (items, errors) =
     (if lineOf row \<in> damaged then mapRowsLoop lineOf damaged toItem rows (items, errors)
      else case toItem row of
          Inl e \<Rightarrow> mapRowsLoop lineOf damaged toItem rows (items, errors @ [e])
        | Inr it \<Rightarrow> mapRowsLoop lineOf damaged toItem rows (items @ [it], errors))"

definition mapCsvRows :: "('r \<Rightarrow> nat) \<Rightarrow> 'r list \<Rightarrow> ImportRowError list \<Rightarrow> ('r \<Rightarrow> RowOutcome) \<Rightarrow> ImportResult" where
  "mapCsvRows lineOf rows tableErrors toItem =
     (let damaged = set (map er_row tableErrors);
          (items, errors) = mapRowsLoop lineOf damaged toItem rows ([], tableErrors)
      in \<lparr> rs_items = items, rs_errors = sort_key er_row errors \<rparr>)"

text \<open>
  Two helpers that two parsers each spell out with the same body: a category that does not
  nest (\<^verbatim>\<open>folderOf\<close> of NordPass and Dashlane) and the favourite flag of LastPass and
  Bitwarden.
\<close>

definition flatFolder :: "jstr option \<Rightarrow> jstr list" where
  "flatFolder v = (case v of None \<Rightarrow> [] | Some x \<Rightarrow> if x = [] then [] else [x])"

definition isFavorite :: "jstr option \<Rightarrow> bool" where
  "isFavorite v =
     (case v of
        None \<Rightarrow> False
      | Some x \<Rightarrow> (let t = toLowerCase (trim x) in t = js ''1'' \<or> t = js ''true''))"

section \<open>Facts about columns and refusals\<close>

lemma surplus_row: "surplusFieldsError row w = Some e \<Longrightarrow> er_row e = rw_line row"
  by (auto simp: surplusFieldsError_def Let_def split: if_splits)

lemma requiredPassword_Inr: "requiredPassword l v = Inr p \<longleftrightarrow> v = Some p \<and> p \<noteq> []"
  by (auto simp: requiredPassword_def split: option.splits)

lemma requiredPassword_Inl: "requiredPassword l v = Inl e \<Longrightarrow> er_row e = l"
  by (auto simp: requiredPassword_def split: option.splits if_splits)

lemma carry_simps [simp]:
  "it_type (carry i n v k) = it_type i" "it_name (carry i n v k) = it_name i"
  "it_username (carry i n v k) = it_username i" "it_password (carry i n v k) = it_password i"
  "it_urls (carry i n v k) = it_urls i" "it_notes (carry i n v k) = it_notes i"
  "it_favorite (carry i n v k) = it_favorite i" "it_folderPath (carry i n v k) = it_folderPath i"
  "it_sourceRow (carry i n v k) = it_sourceRow i"
  by (simp_all add: carry_def split: option.split)

lemma carry_extra:
  "it_extra (carry i n v k) = it_extra i @ (if v = None \<or> v = Some [] then [] else [importField n (the v) k])"
  by (simp add: carry_def split: option.split)

lemmas row_refusals = surplus_row requiredPassword_Inl
declare row_refusals [row_intro]

text \<open>Reading a column by name finds its first occurrence in the header.\<close>

lemma colValue_first:
  "colValue (indexColumns header) row (Some c) =
     (if c \<in> columnKey ` set header
      then at (rw_values row) (length (takeWhile (\<lambda>h. columnKey h \<noteq> c) header)) else None)"
  by (auto simp: colValue_def indexColumns_def mapGet_indexFrom takeWhile_map comp_def)

lemma colHas_iff: "colHas (indexColumns header) c \<longleftrightarrow> c \<in> columnKey ` set header"
  by (auto simp: colHas_def indexColumns_def mapHas_get mapGet_indexFrom)

section \<open>The loop over the rows\<close>

definition okRows :: "('r \<Rightarrow> nat) \<Rightarrow> ImportRowError list \<Rightarrow> 'r list \<Rightarrow> 'r list" where
  "okRows lineOf errs rows = filter (\<lambda>r. lineOf r \<notin> er_row ` set errs) rows"

definition acceptedItems :: "('r \<Rightarrow> RowOutcome) \<Rightarrow> 'r list \<Rightarrow> ImportItem list" where
  "acceptedItems f rows = concat (map (\<lambda>r. case f r of Inr it \<Rightarrow> [it] | Inl e \<Rightarrow> []) rows)"

definition refusals :: "('r \<Rightarrow> RowOutcome) \<Rightarrow> 'r list \<Rightarrow> ImportRowError list" where
  "refusals f rows = concat (map (\<lambda>r. case f r of Inr it \<Rightarrow> [] | Inl e \<Rightarrow> [e]) rows)"

lemma mapRowsLoop_eq:
  "mapRowsLoop lineOf damaged f rows (items, errors) =
     (items @ acceptedItems f (filter (\<lambda>r. lineOf r \<notin> damaged) rows),
      errors @ refusals f (filter (\<lambda>r. lineOf r \<notin> damaged) rows))"
  by (induction rows arbitrary: items errors)
    (auto simp: acceptedItems_def refusals_def split: sum.split)

lemma mapCsvRows_eq:
  "mapCsvRows lineOf rows errs f =
     \<lparr> rs_items = acceptedItems f (okRows lineOf errs rows),
       rs_errors = sort_key er_row (errs @ refusals f (okRows lineOf errs rows)) \<rparr>"
  by (simp add: mapCsvRows_def mapRowsLoop_eq Let_def okRows_def)

lemma acceptedItems_mem: "it \<in> set (acceptedItems f rows) \<longleftrightarrow> (\<exists>r \<in> set rows. f r = Inr it)"
  by (induction rows) (auto simp: acceptedItems_def split: sum.splits)

lemma refusals_mem: "e \<in> set (refusals f rows) \<longleftrightarrow> (\<exists>r \<in> set rows. f r = Inl e)"
  by (induction rows) (auto simp: refusals_def split: sum.splits)

lemma accepted_refused_length: "length (acceptedItems f rows) + length (refusals f rows) = length rows"
  by (induction rows) (auto simp: acceptedItems_def refusals_def split: sum.split)

locale row_parser =
  fixes lineOf :: "'r \<Rightarrow> nat"
    and passwordOf :: "'r \<Rightarrow> jstr option"
    and rowItem :: "'r \<Rightarrow> RowOutcome"
  assumes item_line: "rowItem r = Inr it \<Longrightarrow> it_sourceRow it = lineOf r"
    and error_line: "rowItem r = Inl e \<Longrightarrow> er_row e = lineOf r"
    and login_password: "rowItem r = Inr it \<Longrightarrow> it_type it = Login \<Longrightarrow>
      passwordOf r = Some (it_password it) \<and> it_password it \<noteq> []"
begin

text \<open>Where an imported item came from.\<close>

lemma imported_from:
  assumes "it \<in> set (rs_items (mapCsvRows lineOf rows errs rowItem))"
  obtains r where "r \<in> set rows" "rowItem r = Inr it" "it_sourceRow it = lineOf r"
    "it_sourceRow it \<notin> er_row ` set errs"
    "it_type it = Login \<Longrightarrow> passwordOf r = Some (it_password it) \<and> it_password it \<noteq> []"
  using assms by (auto simp: mapCsvRows_eq acceptedItems_mem okRows_def item_line login_password)

lemma damaged_not_imported:
  "it \<in> set (rs_items (mapCsvRows lineOf rows errs rowItem)) \<Longrightarrow> it_sourceRow it \<notin> er_row ` set errs"
  by (erule imported_from)

lemma login_has_password:
  "it \<in> set (rs_items (mapCsvRows lineOf rows errs rowItem)) \<Longrightarrow> it_type it = Login \<Longrightarrow> it_password it \<noteq> []"
  by (erule imported_from) simp

lemma rows_accounted:
  "length (rs_items (mapCsvRows lineOf rows errs rowItem)) + length (rs_errors (mapCsvRows lineOf rows errs rowItem)) =
   length (okRows lineOf errs rows) + length errs"
  using accepted_refused_length [of rowItem "okRows lineOf errs rows"] by (simp add: mapCsvRows_eq)

lemma errors_sorted: "sorted (map er_row (rs_errors (mapCsvRows lineOf rows errs rowItem)))"
  by (simp add: mapCsvRows_eq)

lemma error_from:
  assumes "e \<in> set (rs_errors (mapCsvRows lineOf rows errs rowItem))"
  shows "e \<in> set errs \<or> (\<exists>r \<in> set rows. er_row e = lineOf r \<and> rowItem r = Inl e)"
  using assms by (auto simp: mapCsvRows_eq refusals_mem okRows_def error_line)

lemma accepted_lines:
  "sorted_wrt (<) (map lineOf rows) \<Longrightarrow> sorted_wrt (<) (map it_sourceRow (acceptedItems rowItem rows))"
proof (induction rows)
  case (Cons r rows)
  have "lineOf r < it_sourceRow it" if "it \<in> set (acceptedItems rowItem rows)" for it
    using that Cons.prems by (auto simp: acceptedItems_mem item_line)
  moreover have "acceptedItems rowItem (r # rows) =
      (case rowItem r of Inr it \<Rightarrow> it # acceptedItems rowItem rows | Inl e \<Rightarrow> acceptedItems rowItem rows)"
    by (simp add: acceptedItems_def split: sum.split)
  ultimately show ?case using Cons by (auto simp: item_line split: sum.split)
qed (simp add: acceptedItems_def)

text \<open>Items come back in the order of the file, each from a line of its own.\<close>

lemma items_in_order:
  assumes "sorted_wrt (<) (map lineOf rows)"
  shows "sorted_wrt (<) (map it_sourceRow (rs_items (mapCsvRows lineOf rows errs rowItem)))"
proof -
  have "sorted_wrt (<) (map lineOf (okRows lineOf errs rows))"
    using assms by (simp add: okRows_def sorted_wrt_map sorted_wrt_filter)
  from accepted_lines [OF this] show ?thesis by (simp add: mapCsvRows_eq)
qed

end

text \<open>
  A file no layout of a parser fits: one error against line 1, before the reader's own.
\<close>

definition unfitResult :: "string \<Rightarrow> CsvTable \<Rightarrow> ImportResult" where
  "unfitResult message table = \<lparr> rs_items = [], rs_errors = rowError 1 (js message) # tb_errors table \<rparr>"

lemma unfitResult_items [simp]: "rs_items (unfitResult m t) = []"
  by (simp add: unfitResult_def)

text \<open>The rows of a table are in the order of the file.\<close>

lemma sorted_wrt_lines_filter:
  "sorted_wrt (<) (map f xs) \<Longrightarrow> sorted_wrt (<) (map f (filter P xs))" for f :: "'a \<Rightarrow> nat"
  by (simp add: sorted_wrt_map sorted_wrt_filter)

lemma parseCsv_lines: "sorted_wrt (<) (map rw_line (tb_rows (parseCsv s)))"
proof -
  obtain records errors where sc: "scan (stripBom s) = (records, errors)" by fastforce
  have srt: "sorted_wrt (<) (map rr_line (filter (\<lambda>r. \<not> rr_blank r) records))"
    by (rule sorted_wrt_lines_filter [OF scan_records(1) [OF sc]])
  show ?thesis
  proof (cases "filter (\<lambda>r. \<not> rr_blank r) records")
    case (Cons h rs)
    have "map rw_line (map (\<lambda>r. buildRow r i w) rs) = map rr_line rs" for i w
      by (simp add: buildRow_def)
    then show ?thesis using srt sc Cons by (simp add: parseCsv_def Let_def del: map_map)
  qed (simp add: sc parseCsv_def)
qed

lemma parseCsvRecords_lines: "sorted_wrt (<) (map cr_line (fst (parseCsvRecords s)))"
proof -
  obtain records errors where sc: "scan (stripBom s) = (records, errors)" by fastforce
  show ?thesis
    using sorted_wrt_lines_filter [OF scan_records(1) [OF sc], of "\<lambda>r. \<not> rr_blank r"]
    by (simp add: sc parseCsvRecords_def comp_def)
qed

end
