(* ===== verification/Browser.thy ===== *)
theory Browser
  imports Shared
begin

text \<open>
  The browsers' password exports (\<^verbatim>\<open>packages/vault/src/import/parsers/browser.ts\<close>): three
  column layouts and one row mapping. The platform's URL parser is the argument
  \<open>newURL\<close>.
\<close>

record BrowserLayout =
  bl_id :: jstr
  bl_fingerprint :: "jstr list"
  bl_name :: "jstr option"
  bl_url :: jstr
  bl_username :: jstr
  bl_password :: jstr
  bl_notes :: "jstr option"
  bl_carry :: "(jstr \<times> ImportFieldKind) list"

definition BROWSER_LAYOUTS :: "BrowserLayout list" where
  "BROWSER_LAYOUTS =
     [\<lparr> bl_id = js ''firefox'',
        bl_fingerprint = [js ''url'', js ''username'', js ''password'', js ''httprealm'',
                          js ''formactionorigin'', js ''guid''],
        bl_name = None, bl_url = js ''url'', bl_username = js ''username'', bl_password = js ''password'',
        bl_notes = None, bl_carry = [(js ''httprealm'', Metadata)] \<rparr>,
      \<lparr> bl_id = js ''safari'',
        bl_fingerprint = [js ''title'', js ''url'', js ''username'', js ''password''],
        bl_name = Some (js ''title''), bl_url = js ''url'', bl_username = js ''username'',
        bl_password = js ''password'', bl_notes = Some (js ''notes''),
        bl_carry = [(js ''otpauth'', Totp)] \<rparr>,
      \<lparr> bl_id = js ''chromium'',
        bl_fingerprint = [js ''name'', js ''url'', js ''username'', js ''password''],
        bl_name = Some (js ''name''), bl_url = js ''url'', bl_username = js ''username'',
        bl_password = js ''password'', bl_notes = Some (js ''note''), bl_carry = [] \<rparr>]"

definition hostOf :: "url_parser \<Rightarrow> jstr \<Rightarrow> jstr" where
  "hostOf newURL url =
     (if url = [] then []
      else case newURL url of
          None \<Rightarrow> url
        | Some u \<Rightarrow> if url_host u = [] then url else url_host u)"

definition displayName :: "url_parser \<Rightarrow> jstr option \<Rightarrow> jstr \<Rightarrow> jstr" where
  "displayName newURL exported url =
     (case exported of
        None \<Rightarrow> hostOf newURL url
      | Some name \<Rightarrow> if name \<noteq> [] then name else hostOf newURL url)"

definition browserToItem ::
  "url_parser \<Rightarrow> BrowserLayout \<Rightarrow> Columns \<Rightarrow> nat \<Rightarrow> CsvRow \<Rightarrow> RowOutcome" where
  "browserToItem newURL layout columns width row =
     (case surplusFieldsError row width of
        Some e \<Rightarrow> Inl e
      | None \<Rightarrow>
          bindR (requiredPassword (rw_line row) (colValue columns row (Some (bl_password layout))))
            (\<lambda>password.
               let url = orElse (colValue columns row (Some (bl_url layout))) [];
                   item = (blankImportItem (rw_line row))\<lparr>
                     it_name := displayName newURL (colValue columns row (bl_name layout)) url,
                     it_username := orElse (colValue columns row (Some (bl_username layout))) [],
                     it_password := password,
                     it_urls := (if url = [] then [] else [url]),
                     it_notes := orElse (colValue columns row (bl_notes layout)) [] \<rparr>
               in Inr (fold (\<lambda>(column, kind) it.
                        carry it (colSourceName columns column) (colValue columns row (Some column)) kind)
                      (bl_carry layout) item)))"

definition layoutFor :: "Columns \<Rightarrow> BrowserLayout option" where
  "layoutFor columns = find (\<lambda>candidate. list_all (colHas columns) (bl_fingerprint candidate)) BROWSER_LAYOUTS"

definition parseBrowserCsv :: "url_parser \<Rightarrow> jstr \<Rightarrow> ImportResult" where
  "parseBrowserCsv newURL s =
     (let table = parseCsv s; columns = indexColumns (tb_header table) in
      case layoutFor columns of
        None \<Rightarrow>
          unfitResult ''This file has no url, username and password columns, so no browser export layout fits it'' table
      | Some layout \<Rightarrow>
          mapCsvRows rw_line (tb_rows table) (tb_errors table)
            (browserToItem newURL layout columns (length (tb_header table))))"

section \<open>The row mapping keeps the contract\<close>

lemma carry_fold [simp]:
  "it_type (fold (\<lambda>(c, k) it. carry it (f c) (g c) k) ps it) = it_type it"
  "it_password (fold (\<lambda>(c, k) it. carry it (f c) (g c) k) ps it) = it_password it"
  "it_sourceRow (fold (\<lambda>(c, k) it. carry it (f c) (g c) k) ps it) = it_sourceRow it"
  "it_username (fold (\<lambda>(c, k) it. carry it (f c) (g c) k) ps it) = it_username it"
  by (induction ps arbitrary: it) (auto split: prod.split)

lemma browserToItem_Inr:
  assumes "browserToItem newURL layout columns width row = Inr it"
  shows "it_type it = Login" "it_sourceRow it = rw_line row"
    "colValue columns row (Some (bl_password layout)) = Some (it_password it)" "it_password it \<noteq> []"
    "it_username it = orElse (colValue columns row (Some (bl_username layout))) []"
    "rw_extra row = []"
  using assms
  by (auto simp: browserToItem_def bindR_eq_Inr requiredPassword_Inr Let_def
      surplusFieldsError_def split: option.splits if_splits)

interpretation browser: row_parser rw_line "\<lambda>row. colValue columns row (Some (bl_password layout))"
  "browserToItem newURL layout columns width" for newURL layout columns width
proof
  fix r e assume "browserToItem newURL layout columns width r = Inl e"
  then show "er_row e = rw_line r"
    by (auto simp: browserToItem_def bindR_def Let_def row_intro split: option.splits sum.splits)
qed (auto simp: browserToItem_Inr)

text \<open>The layouts' password column is the one named \<open>password\<close>.\<close>

lemma layoutFor_password:
  assumes "layoutFor columns = Some layout"
  shows "bl_password layout = js ''password''" "colHas columns (js ''password'')"
proof -
  have "layout \<in> set BROWSER_LAYOUTS" "list_all (colHas columns) (bl_fingerprint layout)"
    using assms by (auto simp: layoutFor_def find_Some_iff)
  then show "bl_password layout = js ''password''" "colHas columns (js ''password'')"
    by (auto simp: BROWSER_LAYOUTS_def)
qed

lemma browser_imported:
  assumes "it \<in> set (rs_items (parseBrowserCsv newURL s))"
  shows "\<exists>row \<in> set (tb_rows (parseCsv s)).
     it_sourceRow it = rw_line row \<and> it_sourceRow it \<notin> er_row ` set (tb_errors (parseCsv s)) \<and>
     colValue (indexColumns (tb_header (parseCsv s))) row (Some (js ''password'')) = Some (it_password it) \<and>
     it_password it \<noteq> [] \<and> it_type it = Login"
proof -
  let ?t = "parseCsv s" and ?c = "indexColumns (tb_header (parseCsv s))"
  obtain layout where l: "layoutFor ?c = Some layout"
    using assms by (auto simp: parseBrowserCsv_def Let_def split: option.splits)
  from assms have "it \<in> set (rs_items (mapCsvRows rw_line (tb_rows ?t) (tb_errors ?t)
      (browserToItem newURL layout ?c (length (tb_header ?t)))))"
    by (simp add: parseBrowserCsv_def Let_def l)
  then show ?thesis
    by (rule browser.imported_from) (auto simp: browserToItem_Inr layoutFor_password [OF l])
qed

end
