(* ===== verification/LastPass.thy ===== *)
theory LastPass
  imports Shared
begin

text \<open>
  The LastPass CSV export (\<^verbatim>\<open>packages/vault/src/import/parsers/lastpass.ts\<close>): logins, and
  secure notes, which LastPass marks by the URL \<^verbatim>\<open>http://sn\<close>.
\<close>

definition isSecureNote :: "jstr \<Rightarrow> bool" where
  "isSecureNote url = (toLowerCase (trim url) = js ''http://sn'')"

definition lastpassToItem :: "Columns \<Rightarrow> nat \<Rightarrow> CsvRow \<Rightarrow> RowOutcome" where
  "lastpassToItem columns width row =
     (let get = (\<lambda>c. colValue columns row (Some (js c))) in
      case surplusFieldsError row width of
        Some e \<Rightarrow> Inl e
      | None \<Rightarrow>
          (let url = orElse (get ''url'') []; note = isSecureNote url;
               item = (blankImportItem (rw_line row))\<lparr>
                 it_type := (if note then Note else Login),
                 it_name := orElse (get ''name'') [],
                 it_notes := orElse (get ''extra'') [],
                 it_favorite := isFavorite (get ''fav''),
                 it_folderPath := folderSegments (orElse (get ''grouping'') []) [92] \<rparr>
           in if note then Inr item
              else bindR (requiredPassword (rw_line row) (get ''password''))
                (\<lambda>password.
                   Inr (carry (item\<lparr> it_username := orElse (get ''username'') [],
                                     it_password := password,
                                     it_urls := (if url = [] then [] else [url]) \<rparr>)
                          (colSourceName columns (js ''totp'')) (get ''totp'') Totp))))"

definition parseLastPassCsv :: "jstr \<Rightarrow> ImportResult" where
  "parseLastPassCsv s =
     (let table = parseCsv s; columns = indexColumns (tb_header table) in
      if \<not> colHas columns (js ''password'') \<or> \<not> colHas columns (js ''grouping'')
      then unfitResult ''This file has no password and grouping columns, so it is not a LastPass CSV export'' table
      else mapCsvRows rw_line (tb_rows table) (tb_errors table)
             (lastpassToItem columns (length (tb_header table))))"

section \<open>The row mapping keeps the contract\<close>

lemma lastpassToItem_Inr:
  assumes "lastpassToItem columns width row = Inr it"
  shows "it_sourceRow it = rw_line row"
    "it_type it = Login \<Longrightarrow> colValue columns row (Some (js ''password'')) = Some (it_password it)"
    "it_type it = Login \<Longrightarrow> it_password it \<noteq> []"
    "it_type it = Note \<longleftrightarrow> isSecureNote (orElse (colValue columns row (Some (js ''url''))) [])"
    "it_type it = Note \<Longrightarrow> it_urls it = [] \<and> it_password it = []"
  using assms
  by (auto simp: lastpassToItem_def bindR_eq_Inr requiredPassword_Inr Let_def
      split: option.splits if_splits)

interpretation lastpass: row_parser rw_line "\<lambda>row. colValue columns row (Some (js ''password''))"
  "lastpassToItem columns width" for columns width
proof
  fix r e assume "lastpassToItem columns width r = Inl e"
  then show "er_row e = rw_line r"
    by (auto simp: lastpassToItem_def bindR_def Let_def row_intro split: option.splits sum.splits if_splits)
qed (auto simp: lastpassToItem_Inr)

lemma lastpass_imported:
  assumes "it \<in> set (rs_items (parseLastPassCsv s))" "it_type it = Login"
  shows "it_password it \<noteq> []"
  using assms lastpass.login_has_password by (auto simp: parseLastPassCsv_def Let_def split: if_splits)

end
