(* ===== verification/KeePass.thy ===== *)
theory KeePass
  imports Shared
begin

text \<open>
  The two KeePass CSV exports (\<^verbatim>\<open>packages/vault/src/import/parsers/keepass.ts\<close>): KeePassXC
  and KeePass 1.x, by their column names.
\<close>

record KeePassLayout =
  kp_id :: jstr
  kp_fingerprint :: "jstr list"
  kp_folder :: "jstr option"
  kp_name :: jstr
  kp_username :: jstr
  kp_password :: jstr
  kp_url :: jstr
  kp_notes :: jstr
  kp_totp :: "jstr option"

definition KEEPASS_LAYOUTS :: "KeePassLayout list" where
  "KEEPASS_LAYOUTS =
     [\<lparr> kp_id = js ''keepassxc'',
        kp_fingerprint = [js ''group'', js ''title'', js ''username'', js ''password'', js ''url'', js ''notes''],
        kp_folder = Some (js ''group''), kp_name = js ''title'', kp_username = js ''username'',
        kp_password = js ''password'', kp_url = js ''url'', kp_notes = js ''notes'',
        kp_totp = Some (js ''totp'') \<rparr>,
      \<lparr> kp_id = js ''keepass-1x'',
        kp_fingerprint = [js ''account'', js ''login name'', js ''password'', js ''web site'', js ''comments''],
        kp_folder = None, kp_name = js ''account'', kp_username = js ''login name'',
        kp_password = js ''password'', kp_url = js ''web site'', kp_notes = js ''comments'',
        kp_totp = None \<rparr>]"

definition keepassToItem :: "KeePassLayout \<Rightarrow> Columns \<Rightarrow> nat \<Rightarrow> CsvRow \<Rightarrow> RowOutcome" where
  "keepassToItem layout columns width row =
     (let get = (\<lambda>c. colValue columns row (Some c)) in
      case surplusFieldsError row width of
        Some e \<Rightarrow> Inl e
      | None \<Rightarrow>
          bindR (requiredPassword (rw_line row) (get (kp_password layout)))
            (\<lambda>password.
               let url = orElse (get (kp_url layout)) [];
                   item = (blankImportItem (rw_line row))\<lparr>
                     it_name := orElse (get (kp_name layout)) [],
                     it_username := orElse (get (kp_username layout)) [],
                     it_password := password,
                     it_urls := (if url = [] then [] else [url]),
                     it_notes := orElse (get (kp_notes layout)) [],
                     it_folderPath := folderSegments (orElse (colValue columns row (kp_folder layout)) []) (js ''/'') \<rparr>
               in Inr (case kp_totp layout of
                    None \<Rightarrow> item
                  | Some totp \<Rightarrow> carry item (colSourceName columns totp) (get totp) Totp)))"

definition parseKeePassCsv :: "jstr \<Rightarrow> ImportResult" where
  "parseKeePassCsv s =
     (let table = parseCsv s; columns = indexColumns (tb_header table) in
      case find (\<lambda>candidate. list_all (colHas columns) (kp_fingerprint candidate)) KEEPASS_LAYOUTS of
        None \<Rightarrow>
          unfitResult ''This file matches neither the KeePass 1.x nor the KeePassXC column names, so it is not a KeePass CSV export'' table
      | Some layout \<Rightarrow>
          mapCsvRows rw_line (tb_rows table) (tb_errors table)
            (keepassToItem layout columns (length (tb_header table))))"

section \<open>The row mapping keeps the contract\<close>

lemma keepassToItem_Inr:
  assumes "keepassToItem layout columns width row = Inr it"
  shows "it_sourceRow it = rw_line row" "it_type it = Login" "it_password it \<noteq> []"
    "colValue columns row (Some (kp_password layout)) = Some (it_password it)"
  using assms
  by (auto simp: keepassToItem_def bindR_eq_Inr requiredPassword_Inr Let_def split: option.splits)

interpretation keepass: row_parser rw_line "\<lambda>row. colValue columns row (Some (kp_password layout))"
  "keepassToItem layout columns width" for layout columns width
proof
  fix r e assume "keepassToItem layout columns width r = Inl e"
  then show "er_row e = rw_line r"
    by (auto simp: keepassToItem_def bindR_def Let_def row_intro split: option.splits sum.splits)
qed (auto simp: keepassToItem_Inr)

lemma keepass_imported:
  assumes "it \<in> set (rs_items (parseKeePassCsv s))" "it_type it = Login"
  shows "it_password it \<noteq> []"
  using assms keepass.login_has_password by (auto simp: parseKeePassCsv_def Let_def split: option.splits)

end
