(* ===== verification/NordPass.thy ===== *)
theory NordPass
  imports Shared
begin

text \<open>
  The NordPass CSV export (\<^verbatim>\<open>packages/vault/src/import/parsers/nordpass.ts\<close>): one row shape
  for every kind, told apart by the \<^verbatim>\<open>type\<close> column.
\<close>

definition NORDPASS_KINDS :: "(jstr, ImportItemType) jmap" where
  "NORDPASS_KINDS = [(js ''password'', Login), (js ''note'', Note)]"

definition NORDPASS_UNSUPPORTED :: "(jstr, jstr) jmap" where
  "NORDPASS_UNSUPPORTED = [(js ''credit_card'', js ''credit card''), (js ''identity'', js ''identity'')]"

definition nordpassUrls :: "jstr \<Rightarrow> jstr option \<Rightarrow> jstr list" where
  "nordpassUrls main additional =
     (if main = [] then [] else [main]) @
     filter (\<lambda>url. url \<noteq> []) (map trim (split (orElse additional []) [NL]))"

definition nordpassToItem :: "Columns \<Rightarrow> nat \<Rightarrow> CsvRow \<Rightarrow> RowOutcome" where
  "nordpassToItem columns width row =
     (let get = (\<lambda>c. colValue columns row (Some (js c))) in
      case surplusFieldsError row width of
        Some e \<Rightarrow> Inl e
      | None \<Rightarrow>
          (let word = toLowerCase (trim (orElse (get ''type'') [])) in
           case (if word = [] then Some Login else mapGet NORDPASS_KINDS word) of
             None \<Rightarrow>
               Inl (rowError (rw_line row)
                 (js ''This row is a NordPass '' @ orElse (mapGet NORDPASS_UNSUPPORTED word) word @
                  js '', which Keyhole cannot import yet, so it was not imported''))
           | Some kind \<Rightarrow>
               (let item = (blankImportItem (rw_line row))\<lparr>
                      it_type := kind,
                      it_name := orElse (get ''name'') [],
                      it_notes := orElse (get ''note'') [],
                      it_folderPath := flatFolder (get ''folder'') \<rparr>;
                    finish = (\<lambda>it. Inr (carry it (colSourceName columns (js ''custom_fields''))
                                          (get ''custom_fields'') Custom))
                in if kind = Login then
                     bindR (requiredPassword (rw_line row) (get ''password''))
                       (\<lambda>password.
                          finish (item\<lparr> it_username := orElse (get ''username'') [],
                                        it_password := password,
                                        it_urls := nordpassUrls (orElse (get ''url'') []) (get ''additional_urls'') \<rparr>))
                   else finish item)))"

definition parseNordPassCsv :: "jstr \<Rightarrow> ImportResult" where
  "parseNordPassCsv s =
     (let table = parseCsv s; columns = indexColumns (tb_header table) in
      if \<not> colHas columns (js ''password'') \<or> \<not> colHas columns (js ''cardholdername'')
      then unfitResult ''This file has no password and cardholdername columns, so it is not a NordPass CSV export'' table
      else mapCsvRows rw_line (tb_rows table) (tb_errors table)
             (nordpassToItem columns (length (tb_header table))))"

section \<open>The row mapping keeps the contract\<close>

lemma nordpassToItem_Inr:
  assumes "nordpassToItem columns width row = Inr it"
  shows "it_sourceRow it = rw_line row"
    "it_type it = Login \<Longrightarrow> colValue columns row (Some (js ''password'')) = Some (it_password it)"
    "it_type it = Login \<Longrightarrow> it_password it \<noteq> []"
  using assms
  by (auto simp: nordpassToItem_def bindR_eq_Inr requiredPassword_Inr Let_def
      split: option.splits if_splits)

interpretation nordpass: row_parser rw_line "\<lambda>row. colValue columns row (Some (js ''password''))"
  "nordpassToItem columns width" for columns width
proof
  fix r e assume "nordpassToItem columns width r = Inl e"
  then show "er_row e = rw_line r"
    by (auto simp: nordpassToItem_def bindR_def Let_def row_intro split: option.splits sum.splits if_splits)
qed (auto simp: nordpassToItem_Inr)

lemma nordpass_imported:
  assumes "it \<in> set (rs_items (parseNordPassCsv s))" "it_type it = Login"
  shows "it_password it \<noteq> []"
  using assms nordpass.login_has_password by (auto simp: parseNordPassCsv_def Let_def split: if_splits)

end
