(* ===== verification/Json.thy ===== *)
theory Json
  imports Prelude
begin

text \<open>
  \<^verbatim>\<open>JSON.parse\<close> and \<^verbatim>\<open>JSON.stringify\<close> of the language's standard library, on the values
  the sources pass through them. An object is the list of its own properties in the order
  JavaScript enumerates them. A number is an exact decimal \<open>mantissa * 10 ^ exponent\<close>: the
  rounding of a literal to a double is not modelled, so the model agrees with the engine on
  literals of at most fifteen significant digits inside the range of a double.

  The main result is the round trip \<open>jsonParse_stringify\<close>: parsing what was printed gives
  the value back, for every value whose objects are in enumeration order and whose numbers
  are integers that print without an exponent.
\<close>

section \<open>Values\<close>

datatype jnum = Dec int int

datatype json =
    JNull
  | JBool bool
  | JNum jnum
  | JStr jstr
  | JArr "json list"
  | JObj "(jstr \<times> json) list"

function normDec :: "int \<Rightarrow> int \<Rightarrow> jnum" where
  "normDec m e = (if m = 0 then Dec 0 0 else if m mod 10 = 0 then normDec (m div 10) (e + 1) else Dec m e)"
  by pat_completeness auto
termination
proof (relation "measure (\<lambda>(m, e). nat \<bar>m\<bar>)", simp)
  fix m e :: int
  assume "m \<noteq> 0" "m mod 10 = 0"
  then have "m = 10 * (m div 10)" "m div 10 \<noteq> 0" by auto
  then have "\<bar>m div 10\<bar> < \<bar>m\<bar>" by linarith
  then show "((m div 10, e + 1), m, e) \<in> measure (\<lambda>(m, e). nat \<bar>m\<bar>)" by simp
qed

declare normDec.simps [simp del]

definition jint :: "int \<Rightarrow> jnum" where
  "jint n = normDec n 0"

text \<open>\<^verbatim>\<open>Number.prototype.toString\<close>, by the position \<open>n\<close> of the decimal point.\<close>

definition zeros :: "nat \<Rightarrow> jstr" where
  "zeros k = replicate k 48"

fun showNum :: "jnum \<Rightarrow> jstr" where
  "showNum (Dec m e) =
     (if m = 0 then [48] else
      let ds = showNat (nat \<bar>m\<bar>); k = int (length ds); n = k + e;
          ex = (if n - 1 < 0 then 45 # showNat (nat (1 - n)) else 43 # showNat (nat (n - 1)));
          body = (if k \<le> n \<and> n \<le> 21 then ds @ zeros (nat (n - k))
                  else if 0 < n \<and> n \<le> 21 then take (nat n) ds @ [46] @ drop (nat n) ds
                  else if - 6 < n \<and> n \<le> 0 then [48, 46] @ zeros (nat (- n)) @ ds
                  else if k = 1 then ds @ [101] @ ex
                  else take 1 ds @ [46] @ drop 1 ds @ [101] @ ex)
      in if m < 0 then 45 # body else body)"

text \<open>Own properties: array-index keys first, ascending, then the others as inserted.\<close>

definition isDigit :: "code_unit \<Rightarrow> bool" where
  "isDigit c = (48 \<le> c \<and> c \<le> 57)"

definition digitsVal :: "jstr \<Rightarrow> nat" where
  "digitsVal ds = foldl (\<lambda>a d. 10 * a + (unat d - 48)) 0 ds"

definition isIndexKey :: "jstr \<Rightarrow> bool" where
  "isIndexKey k =
     (k \<noteq> [] \<and> list_all isDigit k \<and> (hd k = 48 \<longrightarrow> length k = 1) \<and> digitsVal k \<le> 4294967294)"

definition objOrder :: "(jstr \<times> json) list \<Rightarrow> (jstr \<times> json) list" where
  "objOrder kvs =
     sort_key (\<lambda>(k, v). digitsVal k) (filter (\<lambda>(k, v). isIndexKey k) kvs)
       @ filter (\<lambda>(k, v). \<not> isIndexKey k) kvs"

definition mkObj :: "(jstr \<times> json) list \<Rightarrow> (jstr \<times> json) list" where
  "mkObj kvs = objOrder (fold (\<lambda>(k, v) m. mapSet m k v) kvs [])"

text \<open>\<^verbatim>\<open>value[key]\<close> on an object; \<^verbatim>\<open>undefined\<close> for anything without that property.\<close>

fun field :: "json \<Rightarrow> jstr \<Rightarrow> json option" where
  "field (JObj kvs) k = map_of kvs k"
| "field _ k = None"

section \<open>Printing\<close>

definition hexDigit :: "nat \<Rightarrow> code_unit" where
  "hexDigit n = (if n < 10 then 48 + of_nat n else 87 + of_nat n)"

definition escapeHex :: "code_unit \<Rightarrow> jstr" where
  "escapeHex c = (let n = unat c in
     [92, 117, hexDigit (n div 4096), hexDigit (n div 256 mod 16),
      hexDigit (n div 16 mod 16), hexDigit (n mod 16)])"

definition isHigh :: "code_unit \<Rightarrow> bool" where "isHigh c = (0xD800 \<le> c \<and> c \<le> 0xDBFF)"

definition isLow :: "code_unit \<Rightarrow> bool" where "isLow c = (0xDC00 \<le> c \<and> c \<le> 0xDFFF)"

definition escapeUnit :: "code_unit \<Rightarrow> jstr" where
  "escapeUnit c =
     (if c = 34 then [92, 34] else if c = 92 then [92, 92]
      else if c = 8 then [92, 98] else if c = 12 then [92, 102] else if c = 10 then [92, 110]
      else if c = 13 then [92, 114] else if c = 9 then [92, 116]
      else if c < 32 then escapeHex c else [c])"

fun quoteBody :: "jstr \<Rightarrow> jstr" where
  "quoteBody [] = []"
| "quoteBody (c # s) =
     (if isHigh c then
        (case s of
           d # t \<Rightarrow> if isLow d then c # d # quoteBody t else escapeHex c @ quoteBody s
         | [] \<Rightarrow> escapeHex c)
      else if isLow c then escapeHex c @ quoteBody s
      else escapeUnit c @ quoteBody s)"

definition quote :: "jstr \<Rightarrow> jstr" where
  "quote s = [34] @ quoteBody s @ [34]"

fun stringify :: "json \<Rightarrow> jstr" where
  "stringify JNull = js ''null''"
| "stringify (JBool b) = (if b then js ''true'' else js ''false'')"
| "stringify (JNum x) = showNum x"
| "stringify (JStr s) = quote s"
| "stringify (JArr vs) = [91] @ join [44] (map stringify vs) @ [93]"
| "stringify (JObj kvs) =
     [123] @ join [44] (map (\<lambda>(k, v). quote k @ [58] @ stringify v) kvs) @ [125]"

section \<open>Parsing\<close>

definition isJsonWs :: "code_unit \<Rightarrow> bool" where
  "isJsonWs c = (c = 32 \<or> c = 9 \<or> c = 10 \<or> c = 13)"

definition skipWs :: "jstr \<Rightarrow> jstr" where
  "skipWs s = dropWhile isJsonWs s"

definition hexVal :: "code_unit \<Rightarrow> nat option" where
  "hexVal c =
     (if 48 \<le> c \<and> c \<le> 57 then Some (unat c - 48)
      else if 97 \<le> c \<and> c \<le> 102 then Some (unat c - 87)
      else if 65 \<le> c \<and> c \<le> 70 then Some (unat c - 55) else None)"

definition hex4 :: "code_unit \<Rightarrow> code_unit \<Rightarrow> code_unit \<Rightarrow> code_unit \<Rightarrow> code_unit option" where
  "hex4 a b c d =
     (case (hexVal a, hexVal b, hexVal c, hexVal d) of
        (Some w, Some x, Some y, Some z) \<Rightarrow> Some (of_nat (((w * 16 + x) * 16 + y) * 16 + z))
      | _ \<Rightarrow> None)"

definition unescape :: "code_unit \<Rightarrow> code_unit option" where
  "unescape c =
     (if c = 34 then Some 34 else if c = 92 then Some 92 else if c = 47 then Some 47
      else if c = 98 then Some 8 else if c = 102 then Some 12 else if c = 110 then Some 10
      else if c = 114 then Some 13 else if c = 116 then Some 9 else None)"

definition consFst :: "'a \<Rightarrow> ('a list \<times> 'b) option \<Rightarrow> ('a list \<times> 'b) option" where
  "consFst x r = map_option (\<lambda>(xs, t). (x # xs, t)) r"

fun strBody :: "jstr \<Rightarrow> (jstr \<times> jstr) option" where
  "strBody [] = None"
| "strBody (c # s) =
     (if c = 34 then Some ([], s)
      else if c = 92 then
        (case s of
           [] \<Rightarrow> None
         | e # t \<Rightarrow>
             if e = 117 then
               (case t of
                  h1 # h2 # h3 # h4 # u \<Rightarrow>
                    (case hex4 h1 h2 h3 h4 of None \<Rightarrow> None | Some x \<Rightarrow> consFst x (strBody u))
                | _ \<Rightarrow> None)
             else (case unescape e of None \<Rightarrow> None | Some x \<Rightarrow> consFst x (strBody t)))
      else if c < 32 then None else consFst c (strBody s))"

definition signed :: "bool \<Rightarrow> nat \<Rightarrow> int" where
  "signed neg n = (if neg then - int n else int n)"

text \<open>The exponent part, if there is one: \<open>None\<close> is a malformed number.\<close>

definition parseExp :: "jstr \<Rightarrow> (int \<times> jstr) option" where
  "parseExp s =
     (case s of
        c # t \<Rightarrow>
          if c = 101 \<or> c = 69 then
            (let neg = (t \<noteq> [] \<and> hd t = 45);
                 u = (if t \<noteq> [] \<and> (hd t = 45 \<or> hd t = 43) then tl t else t);
                 ds = takeWhile isDigit u
             in if ds = [] then None else Some (signed neg (digitsVal ds), dropWhile isDigit u))
          else Some (0, s)
      | [] \<Rightarrow> Some (0, s))"

definition parseFrac :: "jstr \<Rightarrow> (jstr \<times> jstr) option" where
  "parseFrac s =
     (case s of
        c # t \<Rightarrow>
          if c = 46 then
            (if takeWhile isDigit t = [] then None else Some (takeWhile isDigit t, dropWhile isDigit t))
          else Some ([], s)
      | [] \<Rightarrow> Some ([], s))"

definition parseNumber :: "jstr \<Rightarrow> (json \<times> jstr) option" where
  "parseNumber s =
     (let neg = (s \<noteq> [] \<and> hd s = 45); t = (if neg then tl s else s);
          ip = takeWhile isDigit t
      in if ip = [] \<or> (hd ip = 48 \<and> 1 < length ip) then None
         else case parseFrac (dropWhile isDigit t) of
             None \<Rightarrow> None
           | Some (fp, u) \<Rightarrow>
               (case parseExp u of
                  None \<Rightarrow> None
                | Some (ex, r) \<Rightarrow>
                    Some (JNum (normDec (signed neg (digitsVal (ip @ fp))) (ex - int (length fp))), r)))"

definition parseWord :: "jstr \<Rightarrow> (json \<times> jstr) option" where
  "parseWord s =
     (if startsWith s (js ''true'') then Some (JBool True, drop 4 s)
      else if startsWith s (js ''false'') then Some (JBool False, drop 5 s)
      else if startsWith s (js ''null'') then Some (JNull, drop 4 s) else None)"

text \<open>
  The fuel bounds the nesting. Every second call consumes a code unit, so twice the length of
  the text and two more is enough (\<open>parseVal_fuel\<close>).
\<close>

fun parseVal :: "nat \<Rightarrow> jstr \<Rightarrow> (json \<times> jstr) option"
  and parseElems :: "nat \<Rightarrow> jstr \<Rightarrow> (json list \<times> jstr) option"
  and parseMembers :: "nat \<Rightarrow> jstr \<Rightarrow> ((jstr \<times> json) list \<times> jstr) option"
where
  "parseVal 0 s = None"
| "parseVal (Suc n) s =
     (case skipWs s of
        [] \<Rightarrow> None
      | c # t \<Rightarrow>
          if c = 123 then
            (case skipWs t of
               [] \<Rightarrow> None
             | d # u \<Rightarrow> if d = 125 then Some (JObj [], u)
                        else (case parseMembers n t of
                                None \<Rightarrow> None | Some (kvs, r) \<Rightarrow> Some (JObj (mkObj kvs), r)))
          else if c = 91 then
            (case skipWs t of
               [] \<Rightarrow> None
             | d # u \<Rightarrow> if d = 93 then Some (JArr [], u)
                        else (case parseElems n t of
                                None \<Rightarrow> None | Some (vs, r) \<Rightarrow> Some (JArr vs, r)))
          else if c = 34 then
            (case strBody t of None \<Rightarrow> None | Some (x, r) \<Rightarrow> Some (JStr x, r))
          else if c = 45 \<or> isDigit c then parseNumber (c # t)
          else parseWord (c # t))"
| "parseElems 0 s = None"
| "parseElems (Suc n) s =
     (case parseVal n s of
        None \<Rightarrow> None
      | Some (v, r) \<Rightarrow>
          (case skipWs r of
             [] \<Rightarrow> None
           | c # t \<Rightarrow> if c = 44 then consFst v (parseElems n t)
                      else if c = 93 then Some ([v], t) else None))"
| "parseMembers 0 s = None"
| "parseMembers (Suc n) s =
     (case skipWs s of
        [] \<Rightarrow> None
      | c # t \<Rightarrow>
          if c \<noteq> 34 then None else
          (case strBody t of
             None \<Rightarrow> None
           | Some (k, r) \<Rightarrow>
               (case skipWs r of
                  [] \<Rightarrow> None
                | c # t \<Rightarrow>
                    if c \<noteq> 58 then None else
                    (case parseVal n t of
                       None \<Rightarrow> None
                     | Some (v, r) \<Rightarrow>
                         (case skipWs r of
                            [] \<Rightarrow> None
                          | c # t \<Rightarrow> if c = 44 then consFst (k, v) (parseMembers n t)
                                     else if c = 125 then Some ([(k, v)], t) else None)))))"

definition jsonParse :: "jstr \<Rightarrow> json option" where
  "jsonParse s =
     (case parseVal (2 * length s + 2) s of
        None \<Rightarrow> None
      | Some (v, r) \<Rightarrow> if skipWs r = [] then Some v else None)"

section \<open>Numbers and strings read back\<close>

lemma showNat_small: "n < 10 \<Longrightarrow> showNat n = [48 + of_nat n]"
  by (simp add: showNat.simps)

lemma showNat_step: "\<not> n < 10 \<Longrightarrow> showNat n = showNat (n div 10) @ [48 + of_nat (n mod 10)]"
  by (subst showNat.simps) simp

lemma digit_unit: "d < 10 \<Longrightarrow> unat (48 + of_nat d :: code_unit) = 48 + d"
  by (simp add: unat_word_ariths unat_of_nat)

lemma isDigit_unit: "d < 10 \<Longrightarrow> isDigit (48 + of_nat d)"
  using digit_unit [of d] by (simp add: isDigit_def word_le_nat_alt)

lemma digitsVal_Nil [simp]: "digitsVal [] = 0"
  by (simp add: digitsVal_def)

lemma digitsVal_snoc [simp]: "digitsVal (ds @ [d]) = 10 * digitsVal ds + (unat d - 48)"
  by (simp add: digitsVal_def)

lemma digitsVal_zeros: "digitsVal (ds @ zeros k) = digitsVal ds * 10 ^ k"
proof (induction k)
  case (Suc k)
  have "ds @ zeros (Suc k) = (ds @ zeros k) @ [48]"
    by (simp add: zeros_def replicate_append_same)
  then show ?case using Suc digitsVal_snoc [of "ds @ zeros k" 48] by (simp del: append_assoc)
qed (simp add: zeros_def)

lemma showNat_digits: "list_all isDigit (showNat n)"
proof (induction n rule: showNat.induct)
  case (1 n)
  then show ?case
    by (cases "n < 10") (auto simp: showNat_small showNat_step isDigit_unit simp del: of_nat_mod)
qed

lemma showNat_not_Nil [simp]: "showNat n \<noteq> []"
  by (cases "n < 10") (simp_all add: showNat_small showNat_step)

lemma digitsVal_showNat [simp]: "digitsVal (showNat n) = n"
proof (induction n rule: showNat.induct)
  case (1 n)
  show ?case
  proof (cases "n < 10")
    case True
    then show ?thesis using digitsVal_snoc [of "[]"] by (simp add: showNat_small digit_unit)
  next
    case False
    have "n mod 10 < 10" by simp
    note d = digit_unit [OF this]
    from 1 False have IH: "digitsVal (showNat (n div 10)) = n div 10" by simp
    show ?thesis unfolding showNat_step [OF False] digitsVal_snoc IH d by simp
  qed
qed

lemma showNat_hd: "0 < n \<Longrightarrow> hd (showNat n) \<noteq> 48"
proof (induction n rule: showNat.induct)
  case (1 n)
  show ?case
  proof (cases "n < 10")
    case True
    have "unat (48 + of_nat n :: code_unit) \<noteq> unat (48 :: code_unit)"
      using 1 True by (simp only: digit_unit) simp
    then show ?thesis using True by (auto simp: showNat_small)
  next
    case False
    then show ?thesis using 1 by (simp add: showNat_step hd_append)
  qed
qed

lemma showNat_inj: "showNat m = showNat n \<longleftrightarrow> m = n"
  by (metis digitsVal_showNat)

lemma hexVal_hexDigit: "n < 16 \<Longrightarrow> hexVal (hexDigit n) = Some n"
proof (cases "n < 10")
  case True
  then have "unat (48 + of_nat n :: code_unit) = 48 + n" by (rule digit_unit)
  then show ?thesis using True
    by (simp add: hexVal_def hexDigit_def word_le_nat_alt)
next
  case False
  assume "n < 16"
  then have "unat (87 + of_nat n :: code_unit) = 87 + n"
    by (simp add: unat_word_ariths unat_of_nat)
  then show ?thesis using False \<open>n < 16\<close>
    by (simp add: hexVal_def hexDigit_def word_le_nat_alt)
qed

lemma hex4_val:
  fixes u :: nat
  shows "((u div 4096 * 16 + u div 256 mod 16) * 16 + u div 16 mod 16) * 16 + u mod 16 = u"
proof -
  have d: "u div 256 = u div 16 div 16" "u div 4096 = u div 16 div 16 div 16"
    by (simp_all flip: div_mult2_eq)
  show ?thesis unfolding d by (simp only: div_mult_mod_eq)
qed

lemma hex4_digits:
  "hex4 (hexDigit (unat c div 4096)) (hexDigit (unat c div 256 mod 16))
        (hexDigit (unat c div 16 mod 16)) (hexDigit (unat c mod 16)) = Some c" for c :: code_unit
proof -
  have "unat c < 2 ^ LENGTH(16)" by (rule unsigned_less)
  then have lt: "unat c div 4096 < 16" by simp
  note val = hex4_val [of "unat c"]
  have m: "x mod 16 < (16 :: nat)" for x by simp
  show ?thesis
    unfolding hex4_def hexVal_hexDigit [OF lt] hexVal_hexDigit [OF m]
    by (simp only: prod.case option.case val) simp
qed

lemma consFst_simps [simp]:
  "consFst x None = None" "consFst x (Some (xs, t)) = Some (x # xs, t)"
  by (simp_all add: consFst_def)

lemma consFst_eq_Some: "consFst x r = Some (ys, t) \<longleftrightarrow> (\<exists>xs. r = Some (xs, t) \<and> ys = x # xs)"
  by (auto simp: consFst_def)

lemma strBody_escapeHex: "strBody (escapeHex c @ t) = consFst c (strBody t)"
  by (simp add: escapeHex_def Let_def hex4_digits)

lemma strBody_escapeUnit: "strBody (escapeUnit c @ t) = consFst c (strBody t)"
  by (auto simp: escapeUnit_def unescape_def strBody_escapeHex)

lemma isHigh_plain: "isHigh c \<Longrightarrow> c \<noteq> 34 \<and> c \<noteq> 92 \<and> \<not> c < 32"
  by (auto simp: isHigh_def word_le_nat_alt word_less_nat_alt)

lemma isLow_plain: "isLow c \<Longrightarrow> c \<noteq> 34 \<and> c \<noteq> 92 \<and> \<not> c < 32"
  by (auto simp: isLow_def word_le_nat_alt word_less_nat_alt)

lemma strBody_quoteBody: "strBody (quoteBody s @ 34 # r) = Some (s, r)"
  by (induction s rule: quoteBody.induct)
    (auto simp: strBody_escapeHex strBody_escapeUnit isHigh_plain isLow_plain split: list.split)

section \<open>The round trip\<close>

text \<open>The values whose printed form determines them.\<close>

fun numWf :: "jnum \<Rightarrow> bool" where
  "numWf (Dec m e) =
     (if m = 0 then e = 0
      else m mod 10 \<noteq> 0 \<and> 0 \<le> e \<and> int (length (showNat (nat \<bar>m\<bar>))) + e \<le> 21)"

fun jsonWf :: "json \<Rightarrow> bool" where
  "jsonWf (JNum x) = numWf x"
| "jsonWf (JArr vs) = list_all jsonWf vs"
| "jsonWf (JObj kvs) = (mkObj kvs = kvs \<and> list_all (\<lambda>(k, v). jsonWf v) kvs)"
| "jsonWf _ = True"

definition numEnd :: "jstr \<Rightarrow> bool" where
  "numEnd r = (r = [] \<or> (\<not> isDigit (hd r) \<and> hd r \<noteq> 46 \<and> hd r \<noteq> 101 \<and> hd r \<noteq> 69))"

lemma normDec_pow: "m mod 10 \<noteq> 0 \<Longrightarrow> normDec (m * 10 ^ k) e = Dec m (e + int k)"
proof (induction k arbitrary: e)
  case 0
  then show ?case by (auto simp: normDec.simps)
next
  case (Suc k)
  define x where "x = m * 10 ^ Suc k"
  from Suc.prems have "x \<noteq> 0" by (auto simp: x_def)
  moreover have "x mod 10 = 0" "x div 10 = m * 10 ^ k" by (simp_all add: x_def)
  ultimately have "normDec x e = normDec (m * 10 ^ k) (e + 1)"
    by (subst normDec.simps) (simp only: if_False simp_thms if_True)
  then show ?case using Suc by (simp add: x_def)
qed

lemma takeWhile_digits:
  assumes "list_all P xs" "r = [] \<or> \<not> P (hd r)"
  shows "takeWhile P (xs @ r) = xs" "dropWhile P (xs @ r) = r"
  using assms by (induction xs) (cases r; auto)+

lemma list_all_zeros: "list_all isDigit (zeros k)"
  by (simp add: zeros_def list_all_iff isDigit_def)

lemma parseFrac_end: "numEnd r \<Longrightarrow> parseFrac r = Some ([], r)"
  by (cases r) (auto simp: parseFrac_def numEnd_def)

lemma parseExp_end: "numEnd r \<Longrightarrow> parseExp r = Some (0, r)"
  by (cases r) (auto simp: parseExp_def numEnd_def)

lemma parse_unsigned:
  assumes "list_all isDigit ds" "ds \<noteq> []" "hd ds \<noteq> 48 \<or> length ds = 1" "numEnd r"
  shows "parseNumber (ds @ r) = Some (JNum (normDec (int (digitsVal ds)) 0), r)"
    and "parseNumber (45 # ds @ r) = Some (JNum (normDec (- int (digitsVal ds)) 0), r)"
proof -
  have r: "r = [] \<or> \<not> isDigit (hd r)" using assms(4) by (auto simp: numEnd_def)
  have hd: "hd ds \<noteq> 45"
    using assms(1,2) by (cases ds) (auto simp: isDigit_def word_le_nat_alt)
  show "parseNumber (ds @ r) = Some (JNum (normDec (int (digitsVal ds)) 0), r)"
    using assms hd
    by (auto simp: parseNumber_def Let_def takeWhile_digits [OF assms(1) r] parseFrac_end
        parseExp_end signed_def)
  show "parseNumber (45 # ds @ r) = Some (JNum (normDec (- int (digitsVal ds)) 0), r)"
    using assms hd
    by (auto simp: parseNumber_def Let_def takeWhile_digits [OF assms(1) r] parseFrac_end
        parseExp_end signed_def)
qed

lemma showNum_wf:
  assumes "numWf (Dec m e)" "m \<noteq> 0"
  shows "showNum (Dec m e) =
    (if m < 0 then 45 # showNat (nat \<bar>m\<bar>) @ zeros (nat e) else showNat (nat \<bar>m\<bar>) @ zeros (nat e))"
proof -
  define ds where "ds = showNat (nat \<bar>m\<bar>)"
  have "0 \<le> e" "int (length ds) + e \<le> 21" using assms by (auto simp: ds_def)
  then show ?thesis
    using assms(2) unfolding showNum.simps ds_def [symmetric] Let_def by (simp only: if_False) simp
qed

lemma parse_showNum: "numWf x \<Longrightarrow> numEnd r \<Longrightarrow> parseNumber (showNum x @ r) = Some (JNum x, r)"
proof (cases x)
  case (Dec m e)
  assume wf: "numWf x" and r: "numEnd r"
  show ?thesis
  proof (cases "m = 0")
    case True
    have "list_all isDigit [48]" by (simp add: isDigit_def)
    from parse_unsigned(1) [OF this _ _ r] show ?thesis
      using True wf Dec by (simp add: digitsVal_def normDec.simps)
  next
    case False
    let ?ds = "showNat (nat \<bar>m\<bar>) @ zeros (nat e)"
    have ds: "list_all isDigit ?ds" "?ds \<noteq> []" "hd ?ds \<noteq> 48 \<or> length ?ds = 1"
      using False showNat_hd [of "nat \<bar>m\<bar>"] by (simp_all add: showNat_digits list_all_zeros hd_append)
    have val: "int (digitsVal ?ds) = \<bar>m\<bar> * 10 ^ nat e" by (simp add: digitsVal_zeros)
    have neg: "- (\<bar>m\<bar> * 10 ^ nat e) = m * 10 ^ nat e" if "m < 0" using that by simp
    have m: "m mod 10 \<noteq> 0" "0 \<le> e" using wf False Dec by auto
    show ?thesis
      using parse_unsigned [OF ds r] normDec_pow [OF m(1), of "nat e" 0] m(2) neg False
      unfolding Dec showNum_wf [OF wf [unfolded Dec] False] val
      by (cases "m < 0") simp_all
  qed
qed

lemma showNum_hd:
  assumes "numWf x"
  shows "\<exists>c t. showNum x = c # t \<and> (c = 45 \<or> isDigit c)"
proof (cases x)
  case (Dec m e)
  show ?thesis
  proof (cases "m = 0")
    case True
    then show ?thesis using Dec by (simp add: isDigit_def)
  next
    case False
    define ds where "ds = showNat (nat \<bar>m\<bar>)"
    have "ds \<noteq> []" "list_all isDigit ds" unfolding ds_def by (simp_all add: showNat_digits)
    then obtain c t where "ds = c # t" "isDigit c" by (cases ds) auto
    then show ?thesis
      unfolding Dec showNum_wf [OF assms [unfolded Dec] False] ds_def [symmetric] by simp
  qed
qed

lemma digit_ws: "c = 45 \<or> isDigit c \<Longrightarrow> \<not> isJsonWs c \<and> c \<notin> {93, 125, 123, 91, 34}"
  by (auto simp: isDigit_def isJsonWs_def word_le_nat_alt)

lemma stringify_hd:
  assumes "jsonWf v"
  shows "\<exists>c t. stringify v = c # t \<and> \<not> isJsonWs c \<and> c \<noteq> 93"
proof (cases v)
  case (JNum x)
  then show ?thesis using showNum_hd [of x] assms digit_ws by auto
qed (auto simp: js_simps quote_def isJsonWs_def)

lemma skipWs_stringify:
  assumes "jsonWf v"
  shows "skipWs (stringify v @ r) = stringify v @ r"
  using stringify_hd [OF assms] by (auto simp: skipWs_def)

lemma skipWs_Cons: "\<not> isJsonWs c \<Longrightarrow> skipWs (c # s) = c # s"
  by (simp add: skipWs_def)

lemma skipWs_punct [simp]:
  "skipWs (44 # s) = 44 # s" "skipWs (93 # s) = 93 # s" "skipWs (125 # s) = 125 # s"
  "skipWs (58 # s) = 58 # s" "skipWs (34 # s) = 34 # s" "skipWs (91 # s) = 91 # s"
  "skipWs (123 # s) = 123 # s"
  by (simp_all add: skipWs_def isJsonWs_def)

lemma numEnd_punct [simp]: "numEnd []" "numEnd (44 # s)" "numEnd (93 # s)" "numEnd (125 # s)"
  by (simp_all add: numEnd_def isDigit_def)

lemma parseElems_join:
  assumes "vs \<noteq> []"
    and IH: "\<And>v n r. v \<in> set vs \<Longrightarrow> numEnd r \<Longrightarrow> 2 * length (stringify v @ r) < n
           \<Longrightarrow> parseVal n (stringify v @ r) = Some (v, r)"
    and "2 * length (join [44] (map stringify vs) @ 93 # r) + 1 < n"
  shows "parseElems n (join [44] (map stringify vs) @ 93 # r) = Some (vs, r)"
  using assms
proof (induction vs arbitrary: n)
  case (Cons v vs)
  obtain m where n: "n = Suc m" using Cons.prems(3) by (cases n) auto
  show ?case
  proof (cases vs)
    case Nil
    have "parseVal m (stringify v @ 93 # r) = Some (v, 93 # r)"
      using Cons.prems(3) n Nil by (intro Cons.prems(2)) simp_all
    then show ?thesis using n Nil by simp
  next
    case (Cons w ws)
    let ?rest = "join [44] (map stringify vs) @ 93 # r"
    have split: "join [44] (map stringify (v # vs)) @ 93 # r = stringify v @ 44 # ?rest"
      using Cons by simp
    have len: "2 * length (stringify v @ 44 # ?rest) + 1 < n"
      using Cons.prems(3) unfolding split .
    have 1: "parseVal m (stringify v @ 44 # ?rest) = Some (v, 44 # ?rest)"
      using len n by (intro Cons.prems(2)) simp_all
    have 2: "parseElems m ?rest = Some (vs, r)"
      using len n Cons by (intro Cons.IH) (use Cons.prems(2) in auto)
    show ?thesis unfolding split using 1 2 n by simp
  qed
qed simp

lemma parseMembers_join:
  assumes "kvs \<noteq> []"
    and IH: "\<And>k v n r. (k, v) \<in> set kvs \<Longrightarrow> numEnd r \<Longrightarrow> 2 * length (stringify v @ r) < n
           \<Longrightarrow> parseVal n (stringify v @ r) = Some (v, r)"
    and "2 * length (join [44] (map (\<lambda>(k, v). quote k @ [58] @ stringify v) kvs) @ 125 # r) + 1 < n"
  shows "parseMembers n (join [44] (map (\<lambda>(k, v). quote k @ [58] @ stringify v) kvs) @ 125 # r)
    = Some (kvs, r)"
  using assms
proof (induction kvs arbitrary: n)
  case (Cons kv kvs)
  obtain k v where kv: "kv = (k, v)" by (cases kv)
  obtain m where n: "n = Suc m" using Cons.prems(3) by (cases n) auto
  let ?show = "map (\<lambda>(k, v). quote k @ [58] @ stringify v)"
  show ?case
  proof (cases kvs)
    case Nil
    have "parseVal m (stringify v @ 125 # r) = Some (v, 125 # r)"
      using Cons.prems(3) n Nil kv by (intro Cons.prems(2) [of k]) simp_all
    then show ?thesis using n Nil kv by (simp add: quote_def strBody_quoteBody)
  next
    case (Cons w ws)
    let ?rest = "join [44] (?show kvs) @ 125 # r"
    have split: "join [44] (?show (kv # kvs)) @ 125 # r = quote k @ 58 # stringify v @ 44 # ?rest"
      using Cons kv by simp
    have len: "2 * length (quote k @ 58 # stringify v @ 44 # ?rest) + 1 < n"
      using Cons.prems(3) unfolding split .
    have 1: "parseVal m (stringify v @ 44 # ?rest) = Some (v, 44 # ?rest)"
      using len n kv by (intro Cons.prems(2) [of k]) simp_all
    have 2: "parseMembers m ?rest = Some (kvs, r)"
      using len n Cons by (intro Cons.IH) (use Cons.prems(2) in auto)
    show ?thesis unfolding split using 1 2 n kv by (simp add: quote_def strBody_quoteBody)
  qed
qed simp

lemma join_stringify_hd:
  assumes "vs \<noteq> []" "list_all jsonWf vs"
  shows "\<exists>c t. skipWs (join [44] (map stringify vs) @ r) = c # t \<and> c \<noteq> 93"
proof -
  obtain v ws where vs: "vs = v # ws" using assms(1) by (cases vs) auto
  obtain c t where "stringify v = c # t" "\<not> isJsonWs c" "c \<noteq> 93"
    using stringify_hd [of v] assms(2) vs by auto
  then show ?thesis using vs by (cases ws) (auto simp: skipWs_Cons)
qed

lemma parseVal_stringify:
  "jsonWf v \<Longrightarrow> numEnd r \<Longrightarrow> 2 * length (stringify v @ r) < n \<Longrightarrow>
     parseVal n (stringify v @ r) = Some (v, r)"
proof (induction v arbitrary: n r)
  case JNull
  then show ?case
    by (cases n) (auto simp: js_simps skipWs_Cons isJsonWs_def isDigit_def parseWord_def startsWith_def)
next
  case (JBool b)
  then show ?case
    by (cases n) (auto simp: js_simps skipWs_Cons isJsonWs_def isDigit_def parseWord_def startsWith_def)
next
  case (JNum x)
  then obtain c t where ct: "showNum x = c # t" "c = 45 \<or> isDigit c" using showNum_hd [of x] by auto
  have "parseNumber (c # t @ r) = Some (JNum x, r)"
    using parse_showNum [of x r] JNum ct(1) by simp
  then show ?case using JNum digit_ws [OF ct(2)] ct by (cases n) (auto simp: skipWs_Cons)
next
  case (JStr s)
  then show ?case by (cases n) (auto simp: quote_def strBody_quoteBody)
next
  case (JArr vs)
  obtain m where n: "n = Suc m" using JArr.prems(3) by (cases n) auto
  show ?case
  proof (cases "vs = []")
    case True
    then show ?thesis using n by simp
  next
    case False
    have "parseElems m (join [44] (map stringify vs) @ 93 # r) = Some (vs, r)"
      using JArr n False by (intro parseElems_join) (auto simp: list_all_iff)
    then show ?thesis
      using join_stringify_hd [of vs "93 # r"] False JArr.prems(1) n by auto
  qed
next
  case (JObj kvs)
  obtain m where n: "n = Suc m" using JObj.prems(3) by (cases n) auto
  show ?case
  proof (cases "kvs = []")
    case True
    then show ?thesis using n JObj.prems by simp
  next
    case False
    let ?body = "join [44] (map (\<lambda>(k, v). quote k @ [58] @ stringify v) kvs) @ 125 # r"
    have "parseVal n' (stringify v @ r') = Some (v, r')"
      if "(k, v) \<in> set kvs" "numEnd r'" "2 * length (stringify v @ r') < n'" for k v n' r'
      using JObj.IH [of "(k, v)" v r' n'] JObj.prems(1) that by (auto simp: list_all_iff)
    then have "parseMembers m ?body = Some (kvs, r)"
      using JObj.prems n False by (intro parseMembers_join) auto
    moreover have "\<exists>t. ?body = 34 # t"
      using False by (cases kvs rule: list.exhaust; cases "tl kvs") (auto simp: quote_def)
    ultimately show ?thesis using JObj.prems(1) n by auto
  qed
qed

lemma jsonParse_stringify: "jsonWf v \<Longrightarrow> jsonParse (stringify v) = Some v"
  using parseVal_stringify [of v "[]" "2 * length (stringify v) + 2"]
  by (simp add: jsonParse_def skipWs_def)

section \<open>The fuel is enough\<close>

lemma dropWhile_le: "length (dropWhile P xs) \<le> length xs"
  by (induction xs) auto

lemma skipWs_le: "skipWs s = t \<Longrightarrow> length t \<le> length s"
  using dropWhile_le by (auto simp: skipWs_def)

lemma consFst_Some_le:
  "consFst x r = Some (ys, t) \<Longrightarrow> (\<And>xs. r = Some (xs, t) \<Longrightarrow> length t < n) \<Longrightarrow> length t < n"
  by (auto simp: consFst_eq_Some)

lemma strBody_less: "strBody s = Some (x, r) \<Longrightarrow> length r < length s"
proof (induction s arbitrary: x rule: length_induct)
  case (1 s)
  have IH: "length t < length s \<Longrightarrow> strBody t = Some (y, r) \<Longrightarrow> length r < length s" for t y
    using 1(1) by (meson less_trans)
  show ?case
  proof (cases s)
    case (Cons c t)
    then show ?thesis using 1(2) IH
      by (auto simp: consFst_eq_Some simp del: length_Cons split: if_splits list.splits option.splits; force)
  qed (use 1 in simp)
qed

lemma parseFrac_le: "parseFrac s = Some (x, r) \<Longrightarrow> length r \<le> length s"
  by (auto simp: parseFrac_def dropWhile_le le_SucI split: list.splits if_splits)

lemma parseExp_le: "parseExp s = Some (x, r) \<Longrightarrow> length r \<le> length s"
proof -
  assume a: "parseExp s = Some (x, r)"
  have tl: "length (dropWhile isDigit (tl t)) \<le> Suc (length t)" for t
    using dropWhile_le [of isDigit "tl t"] by simp
  from a show ?thesis
    by (auto simp: parseExp_def Let_def dropWhile_le le_SucI tl split: list.splits if_splits)
qed

lemma parseNumber_less: "parseNumber s = Some (x, r) \<Longrightarrow> length r < length s"
proof -
  assume a: "parseNumber s = Some (x, r)"
  define t where "t = (if s \<noteq> [] \<and> hd s = 45 then tl s else s)"
  have t: "length t \<le> length s" by (simp add: t_def)
  from a obtain u fp where ip: "takeWhile isDigit t \<noteq> []"
    and f: "parseFrac (dropWhile isDigit t) = Some (fp, u)" and e: "\<exists>ex. parseExp u = Some (ex, r)"
    by (auto simp: parseNumber_def Let_def t_def [symmetric] split: if_splits option.splits)
  have "length t = length (takeWhile isDigit t) + length (dropWhile isDigit t)"
    by (metis length_append takeWhile_dropWhile_id)
  moreover have "0 < length (takeWhile isDigit t)" using ip by simp
  moreover have "length r \<le> length u" using e parseExp_le by blast
  ultimately show ?thesis using parseFrac_le [OF f] t by linarith
qed

lemma parseWord_less: "parseWord s = Some (x, r) \<Longrightarrow> length r < length s"
  by (cases s) (auto simp: parseWord_def startsWith_def js_simps split: if_splits)

lemma parse_less:
  "parseVal n s = Some (v, r) \<Longrightarrow> length r < length s"
  "parseElems n s = Some (vs, r) \<Longrightarrow> length r < length s"
  "parseMembers n s = Some (kvs, r) \<Longrightarrow> length r < length s"
proof (induction n s and n s and n s arbitrary: v r and vs r and kvs r
    rule: parseVal_parseElems_parseMembers.induct)
  case (2 n s)
  obtain c t where ct: "skipWs s = c # t" using "2.prems" by (auto split: list.splits)
  have le: "Suc (length t) \<le> length s" using skipWs_le [OF ct] by simp
  have t: "skipWs t = d # u \<Longrightarrow> length u < length t" for d u using skipWs_le [of t "d # u"] by simp
  show ?case
    using "2.prems" ct le parseNumber_less [of "c # t"] parseWord_less [of "c # t"]
      strBody_less [of t] "2.IH" [OF ct] t
    by (auto split: list.splits if_splits option.splits; fastforce)
next
  case (4 n s)
  then obtain v' r' where v: "parseVal n s = Some (v', r')" by (auto split: option.splits)
  then have r': "length r' < length s" using "4.IH"(1) by blast
  obtain c t where ct: "skipWs r' = c # t" using "4.prems" v by (auto split: list.splits)
  have le: "length t < length r'" using skipWs_le [OF ct] by simp
  show ?case using "4.prems" v ct le r' "4.IH"(2) [OF v _ ct]
    by (auto simp: consFst_eq_Some split: if_splits; fastforce)
next
  case (6 n s)
  obtain c t where ct: "skipWs s = c # t" "c = 34"
    using "6.prems" by (auto split: list.splits if_splits)
  obtain k r1 where k: "strBody t = Some (k, r1)" using "6.prems" ct by (auto split: option.splits)
  obtain t1 where t1: "skipWs r1 = 58 # t1" using "6.prems" ct k by (auto split: list.splits if_splits)
  obtain w r2 where w: "parseVal n t1 = Some (w, r2)" using "6.prems" ct k t1 by (auto split: option.splits)
  obtain d t2 where t2: "skipWs r2 = d # t2" using "6.prems" ct k t1 w by (auto split: list.splits)
  have "length r2 < length t1" using "6.IH"(1) ct k t1 w by blast
  moreover have "length t < length s" "length r1 < length t" "length t1 < length r1" "length t2 < length r2"
    using skipWs_le [OF ct(1)] strBody_less [OF k] skipWs_le [OF t1] skipWs_le [OF t2] by simp_all
  moreover have "consFst (k, w) (parseMembers n t2) = Some (kvs, r) \<Longrightarrow> length r < length t2"
    if "d = 44" using "6.IH"(2) that ct k t1 w t2 by (auto simp: consFst_eq_Some)
  ultimately show ?case using "6.prems" ct k t1 w t2 by (auto split: if_splits)
qed simp_all

lemma parse_stable:
  "parseVal n s = Some a \<Longrightarrow> 2 * length s + 1 \<le> m \<Longrightarrow> parseVal m s = Some a"
  "parseElems n s = Some b \<Longrightarrow> 2 * length s + 2 \<le> m \<Longrightarrow> parseElems m s = Some b"
  "parseMembers n s = Some c \<Longrightarrow> 2 * length s + 2 \<le> m \<Longrightarrow> parseMembers m s = Some c"
proof (induction n s and n s and n s arbitrary: a m and b m and c m
    rule: parseVal_parseElems_parseMembers.induct)
  case (2 n s)
  obtain c t where ct: "skipWs s = c # t" using "2.prems" by (auto split: list.splits)
  obtain k where m: "m = Suc k" "2 * length t + 2 \<le> k"
    using "2.prems"(2) skipWs_le [OF ct] by (cases m) auto
  show ?case
  proof (cases "c = 123 \<or> c = 91")
    case True
    obtain d u where du: "skipWs t = d # u"
      using "2.prems"(1) ct True by (auto split: list.splits)
    show ?thesis
    proof (cases "c = 123")
      case True
      with "2.IH"(1) [OF ct] du m(2)
      have "d \<noteq> 125 \<Longrightarrow> parseMembers n t = Some x \<Longrightarrow> parseMembers k t = Some x" for x by blast
      then show ?thesis using "2.prems"(1) ct du True m(1) by (cases "d = 125") (auto split: option.splits)
    next
      case False
      with "2.IH"(2) [OF ct] du m(2) \<open>c = 123 \<or> c = 91\<close>
      have "d \<noteq> 93 \<Longrightarrow> parseElems n t = Some x \<Longrightarrow> parseElems k t = Some x" for x by blast
      then show ?thesis using "2.prems"(1) ct du False \<open>c = 123 \<or> c = 91\<close> m(1)
        by (cases "d = 93") (auto split: option.splits)
    qed
  qed (use "2.prems"(1) ct m(1) in simp)
next
  case (4 n s)
  obtain v r where v: "parseVal n s = Some (v, r)" using "4.prems"(1) by (auto split: option.splits)
  obtain c t where ct: "skipWs r = c # t" using "4.prems" v by (auto split: list.splits)
  obtain k where m: "m = Suc k" "2 * length s + 1 \<le> k" using "4.prems"(2) by (cases m) auto
  have "parseVal k s = Some (v, r)" using "4.IH"(1) v m by blast
  moreover have "2 * length t + 2 \<le> k" using m parse_less(1) [OF v] skipWs_le [OF ct] by simp
  moreover have "parseElems n t = Some x \<Longrightarrow> parseElems k t = Some x" if "c = 44" for x
    using "4.IH"(2) that v ct calculation(2) by blast
  ultimately show ?case using "4.prems"(1) v ct m(1)
    by (auto simp: consFst_def split: if_splits)
next
  case (6 n s)
  obtain d t where ct: "skipWs s = d # t" "d = 34"
    using "6.prems" by (auto split: list.splits if_splits)
  obtain k r1 where k: "strBody t = Some (k, r1)" using "6.prems" ct by (auto split: option.splits)
  obtain t1 where t1: "skipWs r1 = 58 # t1" using "6.prems" ct k by (auto split: list.splits if_splits)
  obtain w r2 where w: "parseVal n t1 = Some (w, r2)" using "6.prems" ct k t1 by (auto split: option.splits)
  obtain e t2 where t2: "skipWs r2 = e # t2" using "6.prems" ct k t1 w by (auto split: list.splits)
  obtain j where m: "m = Suc j" "2 * length s + 1 \<le> j" using "6.prems"(2) by (cases m) auto
  have "length t < length s" "length r1 < length t" "length t1 < length r1" "length t2 < length r2"
    using skipWs_le [OF ct(1)] strBody_less [OF k] skipWs_le [OF t1] skipWs_le [OF t2] by simp_all
  then have j: "2 * length t1 + 1 \<le> j" "2 * length t2 + 2 \<le> j"
    using m parse_less(1) [OF w] by simp_all
  have "parseVal j t1 = Some (w, r2)" using "6.IH"(1) ct k t1 w j(1) by blast
  moreover have "parseMembers n t2 = Some x \<Longrightarrow> parseMembers j t2 = Some x" if "e = 44" for x
    using "6.IH"(2) that ct k t1 w t2 j(2) by blast
  ultimately show ?case using "6.prems"(1) ct k t1 w t2 m
    by (auto simp: consFst_def split: if_splits)
qed simp_all

text \<open>More fuel never changes the verdict on a text.\<close>

lemma parseVal_fuel:
  assumes "2 * length s + 2 \<le> n"
  shows "parseVal n s = parseVal (2 * length s + 2) s"
proof (cases "parseVal n s")
  case None
  show ?thesis
  proof (cases "parseVal (2 * length s + 2) s")
    case (Some a)
    then show ?thesis using parse_stable(1) [OF Some, of n] assms by simp
  qed (simp add: None)
next
  case (Some a)
  then show ?thesis using parse_stable(1) [OF Some, of "2 * length s + 2"] by simp
qed

end
