(* ===== verification/JsonShared.thy ===== *)
theory JsonShared
  imports Shared Json
begin

text \<open>
  What the JSON parsers share: reading an \<^verbatim>\<open>unknown\<close> of \<^verbatim>\<open>JSON.parse\<close> without trusting its
  shape, and collecting the outcomes of the records in order. \<open>None\<close> stands for
  \<^verbatim>\<open>undefined\<close>. Each parser of the source has its own copy of \<^verbatim>\<open>asObject\<close>,
  \<^verbatim>\<open>stringOf\<close> and (two of them) \<^verbatim>\<open>scalarText\<close>, with the same bodies.
\<close>

fun asObject :: "json option \<Rightarrow> (jstr \<times> json) list option" where
  "asObject (Some (JObj kvs)) = Some kvs"
| "asObject v = None"

fun stringOf :: "json option \<Rightarrow> jstr" where
  "stringOf (Some (JStr s)) = s"
| "stringOf v = []"

fun asArray :: "json option \<Rightarrow> json list option" where
  "asArray (Some (JArr vs)) = Some vs"
| "asArray v = None"

fun scalarText :: "json option \<Rightarrow> jstr" where
  "scalarText (Some (JStr s)) = s"
| "scalarText (Some (JNum n)) = showNum n"
| "scalarText (Some (JBool b)) = (if b then js ''true'' else js ''false'')"
| "scalarText v = []"

text \<open>\<^verbatim>\<open>source["key"]\<close>.\<close>

definition jprop :: "(jstr \<times> json) list \<Rightarrow> string \<Rightarrow> json option" where
  "jprop source k = map_of source (js k)"

text \<open>The \<^verbatim>\<open>forEach\<close> of a parser: one outcome per record, errors and items kept in order.\<close>

definition collectOutcomes :: "RowOutcome list \<Rightarrow> ImportResult" where
  "collectOutcomes outcomes =
     (let (items, errors) = mapRowsLoop (\<lambda>x. 0) {} (\<lambda>x. x) outcomes ([], [])
      in \<lparr> rs_items = items, rs_errors = errors \<rparr>)"

definition failResult :: "string \<Rightarrow> ImportResult" where
  "failResult message = \<lparr> rs_items = [], rs_errors = [rowError 1 (js message)] \<rparr>"

abbreviation notJson :: ImportResult where
  "notJson \<equiv> failResult ''This file is not valid JSON, so nothing could be read from it''"

text \<open>The password of a flat record.\<close>

definition jsonPassword :: "json \<Rightarrow> jstr option" where
  "jsonPassword raw =
     (case asObject (Some raw) of
        None \<Rightarrow> None
      | Some src \<Rightarrow> (case jprop src ''password'' of Some (JStr p) \<Rightarrow> Some p | _ \<Rightarrow> None))"

text \<open>\<^verbatim>\<open>Item N ("name")\<close>, the label three parsers put before a refusal.\<close>

definition itemLabel :: "nat \<Rightarrow> jstr \<Rightarrow> jstr" where
  "itemLabel position name =
     (let lead = js ''Item '' @ showNat position in
      if name = [] then lead else lead @ js '' ('' @ [34] @ name @ [34] @ js '')'')"

text \<open>\<^verbatim>\<open>object?.["key"]\<close> on an object that may be \<^verbatim>\<open>null\<close>.\<close>

definition optProp :: "(jstr \<times> json) list option \<Rightarrow> string \<Rightarrow> json option" where
  "optProp source k = (case source of None \<Rightarrow> None | Some src \<Rightarrow> jprop src k)"

lemma asObject_eq_Some: "asObject v = Some kvs \<longleftrightarrow> v = Some (JObj kvs)"
  by (cases v rule: asObject.cases) auto

lemma failResult_items [simp]: "rs_items (failResult m) = []"
  by (simp add: failResult_def)

lemma collectOutcomes_eq:
  "collectOutcomes (map f rows) = \<lparr> rs_items = acceptedItems f rows, rs_errors = refusals f rows \<rparr>"
  by (simp add: collectOutcomes_def mapRowsLoop_eq acceptedItems_def refusals_def comp_def)

context row_parser
begin

lemma collected_from:
  assumes "it \<in> set (rs_items (collectOutcomes (map rowItem rows)))"
  obtains r where "r \<in> set rows" "rowItem r = Inr it" "it_sourceRow it = lineOf r"
    "it_type it = Login \<Longrightarrow> passwordOf r = Some (it_password it) \<and> it_password it \<noteq> []"
  using assms by (auto simp: collectOutcomes_eq acceptedItems_mem item_line login_password)

lemma collected_login_has_password:
  "it \<in> set (rs_items (collectOutcomes (map rowItem rows))) \<Longrightarrow> it_type it = Login \<Longrightarrow> it_password it \<noteq> []"
  by (erule collected_from) simp

lemma collected_accounted:
  "length (rs_items (collectOutcomes (map rowItem rows))) +
   length (rs_errors (collectOutcomes (map rowItem rows))) = length rows"
  using accepted_refused_length [of rowItem rows] by (simp add: collectOutcomes_eq)

end

end
