(* ===== verification/Dashlane.thy ===== *)
theory Dashlane
  imports JsonShared
begin

text \<open>
  The Dashlane exports (\<^verbatim>\<open>packages/vault/src/import/parsers/dashlane.ts\<close>): the credentials
  CSV and the JSON of record lists.
\<close>

definition dashlaneCsvItem :: "Columns \<Rightarrow> nat \<Rightarrow> CsvRow \<Rightarrow> RowOutcome" where
  "dashlaneCsvItem columns width row =
     (let get = (\<lambda>c. colValue columns row (Some (js c)));
          put = (\<lambda>it c k. carry it (colSourceName columns (js c)) (get c) k)
      in case surplusFieldsError row width of
        Some e \<Rightarrow> Inl e
      | None \<Rightarrow>
          bindR (requiredPassword (rw_line row) (get ''password''))
            (\<lambda>password.
               let url = orElse (get ''url'') [];
                   item = (blankImportItem (rw_line row))\<lparr>
                     it_name := orElse (get ''title'') [],
                     it_username := orElse (get ''username'') [],
                     it_password := password,
                     it_urls := (if url = [] then [] else [url]),
                     it_notes := orElse (get ''note'') [],
                     it_folderPath := flatFolder (get ''category'') \<rparr>
               in Inr (put (put (put item ''username2'' Custom) ''username3'' Custom) ''otpsecret'' Totp)))"

definition parseDashlaneCsv :: "jstr \<Rightarrow> ImportResult" where
  "parseDashlaneCsv s =
     (let table = parseCsv s; columns = indexColumns (tb_header table) in
      if \<not> colHas columns (js ''title'') \<or> \<not> colHas columns (js ''password'')
      then unfitResult ''This file has no title and password columns, so it is not a Dashlane credentials CSV'' table
      else mapCsvRows rw_line (tb_rows table) (tb_errors table)
             (dashlaneCsvItem columns (length (tb_header table))))"

record RecordList =
  rl_key :: jstr
  rl_kind :: "ImportItemType option"
  rl_described :: jstr

definition recordList :: "string \<Rightarrow> ImportItemType option \<Rightarrow> string \<Rightarrow> RecordList" where
  "recordList key kind described = \<lparr> rl_key = js key, rl_kind = kind, rl_described = js described \<rparr>"

definition RECORD_LISTS :: "RecordList list" where
  "RECORD_LISTS =
     [recordList ''AUTHENTIFIANT'' (Some Login) ''login'',
      recordList ''SECURENOTE'' (Some Note) ''secure note'',
      recordList ''PAYMENTMEANS_CREDITCARD'' None ''credit card'',
      recordList ''PAYMENTMEAN_PAYPAL'' None ''PayPal account'',
      recordList ''BANKSTATEMENT'' None ''bank account'',
      recordList ''ADDRESS'' None ''address'',
      recordList ''IDCARD'' None ''identity document'',
      recordList ''IDENTITY'' None ''identity'',
      recordList ''EMAIL'' None ''email account'']"

definition dashlaneTitle :: "(jstr \<times> json) list \<Rightarrow> jstr" where
  "dashlaneTitle source =
     (let title = stringOf (jprop source ''title'') in
      if title = [] then stringOf (jprop source ''name'') else title)"

definition dashlaneLabel :: "RecordList \<Rightarrow> nat \<Rightarrow> jstr \<Rightarrow> jstr" where
  "dashlaneLabel list i title =
     (let lead = rl_key list @ js '' item '' @ showNat i in
      if title = [] then lead else lead @ js '' ('' @ [34] @ title @ [34] @ js '')'')"

definition dashlaneJsonRecord :: "json \<Rightarrow> RecordList \<Rightarrow> nat \<Rightarrow> nat \<Rightarrow> RowOutcome" where
  "dashlaneJsonRecord raw list i position =
     (let source = asObject (Some raw);
          title = (case source of None \<Rightarrow> [] | Some src \<Rightarrow> dashlaneTitle src);
          label = dashlaneLabel list i title;
          refuse = (\<lambda>message. Inl (rowError position (label @ message)))
      in case source of
           None \<Rightarrow> refuse (js '' is not an object, so it could not be read'')
         | Some src \<Rightarrow>
             (case rl_kind list of
                None \<Rightarrow>
                  refuse (js '' is a Dashlane '' @ rl_described list @
                    js '', which Keyhole cannot import yet, so it was not imported'')
              | Some kind \<Rightarrow>
                  (let item = (blankImportItem position)\<lparr> it_type := kind, it_name := title \<rparr> in
                   if kind = Note then Inr (item\<lparr> it_notes := stringOf (jprop src ''content'') \<rparr>)
                   else case jprop src ''password'' of
                       Some (JStr password) \<Rightarrow>
                         if password = [] then refuse (js '' has an empty password, so it was not imported'')
                         else
                           (let login = stringOf (jprop src ''login''); email = stringOf (jprop src ''email'');
                                username = (if login = [] then email else login);
                                url0 = stringOf (jprop src ''url'');
                                url = (if url0 \<noteq> [] then url0 else stringOf (jprop src ''domain''));
                                item1 = item\<lparr> it_username := username, it_password := password,
                                  it_notes := stringOf (jprop src ''note''),
                                  it_folderPath := flatFolder (Some (stringOf (jprop src ''category''))),
                                  it_urls := (if url \<noteq> [] then [url] else []) \<rparr>;
                                item2 = (if email \<noteq> [] \<and> email \<noteq> username
                                         then carry item1 (js ''email'') (Some email) Custom else item1)
                            in Inr (carry item2 (js ''otpSecret'') (Some (stringOf (jprop src ''otpSecret''))) Totp))
                     | _ \<Rightarrow> refuse (js '' has no password, so it was not imported''))))"

text \<open>The records of the lists that are present, numbered across lists and within each.\<close>

definition dashlaneEntries :: "(jstr \<times> json) list \<Rightarrow> RecordList list \<Rightarrow> (nat \<times> RecordList \<times> nat \<times> json) list" where
  "dashlaneEntries root rls =
     enumerate 1 (concat (map (\<lambda>list.
        case asArray (map_of root (rl_key list)) of
          None \<Rightarrow> []
        | Some records \<Rightarrow> map (\<lambda>(i, raw). (list, i, raw)) (enumerate 1 records)) rls))"

definition dashlaneEntry :: "nat \<times> RecordList \<times> nat \<times> json \<Rightarrow> RowOutcome" where
  "dashlaneEntry e = (case e of (position, list, i, raw) \<Rightarrow> dashlaneJsonRecord raw list i position)"

definition parseDashlaneJson :: "jstr \<Rightarrow> ImportResult" where
  "parseDashlaneJson s =
     (case jsonParse s of
        None \<Rightarrow> notJson
      | Some body \<Rightarrow>
          (let root = orElse (asObject (Some body)) [];
               present = filter (\<lambda>list. asArray (map_of root (rl_key list)) \<noteq> None) RECORD_LISTS
           in if present = []
              then failResult ''This file has none of Dashlane's record lists, so it is not a Dashlane JSON export''
              else collectOutcomes (map dashlaneEntry (dashlaneEntries root present))))"

section \<open>Both mappings keep the contract\<close>

lemma dashlaneCsvItem_Inr:
  assumes "dashlaneCsvItem columns width row = Inr it"
  shows "it_sourceRow it = rw_line row" "it_type it = Login" "it_password it \<noteq> []"
    "colValue columns row (Some (js ''password'')) = Some (it_password it)"
  using assms
  by (auto simp: dashlaneCsvItem_def bindR_eq_Inr requiredPassword_Inr Let_def split: option.splits)

interpretation dashlane_csv: row_parser rw_line "\<lambda>row. colValue columns row (Some (js ''password''))"
  "dashlaneCsvItem columns width" for columns width
proof
  fix r e assume "dashlaneCsvItem columns width r = Inl e"
  then show "er_row e = rw_line r"
    by (auto simp: dashlaneCsvItem_def bindR_def Let_def row_intro split: option.splits sum.splits)
qed (auto simp: dashlaneCsvItem_Inr)

lemma dashlaneJsonRecord_Inr:
  assumes "dashlaneJsonRecord raw list i n = Inr it"
  shows "it_sourceRow it = n" "it_type it = Login \<Longrightarrow> jsonPassword raw = Some (it_password it)"
    "it_type it = Login \<Longrightarrow> it_password it \<noteq> []"
  using assms
  by (auto simp: dashlaneJsonRecord_def Let_def jsonPassword_def split: option.splits if_splits json.splits)

interpretation dashlane_json: row_parser fst "\<lambda>(n, list, i, raw). jsonPassword raw" dashlaneEntry
proof
  fix r e assume "dashlaneEntry r = Inl e"
  then show "er_row e = fst r"
    by (auto simp: dashlaneEntry_def dashlaneJsonRecord_def Let_def
        split: option.splits if_splits json.splits prod.splits)
qed (auto simp: dashlaneEntry_def dashlaneJsonRecord_Inr)

lemma dashlane_imported:
  "it \<in> set (rs_items (parseDashlaneCsv s)) \<Longrightarrow> it_type it = Login \<Longrightarrow> it_password it \<noteq> []"
  "it \<in> set (rs_items (parseDashlaneJson s)) \<Longrightarrow> it_type it = Login \<Longrightarrow> it_password it \<noteq> []"
  using dashlane_csv.login_has_password dashlane_json.collected_login_has_password
  by (auto simp: parseDashlaneCsv_def parseDashlaneJson_def Let_def split: if_splits option.splits)

end
