(* ===== verification/Keeper.thy ===== *)
theory Keeper
  imports JsonShared
begin

text \<open>
  The Keeper exports (\<^verbatim>\<open>packages/vault/src/import/parsers/keeper.ts\<close>): the CSV without a
  header, read by position, and the JSON of records.
\<close>

abbreviation (input) FOLDER :: nat where "FOLDER \<equiv> 0"
abbreviation (input) TITLE :: nat where "TITLE \<equiv> 1"
abbreviation (input) LOGIN :: nat where "LOGIN \<equiv> 2"
abbreviation (input) PASSWORD :: nat where "PASSWORD \<equiv> 3"
abbreviation (input) URL :: nat where "URL \<equiv> 4"
abbreviation (input) NOTES :: nat where "NOTES \<equiv> 5"
abbreviation (input) CUSTOM_FIELDS :: nat where "CUSTOM_FIELDS \<equiv> 6"

fun customPairs :: "jstr list \<Rightarrow> (jstr \<times> jstr) list" where
  "customPairs [] = []"
| "customPairs [name] = [(name, [])]"
| "customPairs (name # v # trailing) = (name, v) # customPairs trailing"

definition carryCustomFields :: "ImportItem \<Rightarrow> CsvRecord \<Rightarrow> ImportItem" where
  "carryCustomFields item rec =
     item\<lparr> it_extra := it_extra item @
       map (\<lambda>(name, v). importField (if name = [] then js ''(unnamed field)'' else name) v Custom)
         (filter (\<lambda>(name, v). \<not> (name = [] \<and> v = [])) (customPairs (drop CUSTOM_FIELDS (cr_values rec)))) \<rparr>"

definition keeperCsvRecord :: "CsvRecord \<Rightarrow> RowOutcome" where
  "keeperCsvRecord rec =
     (let get = at (cr_values rec) in
      bindR (requiredPassword (cr_line rec) (get PASSWORD))
        (\<lambda>password.
           let url = orElse (get URL) [];
               item = (blankImportItem (cr_line rec))\<lparr>
                 it_name := orElse (get TITLE) [],
                 it_username := orElse (get LOGIN) [],
                 it_password := password,
                 it_urls := (if url = [] then [] else [url]),
                 it_notes := orElse (get NOTES) [],
                 it_folderPath := folderSegments (orElse (get FOLDER) []) [92] \<rparr>
           in Inr (carryCustomFields item rec)))"

definition parseKeeperCsv :: "jstr \<Rightarrow> ImportResult" where
  "parseKeeperCsv s =
     (let (rows, errors) = parseCsvRecords s in mapCsvRows cr_line rows errors keeperCsvRecord)"

definition keeperFolders :: "json option \<Rightarrow> jstr list" where
  "keeperFolders v =
     (case asArray v of
        None \<Rightarrow> []
      | Some entries \<Rightarrow>
          concat (map (\<lambda>entry.
            case asObject (Some entry) of
              None \<Rightarrow> []
            | Some folder \<Rightarrow>
                (let own = stringOf (jprop folder ''folder'');
                     path = (if own \<noteq> [] then own else stringOf (jprop folder ''shared_folder''))
                 in if path \<noteq> [] then [path] else [])) entries))"

definition carryCustomObject :: "ImportItem \<Rightarrow> json option \<Rightarrow> ImportItem" where
  "carryCustomObject item v =
     (case asObject v of
        None \<Rightarrow> item
      | Some entries \<Rightarrow>
          fold (\<lambda>(name, content) it.
            carry it name (Some (stringOf (Some content)))
              (if name = js ''$oneTimeCode'' then Totp else Custom)) entries item)"

definition keeperLabel :: "nat \<Rightarrow> jstr \<Rightarrow> jstr" where
  "keeperLabel position title =
     (let lead = js ''Record '' @ showNat position in
      if title = [] then lead else lead @ js '' ('' @ [34] @ title @ [34] @ js '')'')"

definition keeperJsonRecord :: "nat \<times> json \<Rightarrow> RowOutcome" where
  "keeperJsonRecord entry =
     (let position = fst entry in
      case asObject (Some (snd entry)) of
        None \<Rightarrow>
          Inl (rowError position (js ''Record '' @ showNat position @ js '' is not an object, so it could not be read''))
      | Some source \<Rightarrow>
          (let title = stringOf (jprop source ''title'');
               refuse = (\<lambda>message. Inl (rowError position (keeperLabel position title @ js message)))
           in case jprop source ''password'' of
                Some (JStr password) \<Rightarrow>
                  if password = [] then refuse '' has an empty password, so it was not imported''
                  else
                    (let url = stringOf (jprop source ''login_url'');
                         folders = keeperFolders (jprop source ''folders'');
                         item = (blankImportItem position)\<lparr>
                           it_name := title,
                           it_username := stringOf (jprop source ''login''),
                           it_password := password,
                           it_notes := stringOf (jprop source ''notes''),
                           it_urls := (if url \<noteq> [] then [url] else []),
                           it_folderPath := (case folders of [] \<Rightarrow> [] | first # others \<Rightarrow> folderSegments first [92]) \<rparr>
                     in Inr (carryCustomObject
                          (carry item (js ''folders'') (Some (join (js '', '') (drop 1 folders))) Metadata)
                          (jprop source ''custom_fields'')))
              | _ \<Rightarrow> refuse '' has no password, so it was not imported''))"

definition parseKeeperJson :: "jstr \<Rightarrow> ImportResult" where
  "parseKeeperJson s =
     (case jsonParse s of
        None \<Rightarrow> notJson
      | Some body \<Rightarrow>
          (case asArray (jprop (orElse (asObject (Some body)) []) ''records'') of
             None \<Rightarrow> failResult ''This file has no records array, so it is not a Keeper JSON export''
           | Some records \<Rightarrow> collectOutcomes (map keeperJsonRecord (enumerate 1 records))))"

section \<open>Both mappings keep the contract\<close>

lemma keeperCsvRecord_Inr:
  assumes "keeperCsvRecord rec = Inr it"
  shows "it_sourceRow it = cr_line rec" "it_type it = Login" "it_password it \<noteq> []"
    "at (cr_values rec) PASSWORD = Some (it_password it)"
  using assms
  by (auto simp: keeperCsvRecord_def bindR_eq_Inr requiredPassword_Inr Let_def carryCustomFields_def)

interpretation keeper_csv: row_parser cr_line "\<lambda>rec. at (cr_values rec) PASSWORD" keeperCsvRecord
proof
  fix r e assume "keeperCsvRecord r = Inl e"
  then show "er_row e = cr_line r"
    by (auto simp: keeperCsvRecord_def bindR_def Let_def row_intro split: sum.splits)
qed (auto simp: keeperCsvRecord_Inr)

lemma carryCustomObject_simps [simp]:
  "it_type (carryCustomObject it v) = it_type it"
  "it_password (carryCustomObject it v) = it_password it"
  "it_sourceRow (carryCustomObject it v) = it_sourceRow it"
proof -
  have "it_type (fold (\<lambda>(n, c) it. carry it n (f c) (k n)) ps it) = it_type it \<and>
      it_password (fold (\<lambda>(n, c) it. carry it n (f c) (k n)) ps it) = it_password it \<and>
      it_sourceRow (fold (\<lambda>(n, c) it. carry it n (f c) (k n)) ps it) = it_sourceRow it"
    for f :: "json \<Rightarrow> jstr option" and k ps
    by (induction ps arbitrary: it) (auto split: prod.split)
  then show "it_type (carryCustomObject it v) = it_type it"
    "it_password (carryCustomObject it v) = it_password it"
    "it_sourceRow (carryCustomObject it v) = it_sourceRow it"
    by (auto simp: carryCustomObject_def split: option.split)
qed

lemma keeperJsonRecord_Inr:
  assumes "keeperJsonRecord e = Inr it"
  shows "it_sourceRow it = fst e" "it_type it = Login" "jsonPassword (snd e) = Some (it_password it)"
    "it_password it \<noteq> []"
  using assms
  by (auto simp: keeperJsonRecord_def Let_def jsonPassword_def split: option.splits if_splits json.splits)

interpretation keeper_json: row_parser fst "\<lambda>e. jsonPassword (snd e)" keeperJsonRecord
proof
  fix r e assume "keeperJsonRecord r = Inl e"
  then show "er_row e = fst r"
    by (auto simp: keeperJsonRecord_def Let_def split: option.splits if_splits json.splits)
qed (auto simp: keeperJsonRecord_Inr)

lemma keeper_imported:
  "it \<in> set (rs_items (parseKeeperCsv s)) \<Longrightarrow> it_type it = Login \<Longrightarrow> it_password it \<noteq> []"
  "it \<in> set (rs_items (parseKeeperJson s)) \<Longrightarrow> it_type it = Login \<Longrightarrow> it_password it \<noteq> []"
  using keeper_csv.login_has_password keeper_json.collected_login_has_password
  by (auto simp: parseKeeperCsv_def parseKeeperJson_def Let_def split: option.splits prod.splits)

end
