(* ===== verification/Bitwarden.thy ===== *)
theory Bitwarden
  imports JsonShared
begin

text \<open>
  The Bitwarden exports (\<^verbatim>\<open>packages/vault/src/import/parsers/bitwarden.ts\<close>): the JSON, with
  its folders and collections named by id, and the CSV.
\<close>

definition ENCRYPTED_EXPORT :: string where
  "ENCRYPTED_EXPORT = ''This is an encrypted Bitwarden export, which cannot be read without your Bitwarden password. Export it again with the file format set to .json rather than .json (Encrypted), and upload that file.''"

definition JSON_KINDS :: "(jnum, ImportItemType) jmap" where
  "JSON_KINDS = [(jint 1, Login), (jint 2, Note)]"

definition JSON_UNSUPPORTED :: "(jnum, jstr) jmap" where
  "JSON_UNSUPPORTED = [(jint 3, js ''card''), (jint 4, js ''identity''), (jint 5, js ''SSH key'')]"

definition CSV_KINDS :: "(jstr, ImportItemType) jmap" where
  "CSV_KINDS =
     [(js ''login'', Login), (js ''note'', Note), (js ''securenote'', Note), (js ''secure note'', Note)]"

definition repromptText :: "json option \<Rightarrow> jstr" where
  "repromptText v =
     (let t = scalarText v in if t = [] \<or> t = js ''0'' \<or> t = js ''false'' then [] else t)"

definition namesById :: "json option \<Rightarrow> (jstr, jstr) jmap" where
  "namesById v =
     (case asArray v of
        None \<Rightarrow> []
      | Some entries \<Rightarrow>
          fold (\<lambda>entry names.
            case asObject (Some entry) of
              None \<Rightarrow> names
            | Some folder \<Rightarrow>
                (case (jprop folder ''id'', jprop folder ''name'') of
                   (Some (JStr i), Some (JStr n)) \<Rightarrow> mapSetNew names i n
                 | _ \<Rightarrow> names)) entries [])"

definition bitwardenUrls :: "json option \<Rightarrow> jstr list" where
  "bitwardenUrls v =
     (case asArray v of
        None \<Rightarrow> []
      | Some entries \<Rightarrow>
          concat (map (\<lambda>entry.
            case jprop (orElse (asObject (Some entry)) []) ''uri'' of
              Some (JStr uri) \<Rightarrow> if uri \<noteq> [] then [uri] else []
            | _ \<Rightarrow> []) entries))"

definition carryFields :: "ImportItem \<Rightarrow> json option \<Rightarrow> ImportItem" where
  "carryFields item v =
     (case asArray v of
        None \<Rightarrow> item
      | Some entries \<Rightarrow>
          fold (\<lambda>entry it.
            case asObject (Some entry) of
              None \<Rightarrow> it
            | Some f \<Rightarrow>
                (let name = stringOf (jprop f ''name'') in
                 carry it (if name = [] then js ''(unnamed field)'' else name)
                   (Some (scalarText (jprop f ''value''))) Custom)) entries item)"

definition carryCollections :: "ImportItem \<Rightarrow> json option \<Rightarrow> (jstr, jstr) jmap \<Rightarrow> ImportItem" where
  "carryCollections item ids collections =
     (case asArray ids of
        None \<Rightarrow> item
      | Some entries \<Rightarrow>
          (let named = concat (map (\<lambda>entry.
                 case entry of
                   JStr i \<Rightarrow> if i = [] then [] else [orElse (mapGet collections i) i]
                 | _ \<Rightarrow> []) entries)
           in carry item (js ''collections'') (Some (join (js '', '') named)) Metadata))"

text \<open>The part of \<^verbatim>\<open>jsonItem\<close> after the login details: folder, collections, fields, reprompt.\<close>

definition bitwardenFinish ::
  "(jstr \<times> json) list \<Rightarrow> (jstr, jstr) jmap \<Rightarrow> (jstr, jstr) jmap \<Rightarrow> ImportItem \<Rightarrow> ImportItem" where
  "bitwardenFinish source folders collections item =
     (let placed =
            (case jprop source ''folderId'' of
               Some (JStr folderId) \<Rightarrow>
                 if folderId = [] then item
                 else (case mapGet folders folderId of
                         None \<Rightarrow> carry item (js ''folderId'') (Some folderId) Metadata
                       | Some folderName \<Rightarrow> item\<lparr> it_folderPath := folderSegments folderName (js ''/'') \<rparr>)
             | _ \<Rightarrow> item)
      in carry (carryFields (carryCollections placed (jprop source ''collectionIds'') collections)
                  (jprop source ''fields''))
           (js ''reprompt'') (Some (repromptText (jprop source ''reprompt''))) Metadata)"

definition bitwardenJsonItem ::
  "(jstr, jstr) jmap \<Rightarrow> (jstr, jstr) jmap \<Rightarrow> nat \<times> json \<Rightarrow> RowOutcome" where
  "bitwardenJsonItem folders collections entry =
     (let position = fst entry in
      case asObject (Some (snd entry)) of
        None \<Rightarrow>
          Inl (rowError position (js ''Item '' @ showNat position @ js '' is not an object, so it could not be read''))
      | Some source \<Rightarrow>
          (let name = stringOf (jprop source ''name'');
               label = itemLabel position name;
               refuse = (\<lambda>message. Inl (rowError position (label @ js message)))
           in case jprop source ''type'' of
                Some (JNum kindNumber) \<Rightarrow>
                  (case mapGet JSON_KINDS kindNumber of
                     None \<Rightarrow>
                       Inl (rowError position
                         (label @ js '' is a Bitwarden '' @
                          orElse (mapGet JSON_UNSUPPORTED kindNumber) (js ''item of type '' @ showNum kindNumber) @
                          js '', which Keyhole cannot import yet, so it was not imported''))
                   | Some kind \<Rightarrow>
                       (let item = (blankImportItem position)\<lparr>
                              it_type := kind, it_name := name,
                              it_notes := stringOf (jprop source ''notes''),
                              it_favorite := (jprop source ''favorite'' = Some (JBool True)) \<rparr>
                        in if kind = Login then
                             (case asObject (jprop source ''login'') of
                                None \<Rightarrow> refuse '' is a login with no login details, so it was not imported''
                              | Some login \<Rightarrow>
                                  (case jprop login ''password'' of
                                     Some (JStr password) \<Rightarrow>
                                       if password = [] then
                                         refuse '' has an empty password, so it was not imported''
                                       else
                                         Inr (bitwardenFinish source folders collections
                                           (carry (item\<lparr> it_username := stringOf (jprop login ''username''),
                                                          it_password := password,
                                                          it_urls := bitwardenUrls (jprop login ''uris'') \<rparr>)
                                              (js ''totp'') (Some (stringOf (jprop login ''totp''))) Totp))
                                   | _ \<Rightarrow> refuse '' has no password, so it was not imported''))
                           else Inr (bitwardenFinish source folders collections item)))
              | _ \<Rightarrow> refuse '' does not say what kind of item it is, so it was not imported''))"

definition parseBitwardenJson :: "jstr \<Rightarrow> ImportResult" where
  "parseBitwardenJson s =
     (case jsonParse s of
        None \<Rightarrow> notJson
      | Some body \<Rightarrow>
          (let root = orElse (asObject (Some body)) [] in
           if jprop root ''encrypted'' = Some (JBool True) \<or> jprop root ''passwordProtected'' = Some (JBool True)
           then failResult ENCRYPTED_EXPORT
           else case asArray (jprop root ''items'') of
               None \<Rightarrow> failResult ''This file has no items array, so it is not a Bitwarden JSON export''
             | Some raw \<Rightarrow>
                 collectOutcomes
                   (map (bitwardenJsonItem (namesById (jprop root ''folders'')) (namesById (jprop root ''collections'')))
                     (enumerate 1 raw))))"

definition splitUris :: "jstr \<Rightarrow> jstr list" where
  "splitUris v = filter (\<lambda>uri. uri \<noteq> []) (map trim (split v [COMMA_UNIT]))"

definition bitwardenCsvItem :: "Columns \<Rightarrow> nat \<Rightarrow> CsvRow \<Rightarrow> RowOutcome" where
  "bitwardenCsvItem columns width row =
     (let get = (\<lambda>c. colValue columns row (Some (js c))); text = (\<lambda>c. orElse (get c) []) in
      case surplusFieldsError row width of
        Some e \<Rightarrow> Inl e
      | None \<Rightarrow>
          (let word = toLowerCase (trim (text ''type'')) in
           case (if word = [] then Some Login else mapGet CSV_KINDS word) of
             None \<Rightarrow>
               Inl (rowError (rw_line row)
                 (js ''This row is a Bitwarden '' @ word @
                  js '', which Keyhole cannot import yet, so it was not imported''))
           | Some kind \<Rightarrow>
               (let item = (blankImportItem (rw_line row))\<lparr>
                      it_type := kind, it_name := text ''name'', it_notes := text ''notes'',
                      it_favorite := isFavorite (get ''favorite''),
                      it_folderPath := folderSegments (text ''folder'') (js ''/'') \<rparr>;
                    finish = (\<lambda>it.
                      Inr (carry (carry it (js ''fields'') (Some (text ''fields'')) Custom)
                             (js ''reprompt'') (Some (repromptText (map_option JStr (get ''reprompt'')))) Metadata))
                in if kind = Login then
                     bindR (requiredPassword (rw_line row) (get ''login_password''))
                       (\<lambda>password.
                          finish (carry (item\<lparr> it_username := text ''login_username'',
                                               it_password := password,
                                               it_urls := splitUris (text ''login_uri'') \<rparr>)
                                    (js ''totp'') (Some (text ''login_totp'')) Totp))
                   else finish item)))"

definition parseBitwardenCsv :: "jstr \<Rightarrow> ImportResult" where
  "parseBitwardenCsv s =
     (let table = parseCsv s; columns = indexColumns (tb_header table) in
      if \<not> colHas columns (js ''login_password'')
      then unfitResult ''This file has no login_password column, so it is not a Bitwarden CSV export'' table
      else mapCsvRows rw_line (tb_rows table) (tb_errors table)
             (bitwardenCsvItem columns (length (tb_header table))))"

section \<open>Both mappings keep the contract\<close>

lemma carryCollections_simps [simp]:
  "it_type (carryCollections it v m) = it_type it" "it_password (carryCollections it v m) = it_password it"
  "it_sourceRow (carryCollections it v m) = it_sourceRow it"
  by (simp_all add: carryCollections_def split: option.split)

lemma carryFields_simps [simp]:
  "it_type (carryFields it v) = it_type it" "it_password (carryFields it v) = it_password it"
  "it_sourceRow (carryFields it v) = it_sourceRow it"
proof -
  let ?step = "\<lambda>entry it. case asObject (Some entry) of None \<Rightarrow> it
    | Some f \<Rightarrow> (let name = stringOf (jprop f ''name'') in
         carry it (if name = [] then js ''(unnamed field)'' else name) (Some (scalarText (jprop f ''value''))) Custom)"
  have "it_type (fold ?step es it) = it_type it \<and> it_password (fold ?step es it) = it_password it \<and>
      it_sourceRow (fold ?step es it) = it_sourceRow it" for es
    by (induction es arbitrary: it) (simp_all add: Let_def split: option.split)
  then show "it_type (carryFields it v) = it_type it" "it_password (carryFields it v) = it_password it"
    "it_sourceRow (carryFields it v) = it_sourceRow it"
    by (auto simp: carryFields_def split: option.split)
qed

lemma bitwardenFinish_simps [simp]:
  "it_type (bitwardenFinish src fs cs it) = it_type it"
  "it_password (bitwardenFinish src fs cs it) = it_password it"
  "it_sourceRow (bitwardenFinish src fs cs it) = it_sourceRow it"
  by (simp_all add: bitwardenFinish_def Let_def split: option.split json.split)

definition bitwardenPassword :: "json \<Rightarrow> jstr option" where
  "bitwardenPassword raw =
     (case asObject (Some raw) of
        None \<Rightarrow> None
      | Some src \<Rightarrow> (case jprop src ''login'' of Some login \<Rightarrow> jsonPassword login | None \<Rightarrow> None))"

lemma bitwardenJsonItem_Inr:
  assumes "bitwardenJsonItem fs cs e = Inr it"
  shows "it_sourceRow it = fst e"
    "it_type it = Login \<Longrightarrow> bitwardenPassword (snd e) = Some (it_password it) \<and> it_password it \<noteq> []"
  using assms
  by (auto simp: bitwardenJsonItem_def Let_def bitwardenPassword_def jsonPassword_def
      split: option.splits if_splits json.splits)

interpretation bitwarden_json: row_parser fst "\<lambda>e. bitwardenPassword (snd e)" "bitwardenJsonItem fs cs"
  for fs cs
proof
  fix r e assume "bitwardenJsonItem fs cs r = Inl e"
  then show "er_row e = fst r"
    by (auto simp: bitwardenJsonItem_def Let_def split: option.splits if_splits json.splits)
qed (auto simp: bitwardenJsonItem_Inr)

lemma bitwardenCsvItem_Inr:
  assumes "bitwardenCsvItem columns width row = Inr it"
  shows "it_sourceRow it = rw_line row"
    "it_type it = Login \<Longrightarrow> colValue columns row (Some (js ''login_password'')) = Some (it_password it)"
    "it_type it = Login \<Longrightarrow> it_password it \<noteq> []"
  using assms
  by (auto simp: bitwardenCsvItem_def bindR_eq_Inr requiredPassword_Inr Let_def
      split: option.splits if_splits)

interpretation bitwarden_csv: row_parser rw_line "\<lambda>row. colValue columns row (Some (js ''login_password''))"
  "bitwardenCsvItem columns width" for columns width
proof
  fix r e assume "bitwardenCsvItem columns width r = Inl e"
  then show "er_row e = rw_line r"
    by (auto simp: bitwardenCsvItem_def bindR_def Let_def row_intro split: option.splits sum.splits if_splits)
qed (auto simp: bitwardenCsvItem_Inr)

lemma bitwarden_imported:
  "it \<in> set (rs_items (parseBitwardenCsv s)) \<Longrightarrow> it_type it = Login \<Longrightarrow> it_password it \<noteq> []"
  "it \<in> set (rs_items (parseBitwardenJson s)) \<Longrightarrow> it_type it = Login \<Longrightarrow> it_password it \<noteq> []"
  using bitwarden_csv.login_has_password bitwarden_json.collected_login_has_password
  by (auto simp: parseBitwardenCsv_def parseBitwardenJson_def Let_def split: if_splits option.splits)

end
