(* ===== verification/ProtonPass.thy ===== *)
theory ProtonPass
  imports JsonShared
begin

text \<open>
  The Proton Pass JSON export (\<^verbatim>\<open>packages/vault/src/import/parsers/protonpass.ts\<close>): vaults
  of items, one numbering across all of them.
\<close>

definition PROTON_ENCRYPTED_EXPORT :: string where
  "PROTON_ENCRYPTED_EXPORT = ''This is an encrypted Proton Pass export, which cannot be read without your Proton Pass password. Export it again unencrypted and upload that file.''"

definition PROTON_KINDS :: "(jstr, ImportItemType) jmap" where
  "PROTON_KINDS = [(js ''login'', Login), (js ''note'', Note)]"

definition PROTON_UNSUPPORTED :: "(jstr, jstr) jmap" where
  "PROTON_UNSUPPORTED =
     [(js ''creditCard'', js ''credit card''), (js ''identity'', js ''identity''),
      (js ''alias'', js ''email alias''), (js ''sshKey'', js ''SSH key''), (js ''wifi'', js ''wifi network'')]"

definition TRASHED :: jnum where "TRASHED = jint 2"

definition protonUrls :: "json option \<Rightarrow> jstr list" where
  "protonUrls v =
     (case asArray v of
        None \<Rightarrow> []
      | Some entries \<Rightarrow> filter (\<lambda>url. url \<noteq> []) (map (\<lambda>e. stringOf (Some e)) entries))"

definition carryExtraFields :: "ImportItem \<Rightarrow> json option \<Rightarrow> ImportItem" where
  "carryExtraFields item v =
     (case asArray v of
        None \<Rightarrow> item
      | Some entries \<Rightarrow>
          fold (\<lambda>entry it.
            case asObject (Some entry) of
              None \<Rightarrow> it
            | Some f \<Rightarrow>
                (let name = stringOf (jprop f ''fieldName'');
                     content = stringOf (optProp (asObject (jprop f ''data'')) ''content'')
                 in carry it (if name = [] then js ''(unnamed field)'' else name) (Some content)
                      (if jprop f ''type'' = Some (JStr (js ''totp'')) then Totp else Custom))) entries item)"

text \<open>The login's own part of \<^verbatim>\<open>vaultItem\<close>, once its password is known to be there.\<close>

definition protonLogin :: "(jstr \<times> json) list \<Rightarrow> jstr \<Rightarrow> ImportItem \<Rightarrow> ImportItem" where
  "protonLogin content password item =
     (let email = stringOf (jprop content ''itemEmail'');
          named = stringOf (jprop content ''itemUsername'');
          username = (if named = [] then email else named);
          item1 = item\<lparr> it_username := username, it_password := password,
                        it_urls := protonUrls (jprop content ''urls'') \<rparr>;
          item2 = (if email \<noteq> [] \<and> email \<noteq> username
                   then carry item1 (js ''itemEmail'') (Some email) Custom else item1);
          item3 = carry item2 (js ''totpUri'') (Some (stringOf (jprop content ''totpUri''))) Totp
      in case asArray (jprop content ''passkeys'') of
           None \<Rightarrow> item3
         | Some passkeys \<Rightarrow>
             if 0 < length passkeys
             then carry item3 (js ''passkeys'') (Some (showNat (length passkeys))) Metadata else item3)"

definition protonVaultItem :: "nat \<times> jstr \<times> json \<Rightarrow> RowOutcome" where
  "protonVaultItem entry =
     (case entry of (position, vaultName, raw) \<Rightarrow>
      case asObject (Some raw) of
        None \<Rightarrow>
          Inl (rowError position (js ''Item '' @ showNat position @ js '' is not an object, so it could not be read''))
      | Some source \<Rightarrow>
          (let data = asObject (jprop source ''data'');
               metadata = asObject (optProp data ''metadata'');
               name = stringOf (optProp metadata ''name'');
               label = itemLabel position name;
               refuse = (\<lambda>message. Inl (rowError position (label @ js message)))
           in if jprop source ''state'' = Some (JNum TRASHED) then
                refuse '' is in the Proton Pass trash, so it was not imported''
              else case data of
                None \<Rightarrow> refuse '' carries no data, so it could not be read''
              | Some dat \<Rightarrow>
                  (let kindWord = stringOf (jprop dat ''type'') in
                   case mapGet PROTON_KINDS kindWord of
                     None \<Rightarrow>
                       Inl (rowError position
                         (label @ js '' is a Proton Pass '' @
                          orElse (mapGet PROTON_UNSUPPORTED kindWord)
                            (if kindWord = [] then js ''item of no stated type'' else kindWord) @
                          js '', which Keyhole cannot import yet, so it was not imported''))
                   | Some kind \<Rightarrow>
                       (let item = (blankImportItem position)\<lparr>
                              it_type := kind, it_name := name,
                              it_notes := stringOf (optProp metadata ''note''),
                              it_folderPath := (if vaultName = [] then [] else [vaultName]) \<rparr>;
                            finish = (\<lambda>it. Inr (carryExtraFields it (jprop dat ''extraFields'')))
                        in if kind = Login then
                             (case asObject (jprop dat ''content'') of
                                None \<Rightarrow> refuse '' is a login with no login details, so it was not imported''
                              | Some content \<Rightarrow>
                                  (case jprop content ''password'' of
                                     Some (JStr password) \<Rightarrow>
                                       if password = [] then
                                         refuse '' has an empty password, so it was not imported''
                                       else finish (protonLogin content password item)
                                   | _ \<Rightarrow> refuse '' has no password, so it was not imported''))
                           else finish item))))"

definition protonEntries :: "(jstr \<times> json) list \<Rightarrow> (nat \<times> jstr \<times> json) list" where
  "protonEntries vaults =
     enumerate 1 (concat (map (\<lambda>(key, raw).
        case asObject (Some raw) of
          None \<Rightarrow> []
        | Some vault \<Rightarrow>
            (case asArray (jprop vault ''items'') of
               None \<Rightarrow> []
             | Some contents \<Rightarrow> map (\<lambda>e. (stringOf (jprop vault ''name''), e)) contents)) vaults))"

definition parseProtonPassJson :: "jstr \<Rightarrow> ImportResult" where
  "parseProtonPassJson s =
     (case jsonParse s of
        None \<Rightarrow> notJson
      | Some body \<Rightarrow>
          (let root = asObject (Some body) in
           if optProp root ''encrypted'' = Some (JBool True) then failResult PROTON_ENCRYPTED_EXPORT
           else case asObject (optProp root ''vaults'') of
               None \<Rightarrow> failResult ''This file has no vaults object, so it is not a Proton Pass JSON export''
             | Some vaults \<Rightarrow> collectOutcomes (map protonVaultItem (protonEntries vaults))))"

section \<open>The mapping keeps the contract\<close>

lemma carryExtraFields_simps [simp]:
  "it_type (carryExtraFields it v) = it_type it" "it_password (carryExtraFields it v) = it_password it"
  "it_sourceRow (carryExtraFields it v) = it_sourceRow it"
proof -
  let ?step = "\<lambda>entry it. case asObject (Some entry) of None \<Rightarrow> it
    | Some f \<Rightarrow> (let name = stringOf (jprop f ''fieldName'');
                     content = stringOf (optProp (asObject (jprop f ''data'')) ''content'')
                 in carry it (if name = [] then js ''(unnamed field)'' else name) (Some content)
                      (if jprop f ''type'' = Some (JStr (js ''totp'')) then Totp else Custom))"
  have "it_type (fold ?step es it) = it_type it \<and> it_password (fold ?step es it) = it_password it \<and>
      it_sourceRow (fold ?step es it) = it_sourceRow it" for es
    by (induction es arbitrary: it) (simp_all add: Let_def split: option.split)
  then show "it_type (carryExtraFields it v) = it_type it"
    "it_password (carryExtraFields it v) = it_password it"
    "it_sourceRow (carryExtraFields it v) = it_sourceRow it"
    by (auto simp: carryExtraFields_def split: option.split)
qed

lemma protonLogin_simps [simp]:
  "it_type (protonLogin c p it) = it_type it" "it_password (protonLogin c p it) = p"
  "it_sourceRow (protonLogin c p it) = it_sourceRow it"
  by (simp_all add: protonLogin_def Let_def split: option.split)

definition protonPassword :: "json \<Rightarrow> jstr option" where
  "protonPassword raw =
     (case optProp (asObject (optProp (asObject (Some raw)) ''data'')) ''content'' of
        None \<Rightarrow> None | Some content \<Rightarrow> jsonPassword content)"

lemma protonVaultItem_Inr:
  assumes "protonVaultItem (n, v, raw) = Inr it"
  shows "it_sourceRow it = n"
    "it_type it = Login \<Longrightarrow> protonPassword raw = Some (it_password it) \<and> it_password it \<noteq> []"
  using assms
  by (auto simp: protonVaultItem_def Let_def protonPassword_def jsonPassword_def optProp_def asObject_eq_Some
      split: option.splits if_splits json.splits)

interpretation proton: row_parser fst "\<lambda>(n, v, raw). protonPassword raw" protonVaultItem
proof
  fix r e assume "protonVaultItem r = Inl e"
  then show "er_row e = fst r"
    by (auto simp: protonVaultItem_def Let_def split: option.splits if_splits json.splits prod.splits)
qed (auto simp: protonVaultItem_Inr split: prod.splits)

lemma proton_imported:
  "it \<in> set (rs_items (parseProtonPassJson s)) \<Longrightarrow> it_type it = Login \<Longrightarrow> it_password it \<noteq> []"
  using proton.collected_login_has_password
  by (auto simp: parseProtonPassJson_def Let_def split: if_splits option.splits)

end
