(* ===== verification/OnePassword.thy ===== *)
theory OnePassword
  imports JsonShared
begin

text \<open>
  The 1Password exports (\<^verbatim>\<open>packages/vault/src/import/parsers/onepassword.ts\<close>): the
  \<^verbatim>\<open>export.data\<close> of a \<^verbatim>\<open>.1pux\<close> archive, and the CSV. Opening the archive is in the
  theory of the ZIP reader.
\<close>

definition vaultFolder :: "jstr \<Rightarrow> jstr list" where
  "vaultFolder name = (if name = [] then [] else [name])"

definition CATEGORIES :: "(jstr, ImportItemType) jmap" where
  "CATEGORIES = [(js ''001'', Login), (js ''003'', Note)]"

definition ONEPASSWORD_UNSUPPORTED :: "(jstr, jstr) jmap" where
  "ONEPASSWORD_UNSUPPORTED =
     [(js ''002'', js ''credit card''), (js ''004'', js ''identity''), (js ''005'', js ''password item''),
      (js ''006'', js ''document''), (js ''100'', js ''software license''), (js ''101'', js ''bank account''),
      (js ''102'', js ''database''), (js ''103'', js ''driver license''), (js ''104'', js ''outdoor license''),
      (js ''105'', js ''membership''), (js ''106'', js ''passport''), (js ''107'', js ''rewards program''),
      (js ''108'', js ''social security number''), (js ''109'', js ''wireless router''),
      (js ''110'', js ''server''), (js ''111'', js ''email account''), (js ''112'', js ''API credential''),
      (js ''113'', js ''medical record''), (js ''115'', js ''SSH key'')]"

definition onepasswordUrls :: "(jstr \<times> json) list option \<Rightarrow> jstr list" where
  "onepasswordUrls overview =
     (let urls = (case asArray (optProp overview ''urls'') of
            None \<Rightarrow> []
          | Some listed \<Rightarrow>
              filter (\<lambda>url. url \<noteq> []) (map (\<lambda>e. stringOf (optProp (asObject (Some e)) ''url'')) listed))
      in if 0 < length urls then urls
         else (let single = stringOf (optProp overview ''url'') in if single = [] then [] else [single]))"

text \<open>The first field with the designation decides, even when its value is no string.\<close>

fun designated :: "json list \<Rightarrow> string \<Rightarrow> jstr option" where
  "designated [] designation = None"
| "designated (entry # others) designation =
     (if optProp (asObject (Some entry)) ''designation'' = Some (JStr (js designation))
      then (case optProp (asObject (Some entry)) ''value'' of Some (JStr v) \<Rightarrow> Some v | _ \<Rightarrow> None)
      else designated others designation)"

definition carryOtherLoginField :: "json \<Rightarrow> ImportItem \<Rightarrow> ImportItem" where
  "carryOtherLoginField entry item =
     (case asObject (Some entry) of
        None \<Rightarrow> item
      | Some f \<Rightarrow>
          (let designation = stringOf (jprop f ''designation''); name = stringOf (jprop f ''name'') in
           if designation = js ''username'' \<or> designation = js ''password'' then item
           else carry item
                  (if name = [] then (if designation = [] then js ''(unnamed field)'' else designation) else name)
                  (Some (scalarText (jprop f ''value''))) Custom))"

definition carryOtherLoginFields :: "ImportItem \<Rightarrow> json list \<Rightarrow> ImportItem" where
  "carryOtherLoginFields item entries = fold carryOtherLoginField entries item"

definition carrySectionField :: "jstr \<Rightarrow> json \<Rightarrow> ImportItem \<Rightarrow> ImportItem" where
  "carrySectionField heading rawField item =
     (case asObject (Some rawField) of
        None \<Rightarrow> item
      | Some f \<Rightarrow>
          (case orElse (asObject (jprop f ''value'')) [] of
             [] \<Rightarrow> item
           | (kindWord, v) # others \<Rightarrow>
               (let title = stringOf (jprop f ''title'');
                    name = (if title = [] then js ''(unnamed field)'' else title)
                in carry item (if heading = [] then name else heading @ js '' / '' @ name)
                     (Some (scalarText (Some v))) (if kindWord = js ''totp'' then Totp else Custom))))"

definition carrySection :: "json \<Rightarrow> ImportItem \<Rightarrow> ImportItem" where
  "carrySection entry item =
     (let section = asObject (Some entry) in
      case asArray (optProp section ''fields'') of
        None \<Rightarrow> item
      | Some entries \<Rightarrow> fold (carrySectionField (stringOf (optProp section ''title''))) entries item)"

definition carrySections :: "ImportItem \<Rightarrow> json option \<Rightarrow> ImportItem" where
  "carrySections item sections =
     (case asArray sections of None \<Rightarrow> item | Some entries \<Rightarrow> fold carrySection entries item)"

definition tagsText :: "(jstr \<times> json) list option \<Rightarrow> jstr" where
  "tagsText overview =
     (case asArray (optProp overview ''tags'') of
        None \<Rightarrow> []
      | Some tags \<Rightarrow> join (js '', '') (filter (\<lambda>t. t \<noteq> []) (map (\<lambda>t. stringOf (Some t)) tags)))"

text \<open>The end of \<^verbatim>\<open>vaultItem\<close>, common to logins and notes.\<close>

definition onepasswordFinish ::
  "(jstr \<times> json) list \<Rightarrow> (jstr \<times> json) list option \<Rightarrow> (jstr \<times> json) list option \<Rightarrow> jstr \<Rightarrow> ImportItem \<Rightarrow> ImportItem" where
  "onepasswordFinish source overview details account item =
     (let state = stringOf (jprop source ''state'');
          item1 = carry (carrySections item (optProp details ''sections'')) (js ''tags'') (Some (tagsText overview)) Metadata;
          item2 = carry item1 (js ''state'') (Some (if state = js ''active'' then [] else state)) Metadata
      in carry item2 (js ''account'') (Some account) Metadata)"

definition onepasswordVaultItem :: "nat \<times> jstr \<times> jstr \<times> json \<Rightarrow> RowOutcome" where
  "onepasswordVaultItem entry =
     (case entry of (position, vault, account, raw) \<Rightarrow>
      case asObject (Some raw) of
        None \<Rightarrow>
          Inl (rowError position (js ''Item '' @ showNat position @ js '' is not an object, so it could not be read''))
      | Some source \<Rightarrow>
          (let overview = asObject (jprop source ''overview'');
               name = stringOf (optProp overview ''title'');
               label = itemLabel position name;
               refuse = (\<lambda>message. Inl (rowError position (label @ js message)));
               category = stringOf (jprop source ''categoryUuid'')
           in case mapGet CATEGORIES category of
                None \<Rightarrow>
                  Inl (rowError position
                    (label @ js '' is a 1Password '' @
                     orElse (mapGet ONEPASSWORD_UNSUPPORTED category)
                       (if category = [] then js ''item of no stated category''
                        else js ''item of category '' @ category) @
                     js '', which Keyhole cannot import yet, so it was not imported''))
              | Some kind \<Rightarrow>
                  (let details = asObject (jprop source ''details'');
                       item = (blankImportItem position)\<lparr>
                         it_type := kind, it_name := name,
                         it_notes := stringOf (optProp details ''notesPlain''),
                         it_favorite := (case jprop source ''favIndex'' of
                             Some (JNum n) \<Rightarrow> n \<noteq> jint 0 | _ \<Rightarrow> False),
                         it_folderPath := vaultFolder vault \<rparr>;
                       finish = (\<lambda>it. Inr (onepasswordFinish source overview details account it))
                   in if kind = Login then
                        (case details of
                           None \<Rightarrow> refuse '' is a login with no login details, so it was not imported''
                         | Some det \<Rightarrow>
                             (let entries = orElse (asArray (jprop det ''loginFields'')) [] in
                              case designated entries ''password'' of
                                None \<Rightarrow> refuse '' has no password, so it was not imported''
                              | Some password \<Rightarrow>
                                  if password = [] then
                                    refuse '' has an empty password, so it was not imported''
                                  else finish (carryOtherLoginFields
                                    (item\<lparr> it_username := orElse (designated entries ''username'') [],
                                            it_password := password,
                                            it_urls := onepasswordUrls overview \<rparr>) entries)))
                      else finish item)))"

definition onepasswordEntries :: "json list \<Rightarrow> (nat \<times> jstr \<times> jstr \<times> json) list" where
  "onepasswordEntries accounts =
     enumerate 1 (concat (map (\<lambda>rawAccount.
        let account = asObject (Some rawAccount);
            accountName = (if 1 < length accounts
                           then stringOf (optProp (asObject (optProp account ''attrs'')) ''name'') else [])
        in case asArray (optProp account ''vaults'') of
             None \<Rightarrow> []
           | Some vaults \<Rightarrow>
               concat (map (\<lambda>rawVault.
                 let vault = asObject (Some rawVault);
                     vaultName = stringOf (optProp (asObject (optProp vault ''attrs'')) ''name'')
                 in case asArray (optProp vault ''items'') of
                      None \<Rightarrow> []
                    | Some contents \<Rightarrow> map (\<lambda>e. (vaultName, accountName, e)) contents) vaults)) accounts))"

definition parseOnePasswordExportData :: "jstr \<Rightarrow> ImportResult" where
  "parseOnePasswordExportData s =
     (case jsonParse s of
        None \<Rightarrow> notJson
      | Some body \<Rightarrow>
          (case asArray (optProp (asObject (Some body)) ''accounts'') of
             None \<Rightarrow> failResult ''This file has no accounts array, so it is not a 1Password .1pux export''
           | Some accounts \<Rightarrow> collectOutcomes (map onepasswordVaultItem (onepasswordEntries accounts))))"

definition firstNamed :: "Columns \<Rightarrow> string list \<Rightarrow> jstr option" where
  "firstNamed columns names = map_option js (find (\<lambda>name. colHas columns (js name)) names)"

definition isTrue :: "jstr option \<Rightarrow> bool" where
  "isTrue v = (map_option (\<lambda>x. toLowerCase (trim x)) v = Some (js ''true''))"

definition flagText :: "jstr option \<Rightarrow> jstr" where
  "flagText v = (if isTrue v then orElse (map_option trim v) [] else [])"

definition onepasswordCsvItem :: "Columns \<Rightarrow> jstr option \<Rightarrow> jstr option \<Rightarrow> nat \<Rightarrow> CsvRow \<Rightarrow> RowOutcome" where
  "onepasswordCsvItem columns address noteCol width row =
     (let get = (\<lambda>c. colValue columns row (Some (js c))); nameOf = (\<lambda>c. colSourceName columns (js c)) in
      case surplusFieldsError row width of
        Some e \<Rightarrow> Inl e
      | None \<Rightarrow>
          bindR (requiredPassword (rw_line row) (get ''password''))
            (\<lambda>password.
               let addr = orElse (colValue columns row address) [];
                   item = (blankImportItem (rw_line row))\<lparr>
                     it_name := orElse (get ''title'') [],
                     it_username := orElse (get ''username'') [],
                     it_password := password,
                     it_notes := orElse (colValue columns row noteCol) [],
                     it_favorite := isTrue (get ''favorite''),
                     it_urls := (if addr = [] then [] else [addr]) \<rparr>;
                   item1 = carry item (nameOf ''otpauth'') (get ''otpauth'') Totp;
                   item2 = carry item1 (nameOf ''archived'') (Some (flagText (get ''archived''))) Metadata
               in Inr (carry item2 (nameOf ''tags'') (get ''tags'') Metadata)))"

definition parseOnePasswordCsv :: "jstr \<Rightarrow> ImportResult" where
  "parseOnePasswordCsv s =
     (let table = parseCsv s; columns = indexColumns (tb_header table) in
      if \<not> colHas columns (js ''password'')
      then unfitResult ''This file has no Password column, so it is not a 1Password CSV export'' table
      else mapCsvRows rw_line (tb_rows table) (tb_errors table)
             (onepasswordCsvItem columns (firstNamed columns [''url'', ''website'', ''urls''])
                (firstNamed columns [''notes'', ''note'']) (length (tb_header table))))"

section \<open>Both mappings keep the contract\<close>

text \<open>What the carriers leave alone.\<close>

definition sameCore :: "ImportItem \<Rightarrow> ImportItem \<Rightarrow> bool" where
  "sameCore a b = (it_type a = it_type b \<and> it_password a = it_password b \<and> it_sourceRow a = it_sourceRow b)"

lemma sameCore_trans: "sameCore a b \<Longrightarrow> sameCore b c \<Longrightarrow> sameCore a c"
  by (simp add: sameCore_def)

lemma sameCore_carry [simp]: "sameCore (carry it n v k) it"
  by (simp add: sameCore_def)

lemma sameCore_refl [simp]: "sameCore it it"
  by (simp add: sameCore_def)

lemma sameCore_fold: "(\<And>x it. sameCore (f x it) it) \<Longrightarrow> sameCore (fold f xs it) it"
  by (induction xs arbitrary: it) (auto intro: sameCore_trans)

lemma sameCore_login: "sameCore (carryOtherLoginFields it es) it"
  unfolding carryOtherLoginFields_def
  by (rule sameCore_fold) (simp add: carryOtherLoginField_def Let_def split: option.split)

lemma sameCore_section: "sameCore (carrySection e it) it"
  by (auto simp: carrySection_def carrySectionField_def Let_def intro!: sameCore_fold
      split: option.split list.split)

lemma sameCore_finish: "sameCore (onepasswordFinish src ov det acc it) it"
  by (auto simp: onepasswordFinish_def carrySections_def Let_def sameCore_section
      intro!: sameCore_fold sameCore_trans [OF sameCore_carry] split: option.split)

definition onepasswordPassword :: "json \<Rightarrow> jstr option" where
  "onepasswordPassword raw =
     designated (orElse (asArray (optProp (asObject (optProp (asObject (Some raw)) ''details'')) ''loginFields'')) [])
       ''password''"

lemma onepasswordVaultItem_Inr:
  assumes "onepasswordVaultItem (n, v, a, raw) = Inr it"
  shows "it_sourceRow it = n"
    "it_type it = Login \<Longrightarrow> onepasswordPassword raw = Some (it_password it) \<and> it_password it \<noteq> []"
proof -
  have fin: "it_type (onepasswordFinish s ov d acc x) = it_type x"
    "it_password (onepasswordFinish s ov d acc x) = it_password x"
    "it_sourceRow (onepasswordFinish s ov d acc x) = it_sourceRow x"
    "it_type (carryOtherLoginFields x es) = it_type x"
    "it_password (carryOtherLoginFields x es) = it_password x"
    "it_sourceRow (carryOtherLoginFields x es) = it_sourceRow x" for s ov d acc x es
    using sameCore_finish sameCore_login by (auto simp: sameCore_def)
  show "it_sourceRow it = n"
    "it_type it = Login \<Longrightarrow> onepasswordPassword raw = Some (it_password it) \<and> it_password it \<noteq> []"
    using assms
    by (auto simp: onepasswordVaultItem_def Let_def fin onepasswordPassword_def optProp_def
        split: option.splits if_splits)
qed

interpretation onepassword_json: row_parser fst "\<lambda>(n, v, a, raw). onepasswordPassword raw" onepasswordVaultItem
proof
  fix r e assume "onepasswordVaultItem r = Inl e"
  then show "er_row e = fst r"
    by (auto simp: onepasswordVaultItem_def Let_def split: option.splits if_splits prod.splits)
qed (auto simp: onepasswordVaultItem_Inr split: prod.splits)

lemma onepasswordCsvItem_Inr:
  assumes "onepasswordCsvItem columns address noteCol width row = Inr it"
  shows "it_sourceRow it = rw_line row" "it_type it = Login" "it_password it \<noteq> []"
    "colValue columns row (Some (js ''password'')) = Some (it_password it)"
  using assms
  by (auto simp: onepasswordCsvItem_def bindR_eq_Inr requiredPassword_Inr Let_def split: option.splits)

interpretation onepassword_csv: row_parser rw_line "\<lambda>row. colValue columns row (Some (js ''password''))"
  "onepasswordCsvItem columns address noteCol width" for columns address noteCol width
proof
  fix r e assume "onepasswordCsvItem columns address noteCol width r = Inl e"
  then show "er_row e = rw_line r"
    by (auto simp: onepasswordCsvItem_def bindR_def Let_def row_intro split: option.splits sum.splits)
qed (auto simp: onepasswordCsvItem_Inr)

lemma onepassword_imported:
  "it \<in> set (rs_items (parseOnePasswordCsv s)) \<Longrightarrow> it_type it = Login \<Longrightarrow> it_password it \<noteq> []"
  "it \<in> set (rs_items (parseOnePasswordExportData s)) \<Longrightarrow> it_type it = Login \<Longrightarrow> it_password it \<noteq> []"
  using onepassword_csv.login_has_password onepassword_json.collected_login_has_password
  by (auto simp: parseOnePasswordCsv_def parseOnePasswordExportData_def Let_def
      split: if_splits option.splits)

end
