(* ===== verification/ItemTypes.thy ===== *)
theory ItemTypes
  imports Prelude
begin

text \<open>
  The plaintext shapes of an item (\<^verbatim>\<open>packages/crypto/src/item.ts\<close>).
\<close>

record PasswordHistoryEntry =
  ph_password :: jstr
  ph_changedAt :: jstr

record LoginItem =
  li_name :: jstr
  li_username :: jstr
  li_password :: jstr
  li_urls :: "jstr list"
  li_notes :: jstr
  li_favorite :: bool
  li_folderId :: "jstr option"
  li_passwordHistory :: "PasswordHistoryEntry list"

record NoteItem =
  ni_name :: jstr
  ni_notes :: jstr
  ni_favorite :: bool
  ni_folderId :: "jstr option"

datatype ItemPlaintext = PLogin LoginItem | PNote NoteItem

end
