(* ===== verification/MapItems.thy ===== *)
theory MapItems
  imports Browser LastPass KeePass NordPass Dashlane Keeper Bitwarden ProtonPass OnePassword ItemTypes
    "HOL-Library.Sublist"
begin

text \<open>
  From what an export said to what Keyhole stores
  (\<^verbatim>\<open>packages/vault/src/import/map.ts\<close>): the composition of the note, the generic column
  mapping, and the table of formats a user can name.
\<close>

section \<open>The intermediate shape to Keyhole's\<close>

definition IMPORTED_HEADING :: jstr where
  "IMPORTED_HEADING = js ''--- Imported details ---''"

definition TOTP_LABEL :: jstr where
  "TOTP_LABEL = js ''One-time password (TOTP) secret''"

definition PATH_SEPARATOR :: jstr where
  "PATH_SEPARATOR = js '' / ''"

definition extraLine :: "ImportField \<Rightarrow> jstr" where
  "extraLine f =
     (case fd_kind f of
        Totp \<Rightarrow> TOTP_LABEL @ js '', exported as '' @ [34] @ fd_name f @ [34] @ js '': '' @ fd_value f
      | Metadata \<Rightarrow> fd_name f @ js '' (recorded by the exporter, not by you): '' @ fd_value f
      | Custom \<Rightarrow> fd_name f @ js '': '' @ fd_value f)"

definition composeNotes :: "ImportItem \<Rightarrow> jstr list \<Rightarrow> jstr" where
  "composeNotes item carried =
     (let lines = (if 0 < length (it_folderPath item)
                   then [js ''Folder: '' @ join PATH_SEPARATOR (it_folderPath item)] else []) @
                  carried @ map extraLine (it_extra item)
      in if length lines = 0 then it_notes item
         else (let block = join [NL] (IMPORTED_HEADING # lines) in
               if it_notes item = [] then block else it_notes item @ [NL, NL] @ block))"

definition toItemPlaintext :: "jstr option \<Rightarrow> ImportItem \<Rightarrow> ItemPlaintext" where
  "toItemPlaintext folderId item =
     (if it_type item = Login \<or> it_password item \<noteq> [] then
        PLogin \<lparr> li_name = it_name item, li_username = it_username item, li_password = it_password item,
                 li_urls = it_urls item, li_notes = composeNotes item [], li_favorite = it_favorite item,
                 li_folderId = folderId, li_passwordHistory = [] \<rparr>
      else
        (let carried = (if it_username item \<noteq> [] then [js ''Username: '' @ it_username item] else []) @
               map (\<lambda>url. js ''Web address: '' @ url) (it_urls item)
         in PNote \<lparr> ni_name = it_name item, ni_notes = composeNotes item carried,
                    ni_favorite = it_favorite item, ni_folderId = folderId \<rparr>))"

definition toItemPlaintexts :: "jstr option \<Rightarrow> ImportItem list \<Rightarrow> ItemPlaintext list" where
  "toItemPlaintexts folderId items = map (toItemPlaintext folderId) items"

section \<open>The generic column map\<close>

record CsvColumnMapping =
  cm_name :: "jstr option"
  cm_username :: "jstr option"
  cm_password :: "jstr option"
  cm_url :: "jstr option"
  cm_notes :: "jstr option"
  cm_folder :: "jstr option"
  cm_folderSeparator :: jstr
  cm_totp :: "jstr option"
  cm_custom :: "jstr list"

definition CANDIDATES_name :: "jstr list" where
  "CANDIDATES_name = map js [''name'', ''title'', ''account'', ''item name'', ''entry'', ''display name'']"

definition CANDIDATES_username :: "jstr list" where
  "CANDIDATES_username =
     map js [''username'', ''user name'', ''login name'', ''login'', ''user'', ''email'', ''login_username'']"

definition CANDIDATES_password :: "jstr list" where
  "CANDIDATES_password = map js [''password'', ''login_password'', ''pass'']"

definition CANDIDATES_url :: "jstr list" where
  "CANDIDATES_url =
     map js [''url'', ''uri'', ''website'', ''web site'', ''web address'', ''login_uri'', ''site'', ''link'']"

definition CANDIDATES_notes :: "jstr list" where
  "CANDIDATES_notes = map js [''notes'', ''note'', ''comments'', ''comment'', ''extra'', ''description'']"

definition CANDIDATES_folder :: "jstr list" where
  "CANDIDATES_folder = map js [''folder'', ''group'', ''grouping'', ''category'', ''path'']"

definition CANDIDATES_totp :: "jstr list" where
  "CANDIDATES_totp = map js [''totp'', ''otpauth'', ''otp'', ''otpsecret'', ''otp secret'', ''login_totp'']"

definition byLower :: "jstr list \<Rightarrow> (jstr, jstr) jmap" where
  "byLower header = fold (\<lambda>cell m. mapSetNew m (columnKey cell) (trim cell)) header []"

fun pickColumn :: "(jstr, jstr) jmap \<Rightarrow> jstr list \<Rightarrow> jstr option" where
  "pickColumn m [] = None"
| "pickColumn m (candidate # cs) = (case mapGet m candidate of Some found \<Rightarrow> Some found | None \<Rightarrow> pickColumn m cs)"

definition suggestMapping :: "jstr list \<Rightarrow> CsvColumnMapping" where
  "suggestMapping header =
     (let m = byLower header;
          name = pickColumn m CANDIDATES_name; username = pickColumn m CANDIDATES_username;
          password = pickColumn m CANDIDATES_password; url = pickColumn m CANDIDATES_url;
          noteCol = pickColumn m CANDIDATES_notes; folder = pickColumn m CANDIDATES_folder;
          totp = pickColumn m CANDIDATES_totp;
          placed = concat (map (\<lambda>c. case c of None \<Rightarrow> [] | Some x \<Rightarrow> [x])
                     [name, username, password, url, noteCol, folder, totp])
      in \<lparr> cm_name = name, cm_username = username, cm_password = password, cm_url = url,
           cm_notes = noteCol, cm_folder = folder, cm_folderSeparator = js ''/'', cm_totp = totp,
           cm_custom = filter (\<lambda>column. column \<notin> set placed) (map snd m) \<rparr>)"

definition readColumn :: "Columns \<Rightarrow> CsvRow \<Rightarrow> jstr option \<Rightarrow> jstr option" where
  "readColumn columns row column =
     (case column of None \<Rightarrow> None | Some c \<Rightarrow> colValue columns row (Some (columnKey c)))"

definition genericRow :: "CsvColumnMapping \<Rightarrow> Columns \<Rightarrow> nat \<Rightarrow> CsvRow \<Rightarrow> RowOutcome" where
  "genericRow mapping columns width row =
     (let get = readColumn columns row in
      case surplusFieldsError row width of
        Some e \<Rightarrow> Inl e
      | None \<Rightarrow>
          bindR (requiredPassword (rw_line row) (get (cm_password mapping)))
            (\<lambda>checked.
               let url = orElse (get (cm_url mapping)) [];
                   named = orElse (get (cm_name mapping)) [];
                   totp = orElse (get (cm_totp mapping)) [];
                   customs = concat (map (\<lambda>column.
                     case get (Some column) of
                       None \<Rightarrow> []
                     | Some v \<Rightarrow> if v = [] then [] else [importField column v Custom]) (cm_custom mapping))
               in Inr ((blankImportItem (rw_line row))\<lparr>
                     it_name := (if named \<noteq> [] then named else url),
                     it_username := orElse (get (cm_username mapping)) [],
                     it_password := checked,
                     it_urls := (if url = [] then [] else [url]),
                     it_notes := orElse (get (cm_notes mapping)) [],
                     it_folderPath := folderSegments (orElse (get (cm_folder mapping)) []) (cm_folderSeparator mapping),
                     it_extra := (case cm_totp mapping of
                         None \<Rightarrow> []
                       | Some c \<Rightarrow> if totp \<noteq> [] then [importField c totp Totp] else []) @ customs \<rparr>)))"

definition parseGenericCsv :: "jstr \<Rightarrow> CsvColumnMapping option \<Rightarrow> ImportResult" where
  "parseGenericCsv s mapping =
     (let table = parseCsv s; chosen = orElse mapping (suggestMapping (tb_header table));
          columns = indexColumns (tb_header table)
      in if cm_password chosen = None
         then unfitResult ''No column has been chosen as the password, so no row could be imported; choose one on the mapping screen'' table
         else mapCsvRows rw_line (tb_rows table) (tb_errors table)
                (genericRow chosen columns (length (tb_header table))))"

section \<open>The formats a user can name\<close>

datatype ImportParser =
    BrowserCsv | BitwardenCsv | BitwardenJson | LastpassCsv | OnepasswordCsv | Onepassword1pux
  | KeepassCsv | NordpassCsv | DashlaneCsv | DashlaneJson | ProtonpassJson | KeeperJson | GenericCsv

datatype ManualFormat = Detected ImportParser | KeeperCsv

record ManualFormatChoice =
  mf_id :: ManualFormat
  mf_label :: jstr
  mf_caution :: "jstr option"

definition formatChoice :: "ManualFormat \<Rightarrow> string \<Rightarrow> ManualFormatChoice" where
  "formatChoice i label = \<lparr> mf_id = i, mf_label = js label, mf_caution = None \<rparr>"

definition MANUAL_FORMATS :: "ManualFormatChoice list" where
  "MANUAL_FORMATS =
     [formatChoice (Detected BitwardenJson) ''Bitwarden (.json)'',
      formatChoice (Detected BitwardenCsv) ''Bitwarden (.csv)'',
      formatChoice (Detected Onepassword1pux) ''1Password (.1pux)'',
      formatChoice (Detected OnepasswordCsv) ''1Password (.csv)'',
      formatChoice (Detected LastpassCsv) ''LastPass (.csv)'',
      formatChoice (Detected BrowserCsv) ''Chrome, Edge, Brave, Firefox or Safari (.csv)'',
      formatChoice (Detected KeepassCsv) ''KeePass or KeePassXC (.csv)'',
      formatChoice (Detected NordpassCsv) ''NordPass (.csv)'',
      formatChoice (Detected DashlaneJson) ''Dashlane (.json)'',
      formatChoice (Detected DashlaneCsv) ''Dashlane (.csv)'',
      formatChoice (Detected ProtonpassJson) ''Proton Pass (.json)'',
      formatChoice (Detected KeeperJson) ''Keeper (.json)'',
      (formatChoice KeeperCsv ''Keeper (.csv)'')\<lparr> mf_caution :=
         Some (js ''A Keeper CSV has no header row, so its columns are read by position. Check the preview carefully: a different column order maps silently wrong.'') \<rparr>,
      formatChoice (Detected GenericCsv) ''Something else (choose the columns yourself)'']"

text \<open>
  \<^verbatim>\<open>parseText\<close>. Its type excludes \<^verbatim>\<open>onepassword-1pux\<close>, which arrives as bytes: that value
  is \<open>None\<close> here, the call the compiler refuses.
\<close>

fun parseText :: "url_parser \<Rightarrow> ManualFormat \<Rightarrow> jstr \<Rightarrow> CsvColumnMapping option \<Rightarrow> ImportResult option" where
  "parseText newURL KeeperCsv s mapping = Some (parseKeeperCsv s)"
| "parseText newURL (Detected p) s mapping =
     (case p of
        GenericCsv \<Rightarrow> Some (parseGenericCsv s mapping)
      | BrowserCsv \<Rightarrow> Some (parseBrowserCsv newURL s)
      | BitwardenCsv \<Rightarrow> Some (parseBitwardenCsv s)
      | BitwardenJson \<Rightarrow> Some (parseBitwardenJson s)
      | LastpassCsv \<Rightarrow> Some (parseLastPassCsv s)
      | OnepasswordCsv \<Rightarrow> Some (parseOnePasswordCsv s)
      | KeepassCsv \<Rightarrow> Some (parseKeePassCsv s)
      | NordpassCsv \<Rightarrow> Some (parseNordPassCsv s)
      | DashlaneCsv \<Rightarrow> Some (parseDashlaneCsv s)
      | DashlaneJson \<Rightarrow> Some (parseDashlaneJson s)
      | ProtonpassJson \<Rightarrow> Some (parseProtonPassJson s)
      | KeeperJson \<Rightarrow> Some (parseKeeperJson s)
      | Onepassword1pux \<Rightarrow> None)"

section \<open>The generic row mapping keeps the contract\<close>

lemma genericRow_Inr:
  assumes "genericRow mapping columns width row = Inr it"
  shows "it_sourceRow it = rw_line row" "it_type it = Login" "it_password it \<noteq> []"
    "readColumn columns row (cm_password mapping) = Some (it_password it)"
  using assms
  by (auto simp: genericRow_def bindR_eq_Inr requiredPassword_Inr Let_def split: option.splits)

interpretation generic: row_parser rw_line "\<lambda>row. readColumn columns row (cm_password mapping)"
  "genericRow mapping columns width" for mapping columns width
proof
  fix r e assume "genericRow mapping columns width r = Inl e"
  then show "er_row e = rw_line r"
    by (auto simp: genericRow_def bindR_def Let_def row_intro split: option.splits sum.splits)
qed (auto simp: genericRow_Inr)

lemma generic_imported:
  assumes "it \<in> set (rs_items (parseGenericCsv s mapping))" "it_type it = Login"
  shows "it_password it \<noteq> []"
  using assms generic.login_has_password by (auto simp: parseGenericCsv_def Let_def split: if_splits)

lemmas parser_passwords = lastpass_imported keepass_imported nordpass_imported dashlane_imported
  keeper_imported bitwarden_imported proton_imported onepassword_imported generic_imported

lemma parsed_login_password:
  assumes "parseText newURL format s mapping = Some r" "it \<in> set (rs_items r)" "it_type it = Login"
  shows "it_password it \<noteq> []"
proof (cases format)
  case (Detected p)
  show ?thesis
    using assms Detected by (cases p) (auto dest: parser_passwords dest!: browser_imported)
qed (use assms in \<open>auto dest: parser_passwords\<close>)

section \<open>Nothing an export carried is lost\<close>

lemma sublist_trans: "sublist a b \<Longrightarrow> sublist b c \<Longrightarrow> sublist a c"
  unfolding sublist_def by (metis append.assoc)

lemma sublist_into:
  "sublist x x" "sublist x ys \<Longrightarrow> sublist x (p @ ys)" "sublist x ys \<Longrightarrow> sublist x (ys @ q)"
  "sublist x ys \<Longrightarrow> sublist x (c # ys)"
  by (auto intro: sublist_trans [of x ys] sublist_append_leftI sublist_append_rightI sublist_Cons_right [THEN iffD2])

lemma join_sublist: "x \<in> set xs \<Longrightarrow> sublist x (join sep xs)"
  by (induction sep xs rule: join.induct) (auto intro: sublist_into)

lemma composeNotes_prefix: "prefix (it_notes item) (composeNotes item carried)"
  by (auto simp: composeNotes_def Let_def)

lemma composeNotes_line:
  assumes "l \<in> set (carried @ map extraLine (it_extra item)) \<or>
    it_folderPath item \<noteq> [] \<and> l = js ''Folder: '' @ join PATH_SEPARATOR (it_folderPath item)"
  shows "sublist l (composeNotes item carried)"
proof -
  define ls where "ls = (if 0 < length (it_folderPath item)
      then [js ''Folder: '' @ join PATH_SEPARATOR (it_folderPath item)] else []) @
      carried @ map extraLine (it_extra item)"
  have l: "l \<in> set ls" using assms by (auto simp: ls_def)
  then have "sublist l (join [NL] (IMPORTED_HEADING # ls))" by (intro join_sublist) simp
  moreover have "composeNotes item carried = (if length ls = 0 then it_notes item
      else if it_notes item = [] then join [NL] (IMPORTED_HEADING # ls)
      else it_notes item @ [NL, NL] @ join [NL] (IMPORTED_HEADING # ls))"
    unfolding composeNotes_def Let_def ls_def by (rule refl)
  ultimately show ?thesis using l by (auto intro: sublist_into)
qed

lemma composeNotes_extra:
  assumes "f \<in> set (it_extra item)"
  shows "sublist (fd_name f) (composeNotes item c)" "sublist (fd_value f) (composeNotes item c)"
proof -
  have "sublist (extraLine f) (composeNotes item c)" using assms by (intro composeNotes_line) auto
  moreover have "\<exists>a b. extraLine f = a @ fd_name f @ b @ fd_value f"
  proof (cases "fd_kind f")
    case Totp
    then have "extraLine f = (TOTP_LABEL @ js '', exported as '' @ [34]) @ fd_name f @ ([34] @ js '': '') @ fd_value f"
      by (simp add: extraLine_def)
    then show ?thesis by blast
  qed (auto simp: extraLine_def intro: exI [of _ "[]"])
  then have "sublist (fd_name f) (extraLine f)" "sublist (fd_value f) (extraLine f)"
    unfolding sublist_def by (metis, metis append.assoc append.right_neutral)
  ultimately show "sublist (fd_name f) (composeNotes item c)" "sublist (fd_value f) (composeNotes item c)"
    by (blast intro: sublist_trans)+
qed

lemma composeNotes_folder:
  assumes "seg \<in> set (it_folderPath item)"
  shows "sublist seg (composeNotes item c)"
proof -
  have "sublist seg (js ''Folder: '' @ join PATH_SEPARATOR (it_folderPath item))"
    using join_sublist [OF assms] by (rule sublist_into(2))
  then show ?thesis
    using assms by (intro sublist_trans [OF _ composeNotes_line]) auto
qed

lemma composeNotes_carried: "l @ x \<in> set c \<Longrightarrow> sublist x (composeNotes item c)"
  by (rule sublist_trans [OF _ composeNotes_line [where l = "l @ x"]]) auto

definition notesOf :: "ItemPlaintext \<Rightarrow> jstr" where
  "notesOf p = (case p of PLogin l \<Rightarrow> li_notes l | PNote n \<Rightarrow> ni_notes n)"

text \<open>
  C5. Importing loses nothing: whatever a row carried is in the item Keyhole stores. The
  user's note comes first and unchanged; every extra field's name and value, and every folder
  segment, is in the note. A login keeps its name, username, URLs and its password byte for
  byte; a note that has a password becomes a login, and one that has none keeps its username
  and URLs in the note.
\<close>

theorem import_loses_nothing:
  fixes item :: ImportItem and folderId :: "jstr option"
  defines "p \<equiv> toItemPlaintext folderId item"
  shows "prefix (it_notes item) (notesOf p) \<and>
    (\<forall>f \<in> set (it_extra item). sublist (fd_name f) (notesOf p) \<and> sublist (fd_value f) (notesOf p)) \<and>
    (\<forall>seg \<in> set (it_folderPath item). sublist seg (notesOf p)) \<and>
    (case p of
       PLogin l \<Rightarrow> li_name l = it_name item \<and> li_username l = it_username item \<and>
         li_password l = it_password item \<and> li_urls l = it_urls item \<and> li_favorite l = it_favorite item
     | PNote n \<Rightarrow> it_type item = Note \<and> it_password item = [] \<and> ni_name n = it_name item \<and>
         ni_favorite n = it_favorite item \<and> sublist (it_username item) (ni_notes n) \<and>
         (\<forall>url \<in> set (it_urls item). sublist url (ni_notes n)))"
proof (cases "it_type item = Login \<or> it_password item \<noteq> []")
  case True
  then have "notesOf p = composeNotes item []" by (simp add: p_def toItemPlaintext_def notesOf_def)
  moreover have "case p of PLogin l \<Rightarrow> li_name l = it_name item \<and> li_username l = it_username item \<and>
         li_password l = it_password item \<and> li_urls l = it_urls item \<and> li_favorite l = it_favorite item
     | PNote n \<Rightarrow> False"
    using True by (simp add: p_def toItemPlaintext_def)
  ultimately show ?thesis
    by (auto simp: composeNotes_prefix composeNotes_extra composeNotes_folder split: ItemPlaintext.splits)
next
  case False
  define carried where "carried = (if it_username item \<noteq> [] then [js ''Username: '' @ it_username item] else []) @
    map (\<lambda>url. js ''Web address: '' @ url) (it_urls item)"
  have p: "p = PNote \<lparr> ni_name = it_name item, ni_notes = composeNotes item carried,
      ni_favorite = it_favorite item, ni_folderId = folderId \<rparr>"
    using False by (simp add: p_def toItemPlaintext_def carried_def Let_def)
  have u: "sublist (it_username item) (composeNotes item carried)"
    by (cases "it_username item = []") (auto simp: carried_def intro!: composeNotes_carried [where l = "js ''Username: ''"])
  have w: "sublist url (composeNotes item carried)" if "url \<in> set (it_urls item)" for url
    using that by (intro composeNotes_carried [where l = "js ''Web address: ''"]) (auto simp: carried_def)
  have "it_type item = Note" using False by (cases "it_type item") auto
  then show ?thesis
    using False u w by (auto simp: p notesOf_def composeNotes_prefix composeNotes_extra composeNotes_folder)
qed

definition sampleImport :: ImportItem where
  "sampleImport = (blankImportItem 3)\<lparr> it_password := js ''s3'', it_notes := js ''n'',
     it_extra := [importField (js ''PIN'') (js ''1234'') Custom] \<rparr>"

theorem import_loses_nothing_witness:
  "sublist (js ''1234'') (notesOf (toItemPlaintext None sampleImport)) \<and>
   prefix (js ''n'') (notesOf (toItemPlaintext None sampleImport))"
  using import_loses_nothing [of sampleImport None] by (auto simp: sampleImport_def)

text \<open>
  No parser ever imports a login without its password: whatever format the user names and
  whatever the file holds, every login among the imported items has a non-empty password.
\<close>

theorem imported_logins_have_passwords:
  assumes "parseText newURL format s mapping = Some r" "it \<in> set (rs_items r)" "it_type it = Login"
  shows "it_password it \<noteq> []"
  by (rule parsed_login_password [OF assms])

definition sampleCsv :: jstr where
  "sampleCsv = js ''name,url,username,password'' @ [10] @ js ''Mail,https://m.example,ann,s3'' @ [10] @ js ''Chat,https://c.example,ann,'' @ [10]"

theorem imported_logins_have_passwords_witness:
  "\<exists>r it. parseText (\<lambda>u. None) (Detected BrowserCsv) sampleCsv None = Some r \<and> it \<in> set (rs_items r) \<and>
     it_type it = Login \<and> it_password it \<noteq> [] \<and> length (rs_errors r) = 1"
proof -
  define r where "r = parseBrowserCsv (\<lambda>u. None) sampleCsv"
  have p: "parseText (\<lambda>u. None) (Detected BrowserCsv) sampleCsv None = Some r" by (simp add: r_def)
  have "map it_type (rs_items r) = [Login] \<and> length (rs_errors r) = 1" unfolding r_def by code_simp
  then obtain it where it: "rs_items r = [it]" "it_type it = Login" "length (rs_errors r) = 1" by auto
  then have "it_password it \<noteq> []" by (intro imported_logins_have_passwords [OF p]) simp_all
  then show ?thesis using p it by (intro exI [of _ r] exI [of _ it]) simp
qed

end
