(* ===== verification/Dedupe.thy ===== *)
theory Dedupe
  imports MapItems
begin

text \<open>
  Which rows of an import are already accounts the user has
  (\<^verbatim>\<open>packages/vault/src/import/dedupe.ts\<close>).

  Shown: the report is exactly the partition of the comparable rows by normalised host and
  username, restricted to the accounts claimed twice, provided the platform's URL parser never
  returns a host or a port with a line feed in it.
\<close>

record DuplicateKey =
  dk_host :: jstr
  dk_username :: jstr

record ExistingItem =
  ex_id :: jstr
  ex_name :: jstr
  ex_username :: jstr
  ex_urls :: "jstr list"

record DuplicateGroup =
  dg_key :: DuplicateKey
  dg_rows :: "nat list"
  dg_existing :: "ExistingItem list"

record DuplicateReport =
  dr_groups :: "DuplicateGroup list"
  dr_unchecked :: "nat list"

definition parseUrl :: "url_parser \<Rightarrow> jstr \<Rightarrow> Url option" where
  "parseUrl newURL v =
     (case newURL v of None \<Rightarrow> None | Some u \<Rightarrow> if url_hostname u = [] then None else Some u)"

definition matchHost :: "url_parser \<Rightarrow> jstr \<Rightarrow> jstr option" where
  "matchHost newURL url =
     (let trimmed = trim url in
      if trimmed = [] then None
      else case (case parseUrl newURL trimmed of
                   Some u \<Rightarrow> Some u | None \<Rightarrow> parseUrl newURL (js ''https://'' @ trimmed)) of
          None \<Rightarrow> None
        | Some parsed \<Rightarrow>
            (let lower = toLowerCase (url_hostname parsed);
                 undotted = (if endsWith lower (js ''.'') then take (length lower - 1) lower else lower);
                 hostname = (if startsWith undotted (js ''www.'') then drop 4 undotted else undotted)
             in if hostname = [] then None
                else Some (if url_port parsed = [] then hostname else hostname @ js '':'' @ url_port parsed)))"

definition matchUsername :: "jstr \<Rightarrow> jstr" where
  "matchUsername username = toLowerCase (trim username)"

text \<open>\<^verbatim>\<open>keyOf\<close>, whose argument is a row of the import or an item of the vault.\<close>

definition keyOf :: "url_parser \<Rightarrow> bool \<Rightarrow> jstr \<Rightarrow> jstr list \<Rightarrow> DuplicateKey option" where
  "keyOf newURL isNote username urls =
     (if isNote then None
      else case urls of
          [] \<Rightarrow> None
        | first # others \<Rightarrow>
            (case matchHost newURL first of
               None \<Rightarrow> None
             | Some host \<Rightarrow> Some \<lparr> dk_host = host, dk_username = matchUsername username \<rparr>))"

abbreviation rowKey :: "url_parser \<Rightarrow> ImportItem \<Rightarrow> DuplicateKey option" where
  "rowKey newURL it \<equiv> keyOf newURL (it_type it = Note) (it_username it) (it_urls it)"

abbreviation existingKey :: "url_parser \<Rightarrow> ExistingItem \<Rightarrow> DuplicateKey option" where
  "existingKey newURL e \<equiv> keyOf newURL False (ex_username e) (ex_urls e)"

definition keyText :: "DuplicateKey \<Rightarrow> jstr" where
  "keyText key = dk_host key @ [NL] @ dk_username key"

definition addRow ::
  "url_parser \<Rightarrow> nat \<times> ImportItem \<Rightarrow> (jstr, DuplicateGroup) jmap \<times> nat list \<Rightarrow> (jstr, DuplicateGroup) jmap \<times> nat list" where
  "addRow newURL entry acc =
     (let (index, item) = entry; (byKey, skipped) = acc in
      case rowKey newURL item of
        None \<Rightarrow> (byKey, skipped @ [index])
      | Some key \<Rightarrow>
          (let t = keyText key;
               grp = orElse (mapGet byKey t) \<lparr> dg_key = key, dg_rows = [], dg_existing = [] \<rparr>
           in (mapSet byKey t (grp\<lparr> dg_rows := dg_rows grp @ [index] \<rparr>), skipped)))"

definition addExisting :: "url_parser \<Rightarrow> ExistingItem \<Rightarrow> (jstr, DuplicateGroup) jmap \<Rightarrow> (jstr, DuplicateGroup) jmap" where
  "addExisting newURL item byKey =
     (case existingKey newURL item of
        None \<Rightarrow> byKey
      | Some key \<Rightarrow>
          (case mapGet byKey (keyText key) of
             None \<Rightarrow> byKey
           | Some grp \<Rightarrow>
               mapSet byKey (keyText key) (grp\<lparr> dg_existing := dg_existing grp @ [item] \<rparr>)))"

definition findDuplicates :: "url_parser \<Rightarrow> ImportItem list \<Rightarrow> ExistingItem list \<Rightarrow> DuplicateReport" where
  "findDuplicates newURL rows existing =
     (let (byRows, skipped) = fold (addRow newURL) (enumerate 0 rows) ([], []);
          byKey = fold (addExisting newURL) existing byRows
      in \<lparr> dr_groups = filter (\<lambda>g. 1 < length (dg_rows g) \<or> 0 < length (dg_existing g)) (map snd byKey),
           dr_unchecked = skipped \<rparr>)"

section \<open>The groups, by the text of their key\<close>

definition hasText :: "DuplicateKey option \<Rightarrow> jstr \<Rightarrow> bool" where
  "hasText k t = (case k of None \<Rightarrow> False | Some x \<Rightarrow> keyText x = t)"

lemma hasText_simps [simp]: "hasText None t = False" "hasText (Some k) t = (keyText k = t)"
  by (simp_all add: hasText_def)

definition rowsAt :: "url_parser \<Rightarrow> ImportItem list \<Rightarrow> jstr \<Rightarrow> nat list" where
  "rowsAt newURL rows t =
     filter (\<lambda>i. hasText (rowKey newURL (rows ! i)) t) [0..<length rows]"

definition groupAt :: "url_parser \<Rightarrow> ImportItem list \<Rightarrow> jstr \<Rightarrow> DuplicateGroup option" where
  "groupAt newURL rows t =
     (case rowsAt newURL rows t of
        [] \<Rightarrow> None
      | i # others \<Rightarrow> Some \<lparr> dg_key = the (rowKey newURL (rows ! i)), dg_rows = i # others, dg_existing = [] \<rparr>)"

lemma rowsAt_snoc:
  "rowsAt u (rows @ [it]) t =
     rowsAt u rows t @ (if hasText (rowKey u it) t then [length rows] else [])"
proof -
  have "filter (\<lambda>i. hasText (rowKey u ((rows @ [it]) ! i)) t) [0..<length rows] = rowsAt u rows t"
    unfolding rowsAt_def by (rule filter_cong) (auto simp: nth_append)
  then show ?thesis by (simp add: rowsAt_def)
qed

lemma groupAt_snoc:
  "groupAt u (rows @ [it]) t =
     (case rowKey u it of
        None \<Rightarrow> groupAt u rows t
      | Some key \<Rightarrow>
          if keyText key = t then
            (let g = orElse (groupAt u rows t) \<lparr> dg_key = key, dg_rows = [], dg_existing = [] \<rparr>
             in Some (g\<lparr> dg_rows := dg_rows g @ [length rows] \<rparr>))
          else groupAt u rows t)"
proof (cases "rowsAt u rows t")
  case Nil
  then show ?thesis by (auto simp: groupAt_def rowsAt_snoc Let_def split: option.splits)
next
  case (Cons i more_rows)
  then have "i < length rows" by (auto simp: rowsAt_def dest!: arg_cong [of _ _ set])
  then show ?thesis
    using Cons by (auto simp: groupAt_def rowsAt_snoc Let_def nth_append split: option.splits)
qed

definition uncheckedRows :: "url_parser \<Rightarrow> ImportItem list \<Rightarrow> nat list" where
  "uncheckedRows newURL rows = filter (\<lambda>i. rowKey newURL (rows ! i) = None) [0..<length rows]"

lemma uncheckedRows_snoc:
  "uncheckedRows u (rows @ [it]) = uncheckedRows u rows @ (if rowKey u it = None then [length rows] else [])"
proof -
  have "filter (\<lambda>i. rowKey u ((rows @ [it]) ! i) = None) [0..<length rows] = uncheckedRows u rows"
    unfolding uncheckedRows_def by (rule filter_cong) (auto simp: nth_append)
  then show ?thesis by (simp add: uncheckedRows_def)
qed

lemma addRows:
  assumes "fold (addRow u) (enumerate 0 rows) ([], []) = (byKey, skipped)"
  shows "mapGet byKey = groupAt u rows" "mapWf byKey" "skipped = uncheckedRows u rows"
  using assms
proof (induction rows arbitrary: byKey skipped rule: rev_induct)
  case Nil
  {
    case 1 then show ?case by (auto simp: groupAt_def rowsAt_def fun_eq_iff)
  next
    case 2 then show ?case by simp
  next
    case 3 then show ?case by (simp add: uncheckedRows_def)
  }
next
  case (snoc it rows)
  obtain b w where bw: "fold (addRow u) (enumerate 0 rows) ([], []) = (b, w)" by fastforce
  note IH = snoc.IH [OF bw]
  have step: "fold (addRow u) (enumerate 0 (rows @ [it])) ([], []) = addRow u (length rows, it) (b, w)"
    using bw by (simp add: enumerate_append_eq)
  {
    case 1
    then show ?case unfolding step using IH(1)
      by (auto simp: addRow_def groupAt_snoc mapGet_set Let_def fun_eq_iff split: option.splits)
  next
    case 2
    then show ?case unfolding step using IH(2)
      by (auto simp: addRow_def Let_def jm.wf_put split: option.splits)
  next
    case 3
    then show ?case unfolding step
      by (auto simp: addRow_def Let_def IH(3) uncheckedRows_snoc split: option.splits)
  }
qed

lemma addExisting_get:
  "mapGet (addExisting u e byKey) t =
     map_option (\<lambda>g. if hasText (existingKey u e) t
       then g\<lparr> dg_existing := dg_existing g @ [e] \<rparr> else g) (mapGet byKey t)"
  by (cases "existingKey u e"; cases "mapGet byKey t")
    (auto simp: addExisting_def mapGet_set split: option.split)

lemma addExistings:
  "mapGet (fold (addExisting u) es byKey) t =
     map_option (\<lambda>g. g\<lparr> dg_existing := dg_existing g @
       filter (\<lambda>e. hasText (existingKey u e) t) es \<rparr>) (mapGet byKey t)"
proof (induction es arbitrary: byKey)
  case Nil
  then show ?case by (cases "mapGet byKey t") auto
next
  case (Cons e es)
  then show ?case by (cases "mapGet byKey t") (simp_all add: addExisting_get)
qed

lemma addExistings_wf: "mapWf byKey \<Longrightarrow> mapWf (fold (addExisting u) es byKey)"
  by (induction es arbitrary: byKey) (auto simp: addExisting_def jm.wf_put split: option.split)

section \<open>Keys and their texts\<close>

text \<open>What the URL standard says of a host and a port: no line feed in either.\<close>

definition urlsClean :: "url_parser \<Rightarrow> bool" where
  "urlsClean newURL = (\<forall>v u. newURL v = Some u \<longrightarrow> NL \<notin> set (url_hostname u) \<and> NL \<notin> set (url_port u))"

lemma lower_tables:
  "list_all (\<lambda>(lo, hi, step, img). 11 \<le> img \<and> img + (hi - lo) < 65536) lower_ranges"
  "list_all (\<lambda>(n, img). list_all (\<lambda>x. 11 \<le> x \<and> x < 65536) img) lower_special"
  by (simp_all add: lower_ranges_def lower_special_def)

lemma case_image_lower:
  assumes "128 \<le> n" "n < 65536" "x \<in> set (case_image lower_special lower_ranges n)"
  shows "11 \<le> x \<and> x < 65536"
proof (cases "map_of lower_special n")
  case (Some img)
  then show ?thesis using lower_tables(2) assms(3) map_of_SomeD [OF Some]
    by (force simp: case_image_def list_all_iff)
next
  case None
  show ?thesis
  proof (cases "find (in_range n) lower_ranges")
    case None': None
    then show ?thesis using assms None by (simp add: case_image_def)
  next
    case (Some r)
    then have r: "r \<in> set lower_ranges" "in_range n r" by (auto simp: find_Some_iff)
    obtain lo hi step img where rr: "r = (lo, hi, step, img)" by (cases r)
    have "11 \<le> img \<and> img + (hi - lo) < 65536" using r(1) lower_tables(1) rr by (auto simp: list_all_iff)
    moreover have "lo \<le> n" "n \<le> hi" using r(2) rr by (auto simp: in_range_def)
    moreover have "x = img + (n - lo)" using assms(3) None Some rr by (simp add: case_image_def)
    ultimately show ?thesis by linarith
  qed
qed

lemma lower_unit_NL: "NL \<in> set (lower_unit c) \<Longrightarrow> c = NL"
proof (cases "c < 128")
  case True
  assume "NL \<in> set (lower_unit c)"
  moreover have "65 \<le> c \<and> c \<le> 90 \<Longrightarrow> c + 32 \<noteq> NL"
  proof
    assume r: "65 \<le> c \<and> c \<le> 90" and "c + 32 = NL"
    have "unat (c + 32) = unat c + 32" using r by (simp add: unat_word_ariths word_le_nat_alt)
    then have "unat c + 32 = 10" using \<open>c + 32 = NL\<close> by simp
    then show False using r by (simp add: word_le_nat_alt)
  qed
  ultimately show ?thesis using True by (auto simp: lower_unit_def split: if_splits)
next
  case False
  assume "NL \<in> set (lower_unit c)"
  then obtain x where x: "x \<in> set (case_image lower_special lower_ranges (unat c))" "of_nat x = NL"
    using False by (auto simp: lower_unit_def)
  have "128 \<le> unat c" using False by (simp add: word_less_nat_alt)
  then have "11 \<le> x \<and> x < 65536" using case_image_lower [OF _ unit_less] x(1) by blast
  then have "unat (of_nat x :: code_unit) = x" by (simp add: unat_of_nat)
  then show ?thesis using x(2) \<open>11 \<le> x \<and> x < 65536\<close> by simp
qed

lemma toLowerCase_NL: "NL \<in> set (toLowerCase s) \<Longrightarrow> NL \<in> set s"
  by (auto simp: toLowerCase_def dest: lower_unit_NL)

lemma matchHost_NL:
  assumes "urlsClean newURL" "matchHost newURL url = Some h"
  shows "NL \<notin> set h"
proof -
  obtain u v where u: "newURL v = Some u" and h:
    "set h \<subseteq> set (toLowerCase (url_hostname u)) \<union> set (js '':'') \<union> set (url_port u)"
    using assms(2)
    by (fastforce simp: matchHost_def parseUrl_def Let_def dest: in_set_takeD in_set_dropD
        split: option.splits if_splits)
  have "NL \<notin> set (js '':'')" by code_simp
  moreover have "NL \<notin> set (url_hostname u)" "NL \<notin> set (url_port u)"
    using assms(1) u by (auto simp: urlsClean_def)
  ultimately show ?thesis using h toLowerCase_NL by blast
qed

lemma keyText_inj:
  assumes "NL \<notin> set (dk_host a)" "NL \<notin> set (dk_host b)" "keyText a = keyText b"
  shows "a = b"
proof -
  have split: "takeWhile (\<lambda>c. c \<noteq> NL) (keyText k) = dk_host k" if "NL \<notin> set (dk_host k)" for k
    using that unfolding keyText_def by (subst takeWhile_append2) auto
  have "dk_host a = dk_host b" using split [OF assms(1)] split [OF assms(2)] assms(3) by simp
  then show ?thesis using assms(3) by (simp add: keyText_def)
qed

lemma keyOf_host: "urlsClean u \<Longrightarrow> keyOf u n w urls = Some k \<Longrightarrow> NL \<notin> set (dk_host k)"
  by (auto simp: keyOf_def matchHost_NL split: if_splits list.splits option.splits)

lemma keyText_eq:
  assumes "urlsClean u" "keyOf u n w urls = Some k"
  shows "hasText (keyOf u n' w' urls') (keyText k) \<longleftrightarrow> keyOf u n' w' urls' = Some k"
proof (cases "keyOf u n' w' urls'")
  case (Some k')
  have "keyText k' = keyText k \<longleftrightarrow> k' = k"
    using keyText_inj [OF keyOf_host [OF assms(1) Some] keyOf_host [OF assms]] by blast
  then show ?thesis by (simp add: Some)
qed simp

section \<open>The report\<close>

definition groupFor :: "url_parser \<Rightarrow> ImportItem list \<Rightarrow> ExistingItem list \<Rightarrow> DuplicateKey \<Rightarrow> DuplicateGroup" where
  "groupFor newURL rows existing k =
     \<lparr> dg_key = k, dg_rows = filter (\<lambda>i. rowKey newURL (rows ! i) = Some k) [0..<length rows],
       dg_existing = filter (\<lambda>e. existingKey newURL e = Some k) existing \<rparr>"

lemma groupAt_key:
  assumes "urlsClean u" "groupAt u rows t = Some g"
  shows "t = keyText (dg_key g) \<and> g\<lparr> dg_existing := filter (\<lambda>e. hasText (existingKey u e) t) es \<rparr>
    = groupFor u rows es (dg_key g) \<and> dg_rows g \<noteq> []"
proof -
  obtain i others where i: "rowsAt u rows t = i # others" using assms(2) by (auto simp: groupAt_def split: list.splits)
  then have "i \<in> set (rowsAt u rows t)" by simp
  then obtain k where k: "rowKey u (rows ! i) = Some k" and t: "t = keyText k"
    by (auto simp: rowsAt_def hasText_def split: option.splits)
  have g: "dg_key g = k" "dg_rows g = rowsAt u rows t" "dg_rows g \<noteq> []"
    using assms(2) i k by (auto simp: groupAt_def)
  then show ?thesis
    using t unfolding rowsAt_def by (cases g) (auto simp: groupFor_def keyText_eq [OF assms(1) k])
qed

lemma groupAt_some:
  assumes "urlsClean u" "filter (\<lambda>i. rowKey u (rows ! i) = Some k) [0..<length rows] \<noteq> []"
  shows "\<exists>g. groupAt u rows (keyText k) = Some g \<and> dg_key g = k"
proof -
  obtain j where j: "j < length rows" "rowKey u (rows ! j) = Some k" using assms(2) by (auto simp: filter_empty_conv)
  then have "j \<in> set (rowsAt u rows (keyText k))" by (simp add: rowsAt_def)
  then obtain g where g: "groupAt u rows (keyText k) = Some g"
    by (cases "rowsAt u rows (keyText k)") (auto simp: groupAt_def)
  obtain i others where i: "rowsAt u rows (keyText k) = i # others" using g by (auto simp: groupAt_def split: list.splits)
  then have "i \<in> set (rowsAt u rows (keyText k))" by simp
  then have "rowKey u (rows ! i) = Some k" by (simp add: rowsAt_def keyText_eq [OF assms(1) j(2)])
  then show ?thesis using g i by (auto simp: groupAt_def)
qed

lemma groups_exact:
  assumes clean: "urlsClean u"
  shows "g \<in> set (dr_groups (findDuplicates u rows existing)) \<longleftrightarrow>
    g = groupFor u rows existing (dg_key g) \<and> dg_rows g \<noteq> [] \<and> (1 < length (dg_rows g) \<or> dg_existing g \<noteq> [])"
    (is "?L \<longleftrightarrow> ?R")
proof -
  obtain b w where bw: "fold (addRow u) (enumerate 0 rows) ([], []) = (b, w)" by fastforce
  note rows = addRows [OF bw]
  let ?m = "fold (addExisting u) existing b"
  have wf: "mapWf ?m" by (rule addExistings_wf [OF rows(2)])
  have mem: "g \<in> snd ` set ?m \<longleftrightarrow> (\<exists>t. mapGet ?m t = Some g)"
    using jm.get_entries [OF wf] by force
  have get: "mapGet ?m t = map_option (\<lambda>g. g\<lparr> dg_existing := filter (\<lambda>e. hasText (existingKey u e) t) existing \<rparr>)
      (groupAt u rows t)" for t
  proof (cases "groupAt u rows t")
    case (Some h)
    then have "dg_existing h = []" by (auto simp: groupAt_def split: list.splits)
    then show ?thesis by (simp add: addExistings rows(1) Some)
  qed (simp add: addExistings rows(1))
  have "(\<exists>t. mapGet ?m t = Some g) \<longleftrightarrow> g = groupFor u rows existing (dg_key g) \<and> dg_rows g \<noteq> []"
  proof
    assume "\<exists>t. mapGet ?m t = Some g"
    then obtain t h where h: "groupAt u rows t = Some h"
      "g = h\<lparr> dg_existing := filter (\<lambda>e. hasText (existingKey u e) t) existing \<rparr>"
      by (auto simp: get)
    have e: "g = groupFor u rows existing (dg_key h)" "dg_rows h \<noteq> []"
      using groupAt_key [OF clean h(1), of existing] unfolding h(2) by blast+
    have k: "dg_key g = dg_key h" "dg_rows g = dg_rows h" unfolding h(2) by simp_all
    show "g = groupFor u rows existing (dg_key g) \<and> dg_rows g \<noteq> []" unfolding k using e by blast
  next
    assume R: "g = groupFor u rows existing (dg_key g) \<and> dg_rows g \<noteq> []"
    have "dg_rows (groupFor u rows existing (dg_key g)) \<noteq> []" using R by metis
    then have "filter (\<lambda>i. rowKey u (rows ! i) = Some (dg_key g)) [0..<length rows] \<noteq> []"
      unfolding groupFor_def DuplicateGroup.select_convs .
    from groupAt_some [OF clean this] obtain h where h: "groupAt u rows (keyText (dg_key g)) = Some h" "dg_key h = dg_key g"
      by blast
    have "h\<lparr> dg_existing := filter (\<lambda>e. hasText (existingKey u e) (keyText (dg_key g))) existing \<rparr> = g"
      using groupAt_key [OF clean h(1), of existing] R unfolding h(2) by metis
    then show "\<exists>t. mapGet ?m t = Some g"
      by (intro exI [of _ "keyText (dg_key g)"]) (simp only: get h(1) option.map)
  qed
  moreover have "g \<in> set (dr_groups (findDuplicates u rows existing)) \<longleftrightarrow>
      g \<in> snd ` set ?m \<and> (1 < length (dg_rows g) \<or> dg_existing g \<noteq> [])"
    by (simp add: findDuplicates_def bw conj_commute)
  ultimately show ?thesis using mem by blast
qed

lemma groups_distinct:
  assumes clean: "urlsClean u"
  shows "distinct (map dg_key (dr_groups (findDuplicates u rows existing)))"
proof -
  obtain b w where bw: "fold (addRow u) (enumerate 0 rows) ([], []) = (b, w)" by fastforce
  note rows = addRows [OF bw]
  let ?m = "fold (addExisting u) existing b"
  have wf: "distinct (map fst ?m)" using addExistings_wf [OF rows(2)] by (simp add: mapWf_def)
  have key: "t = keyText (dg_key g)" if "(t, g) \<in> set ?m" for t g
  proof -
    have "mapGet ?m t = Some g" using jm.get_entries [OF addExistings_wf [OF rows(2)]] that by simp
    then obtain h where "groupAt u rows t = Some h" "dg_key g = dg_key h"
      by (auto simp: addExistings rows(1))
    then show ?thesis using groupAt_key [OF clean] by metis
  qed
  then have "map fst ?m = map (\<lambda>p. keyText (dg_key (snd p))) ?m" by (intro map_cong) auto
  then have "distinct (map keyText (map (\<lambda>p. dg_key (snd p)) ?m))" using wf by (simp only: map_map comp_def)
  then have "distinct (map (\<lambda>p. dg_key (snd p)) ?m)" by (simp only: distinct_map)
  then have "distinct (map dg_key (map snd ?m))" by (simp add: comp_def)
  then show ?thesis by (simp add: findDuplicates_def bw distinct_map_filter del: map_map)
qed

definition existingFromPlaintexts :: "(jstr \<times> ItemPlaintext option) list \<Rightarrow> ExistingItem list" where
  "existingFromPlaintexts records =
     concat (map (\<lambda>(i, plaintext).
       case plaintext of
         Some (PLogin l) \<Rightarrow>
           [\<lparr> ex_id = i, ex_name = li_name l, ex_username = li_username l, ex_urls = li_urls l \<rparr>]
       | _ \<Rightarrow> []) records)"

text \<open>
  C12. The duplicate report is exact. A row that cannot be compared (a note, no URL, or no host
  in it) is listed as unchecked and nothing else is; each reported group holds all rows of the
  file, in order, and all items of the vault that share its host and username, and it is
  reported exactly when the account is claimed twice; no two groups share a key, so a row is
  in at most one. The platform's URL parser is assumed never to return a host or port with a
  line feed in it.
\<close>

theorem duplicates_exact:
  assumes "urlsClean newURL"
  shows "dr_unchecked (findDuplicates newURL rows existing) = uncheckedRows newURL rows \<and>
    distinct (map dg_key (dr_groups (findDuplicates newURL rows existing))) \<and>
    (\<forall>g. g \<in> set (dr_groups (findDuplicates newURL rows existing)) \<longleftrightarrow>
       g = groupFor newURL rows existing (dg_key g) \<and> dg_rows g \<noteq> [] \<and>
       (1 < length (dg_rows g) \<or> dg_existing g \<noteq> []))"
proof -
  obtain b w where bw: "fold (addRow newURL) (enumerate 0 rows) ([], []) = (b, w)" by fastforce
  have "dr_unchecked (findDuplicates newURL rows existing) = uncheckedRows newURL rows"
    using addRows(3) [OF bw] by (simp add: findDuplicates_def bw)
  then show ?thesis using groups_distinct [OF assms] groups_exact [OF assms] by blast
qed

definition sampleUrl :: url_parser where
  "sampleUrl v = (if v = js ''https://x.com'' then Some \<lparr> url_host = js ''x.com'', url_hostname = js ''x.com'', url_port = [] \<rparr> else None)"

definition sampleRow :: "string \<Rightarrow> ImportItem" where
  "sampleRow who = (blankImportItem 2)\<lparr> it_urls := [js ''https://x.com''], it_username := js who \<rparr>"

theorem duplicates_exact_witness:
  "urlsClean sampleUrl \<and>
   groupFor sampleUrl [sampleRow ''Ann'', blankImportItem 3, sampleRow ''ann''] []
     \<lparr> dk_host = js ''x.com'', dk_username = js ''ann'' \<rparr>
   \<in> set (dr_groups (findDuplicates sampleUrl [sampleRow ''Ann'', blankImportItem 3, sampleRow ''ann''] [])) \<and>
   dr_unchecked (findDuplicates sampleUrl [sampleRow ''Ann'', blankImportItem 3, sampleRow ''ann''] []) = [1]"
proof -
  have clean: "urlsClean sampleUrl"
    by (auto simp: urlsClean_def sampleUrl_def js_simps split: if_splits)
  let ?g = "groupFor sampleUrl [sampleRow ''Ann'', blankImportItem 3, sampleRow ''ann''] []
     \<lparr> dk_host = js ''x.com'', dk_username = js ''ann'' \<rparr>"
  have g: "dg_rows ?g = [0, 2]" by code_simp
  have u: "uncheckedRows sampleUrl [sampleRow ''Ann'', blankImportItem 3, sampleRow ''ann''] = [1]" by code_simp
  have k: "dg_key ?g = \<lparr> dk_host = js ''x.com'', dk_username = js ''ann'' \<rparr>" by (simp add: groupFor_def)
  show ?thesis
    using clean g u k duplicates_exact [OF clean, of "[sampleRow ''Ann'', blankImportItem 3, sampleRow ''ann'']" "[]"]
    by simp
qed

end
