(* ===== verification/Errors.thy ===== *)
theory Errors
  imports Prelude Json
begin

text \<open>
  The values the sources throw: the error classes of \<^verbatim>\<open>packages/crypto/src/errors.ts\<close> and
  of \<^verbatim>\<open>packages/vault/src\<close>, a plain \<^verbatim>\<open>Error\<close> with its message, and the three errors of
  the language that the code can meet (\<^verbatim>\<open>JSON.parse\<close>, a malformed URI, and reading a property of
  \<^verbatim>\<open>undefined\<close>).
\<close>

datatype ApiErrorCode =
    BadRequest | Unauthorized | Forbidden | NotFound | Conflict | RateLimited | Internal

datatype exn =
    KeyholeCryptoError jstr
  | DecryptionError
  | MalformedEnvelopeError jstr
  | InvalidKeyError jstr
  | InvalidRecoveryCodeError jstr
  | ApiError ApiErrorCode nat jstr "json option"
  | NetworkError
  | ItemConflictError json
  | FolderConflictError json
  | WrongMasterPasswordError
  | WrongRecoveryCodeError
  | JsError jstr
  | SyntaxError
  | TypeError
  | URIError

type_synonym 'a result = "exn + 'a"

end
