(* ===== verification/Encoding.thy ===== *)
theory Encoding
  imports Errors
begin

text \<open>
  Text and bytes (\<^verbatim>\<open>packages/crypto/src/encoding.ts\<close> and \<^verbatim>\<open>crockford.ts\<close>): base64,
  UTF-8 as the platform's \<^verbatim>\<open>TextEncoder\<close> and \<^verbatim>\<open>TextDecoder\<close> define it, and Crockford
  base32.

  Shown: base64 decodes what it encoded; UTF-8 decodes what it encoded for every well-formed
  string that does not begin with a byte-order mark; a Crockford code survives grouping and
  the transcription slips the alphabet anticipates.
\<close>

section \<open>Base64\<close>

definition BASE64_ALPHABET :: jstr where
  "BASE64_ALPHABET = js ''ABCDEFGHIJKLMNOPQRSTUVWXYZabcdefghijklmnopqrstuvwxyz0123456789+/''"

definition alphabetAt :: "jstr \<Rightarrow> nat \<Rightarrow> jstr" where
  "alphabetAt alphabet index = charAt alphabet index"

abbreviation b64 :: "byte \<Rightarrow> jstr" where
  "b64 i \<equiv> alphabetAt BASE64_ALPHABET (unat i)"

fun toBase64 :: "bytes \<Rightarrow> jstr" where
  "toBase64 [] = []"
| "toBase64 [b0] = b64 (drop_bit 2 b0) @ b64 (push_bit 4 (b0 AND 3)) @ js ''=='' "
| "toBase64 [b0, b1] =
     b64 (drop_bit 2 b0) @ b64 (push_bit 4 (b0 AND 3) OR drop_bit 4 b1) @
     b64 (push_bit 2 (b1 AND 15)) @ js ''=''"
| "toBase64 (b0 # b1 # b2 # bs) =
     b64 (drop_bit 2 b0) @ b64 (push_bit 4 (b0 AND 3) OR drop_bit 4 b1) @
     b64 (push_bit 2 (b1 AND 15) OR drop_bit 6 b2) @ b64 (b2 AND 63) @ toBase64 bs"

fun indexOf :: "jstr \<Rightarrow> code_unit \<Rightarrow> nat option" where
  "indexOf [] c = None"
| "indexOf (x # xs) c = (if x = c then Some 0 else map_option Suc (indexOf xs c))"

definition stripPadding :: "jstr \<Rightarrow> jstr" where
  "stripPadding s = rev (dropWhile (\<lambda>c. c = 61) (rev s))"

text \<open>The first character of a string, a surrogate pair being one.\<close>

fun firstChar :: "jstr \<Rightarrow> jstr" where
  "firstChar (c # d # s) = (if isHigh c \<and> isLow d then [c, d] else [c])"
| "firstChar s = s"

fun base64Loop :: "jstr \<Rightarrow> nat \<Rightarrow> 32 word \<Rightarrow> bytes \<Rightarrow> bytes result" where
  "base64Loop [] bits acc out = Inr out"
| "base64Loop (c # s) bits acc out =
     (case indexOf BASE64_ALPHABET c of
        None \<Rightarrow> Inl (MalformedEnvelopeError (js ''Invalid base64 character: '' @ firstChar (c # s)))
      | Some v \<Rightarrow>
          (let acc' = push_bit 6 acc OR of_nat v; bits' = bits + 6 in
           if 8 \<le> bits' then base64Loop s (bits' - 8) acc' (out @ [ucast (drop_bit (bits' - 8) acc')])
           else base64Loop s bits' acc' out))"

definition fromBase64 :: "jstr \<Rightarrow> bytes result" where
  "fromBase64 s =
     (let clean = stripPadding s in
      if length clean mod 4 = 1
      then Inl (MalformedEnvelopeError (js ''Invalid base64 length: '' @ showNat (length clean) @ js '' characters''))
      else base64Loop clean 0 0 [])"

definition concatBytes :: "bytes list \<Rightarrow> bytes" where
  "concatBytes parts = concat parts"

section \<open>UTF-8\<close>

text \<open>Code points of a string; a surrogate that is not half of a pair becomes U+FFFD.\<close>

fun codePoints :: "jstr \<Rightarrow> nat list" where
  "codePoints [] = []"
| "codePoints (c # s) =
     (if isHigh c then
        (case s of
           d # t \<Rightarrow>
             if isLow d then (0x10000 + (unat c - 0xD800) * 1024 + (unat d - 0xDC00)) # codePoints t
             else 0xFFFD # codePoints s
         | [] \<Rightarrow> [0xFFFD])
      else if isLow c then 0xFFFD # codePoints s
      else unat c # codePoints s)"

definition utf8Point :: "nat \<Rightarrow> nat list" where
  "utf8Point p =
     (if p < 0x80 then [p]
      else if p < 0x800 then [0xC0 + p div 64, 0x80 + p mod 64]
      else if p < 0x10000 then [0xE0 + p div 4096, 0x80 + p div 64 mod 64, 0x80 + p mod 64]
      else [0xF0 + p div 262144, 0x80 + p div 4096 mod 64, 0x80 + p div 64 mod 64, 0x80 + p mod 64])"

definition utf8Encode :: "jstr \<Rightarrow> bytes" where
  "utf8Encode s = map of_nat (concat (map utf8Point (codePoints s)))"

text \<open>
  The UTF-8 decoder of the Encoding Standard: the code point so far, the number of
  continuation bytes still needed, and the bounds of the next one. A token is a code point,
  or \<open>None\<close> for an error.
\<close>

definition leadByte :: "nat \<Rightarrow> (nat \<times> nat \<times> nat \<times> nat) option" where
  "leadByte b =
     (if 0xC2 \<le> b \<and> b \<le> 0xDF then Some (b - 0xC0, 1, 0x80, 0xBF)
      else if 0xE0 \<le> b \<and> b \<le> 0xEF
        then Some (b - 0xE0, 2, if b = 0xE0 then 0xA0 else 0x80, if b = 0xED then 0x9F else 0xBF)
      else if 0xF0 \<le> b \<and> b \<le> 0xF4
        then Some (b - 0xF0, 3, if b = 0xF0 then 0x90 else 0x80, if b = 0xF4 then 0x8F else 0xBF)
      else None)"

function (sequential) utf8Tokens :: "nat \<Rightarrow> nat \<Rightarrow> nat \<Rightarrow> nat \<Rightarrow> nat list \<Rightarrow> nat option list" where
  "utf8Tokens cp 0 lo hi [] = []"
| "utf8Tokens cp (Suc n) lo hi [] = [None]"
| "utf8Tokens cp 0 lo hi (b # bs) =
     (if b < 0x80 then Some b # utf8Tokens 0 0 0 0 bs
      else case leadByte b of
          None \<Rightarrow> None # utf8Tokens 0 0 0 0 bs
        | Some (cp', n', lo', hi') \<Rightarrow> utf8Tokens cp' n' lo' hi' bs)"
| "utf8Tokens cp (Suc n) lo hi (b # bs) =
     (if b < lo \<or> hi < b then None # utf8Tokens 0 0 0 0 (b # bs)
      else if n = 0 then Some (cp * 64 + (b - 0x80)) # utf8Tokens 0 0 0 0 bs
      else utf8Tokens (cp * 64 + (b - 0x80)) n 0x80 0xBF bs)"
  by pat_completeness auto
termination
  by (relation "measure (\<lambda>(cp, n, lo, hi, bs). 2 * length bs + (if n = 0 then 0 else 1))") auto

definition pointUnits :: "nat \<Rightarrow> jstr" where
  "pointUnits p =
     (if p < 0x10000 then [of_nat p]
      else [of_nat (0xD800 + (p - 0x10000) div 1024), of_nat (0xDC00 + (p - 0x10000) mod 1024)])"

definition dropBomBytes :: "nat list \<Rightarrow> nat list" where
  "dropBomBytes bs = (if take 3 bs = [0xEF, 0xBB, 0xBF] then drop 3 bs else bs)"

definition decodeTokens :: "bytes \<Rightarrow> nat option list" where
  "decodeTokens bs = utf8Tokens 0 0 0 0 (dropBomBytes (map unat bs))"

text \<open>\<^verbatim>\<open>new TextDecoder().decode\<close>, and the decoder with \<^verbatim>\<open>fatal\<close>, which throws.\<close>

definition utf8Decode :: "bytes \<Rightarrow> jstr" where
  "utf8Decode bs = concat (map (\<lambda>t. pointUnits (orElse t 0xFFFD)) (decodeTokens bs))"

definition utf8DecodeFatal :: "bytes \<Rightarrow> jstr option" where
  "utf8DecodeFatal bs =
     (if None \<in> set (decodeTokens bs) then None
      else Some (concat (map (\<lambda>t. pointUnits (orElse t 0xFFFD)) (decodeTokens bs))))"

section \<open>Crockford base32\<close>

definition CROCKFORD_ALPHABET :: jstr where
  "CROCKFORD_ALPHABET = js ''0123456789ABCDEFGHJKMNPQRSTVWXYZ''"

definition encodeCrockford :: "bytes \<Rightarrow> jstr" where
  "encodeCrockford bs = concat (map (\<lambda>b. charAt CROCKFORD_ALPHABET (unat (b AND 31))) bs)"

text \<open>The callers pass a positive size; with 0 the loop of the source would not end.\<close>

function groupsOf :: "nat \<Rightarrow> jstr \<Rightarrow> jstr list" where
  "groupsOf width s =
     (if s = [] \<or> width = 0 then [] else take width s # groupsOf width (drop width s))"
  by pat_completeness auto
termination by (relation "measure (\<lambda>(width, s). length s)") auto

declare groupsOf.simps [simp del]

definition groupChars :: "jstr \<Rightarrow> nat \<Rightarrow> jstr" where
  "groupChars s width = join (js ''-'') (groupsOf width s)"

definition crockfordSubst :: "code_unit \<Rightarrow> code_unit" where
  "crockfordSubst c = (if c = 73 \<or> c = 76 then 49 else if c = 79 then 48 else c)"

definition normalizeCrockford :: "jstr \<Rightarrow> jstr" where
  "normalizeCrockford input =
     map crockfordSubst (filter (\<lambda>c. \<not> (isWhitespace c \<or> c = 45)) (toUpperCase input))"

section \<open>Base64 round trip\<close>

lemma indexOf_alphabet: "i < 64 \<Longrightarrow> indexOf BASE64_ALPHABET (BASE64_ALPHABET ! i) = Some i"
proof -
  have "list_all (\<lambda>i. indexOf BASE64_ALPHABET (BASE64_ALPHABET ! i) = Some i) [0..<64]" by code_simp
  then show "i < 64 \<Longrightarrow> ?thesis" by (simp add: list_all_iff)
qed

lemma alphabet_no_pad: "i < 64 \<Longrightarrow> BASE64_ALPHABET ! i \<noteq> 61"
proof -
  have "list_all (\<lambda>i. BASE64_ALPHABET ! i \<noteq> 61) [0..<64]" by code_simp
  then show "i < 64 \<Longrightarrow> ?thesis" by (simp add: list_all_iff)
qed

lemma length_alphabet: "length BASE64_ALPHABET = 64"
  by code_simp

lemma b64_eq: "unat i < 64 \<Longrightarrow> b64 i = [BASE64_ALPHABET ! unat i]"
  by (simp add: alphabetAt_def charAt_def length_alphabet)

lemma and_masks:
  "x AND 3 = take_bit 2 x" "x AND 15 = take_bit 4 x" "x AND 63 = take_bit 6 x" for x :: byte
  by (simp_all add: take_bit_eq_mask mask_eq_exp_minus_1)

lemma six_bits: "(\<And>n. 6 \<le> n \<Longrightarrow> n < 8 \<Longrightarrow> \<not> bit x n) \<Longrightarrow> unat x < 64" for x :: byte
proof -
  assume z: "\<And>n. 6 \<le> n \<Longrightarrow> n < 8 \<Longrightarrow> \<not> bit x n"
  have "take_bit 6 x = x"
  proof (rule bit_word_eqI)
    fix n assume "n < LENGTH(8)"
    then show "bit (take_bit 6 x) n = bit x n" using z [of n] by (cases "n < 6") (auto simp: bit_simps)
  qed
  then have "unat x = take_bit 6 (unat x)" by (metis unsigned_take_bit_eq)
  also have "\<dots> < 2 ^ 6" by (rule take_bit_nat_less_exp)
  finally show "unat x < 64" by simp
qed

lemma sextets_small:
  fixes b0 b1 b2 :: byte
  shows "unat (drop_bit 2 b0) < 64" "unat (push_bit 4 (b0 AND 3)) < 64"
    "unat (push_bit 4 (b0 AND 3) OR drop_bit 4 b1) < 64"
    "unat (push_bit 2 (b1 AND 15)) < 64"
    "unat (push_bit 2 (b1 AND 15) OR drop_bit 6 b2) < 64" "unat (b2 AND 63) < 64"
  by (rule six_bits; auto simp: bit_simps and_masks dest: bit_imp_le_length)+

lemma loop_step:
  assumes "unat i < 64"
  shows "base64Loop (b64 i @ s) bits acc out =
    (let acc' = push_bit 6 acc OR ucast i; bits' = bits + 6 in
           if 8 \<le> bits' then base64Loop s (bits' - 8) acc' (out @ [ucast (drop_bit (bits' - 8) acc')])
           else base64Loop s bits' acc' out)"
  using indexOf_alphabet [OF assms] by (simp add: b64_eq [OF assms])

lemma byte_eqI:
  "(\<And>n. n \<in> {0, 1, 2, 3, 4, 5, 6, 7} \<Longrightarrow> bit a n \<longleftrightarrow> bit b n) \<Longrightarrow> a = b" for a b :: byte
proof (rule bit_word_eqI)
  fix n assume eq: "\<And>n. n \<in> {0, 1, 2, 3, 4, 5, 6, 7} \<Longrightarrow> bit a n \<longleftrightarrow> bit b n" and "n < LENGTH(8)"
  then have "n < 8" by simp
  then have "n \<in> {0, 1, 2, 3, 4, 5, 6, 7}" unfolding insert_iff empty_iff by linarith
  then show "bit a n = bit b n" by (rule eq)
qed

lemma bit_byte_beyond: "8 \<le> n \<Longrightarrow> \<not> bit b n" for b :: byte
  using bit_imp_le_length by fastforce

lemma byte_back:
  fixes acc :: "32 word" and b0 b1 b2 :: byte
  shows "ucast (drop_bit 4 (push_bit 6 (push_bit 6 acc OR ucast (drop_bit 2 b0)) OR
      ucast (push_bit 4 (b0 AND 3) OR drop_bit 4 b1))) = b0"
    "ucast (drop_bit 4 (push_bit 6 (push_bit 6 acc OR ucast (drop_bit 2 b0)) OR
      ucast (push_bit 4 (b0 AND 3)))) = b0"
    "ucast (drop_bit 2 (push_bit 6 (push_bit 6 acc OR ucast (push_bit 4 (b0 AND 3) OR drop_bit 4 b1)) OR
      ucast (push_bit 2 (b1 AND 15) OR drop_bit 6 b2))) = b1"
    "ucast (drop_bit 2 (push_bit 6 (push_bit 6 acc OR ucast (push_bit 4 (b0 AND 3) OR drop_bit 4 b1)) OR
      ucast (push_bit 2 (b1 AND 15)))) = b1"
    "ucast (push_bit 6 (push_bit 6 acc OR ucast (push_bit 2 (b1 AND 15) OR drop_bit 6 b2)) OR
      ucast (b2 AND 63)) = b2"
  by (rule byte_eqI; elim insertE emptyE;
      simp add: bit_simps and_masks bit_byte_beyond numeral_2_eq_2 [symmetric])+

text \<open>The encoding without its padding.\<close>

fun b64Body :: "bytes \<Rightarrow> jstr" where
  "b64Body [] = []"
| "b64Body [b0] = b64 (drop_bit 2 b0) @ b64 (push_bit 4 (b0 AND 3))"
| "b64Body [b0, b1] =
     b64 (drop_bit 2 b0) @ b64 (push_bit 4 (b0 AND 3) OR drop_bit 4 b1) @ b64 (push_bit 2 (b1 AND 15))"
| "b64Body (b0 # b1 # b2 # bs) =
     b64 (drop_bit 2 b0) @ b64 (push_bit 4 (b0 AND 3) OR drop_bit 4 b1) @
     b64 (push_bit 2 (b1 AND 15) OR drop_bit 6 b2) @ b64 (b2 AND 63) @ b64Body bs"

lemma toBase64_body: "\<exists>k. toBase64 bs = b64Body bs @ replicate k 61"
proof (induction bs rule: b64Body.induct)
  case (2 b0)
  have "js ''=='' = replicate 2 61" by code_simp
  then show ?case by (metis append.assoc b64Body.simps(2) toBase64.simps(2))
next
  case (3 b0 b1)
  have "js ''='' = replicate 1 61" by code_simp
  then show ?case by (metis append.assoc b64Body.simps(3) toBase64.simps(3))
qed auto

lemma b64_no_pad: "unat i < 64 \<Longrightarrow> 61 \<notin> set (b64 i)" for i :: byte
  using alphabet_no_pad [of "unat i"] by (auto simp: b64_eq)

lemma b64Body_units: "61 \<notin> set (b64Body bs)"
  by (induction bs rule: b64Body.induct) (simp_all add: b64_no_pad sextets_small del: push_bit_and)

lemma b64Body_length: "length (b64Body bs) mod 4 \<noteq> 1"
  by (induction bs rule: b64Body.induct) (simp_all add: b64_eq sextets_small del: push_bit_and)

lemma stripPadding_replicate: "61 \<notin> set x \<Longrightarrow> stripPadding (x @ replicate k 61) = x"
proof -
  assume "61 \<notin> set x"
  then have "dropWhile (\<lambda>c. c = 61) (rev x) = rev x" by (cases x rule: rev_cases) auto
  then show ?thesis by (simp add: stripPadding_def dropWhile_append)
qed

lemma base64Loop_body: "base64Loop (b64Body bs) 0 acc out = Inr (out @ bs)"
proof (induction bs arbitrary: acc out rule: b64Body.induct)
  case (4 b0 b1 b2 bs)
  show ?case by (simp add: loop_step sextets_small Let_def byte_back 4 del: push_bit_and push_bit_or drop_bit_or push_bit_push_bit)
qed (simp_all add: loop_step sextets_small Let_def byte_back loop_step [where s = "[]", simplified]
  del: push_bit_and push_bit_or drop_bit_or push_bit_push_bit)

lemma fromBase64_toBase64: "fromBase64 (toBase64 bs) = Inr bs"
proof -
  obtain k where "toBase64 bs = b64Body bs @ replicate k 61" using toBase64_body by blast
  then have "stripPadding (toBase64 bs) = b64Body bs"
    using stripPadding_replicate [OF b64Body_units] by simp
  then show ?thesis using b64Body_length [of bs] base64Loop_body [of bs 0 "[]"]
    by (simp add: fromBase64_def Let_def)
qed

section \<open>UTF-8 round trip\<close>

definition scalar :: "nat \<Rightarrow> bool" where
  "scalar p = (p < 0x110000 \<and> \<not> (0xD800 \<le> p \<and> p \<le> 0xDFFF))"

fun wellFormed :: "jstr \<Rightarrow> bool" where
  "wellFormed [] = True"
| "wellFormed (c # s) =
     (if isHigh c then (case s of d # t \<Rightarrow> isLow d \<and> wellFormed t | [] \<Rightarrow> False)
      else \<not> isLow c \<and> wellFormed s)"

lemma utf8Point_byte: "p < 0x110000 \<Longrightarrow> b \<in> set (utf8Point p) \<Longrightarrow> b < 256"
  by (auto simp: utf8Point_def split: if_splits)

lemma div64: "p div 64 * 64 + p mod 64 = (p::nat)" "p div 4096 * 64 + p div 64 mod 64 = p div 64"
  "p div 262144 * 64 + p div 4096 mod 64 = p div 4096" for p :: nat
proof -
  have "p div 4096 = p div 64 div 64" "p div 262144 = p div 4096 div 64"
    by (simp_all flip: div_mult2_eq)
  then show "p div 4096 * 64 + p div 64 mod 64 = p div 64"
    "p div 262144 * 64 + p div 4096 mod 64 = p div 4096" by (simp_all only: div_mult_mod_eq)
qed simp

lemma mod64_le: "p mod 64 \<le> 63" for p :: nat
  by (simp flip: less_Suc_eq_le)

lemma tokens_two:
  assumes "0x80 \<le> p" "p < 0x800"
  shows "utf8Tokens 0 0 0 0 (utf8Point p @ bs) = Some p # utf8Tokens 0 0 0 0 bs"
proof -
  have d: "2 \<le> p div 64" "p div 64 \<le> 31" using assms by auto
  have "leadByte (0xC0 + p div 64) = Some (p div 64, 1, 0x80, 0xBF)"
    using d by (simp add: leadByte_def)
  then show ?thesis
    using assms d mod64_le [of p] by (simp add: utf8Point_def div64)
qed

lemma tokens_three:
  assumes "0x800 \<le> p" "p < 0x10000" "scalar p"
  shows "utf8Tokens 0 0 0 0 (utf8Point p @ bs) = Some p # utf8Tokens 0 0 0 0 bs"
proof -
  define a b c where abc: "a = p div 4096" "b = p div 64 mod 64" "c = p mod 64"
  have a: "a \<le> 15" using assms by (simp add: abc)
  have b: "b \<le> 63" and c: "c \<le> 63" by (simp_all add: abc mod64_le)
  have ab: "a * 64 + b = p div 64" and p: "(a * 64 + b) * 64 + c = p"
    by (simp_all add: abc div64)
  have lo: "a = 0 \<Longrightarrow> 32 \<le> b" and hi: "a = 13 \<Longrightarrow> b \<le> 31"
    using p assms b c by (auto simp: scalar_def)
  have lead: "leadByte (0xE0 + a) =
      Some (a, 2, if a = 0 then 0xA0 else 0x80, if a = 13 then 0x9F else 0xBF)"
    using a by (auto simp: leadByte_def)
  have pt: "utf8Point p = [0xE0 + a, 0x80 + b, 0x80 + c]" using assms by (simp add: utf8Point_def abc)
  have ok: "\<not> (0x80 + b < (if a = 0 then 0xA0 else 0x80) \<or> (if a = 13 then 0x9F else 0xBF) < 0x80 + b)"
    using lo hi b by auto
  have "utf8Tokens a (Suc (Suc 0)) (if a = 0 then 0xA0 else 0x80) (if a = 13 then 0x9F else 0xBF)
      ((0x80 + b) # (0x80 + c) # bs) = utf8Tokens (a * 64 + b) (Suc 0) 0x80 0xBF ((0x80 + c) # bs)"
    using ok by simp
  also have "\<dots> = Some p # utf8Tokens 0 0 0 0 bs" using c p by simp
  finally show ?thesis using lead by (simp add: pt numeral_2_eq_2)
qed

lemma tokens_four:
  assumes "0x10000 \<le> p" "p < 0x110000"
  shows "utf8Tokens 0 0 0 0 (utf8Point p @ bs) = Some p # utf8Tokens 0 0 0 0 bs"
proof -
  define a b c d where abcd: "a = p div 262144" "b = p div 4096 mod 64" "c = p div 64 mod 64" "d = p mod 64"
  have a: "a \<le> 4" using assms by (simp add: abcd)
  have b: "b \<le> 63" and c: "c \<le> 63" and d: "d \<le> 63" by (simp_all add: abcd mod64_le)
  have p: "((a * 64 + b) * 64 + c) * 64 + d = p" by (simp add: abcd div64)
  have lo: "a = 0 \<Longrightarrow> 16 \<le> b" and hi: "a = 4 \<Longrightarrow> b \<le> 15" using p assms b c d by auto
  have lead: "leadByte (0xF0 + a) =
      Some (a, 3, if a = 0 then 0x90 else 0x80, if a = 4 then 0x8F else 0xBF)"
    using a by (auto simp: leadByte_def)
  have pt: "utf8Point p = [0xF0 + a, 0x80 + b, 0x80 + c, 0x80 + d]"
    using assms by (simp add: utf8Point_def abcd)
  have ok: "\<not> (0x80 + b < (if a = 0 then 0x90 else 0x80) \<or> (if a = 4 then 0x8F else 0xBF) < 0x80 + b)"
    using lo hi b by auto
  have "utf8Tokens a (Suc (Suc (Suc 0))) (if a = 0 then 0x90 else 0x80) (if a = 4 then 0x8F else 0xBF)
      ((0x80 + b) # (0x80 + c) # (0x80 + d) # bs) =
      utf8Tokens (a * 64 + b) (Suc (Suc 0)) 0x80 0xBF ((0x80 + c) # (0x80 + d) # bs)"
    using ok by simp
  also have "\<dots> = utf8Tokens ((a * 64 + b) * 64 + c) (Suc 0) 0x80 0xBF ((0x80 + d) # bs)"
    using c by simp
  also have "\<dots> = Some p # utf8Tokens 0 0 0 0 bs" using d p by simp
  finally show ?thesis using lead by (simp add: pt numeral_3_eq_3)
qed

lemma tokens_point:
  assumes "scalar p"
  shows "utf8Tokens 0 0 0 0 (utf8Point p @ bs) = Some p # utf8Tokens 0 0 0 0 bs"
proof -
  consider "p < 0x80" | "0x80 \<le> p" "p < 0x800" | "0x800 \<le> p" "p < 0x10000" | "0x10000 \<le> p" "p < 0x110000"
    using assms by (force simp: scalar_def)
  then show ?thesis
  proof cases
    case 1
    then show ?thesis by (simp add: utf8Point_def)
  qed (use tokens_two tokens_three assms tokens_four in auto)
qed

lemma tokens_points:
  "list_all scalar ps \<Longrightarrow> utf8Tokens 0 0 0 0 (concat (map utf8Point ps)) = map Some ps"
  by (induction ps) (simp_all add: tokens_point)

lemma unat_surrogates:
  "isHigh c \<longleftrightarrow> 0xD800 \<le> unat c \<and> unat c \<le> 0xDBFF" "isLow c \<longleftrightarrow> 0xDC00 \<le> unat c \<and> unat c \<le> 0xDFFF"
  by (simp_all add: isHigh_def isLow_def word_le_nat_alt)

lemma codePoints_scalar: "list_all scalar (codePoints s)"
proof (induction s rule: codePoints.induct)
  case (2 c s)
  have "unat c < 65536" by (rule unit_less)
  then show ?case
    using 2 by (auto simp: unat_surrogates scalar_def split: list.split)
qed simp

lemma pair_units:
  assumes "isHigh c" "isLow d"
  shows "pointUnits (0x10000 + (unat c - 0xD800) * 1024 + (unat d - 0xDC00)) = [c, d]"
proof -
  define h l where hl: "h = unat c - 0xD800" "l = unat d - 0xDC00"
  have l: "l < 1024" and c: "unat c = 0xD800 + h" and d: "unat d = 0xDC00 + l"
    using assms by (auto simp: hl unat_surrogates)
  have "(h * 1024 + l) div 1024 = h" "(h * 1024 + l) mod 1024 = l" using l by simp_all
  then have "pointUnits (0x10000 + h * 1024 + l) = [of_nat (unat c), of_nat (unat d)]"
    by (simp add: pointUnits_def c d)
  then show ?thesis by (simp add: hl)
qed

lemma units_codePoints: "wellFormed s \<Longrightarrow> concat (map pointUnits (codePoints s)) = s"
proof (induction s rule: codePoints.induct)
  case (2 c s)
  show ?case
  proof (cases "isHigh c")
    case True
    then obtain d t where "s = d # t" "isLow d" "wellFormed t" using "2.prems" by (auto split: list.splits)
    then show ?thesis using "2.IH"(1) True pair_units [of c d] by simp
  next
    case False
    then have low: "\<not> isLow c" "wellFormed s" using "2.prems" by auto
    have "pointUnits (unat c) = [c]" using unit_less [of c] by (simp add: pointUnits_def)
    then show ?thesis using False low "2.IH"(4) by simp
  qed
qed simp

lemma encode_bytes: "map unat (utf8Encode s) = concat (map utf8Point (codePoints s))"
proof -
  have "unat (of_nat b :: byte) = b" if "b \<in> set (concat (map utf8Point (codePoints s)))" for b
  proof -
    from that obtain p where "p \<in> set (codePoints s)" "b \<in> set (utf8Point p)" by auto
    then have "b < 256" using codePoints_scalar [of s] utf8Point_byte [of p b]
      by (auto simp: list_all_iff scalar_def)
    then show ?thesis by (simp add: unat_of_nat)
  qed
  then show ?thesis unfolding utf8Encode_def map_map by (intro map_idI) (simp add: comp_def)
qed

lemma no_bom:
  assumes "wellFormed s" "s = [] \<or> hd s \<noteq> 0xFEFF"
  shows "dropBomBytes (map unat (utf8Encode s)) = map unat (utf8Encode s)"
proof (rule ccontr)
  let ?bs = "map unat (utf8Encode s)"
  assume "dropBomBytes ?bs \<noteq> ?bs"
  then have "take 3 ?bs = [0xEF, 0xBB, 0xBF]" by (auto simp: dropBomBytes_def split: if_splits)
  then have bs: "?bs = [0xEF, 0xBB, 0xBF] @ drop 3 ?bs" by (metis append_take_drop_id)
  have "utf8Point 0xFEFF = [0xEF, 0xBB, 0xBF]" by (simp add: utf8Point_def)
  then have "utf8Tokens 0 0 0 0 ?bs = Some 0xFEFF # utf8Tokens 0 0 0 0 (drop 3 ?bs)"
    using bs tokens_point [where p = "0xFEFF" and bs = "drop 3 ?bs"] by (simp add: scalar_def)
  moreover have "utf8Tokens 0 0 0 0 ?bs = map Some (codePoints s)"
    by (simp add: encode_bytes tokens_points codePoints_scalar)
  ultimately obtain ps where "codePoints s = 0xFEFF # ps" by (cases "codePoints s") auto
  then have "s = pointUnits 0xFEFF @ concat (map pointUnits ps)" using units_codePoints [OF assms(1)] by simp
  then have "s = 0xFEFF # concat (map pointUnits ps)" by (simp add: pointUnits_def)
  then show False using assms(2) by simp
qed

lemma decodeTokens_encode:
  assumes "wellFormed s" "s = [] \<or> hd s \<noteq> 0xFEFF"
  shows "decodeTokens (utf8Encode s) = map Some (codePoints s)"
  unfolding decodeTokens_def no_bom [OF assms]
  by (simp add: encode_bytes tokens_points codePoints_scalar)

lemma utf8_roundtrip:
  assumes "wellFormed s" "s = [] \<or> hd s \<noteq> 0xFEFF"
  shows "utf8Decode (utf8Encode s) = s" "utf8DecodeFatal (utf8Encode s) = Some s"
  using units_codePoints [OF assms(1)]
  by (auto simp: utf8Decode_def utf8DecodeFatal_def decodeTokens_encode [OF assms] comp_def)

text \<open>The decoder drops a byte-order mark, so a text that begins with one comes back shorter.\<close>

lemma utf8_bom_lost:
  assumes "wellFormed s" "s = [] \<or> hd s \<noteq> 0xFEFF"
  shows "utf8Decode (utf8Encode (0xFEFF # s)) = s"
proof -
  have "map unat (utf8Encode (0xFEFF # s)) = [0xEF, 0xBB, 0xBF] @ map unat (utf8Encode s)"
    by (simp add: encode_bytes isHigh_def isLow_def utf8Point_def)
  then have "decodeTokens (utf8Encode (0xFEFF # s)) = map Some (codePoints s)"
    by (simp add: decodeTokens_def dropBomBytes_def encode_bytes tokens_points codePoints_scalar)
  then show ?thesis using units_codePoints [OF assms(1)] by (simp add: utf8Decode_def comp_def)
qed

section \<open>Crockford codes\<close>

lemma groupsOf_concat: "0 < n \<Longrightarrow> concat (groupsOf n s) = s"
  by (induction n s rule: groupsOf.induct) (subst groupsOf.simps, auto)

lemma join_filter:
  "filter P (join sep xs) = filter P (concat xs)" if "filter P sep = []"
  using that by (induction sep xs rule: join.induct) simp_all

lemma crockford_unit:
  assumes "c \<in> set CROCKFORD_ALPHABET \<or> c = 45"
  shows "upper_unit c = [c]"
    "c \<in> set CROCKFORD_ALPHABET \<Longrightarrow> \<not> isWhitespace c \<and> c \<noteq> 45 \<and> crockfordSubst c = c"
proof -
  have "list_all (\<lambda>c. upper_unit c = [c]) (45 # CROCKFORD_ALPHABET)"
    "list_all (\<lambda>c. \<not> isWhitespace c \<and> c \<noteq> 45 \<and> crockfordSubst c = c) CROCKFORD_ALPHABET"
    by code_simp+
  then show "upper_unit c = [c]"
    "c \<in> set CROCKFORD_ALPHABET \<Longrightarrow> \<not> isWhitespace c \<and> c \<noteq> 45 \<and> crockfordSubst c = c"
    using assms by (auto simp: list_all_iff)
qed

lemma encodeCrockford_set: "set (encodeCrockford bs) \<subseteq> set CROCKFORD_ALPHABET"
  by (auto simp: encodeCrockford_def charAt_def split: if_splits)

lemma join_set: "set (join sep xs) \<subseteq> set sep \<union> set (concat xs)"
  by (induction sep xs rule: join.induct) auto

text \<open>Typing a printed code back, dashes and all, gives the characters that were printed.\<close>

lemma normalize_grouped:
  assumes "0 < n"
  shows "normalizeCrockford (groupChars (encodeCrockford bs) n) = encodeCrockford bs"
proof -
  let ?e = "encodeCrockford bs" and ?g = "groupChars (encodeCrockford bs) n"
  have dash: "js ''-'' = [45]" by code_simp
  have g: "set ?g \<subseteq> set CROCKFORD_ALPHABET \<union> {45}"
    using join_set [of "js ''-''" "groupsOf n ?e"] encodeCrockford_set [of bs] groupsOf_concat [OF assms, of ?e]
    by (auto simp: groupChars_def dash)
  have up: "toUpperCase ?g = ?g"
  proof -
    have "map upper_unit ?g = map (\<lambda>c. [c]) ?g"
      using g by (intro map_cong refl crockford_unit(1)) auto
    then have "toUpperCase ?g = concat (map (\<lambda>c. [c]) ?g)" by (simp only: toUpperCase_def)
    also have "\<dots> = ?g" by simp
    finally show ?thesis .
  qed
  have e: "\<not> isWhitespace c \<and> c \<noteq> 45 \<and> crockfordSubst c = c" if "c \<in> set ?e" for c
    using that encodeCrockford_set crockford_unit(2) by blast
  have "filter (\<lambda>c. \<not> (isWhitespace c \<or> c = 45)) ?g = filter (\<lambda>c. \<not> (isWhitespace c \<or> c = 45)) ?e"
    unfolding groupChars_def using join_filter [of "\<lambda>c. \<not> (isWhitespace c \<or> c = 45)" "js ''-''"]
    by (simp add: dash groupsOf_concat [OF assms])
  also have "\<dots> = ?e" using e by (simp add: filter_id_conv)
  finally show ?thesis using e by (simp add: normalizeCrockford_def up map_idI)
qed

section \<open>Properties of the encodings\<close>

text \<open>
  Base64 decodes what it encoded, for every byte string: \<^verbatim>\<open>fromBase64(toBase64(b))\<close> is
  \<^verbatim>\<open>b\<close> and never throws.
\<close>

theorem base64_roundtrip: "fromBase64 (toBase64 bs) = Inr bs"
  by (rule fromBase64_toBase64)

text \<open>
  UTF-8 decodes what it encoded, for every well-formed string that does not begin with a
  byte-order mark; a byte-order mark in front is the one thing the decoder drops.
\<close>

theorem utf8_text_roundtrip:
  assumes "wellFormed s" "s = [] \<or> hd s \<noteq> 0xFEFF"
  shows "utf8Decode (utf8Encode s) = s \<and> utf8DecodeFatal (utf8Encode s) = Some s \<and>
    utf8Decode (utf8Encode (0xFEFF # s)) = s"
  using utf8_roundtrip [OF assms] utf8_bom_lost [OF assms] by blast

theorem utf8_text_roundtrip_witness:
  "wellFormed (js ''pw'' @ [0xE9, 0xD83D, 0xDE00]) \<and>
   utf8Decode (utf8Encode (js ''pw'' @ [0xE9, 0xD83D, 0xDE00])) = js ''pw'' @ [0xE9, 0xD83D, 0xDE00]"
proof -
  have 1: "wellFormed (js ''pw'' @ [0xE9, 0xD83D, 0xDE00])" by code_simp
  have 2: "hd (js ''pw'' @ [0xE9, 0xD83D, 0xDE00]) \<noteq> 0xFEFF" by code_simp
  show ?thesis using 1 utf8_text_roundtrip [OF 1] 2 by blast
qed

text \<open>
  A Crockford code survives being shown in groups and typed back: normalising the grouped
  form gives the encoded characters, whatever the (positive) group size.
\<close>

theorem crockford_roundtrip:
  assumes "0 < n"
  shows "normalizeCrockford (groupChars (encodeCrockford bs) n) = encodeCrockford bs"
  by (rule normalize_grouped [OF assms])

theorem crockford_roundtrip_witness:
  "normalizeCrockford (groupChars (encodeCrockford [1, 18, 255]) 2) = encodeCrockford [1, 18, 255]"
  by (rule crockford_roundtrip) simp

end
