(* ===== verification/Zip.thy ===== *)
theory Zip
  imports Encoding OnePassword
begin

text \<open>
  The ZIP reader (\<^verbatim>\<open>packages/vault/src/import/zip.ts\<close>) and the \<^verbatim>\<open>.1pux\<close> entry point that
  uses it. A read of the archive's \<^verbatim>\<open>DataView\<close> outside the file throws in the language: it
  is \<open>None\<close> here, so that "never throws" is the statement that no result is \<open>None\<close>. The
  engine's inflate is the argument \<open>inflate\<close> (\<open>None\<close> where the stream reports a corrupt
  input).
\<close>

section \<open>CRC-32\<close>

fun crcBits :: "nat \<Rightarrow> 32 word \<Rightarrow> 32 word" where
  "crcBits 0 v = v"
| "crcBits (Suc n) v = crcBits n (if v AND 1 \<noteq> 0 then 0xEDB88320 XOR drop_bit 1 v else drop_bit 1 v)"

definition crcTable :: "32 word list" where
  "crcTable = map (\<lambda>n. crcBits 8 (of_nat n)) [0..<256]"

definition crcStep :: "32 word \<Rightarrow> byte \<Rightarrow> 32 word" where
  "crcStep v b = orElse (at crcTable (unat ((v XOR ucast b) AND 0xFF))) 0 XOR drop_bit 8 v"

definition crc32 :: "bytes \<Rightarrow> nat" where
  "crc32 bs = unat (foldl crcStep 0xFFFFFFFF bs XOR 0xFFFFFFFF)"

section \<open>The container\<close>

abbreviation (input) LOCAL_HEADER :: nat where "LOCAL_HEADER \<equiv> 0x04034b50"
abbreviation (input) CENTRAL_HEADER :: nat where "CENTRAL_HEADER \<equiv> 0x02014b50"
abbreviation (input) END_OF_CENTRAL_DIRECTORY :: nat where "END_OF_CENTRAL_DIRECTORY \<equiv> 0x06054b50"
abbreviation (input) STORED :: nat where "STORED \<equiv> 0"
abbreviation (input) DEFLATED :: nat where "DEFLATED \<equiv> 8"
abbreviation (input) ZIP64_MARKER :: nat where "ZIP64_MARKER \<equiv> 0xffffffff"
abbreviation (input) END_RECORD_LENGTH :: nat where "END_RECORD_LENGTH \<equiv> 22"
abbreviation (input) LOCAL_HEADER_LENGTH :: nat where "LOCAL_HEADER_LENGTH \<equiv> 30"
abbreviation (input) CENTRAL_ENTRY_LENGTH :: nat where "CENTRAL_ENTRY_LENGTH \<equiv> 46"
abbreviation (input) MAX_COMMENT_LENGTH :: nat where "MAX_COMMENT_LENGTH \<equiv> 0xffff"

type_synonym ZipProblem = jstr

record DirectoryEntry =
  ze_name :: jstr
  ze_flags :: nat
  ze_method :: nat
  ze_checksum :: nat
  ze_compressedSize :: nat
  ze_uncompressedSize :: nat
  ze_localHeaderOffset :: nat

definition getUint16 :: "bytes \<Rightarrow> nat \<Rightarrow> nat option" where
  "getUint16 bs i = (if i + 2 \<le> length bs then Some (unat (bs ! i) + 256 * unat (bs ! (i + 1))) else None)"

definition getUint32 :: "bytes \<Rightarrow> nat \<Rightarrow> nat option" where
  "getUint32 bs i =
     (if i + 4 \<le> length bs
      then Some (unat (bs ! i) + 256 * unat (bs ! (i + 1)) + 65536 * unat (bs ! (i + 2)) + 16777216 * unat (bs ! (i + 3)))
      else None)"

definition subarray :: "bytes \<Rightarrow> nat \<Rightarrow> nat \<Rightarrow> bytes" where
  "subarray bs first last' = take (last' - first) (drop first bs)"

definition NOT_AN_ARCHIVE :: ZipProblem where
  "NOT_AN_ARCHIVE = js ''This file does not end with a ZIP end-of-central-directory record, so it is not a ZIP archive or the download did not finish''"

text \<open>
  The scan for the end record, from the last place it can be down to \<open>earliest\<close>. The outer
  option is the throw, the inner one the \<^verbatim>\<open>-1\<close>.
\<close>

fun endScan :: "bytes \<Rightarrow> nat \<Rightarrow> nat \<Rightarrow> nat option option" where
  "endScan bs earliest i =
     (case getUint32 bs i of
        None \<Rightarrow> None
      | Some signature \<Rightarrow>
          (case (if signature = END_OF_CENTRAL_DIRECTORY then map_option Some (getUint16 bs (i + 20)) else Some None) of
             None \<Rightarrow> None
           | Some comment \<Rightarrow>
               if comment = Some (length bs - i - END_RECORD_LENGTH) then Some (Some i)
               else if i = 0 \<or> i - 1 < earliest then Some None
               else endScan bs earliest (i - 1)))"

declare endScan.simps [simp del]

definition endRecordAt :: "bytes \<Rightarrow> nat option option" where
  "endRecordAt bs =
     endScan bs (length bs - END_RECORD_LENGTH - MAX_COMMENT_LENGTH) (length bs - END_RECORD_LENGTH)"

definition DAMAGED_DIRECTORY :: ZipProblem where
  "DAMAGED_DIRECTORY = js ''This archive's central directory is damaged, so its contents could not be listed''"

definition readEntry :: "bytes \<Rightarrow> nat \<Rightarrow> nat \<Rightarrow> DirectoryEntry option" where
  "readEntry bs i nameEnd =
     (case (getUint16 bs (i + 8), getUint16 bs (i + 10), getUint32 bs (i + 16), getUint32 bs (i + 20),
            getUint32 bs (i + 24), getUint32 bs (i + 42)) of
        (Some flags, Some how, Some checksum, Some packed, Some full, Some offset) \<Rightarrow>
          Some \<lparr> ze_name = utf8Decode (subarray bs (i + CENTRAL_ENTRY_LENGTH) nameEnd),
                 ze_flags = flags, ze_method = how, ze_checksum = checksum,
                 ze_compressedSize = packed, ze_uncompressedSize = full, ze_localHeaderOffset = offset \<rparr>
      | _ \<Rightarrow> None)"

fun readDirectory :: "bytes \<Rightarrow> nat \<Rightarrow> nat \<Rightarrow> nat \<Rightarrow> DirectoryEntry list \<Rightarrow> (ZipProblem + DirectoryEntry list) option" where
  "readDirectory bs i stop 0 entries = Some (Inr entries)"
| "readDirectory bs i stop (Suc n) entries =
     (if stop < i + CENTRAL_ENTRY_LENGTH then Some (Inl DAMAGED_DIRECTORY)
      else case getUint32 bs i of
          None \<Rightarrow> None
        | Some signature \<Rightarrow>
            if signature \<noteq> CENTRAL_HEADER then Some (Inl DAMAGED_DIRECTORY)
            else case (getUint16 bs (i + 28), getUint16 bs (i + 30), getUint16 bs (i + 32)) of
                (Some nameLength, Some extraLength, Some commentLength) \<Rightarrow>
                  (let nameEnd = i + CENTRAL_ENTRY_LENGTH + nameLength in
                   if stop < nameEnd then Some (Inl DAMAGED_DIRECTORY)
                   else case readEntry bs i nameEnd of
                       None \<Rightarrow> None
                     | Some entry \<Rightarrow>
                         readDirectory bs (nameEnd + extraLength + commentLength) stop n (entries @ [entry]))
              | _ \<Rightarrow> None)"

definition quoted :: "jstr \<Rightarrow> jstr" where
  "quoted name = [34] @ name @ [34]"

definition compressedBytes :: "bytes \<Rightarrow> DirectoryEntry \<Rightarrow> (ZipProblem + bytes) option" where
  "compressedBytes bs entry =
     (let header = ze_localHeaderOffset entry;
          stray = js ''This archive's record of where '' @ quoted (ze_name entry) @
            js '' begins does not point at a file header, so the archive is damaged''
      in if length bs < header + LOCAL_HEADER_LENGTH then Some (Inl stray)
         else case getUint32 bs header of
             None \<Rightarrow> None
           | Some signature \<Rightarrow>
               if signature \<noteq> LOCAL_HEADER then Some (Inl stray)
               else case (getUint16 bs (header + 26), getUint16 bs (header + 28)) of
                   (Some nameLength, Some extraLength) \<Rightarrow>
                     (let start = header + LOCAL_HEADER_LENGTH + nameLength + extraLength;
                          stop = start + ze_compressedSize entry
                      in if length bs < stop
                         then Some (Inl (js ''This archive says '' @ quoted (ze_name entry) @ js '' is '' @
                                showNat (ze_compressedSize entry) @
                                js '' bytes but the file ends before them, so the download did not finish''))
                         else Some (Inr (subarray bs start stop)))
                 | _ \<Rightarrow> None)"

record ZipArchive =
  za_bytes :: bytes
  za_entries :: "DirectoryEntry list"
  za_byName :: "(jstr, DirectoryEntry) jmap"

definition openZip :: "bytes \<Rightarrow> (ZipProblem + ZipArchive) option" where
  "openZip bs =
     (if length bs < END_RECORD_LENGTH then Some (Inl NOT_AN_ARCHIVE)
      else case endRecordAt bs of
          None \<Rightarrow> None
        | Some None \<Rightarrow> Some (Inl NOT_AN_ARCHIVE)
        | Some (Some end') \<Rightarrow>
            (case (getUint16 bs (end' + 10), getUint32 bs (end' + 12), getUint32 bs (end' + 16)) of
               (Some count, Some directorySize, Some directoryOffset) \<Rightarrow>
                 if length bs < directoryOffset + directorySize
                 then Some (Inl (js ''This archive's central directory is recorded outside the file, so the archive is damaged''))
                 else (case readDirectory bs directoryOffset (directoryOffset + directorySize) count [] of
                         None \<Rightarrow> None
                       | Some (Inl problem) \<Rightarrow> Some (Inl problem)
                       | Some (Inr entries) \<Rightarrow>
                           Some (Inr \<lparr> za_bytes = bs, za_entries = entries,
                             za_byName = fold (\<lambda>e m. mapSetNew m (ze_name e) e) entries [] \<rparr>))
             | _ \<Rightarrow> None))"

definition zipNames :: "ZipArchive \<Rightarrow> jstr list" where
  "zipNames archive = map ze_name (za_entries archive)"

definition zipRead :: "(bytes \<Rightarrow> bytes option) \<Rightarrow> ZipArchive \<Rightarrow> jstr \<Rightarrow> (ZipProblem + bytes) option" where
  "zipRead inflate archive name =
     (case mapGet (za_byName archive) name of
        None \<Rightarrow>
          Some (Inl (js ''This archive has no '' @ quoted name @ js '' in it; it holds '' @
            (if za_entries archive = [] then js ''nothing'' else join (js '', '') (zipNames archive))))
      | Some entry \<Rightarrow>
          if odd (ze_flags entry) then
            Some (Inl (js ''This archive encrypted '' @ quoted name @ js '' with a password, so its contents cannot be read''))
          else if ze_compressedSize entry = ZIP64_MARKER \<or> ze_uncompressedSize entry = ZIP64_MARKER then
            Some (Inl (js ''This archive records '' @ quoted name @ js '' in the Zip64 format, which Keyhole cannot read''))
          else if ze_method entry \<noteq> STORED \<and> ze_method entry \<noteq> DEFLATED then
            Some (Inl (js ''This archive compressed '' @ quoted name @ js '' with method '' @ showNat (ze_method entry) @
              js '', which Keyhole cannot read; only stored and deflated entries are supported''))
          else (case compressedBytes (za_bytes archive) entry of
              None \<Rightarrow> None
            | Some (Inl problem) \<Rightarrow> Some (Inl problem)
            | Some (Inr stored) \<Rightarrow>
                (case (if ze_method entry = STORED then Some stored else inflate stored) of
                   None \<Rightarrow>
                     Some (Inl (js ''The compressed contents of '' @ quoted name @
                       js '' could not be expanded, so the file is damaged''))
                 | Some contents \<Rightarrow>
                     if crc32 contents \<noteq> ze_checksum entry \<or> length contents \<noteq> ze_uncompressedSize entry
                     then Some (Inl (js ''The contents of '' @ quoted name @
                            js '' do not match the checksum this archive recorded for them, so the file is damaged''))
                     else Some (Inr contents))))"

definition zipReadText :: "(bytes \<Rightarrow> bytes option) \<Rightarrow> ZipArchive \<Rightarrow> jstr \<Rightarrow> (ZipProblem + jstr) option" where
  "zipReadText inflate archive name =
     (case zipRead inflate archive name of
        None \<Rightarrow> None
      | Some (Inl problem) \<Rightarrow> Some (Inl problem)
      | Some (Inr contents) \<Rightarrow>
          (case utf8DecodeFatal contents of
             None \<Rightarrow>
               Some (Inl (js ''The contents of '' @ quoted name @ js '' are not valid UTF-8 text, so they could not be read''))
           | Some t \<Rightarrow> Some (Inr t)))"

definition archiveProblem :: "jstr \<Rightarrow> ImportResult" where
  "archiveProblem problem =
     \<lparr> rs_items = [],
       rs_errors = [rowError 1 (js ''This file could not be read as a 1Password .1pux archive. '' @ problem)] \<rparr>"

definition parseOnePassword1pux :: "(bytes \<Rightarrow> bytes option) \<Rightarrow> bytes \<Rightarrow> ImportResult option" where
  "parseOnePassword1pux inflate archive =
     (case openZip archive of
        None \<Rightarrow> None
      | Some (Inl problem) \<Rightarrow> Some (archiveProblem problem)
      | Some (Inr opened) \<Rightarrow>
          (case zipReadText inflate opened (js ''export.data'') of
             None \<Rightarrow> None
           | Some (Inl problem) \<Rightarrow> Some (archiveProblem problem)
           | Some (Inr t) \<Rightarrow> Some (parseOnePasswordExportData t)))"

section \<open>No read falls outside the file\<close>

lemma getUint16_total: "i + 2 \<le> length bs \<Longrightarrow> \<exists>v. getUint16 bs i = Some v"
  by (simp add: getUint16_def)

lemma getUint32_total: "i + 4 \<le> length bs \<Longrightarrow> \<exists>v. getUint32 bs i = Some v"
  by (simp add: getUint32_def)

lemma endScan_total:
  "i + 22 \<le> length bs \<Longrightarrow> \<exists>r. endScan bs earliest i = Some r \<and> (\<forall>e. r = Some e \<longrightarrow> e + 22 \<le> length bs)"
proof (induction bs earliest i rule: endScan.induct)
  case (1 bs earliest i)
  obtain s where s: "getUint32 bs i = Some s" using "1.prems" getUint32_total [of i bs] by auto
  obtain c where c: "getUint16 bs (i + 20) = Some c" using "1.prems" getUint16_total [of "i + 20" bs] by auto
  define comment where "comment = (if s = END_OF_CENTRAL_DIRECTORY then Some c else None)"
  have key: "(if s = END_OF_CENTRAL_DIRECTORY then map_option Some (getUint16 bs (i + 20)) else Some None) = Some comment"
    by (simp add: c comment_def)
  have eq: "endScan bs earliest i =
      (if comment = Some (length bs - i - END_RECORD_LENGTH) then Some (Some i)
       else if i = 0 \<or> i - 1 < earliest then Some None else endScan bs earliest (i - 1))"
    by (subst endScan.simps) (simp only: s key option.case)
  show ?case
  proof (cases "comment = Some (length bs - i - END_RECORD_LENGTH) \<or> i = 0 \<or> i - 1 < earliest")
    case True
    then show ?thesis using "1.prems" by (auto simp: eq)
  next
    case False
    from "1.IH" [OF s key] False "1.prems" show ?thesis by (simp add: eq)
  qed
qed

lemma readEntry_total: "i + 46 \<le> length bs \<Longrightarrow> \<exists>e. readEntry bs i nameEnd = Some e"
  by (simp add: readEntry_def getUint16_def getUint32_def)

lemma readDirectory_total:
  "stop \<le> length bs \<Longrightarrow> \<exists>r. readDirectory bs i stop n entries = Some r"
proof (induction n arbitrary: i entries)
  case (Suc n)
  show ?case
  proof (cases "stop < i + CENTRAL_ENTRY_LENGTH")
    case False
    then have len: "i + 46 \<le> length bs" using Suc.prems by simp
    obtain s where "getUint32 bs i = Some s" using len getUint32_total [of i bs] by auto
    moreover obtain a where "getUint16 bs (i + 28) = Some a" using len getUint16_total [of "i + 28" bs] by auto
    moreover obtain b where "getUint16 bs (i + 30) = Some b" using len getUint16_total [of "i + 30" bs] by auto
    moreover obtain c where "getUint16 bs (i + 32) = Some c" using len getUint16_total [of "i + 32" bs] by auto
    moreover obtain e where "readEntry bs i (i + CENTRAL_ENTRY_LENGTH + a) = Some e"
      using readEntry_total [OF len] by blast
    ultimately show ?thesis using False Suc by (simp add: Let_def)
  qed simp
qed simp

lemma compressedBytes_total: "\<exists>r. compressedBytes bs e = Some r"
proof (cases "length bs < ze_localHeaderOffset e + LOCAL_HEADER_LENGTH")
  case False
  let ?h = "ze_localHeaderOffset e"
  have len: "?h + 30 \<le> length bs" using False by simp
  obtain s where "getUint32 bs ?h = Some s" using len getUint32_total [of ?h bs] by auto
  moreover obtain a where "getUint16 bs (?h + 26) = Some a" using len getUint16_total [of "?h + 26" bs] by auto
  moreover obtain b where "getUint16 bs (?h + 28) = Some b" using len getUint16_total [of "?h + 28" bs] by auto
  ultimately show ?thesis by (simp add: compressedBytes_def Let_def)
qed (simp add: compressedBytes_def Let_def)

lemma openZip_total: "\<exists>r. openZip bs = Some r"
proof (cases "length bs < END_RECORD_LENGTH")
  case False
  then have "length bs - END_RECORD_LENGTH + 22 \<le> length bs" by simp
  from endScan_total [OF this, of "length bs - END_RECORD_LENGTH - MAX_COMMENT_LENGTH"]
  obtain r where r: "endRecordAt bs = Some r" "\<forall>e. r = Some e \<longrightarrow> e + 22 \<le> length bs"
    unfolding endRecordAt_def by blast
  show ?thesis
  proof (cases r)
    case None
    then show ?thesis using False r by (simp add: openZip_def)
  next
    case (Some e)
    then have len: "e + 22 \<le> length bs" using r by simp
    obtain a where "getUint16 bs (e + 10) = Some a" using len getUint16_total [of "e + 10" bs] by auto
    moreover obtain b where "getUint32 bs (e + 12) = Some b" using len getUint32_total [of "e + 12" bs] by auto
    moreover obtain c where "getUint32 bs (e + 16) = Some c" using len getUint32_total [of "e + 16" bs] by auto
    moreover have "length bs < c + b \<or> (\<exists>d. readDirectory bs c (c + b) a [] = Some d)"
      using readDirectory_total [of "c + b" bs] by fastforce
    ultimately show ?thesis using False r Some
      by (auto simp: openZip_def split: sum.split)
  qed
qed (simp add: openZip_def)

lemma zipRead_total: "\<exists>r. zipRead inflate a n = Some r"
proof (cases "mapGet (za_byName a) n")
  case (Some e)
  obtain r where "compressedBytes (za_bytes a) e = Some r" using compressedBytes_total by blast
  then show ?thesis using Some by (cases r) (auto simp: zipRead_def split: option.split)
qed (simp add: zipRead_def)

lemma zipReadText_total: "\<exists>r. zipReadText inflate a n = Some r"
proof -
  obtain r where "zipRead inflate a n = Some r" using zipRead_total by blast
  then show ?thesis by (cases r) (auto simp: zipReadText_def split: option.split)
qed

lemma zipRead_checked:
  assumes "zipRead inflate a n = Some (Inr contents)"
  shows "\<exists>e. mapGet (za_byName a) n = Some e \<and> crc32 contents = ze_checksum e \<and>
    length contents = ze_uncompressedSize e \<and> even (ze_flags e)"
  using assms by (auto simp: zipRead_def split: option.splits sum.splits if_splits)

section \<open>The table-driven checksum is the bitwise one\<close>

lemma crcBits_step:
  "(if v AND 1 \<noteq> 0 then 0xEDB88320 XOR drop_bit 1 v else drop_bit 1 v) =
   (if bit v 0 then 0xEDB88320 else 0) XOR drop_bit 1 v" for v :: "32 word"
  by (simp add: and_one_eq bit_0 odd_iff_mod_2_eq_one)

lemma crcBits_xor: "crcBits n (v XOR w) = crcBits n v XOR crcBits n w"
proof (induction n arbitrary: v w)
  case (Suc n)
  have "(if bit (v XOR w) 0 then 0xEDB88320 else 0) XOR drop_bit 1 (v XOR w) =
      ((if bit v 0 then 0xEDB88320 else 0) XOR drop_bit 1 v) XOR
      ((if bit w 0 then 0xEDB88320 else 0) XOR drop_bit 1 w)"
    by (simp add: bit_xor_iff ac_simps xor.left_commute del: xor_numerals)
  then show ?case unfolding crcBits.simps crcBits_step by (simp only: Suc)
qed simp

lemma crcBits_shift: "take_bit n v = 0 \<Longrightarrow> crcBits n v = drop_bit n v"
proof (induction n arbitrary: v)
  case (Suc n)
  have b: "\<not> bit v k" if "k < Suc n" for k
  proof -
    have "bit (take_bit (Suc n) v) k = bit v k" using that by (simp add: bit_take_bit_iff)
    with Suc.prems show ?thesis by simp
  qed
  then have "take_bit n (drop_bit 1 v) = 0"
    by (intro bit_word_eqI) (auto simp: bit_simps)
  from Suc.IH [OF this] b [of 0] show ?case
    unfolding crcBits.simps crcBits_step by simp
qed simp

lemma crcStep_bits: "crcStep v b = crcBits 8 (v XOR ucast b)"
proof -
  define x where "x = v XOR ucast b"
  have low: "x AND 0xFF = take_bit 8 x" by (simp add: take_bit_eq_mask mask_eq_exp_minus_1)
  have "unat (take_bit 8 x) < 2 ^ 8" by (metis unsigned_take_bit_eq take_bit_nat_less_exp)
  then have tab: "orElse (at crcTable (unat (x AND 0xFF))) 0 = crcBits 8 (take_bit 8 x)"
    unfolding low by (simp add: crcTable_def at_def del: unsigned_take_bit_eq)
  have split: "x = take_bit 8 x XOR push_bit 8 (drop_bit 8 x)"
    by (rule bit_word_eqI) (auto simp: bit_simps dest: bit_imp_le_length)
  have "crcBits 8 x = crcBits 8 (take_bit 8 x) XOR crcBits 8 (push_bit 8 (drop_bit 8 x))"
    using split crcBits_xor by metis
  also have "crcBits 8 (push_bit 8 (drop_bit 8 x)) = drop_bit 8 x"
    by (subst crcBits_shift) (auto simp: bit_eq_iff bit_simps dest: bit_imp_le_length)
  also have "drop_bit 8 x = drop_bit 8 v"
    unfolding x_def by (rule bit_word_eqI) (auto simp: bit_simps bit_byte_beyond)
  finally show ?thesis using tab by (simp add: crcStep_def x_def)
qed

definition crcReference :: "bytes \<Rightarrow> 32 word" where
  "crcReference bs = foldl (\<lambda>v b. crcBits 8 (v XOR ucast b)) 0xFFFFFFFF bs XOR 0xFFFFFFFF"

lemma crc32_reference: "crc32 bs = unat (crcReference bs)"
  by (simp add: crc32_def crcReference_def crcStep_bits [abs_def])

text \<open>The published CRC-32 of the letter a, which pins the polynomial both use.\<close>

lemma crcBits_8: "crcBits 8 v = crcBits 1 (crcBits 1 (crcBits 1 (crcBits 1 (crcBits 1 (crcBits 1 (crcBits 1 (crcBits 1 v)))))))"
  by (simp add: numeral_eq_Suc)

lemma crcBits_1: "crcBits (Suc 0) v = (if v AND 1 \<noteq> 0 then 0xEDB88320 XOR drop_bit 1 v else drop_bit 1 v)"
  by simp

lemma crc32_letter: "crc32 [0x61] = 0xE8B7BE43"
  unfolding crc32_reference by (simp add: crcReference_def crcBits_8 crcBits_1 del: crcBits.simps)

section \<open>A stored member reads back\<close>

definition le16 :: "nat \<Rightarrow> bytes" where
  "le16 n = [of_nat (n mod 256), of_nat (n div 256 mod 256)]"

definition le32 :: "nat \<Rightarrow> bytes" where
  "le32 n = [of_nat (n mod 256), of_nat (n div 256 mod 256), of_nat (n div 65536 mod 256), of_nat (n div 16777216 mod 256)]"

definition localHeader :: "nat \<Rightarrow> bytes \<Rightarrow> bytes" where
  "localHeader nameLength contents =
     le32 LOCAL_HEADER @ le16 20 @ le16 0 @ le16 STORED @ le16 0 @ le16 0 @ le32 (crc32 contents) @
     le32 (length contents) @ le32 (length contents) @ le16 nameLength @ le16 0"

definition centralHeader :: "nat \<Rightarrow> bytes \<Rightarrow> bytes" where
  "centralHeader nameLength contents =
     le32 CENTRAL_HEADER @ le16 20 @ le16 20 @ le16 0 @ le16 STORED @ le16 0 @ le16 0 @
     le32 (crc32 contents) @ le32 (length contents) @ le32 (length contents) @ le16 nameLength @
     le16 0 @ le16 0 @ le16 0 @ le16 0 @ le32 0 @ le32 0"

definition endRecord' :: "nat \<Rightarrow> nat \<Rightarrow> bytes" where
  "endRecord' directorySize directoryOffset =
     le32 END_OF_CENTRAL_DIRECTORY @ le16 0 @ le16 0 @ le16 1 @ le16 1 @ le32 directorySize @
     le32 directoryOffset @ le16 0"

definition storedArchive :: "jstr \<Rightarrow> bytes \<Rightarrow> bytes" where
  "storedArchive name contents =
     (let nm = utf8Encode name in
      localHeader (length nm) contents @ nm @ contents @ centralHeader (length nm) contents @ nm @
      endRecord' (46 + length nm) (30 + length nm + length contents))"

lemma byte_of_nat: "unat (of_nat (n mod 256) :: byte) = n mod 256"
  by (simp add: unat_of_nat)

lemma le_length [simp]: "length (le16 n) = 2" "length (le32 n) = 4"
  by (simp_all add: le16_def le32_def)

lemma header_length [simp]:
  "length (localHeader n c) = 30" "length (centralHeader n c) = 46" "length (endRecord' a b) = 22"
  by (simp_all add: localHeader_def centralHeader_def endRecord'_def)

lemma getUint_cons:
  "getUint16 (a # b # ys) 0 = Some (unat a + 256 * unat b)"
  "getUint32 (a # b # c # d # ys) 0 = Some (unat a + 256 * unat b + 65536 * unat c + 16777216 * unat d)"
  by (simp_all add: getUint16_def getUint32_def)

lemma getUint16_le: "n < 65536 \<Longrightarrow> getUint16 (le16 n @ ys) 0 = Some n"
proof -
  assume "n < 65536"
  then have "n div 256 mod 256 = n div 256" by simp
  then have "n mod 256 + 256 * (n div 256 mod 256) = n" by simp
  then show ?thesis unfolding le16_def append.simps getUint_cons byte_of_nat by (simp only:)
qed

lemma getUint32_le: "n < 4294967296 \<Longrightarrow> getUint32 (le32 n @ ys) 0 = Some n"
proof -
  assume n: "n < 4294967296"
  have m: "n div 16777216 mod 256 = n div 16777216" using n by simp
  have d: "n div 65536 = n div 256 div 256" "n div 16777216 = n div 256 div 256 div 256"
    by (simp_all flip: div_mult2_eq)
  have "n mod 256 + 256 * (n div 256 mod 256) + 65536 * (n div 65536 mod 256) +
      16777216 * (n div 16777216 mod 256) = n"
    unfolding m unfolding d
    using mod_div_mult_eq [of n 256] mod_div_mult_eq [of "n div 256" 256]
      mod_div_mult_eq [of "n div 256 div 256" 256] by linarith
  then show ?thesis unfolding le32_def append.simps getUint_cons byte_of_nat by (simp only:)
qed

lemma getUint_append:
  "getUint16 (xs @ ys) (length xs + i) = getUint16 ys i"
  "getUint32 (xs @ ys) (length xs + i) = getUint32 ys i"
  by (simp_all add: getUint16_def getUint32_def nth_append)

text \<open>Reading a field \<open>k\<close> bytes into a sequence of fields.\<close>

lemma getUint_skip:
  "length xs = n \<Longrightarrow> n \<le> k \<Longrightarrow> getUint16 (xs @ ys) k = getUint16 ys (k - n)"
  "length xs = n \<Longrightarrow> n \<le> k \<Longrightarrow> getUint32 (xs @ ys) k = getUint32 ys (k - n)"
  using getUint_append [of xs ys "k - n"] by auto

lemma crc32_bound: "crc32 c < 4294967296"
proof -
  have "unat (foldl crcStep 0xFFFFFFFF c XOR 0xFFFFFFFF) < 2 ^ LENGTH(32)" by (rule unsigned_less)
  then show ?thesis by (simp add: crc32_def)
qed

lemmas skips = getUint_skip(1) [OF le_length(1)] getUint_skip(1) [OF le_length(2)]
  getUint_skip(2) [OF le_length(1)] getUint_skip(2) [OF le_length(2)]

lemma localHeader_fields:
  assumes "n < 65536"
  shows "getUint32 (localHeader n c @ ys) 0 = Some LOCAL_HEADER"
    "getUint16 (localHeader n c @ ys) 26 = Some n" "getUint16 (localHeader n c @ ys) 28 = Some 0"
  using assms by (simp_all add: localHeader_def skips getUint16_le getUint32_le)

lemma centralHeader_fields:
  assumes "n < 65536" "length c < 4294967296"
  shows "getUint32 (centralHeader n c @ ys) 0 = Some CENTRAL_HEADER"
    "getUint16 (centralHeader n c @ ys) 8 = Some 0" "getUint16 (centralHeader n c @ ys) 10 = Some STORED"
    "getUint32 (centralHeader n c @ ys) 16 = Some (crc32 c)"
    "getUint32 (centralHeader n c @ ys) 20 = Some (length c)"
    "getUint32 (centralHeader n c @ ys) 24 = Some (length c)"
    "getUint16 (centralHeader n c @ ys) 28 = Some n" "getUint16 (centralHeader n c @ ys) 30 = Some 0"
    "getUint16 (centralHeader n c @ ys) 32 = Some 0" "getUint32 (centralHeader n c @ ys) 42 = Some 0"
  using assms by (simp_all add: centralHeader_def skips getUint16_le getUint32_le crc32_bound)

lemma endRecord_fields:
  assumes "a < 4294967296" "b < 4294967296"
  shows "getUint32 (endRecord' a b) 0 = Some END_OF_CENTRAL_DIRECTORY" "getUint16 (endRecord' a b) 10 = Some 1"
    "getUint32 (endRecord' a b) 12 = Some a" "getUint32 (endRecord' a b) 16 = Some b"
    "getUint16 (endRecord' a b) 20 = Some 0"
  using assms by (simp_all add: endRecord'_def skips getUint16_le getUint32_le getUint16_le [of 0 "[]", simplified])

lemma stored_roundtrip:
  assumes nm: "wellFormed name" "name = [] \<or> hd name \<noteq> 0xFEFF" "length (utf8Encode name) < 65536"
    and c: "30 + length (utf8Encode name) + length contents < 4294967295"
  shows "\<exists>a. openZip (storedArchive name contents) = Some (Inr a) \<and> zipNames a = [name] \<and>
    zipRead inflate a name = Some (Inr contents)"
proof -
  define n where "n = length (utf8Encode name)"
  define A where "A = localHeader n contents @ utf8Encode name @ contents"
  define B where "B = centralHeader n contents @ utf8Encode name"
  define E where "E = endRecord' (46 + n) (30 + n + length contents)"
  define bs where "bs = A @ B @ E"
  have bs: "storedArchive name contents = bs"
    by (simp add: storedArchive_def Let_def bs_def A_def B_def E_def n_def)
  have len: "length A = 30 + n + length contents" "length B = 46 + n" "length E = 22"
    by (simp_all add: A_def B_def E_def n_def)
  have cl: "length contents < 4294967296" and n: "n < 65536" using c nm by (simp_all add: n_def)
  have small: "46 + n < 4294967296" "30 + n + length contents < 4294967296" using n c by (simp_all add: n_def)
  note ends = endRecord_fields [OF small, folded E_def]
  have fin: "getUint32 bs (length A + length B) = Some END_OF_CENTRAL_DIRECTORY"
    "getUint16 bs (length A + length B + 20) = Some 0"
    "getUint16 bs (length A + length B + 10) = Some 1"
    "getUint32 bs (length A + length B + 12) = Some (46 + n)"
    "getUint32 bs (length A + length B + 16) = Some (30 + n + length contents)"
    using ends getUint_append [of "A @ B" E] getUint_append [of "A @ B" E 0] by (simp_all add: bs_def add.assoc)
  have pos: "length bs - END_RECORD_LENGTH = length A + length B" by (simp add: bs_def len)
  have last: "length bs = length A + length B + 22" by (simp add: bs_def len)
  have rec: "endRecordAt bs = Some (Some (length A + length B))"
    unfolding endRecordAt_def pos by (subst endScan.simps) (simp add: fin last)
  define entry where "entry = \<lparr> ze_name = name, ze_flags = 0, ze_method = STORED, ze_checksum = crc32 contents,
    ze_compressedSize = length contents, ze_uncompressedSize = length contents, ze_localHeaderOffset = 0 \<rparr>"
  have BE: "B @ E = centralHeader n contents @ utf8Encode name @ E" by (simp add: B_def)
  have cf: "getUint32 bs (length A + k) = getUint32 (centralHeader n contents @ utf8Encode name @ E) k"
    "getUint16 bs (length A + k) = getUint16 (centralHeader n contents @ utf8Encode name @ E) k" for k
    using getUint_append [of A "B @ E" k] by (simp_all add: bs_def BE)
  note central = centralHeader_fields [OF n cl, of "utf8Encode name @ E"]
  have sub: "subarray bs (length A + 46) (length A + 46 + n) = utf8Encode name"
    by (simp add: subarray_def bs_def BE n_def)
  have re: "readEntry bs (length A) (length A + 46 + n) = Some entry"
    by (simp add: readEntry_def cf central sub utf8_roundtrip [OF nm(1,2)] entry_def)
  have rd: "readDirectory bs (length A) (length A + 46 + n) (Suc 0) [] = Some (Inr [entry])"
    using cf(1) [of 0] central by (simp add: cf central re Let_def)
  define a where "a = \<lparr> za_bytes = bs, za_entries = [entry], za_byName = [(name, entry)] \<rparr>"
  have "openZip bs = Some (Inr a)"
  proof -
    have "readDirectory bs (30 + n + length contents) (30 + n + length contents + (46 + n)) (Suc 0) [] = Some (Inr [entry])"
      using rd unfolding len by (simp only: add.assoc)
    moreover have "\<not> length bs < 30 + n + length contents + (46 + n)" "\<not> length bs < 22"
      by (simp_all add: bs_def len)
    ultimately show ?thesis
      by (simp add: openZip_def rec fin a_def mapSetNew_def mapSet_def del: readDirectory.simps)
        (simp add: entry_def)
  qed
  moreover have "zipRead inflate a name = Some (Inr contents)"
  proof -
    have loc: "bs = localHeader n contents @ utf8Encode name @ contents @ B @ E" by (simp add: bs_def A_def)
    note lf = localHeader_fields [OF n, of contents "utf8Encode name @ contents @ B @ E", folded loc]
    have "subarray bs (30 + n) (30 + n + length contents) = contents"
      by (simp add: subarray_def loc n_def)
    moreover have "length bs = 98 + 2 * n + length contents" by (simp add: bs_def len)
    ultimately have "compressedBytes bs entry = Some (Inr contents)"
      by (simp add: compressedBytes_def entry_def lf Let_def)
    then show ?thesis using c by (simp add: zipRead_def a_def entry_def mapGet_def n_def)
  qed
  ultimately show ?thesis unfolding bs by (simp add: zipNames_def a_def entry_def)
qed

section \<open>Properties of the archive reader\<close>

text \<open>
  C16. Nothing throws, whatever the bytes: opening an archive, reading a member as text and
  reading a whole \<^verbatim>\<open>.1pux\<close> all return a result, so no header field, however damaged, makes
  the reader look outside the file.
\<close>

theorem zip_never_throws:
  "openZip bs \<noteq> None \<and> (\<forall>a name. zipReadText inflate a name \<noteq> None) \<and> parseOnePassword1pux inflate bs \<noteq> None"
proof -
  obtain r where r: "openZip bs = Some r" using openZip_total by blast
  have t: "zipReadText inflate a name \<noteq> None" for a name using zipReadText_total [of inflate a name] by auto
  show ?thesis using r t by (cases r) (auto simp: parseOnePassword1pux_def split: sum.split option.split)
qed

text \<open>
  Bytes are only handed out when their CRC-32 and their length are the ones the archive
  recorded for that member, and the member is not encrypted.
\<close>

theorem zip_contents_checked:
  assumes "zipRead inflate archive name = Some (Inr contents)"
  shows "\<exists>e. mapGet (za_byName archive) name = Some e \<and> crc32 contents = ze_checksum e \<and>
    length contents = ze_uncompressedSize e \<and> even (ze_flags e)"
  by (rule zipRead_checked [OF assms])

theorem zip_contents_checked_witness:
  "\<exists>a e. openZip (storedArchive (js ''d'') [1, 2]) = Some (Inr a) \<and> mapGet (za_byName a) (js ''d'') = Some e \<and>
     crc32 [1, 2] = ze_checksum e"
proof -
  have nm: "wellFormed (js ''d'')" "hd (js ''d'') \<noteq> 0xFEFF" "length (utf8Encode (js ''d'')) = 1" by code_simp+
  from nm obtain a where a: "openZip (storedArchive (js ''d'') [1, 2]) = Some (Inr a)"
    "zipRead (\<lambda>x. None) a (js ''d'') = Some (Inr [1, 2])"
    using stored_roundtrip [of "js ''d''" "[1, 2]" "\<lambda>x. None"] by auto
  show ?thesis using a(1) zip_contents_checked [OF a(2)] by blast
qed

text \<open>
  C17. The table-driven CRC-32 is the bitwise definition: eight shift steps of the reflected
  polynomial per byte.
\<close>

theorem crc32_is_bitwise: "crc32 bs = unat (crcReference bs)"
  by (rule crc32_reference)

text \<open>
  C18. A member written to an archive is read back byte for byte: for an archive holding one
  stored member of any name and any contents that fit the 32-bit fields, opening it lists that
  name and reading it gives exactly those bytes.
\<close>

theorem zip_roundtrip:
  assumes "wellFormed name" "name = [] \<or> hd name \<noteq> 0xFEFF" "length (utf8Encode name) < 65536"
    "30 + length (utf8Encode name) + length contents < 4294967295"
  shows "\<exists>a. openZip (storedArchive name contents) = Some (Inr a) \<and> zipNames a = [name] \<and>
    zipRead inflate a name = Some (Inr contents)"
  by (rule stored_roundtrip [OF assms])

theorem zip_roundtrip_witness:
  "\<exists>a. openZip (storedArchive (js ''export.data'') [123, 125]) = Some (Inr a) \<and>
     zipNames a = [js ''export.data''] \<and> zipRead (\<lambda>x. None) a (js ''export.data'') = Some (Inr [123, 125])"
proof -
  have nm: "wellFormed (js ''export.data'')" "hd (js ''export.data'') \<noteq> 0xFEFF"
    "length (utf8Encode (js ''export.data'')) = 11" by code_simp+
  show ?thesis by (rule zip_roundtrip) (use nm in simp_all)
qed

end
