(* ===== verification/Detect.thy ===== *)
theory Detect
  imports MapItems
begin

text \<open>
  Which password manager an export came from (\<^verbatim>\<open>packages/vault/src/import/detect.ts\<close>): the
  evidence taken from a file, the fifteen signatures in the order of the source, and
  \<^verbatim>\<open>detect\<close>.

  Shown: renaming a file never changes the parser it is routed to, unless it is a ZIP archive;
  a product is named exactly when a parser of its own was chosen; a CSV file routed to a vendor's
  parser is accepted by that parser, every intact row becoming an item or a refusal; and two
  signatures can fire on one file, so their order does decide.
\<close>

datatype ImportVendor =
    VBitwarden | VLastpass | VOnepassword | VChrome | VEdge | VBrave | VFirefox | VSafari
  | VKeepass | VKeepassxc | VNordpass | VDashlane | VProtonpass | VKeeper

record DetectedFormat =
  df_parser :: ImportParser
  df_vendors :: "ImportVendor list"

datatype FormatSignatureId =
    SigBitwardenJson | SigProtonpassJson | SigDashlaneJson | SigKeeperJson | SigOnepassword1pux
  | SigBitwardenCsv | SigLastpassCsv | SigChromiumCsv | SigFirefoxCsv | SigSafariCsv
  | SigOnepasswordCsv | SigKeepassxcCsv | SigKeepassCsv | SigNordpassCsv | SigDashlaneCsv

record FileEvidence =
  fe_filename :: jstr
  fe_lowerFilename :: jstr
  fe_content :: jstr
  fe_csvHeader :: "jstr list"
  fe_json :: "json option"

abbreviation (input) HEADER_PROBE_LIMIT :: nat where "HEADER_PROBE_LIMIT \<equiv> 8192"

definition ZIP_MAGIC :: jstr where
  "ZIP_MAGIC = js ''PK'' @ [3, 4]"

text \<open>The part after the last slash or backslash.\<close>

definition basename :: "jstr \<Rightarrow> jstr" where
  "basename filename = rev (takeWhile (\<lambda>c. c \<noteq> 47 \<and> c \<noteq> 92) (rev filename))"

definition parseJsonBody :: "jstr \<Rightarrow> json option" where
  "parseJsonBody content =
     (let trimmed = trimStart content in
      if \<not> startsWith trimmed (js ''{'') then None else jsonParse trimmed)"

definition probe :: "jstr \<Rightarrow> jstr \<Rightarrow> FileEvidence" where
  "probe filename content =
     (let name = basename filename;
          header = tb_header (parseCsv (take HEADER_PROBE_LIMIT content))
      in \<lparr> fe_filename = name, fe_lowerFilename = toLowerCase name, fe_content = content,
           fe_csvHeader = map (\<lambda>column. toLowerCase (trim column)) header,
           fe_json = parseJsonBody content \<rparr>)"

definition hasColumns :: "FileEvidence \<Rightarrow> string list \<Rightarrow> bool" where
  "hasColumns file columns = list_all (\<lambda>column. js column \<in> set (fe_csvHeader file)) columns"

definition headerSetIs :: "FileEvidence \<Rightarrow> string list \<Rightarrow> bool" where
  "headerSetIs file columns =
     (length (fe_csvHeader file) = length columns \<and>
      list_all (\<lambda>column. js column \<in> set (fe_csvHeader file)) columns)"

definition headerIs :: "FileEvidence \<Rightarrow> string list \<Rightarrow> bool" where
  "headerIs file columns =
     (length (fe_csvHeader file) = length columns \<and> fe_csvHeader file = map js columns)"

definition hasArray :: "json option \<Rightarrow> string \<Rightarrow> bool" where
  "hasArray v key = (asArray (optProp (asObject v) key) \<noteq> None)"

definition isBitwardenJson :: "json option \<Rightarrow> bool" where
  "isBitwardenJson v =
     (case asObject v of
        None \<Rightarrow> False
      | Some root \<Rightarrow>
          if asArray (jprop root ''items'') \<noteq> None then
            asArray (jprop root ''folders'') \<noteq> None \<or> asArray (jprop root ''collections'') \<noteq> None \<or>
            jprop root ''encrypted'' \<noteq> None
          else jprop root ''passwordProtected'' = Some (JBool True) \<and>
            (case jprop root ''data'' of Some (JStr s) \<Rightarrow> True | _ \<Rightarrow> False))"

definition DASHLANE_JSON_KEYS :: "string list" where
  "DASHLANE_JSON_KEYS =
     [''AUTHENTIFIANT'', ''SECURENOTE'', ''ADDRESS'', ''BANKSTATEMENT'', ''IDCARD'', ''IDENTITY'',
      ''PAYMENTMEANS_CREDITCARD'', ''PAYMENTMEAN_PAYPAL'', ''EMAIL'']"

record FormatSignature =
  fs_id :: FormatSignatureId
  fs_parser :: ImportParser
  fs_match :: "FileEvidence \<Rightarrow> ImportVendor list option"

definition matchProtonpass :: "FileEvidence \<Rightarrow> ImportVendor list option" where
  "matchProtonpass file =
     (case asObject (fe_json file) of
        None \<Rightarrow> None
      | Some root \<Rightarrow>
          if asObject (jprop root ''vaults'') \<noteq> None \<and> jprop root ''encrypted'' \<noteq> None
          then Some [VProtonpass] else None)"

definition matchChromium :: "FileEvidence \<Rightarrow> ImportVendor list option" where
  "matchChromium file =
     (if \<not> (headerSetIs file [''name'', ''url'', ''username'', ''password'', ''note''] \<or>
             headerSetIs file [''name'', ''url'', ''username'', ''password'']) then None
      else if includesStr (fe_lowerFilename file) (js ''edge'') then Some [VEdge]
      else if includesStr (fe_lowerFilename file) (js ''brave'') then Some [VBrave]
      else if includesStr (fe_lowerFilename file) (js ''chrome'') then Some [VChrome]
      else Some [VChrome, VEdge, VBrave])"

definition whenColumns :: "string list \<Rightarrow> ImportVendor \<Rightarrow> FileEvidence \<Rightarrow> ImportVendor list option" where
  "whenColumns columns vendor file = (if hasColumns file columns then Some [vendor] else None)"

definition FORMAT_SIGNATURES :: "FormatSignature list" where
  "FORMAT_SIGNATURES =
     [\<lparr> fs_id = SigBitwardenJson, fs_parser = BitwardenJson,
        fs_match = (\<lambda>file. if isBitwardenJson (fe_json file) then Some [VBitwarden] else None) \<rparr>,
      \<lparr> fs_id = SigProtonpassJson, fs_parser = ProtonpassJson, fs_match = matchProtonpass \<rparr>,
      \<lparr> fs_id = SigDashlaneJson, fs_parser = DashlaneJson,
        fs_match = (\<lambda>file. if list_ex (hasArray (fe_json file)) DASHLANE_JSON_KEYS
                           then Some [VDashlane] else None) \<rparr>,
      \<lparr> fs_id = SigKeeperJson, fs_parser = KeeperJson,
        fs_match = (\<lambda>file. if hasArray (fe_json file) ''records'' \<and> hasArray (fe_json file) ''shared_folders''
                           then Some [VKeeper] else None) \<rparr>,
      \<lparr> fs_id = SigOnepassword1pux, fs_parser = Onepassword1pux,
        fs_match = (\<lambda>file. if endsWith (fe_lowerFilename file) (js ''.1pux'') \<and>
                             startsWith (fe_content file) ZIP_MAGIC
                           then Some [VOnepassword] else None) \<rparr>,
      \<lparr> fs_id = SigBitwardenCsv, fs_parser = BitwardenCsv,
        fs_match = whenColumns [''login_uri'', ''login_username'', ''login_password'', ''reprompt''] VBitwarden \<rparr>,
      \<lparr> fs_id = SigLastpassCsv, fs_parser = LastpassCsv,
        fs_match = whenColumns [''grouping'', ''extra'', ''url'', ''username'', ''password''] VLastpass \<rparr>,
      \<lparr> fs_id = SigChromiumCsv, fs_parser = BrowserCsv, fs_match = matchChromium \<rparr>,
      \<lparr> fs_id = SigFirefoxCsv, fs_parser = BrowserCsv,
        fs_match = whenColumns [''url'', ''username'', ''password'', ''httprealm'', ''formactionorigin'', ''guid''] VFirefox \<rparr>,
      \<lparr> fs_id = SigSafariCsv, fs_parser = BrowserCsv,
        fs_match = (\<lambda>file. if headerSetIs file [''title'', ''url'', ''username'', ''password'', ''notes'', ''otpauth''] \<or>
                             headerSetIs file [''title'', ''url'', ''username'', ''password'', ''notes'']
                           then Some [VSafari] else None) \<rparr>,
      \<lparr> fs_id = SigOnepasswordCsv, fs_parser = OnepasswordCsv,
        fs_match = whenColumns [''title'', ''password'', ''otpauth'', ''archived'', ''tags''] VOnepassword \<rparr>,
      \<lparr> fs_id = SigKeepassxcCsv, fs_parser = KeepassCsv,
        fs_match = whenColumns [''group'', ''title'', ''username'', ''password'', ''url'', ''notes'', ''totp''] VKeepassxc \<rparr>,
      \<lparr> fs_id = SigKeepassCsv, fs_parser = KeepassCsv,
        fs_match = (\<lambda>file. if headerIs file [''account'', ''login name'', ''password'', ''web site'', ''comments'']
                           then Some [VKeepass] else None) \<rparr>,
      \<lparr> fs_id = SigNordpassCsv, fs_parser = NordpassCsv,
        fs_match = whenColumns [''name'', ''url'', ''username'', ''password'', ''cardholdername'', ''cvc'', ''folder''] VNordpass \<rparr>,
      \<lparr> fs_id = SigDashlaneCsv, fs_parser = DashlaneCsv,
        fs_match = whenColumns [''title'', ''password'', ''url'', ''otpsecret'', ''category''] VDashlane \<rparr>]"

definition UNRECOGNISED :: DetectedFormat where
  "UNRECOGNISED = \<lparr> df_parser = GenericCsv, df_vendors = [] \<rparr>"

fun firstMatch :: "FormatSignature list \<Rightarrow> FileEvidence \<Rightarrow> DetectedFormat" where
  "firstMatch [] file = UNRECOGNISED"
| "firstMatch (signature # signatures) file =
     (case fs_match signature file of
        Some vendors \<Rightarrow> \<lparr> df_parser = fs_parser signature, df_vendors = vendors \<rparr>
      | None \<Rightarrow> firstMatch signatures file)"

definition detect :: "jstr \<Rightarrow> jstr \<Rightarrow> DetectedFormat" where
  "detect filename content = firstMatch FORMAT_SIGNATURES (probe filename content)"

section \<open>The chosen signature\<close>

lemma firstMatch_cases:
  obtains "firstMatch sigs file = UNRECOGNISED" "\<And>s. s \<in> set sigs \<Longrightarrow> fs_match s file = None"
  | s vendors where "s \<in> set sigs" "fs_match s file = Some vendors"
      "firstMatch sigs file = \<lparr> df_parser = fs_parser s, df_vendors = vendors \<rparr>"
proof (induction sigs arbitrary: thesis)
  case (Cons s sigs)
  show ?case
  proof (cases "fs_match s file")
    case None
    show ?thesis
    proof (rule Cons.IH)
      assume "firstMatch sigs file = UNRECOGNISED" "\<And>s. s \<in> set sigs \<Longrightarrow> fs_match s file = None"
      then show ?thesis using None by (intro Cons.prems(1)) auto
    next
      fix t vendors assume "t \<in> set sigs" "fs_match t file = Some vendors"
        "firstMatch sigs file = \<lparr> df_parser = fs_parser t, df_vendors = vendors \<rparr>"
      then show ?thesis using None by (intro Cons.prems(2)) auto
    qed
  qed (auto intro: Cons.prems(2))
qed auto

lemma signature_cases:
  "list_all (\<lambda>s. fs_parser s \<noteq> GenericCsv \<and> fs_match s file \<noteq> Some []) FORMAT_SIGNATURES"
  by (simp add: FORMAT_SIGNATURES_def whenColumns_def matchProtonpass_def matchChromium_def split: option.split)

text \<open>
  A product is named exactly when a parser of its own reads the file: the list of vendors is
  empty if and only if the answer is the generic column mapper, so no file is routed to a vendor's
  parser without saying whose, and none is claimed for a product and then read generically.
\<close>

theorem detect_names_vendor:
  "df_vendors (detect filename content) = [] \<longleftrightarrow> df_parser (detect filename content) = GenericCsv"
proof (rule firstMatch_cases [of FORMAT_SIGNATURES "probe filename content"])
  fix s vendors
  assume "s \<in> set FORMAT_SIGNATURES" "fs_match s (probe filename content) = Some vendors"
    "firstMatch FORMAT_SIGNATURES (probe filename content) = \<lparr> df_parser = fs_parser s, df_vendors = vendors \<rparr>"
  then show ?thesis
    using signature_cases [of "probe filename content"] by (auto simp: detect_def list_all_iff)
qed (simp add: detect_def UNRECOGNISED_def)

section \<open>The filename\<close>

lemma firstMatch_parser_cong:
  assumes "list_all (\<lambda>s. (fs_match s f = None) = (fs_match s g = None)) sigs"
  shows "df_parser (firstMatch sigs f) = df_parser (firstMatch sigs g)"
  using assms by (induction sigs) (auto split: option.split)

lemma probe_evidence [simp]:
  "fe_csvHeader (probe a c) = map (\<lambda>column. toLowerCase (trim column)) (tb_header (parseCsv (take HEADER_PROBE_LIMIT c)))"
  "fe_json (probe a c) = parseJsonBody c" "fe_content (probe a c) = c"
  by (simp_all add: probe_def Let_def)

lemma matchChromium_None:
  "matchChromium file = None \<longleftrightarrow>
     \<not> (headerSetIs file [''name'', ''url'', ''username'', ''password'', ''note''] \<or>
        headerSetIs file [''name'', ''url'', ''username'', ''password''])"
  by (simp add: matchChromium_def)

text \<open>
  Renaming a file never changes the parser it is routed to: for any two names and the same
  contents the parser is the same, unless the contents are a ZIP archive, where the extension
  tells a 1Password archive from the others. (Among the Chromium browsers the name does pick the
  vendor shown; the parser is theirs in common.)
\<close>

theorem detect_rename:
  assumes "\<not> startsWith content ZIP_MAGIC"
  shows "df_parser (detect old content) = df_parser (detect new content)"
  unfolding detect_def
proof (rule firstMatch_parser_cong)
  show "list_all (\<lambda>s. (fs_match s (probe old content) = None) = (fs_match s (probe new content) = None))
      FORMAT_SIGNATURES"
    using assms by (simp add: FORMAT_SIGNATURES_def whenColumns_def matchProtonpass_def matchChromium_None
        hasColumns_def headerSetIs_def headerIs_def)
qed

theorem detect_rename_witness:
  "\<not> startsWith (js ''name,url'') ZIP_MAGIC \<and>
   df_parser (detect (js ''export.1pux'') (js ''name,url'')) = df_parser (detect (js ''a.csv'') (js ''name,url''))"
proof
  show "\<not> startsWith (js ''name,url'') ZIP_MAGIC" by code_simp
  then show "df_parser (detect (js ''export.1pux'') (js ''name,url'')) = df_parser (detect (js ''a.csv'') (js ''name,url''))"
    by (rule detect_rename)
qed

section \<open>Detection and the parsers agree\<close>

text \<open>Each row the reader did not report becomes one item or one refusal.\<close>

definition rowsAccounted :: "jstr \<Rightarrow> ImportResult \<Rightarrow> bool" where
  "rowsAccounted content r =
     (length (rs_items r) + length (rs_errors r) =
        length (okRows rw_line (tb_errors (parseCsv content)) (tb_rows (parseCsv content))) +
        length (tb_errors (parseCsv content)))"

lemma signature_of_parser:
  assumes "df_parser (detect filename content) = p" "p \<noteq> GenericCsv"
  obtains s vendors where "s \<in> set FORMAT_SIGNATURES" "fs_parser s = p"
    "fs_match s (probe filename content) = Some vendors"
  by (rule firstMatch_cases [of FORMAT_SIGNATURES "probe filename content"])
    (use assms that in \<open>auto simp: detect_def UNRECOGNISED_def\<close>)

lemma probe_columns:
  assumes "tb_header (parseCsv (take HEADER_PROBE_LIMIT content)) = tb_header (parseCsv content)"
  shows "js c \<in> set (fe_csvHeader (probe filename content)) \<longleftrightarrow>
    colHas (indexColumns (tb_header (parseCsv content))) (js c)"
  using assms by (auto simp: colHas_iff columnKey_def)

text \<open>The columns a parser asks for before it reads a row; a layout per list.\<close>

fun parserColumns :: "ImportParser \<Rightarrow> string list list" where
  "parserColumns BitwardenCsv = [[''login_password'']]"
| "parserColumns LastpassCsv = [[''password'', ''grouping'']]"
| "parserColumns OnepasswordCsv = [[''password'']]"
| "parserColumns NordpassCsv = [[''password'', ''cardholdername'']]"
| "parserColumns DashlaneCsv = [[''title'', ''password'']]"
| "parserColumns KeepassCsv =
     [[''group'', ''title'', ''username'', ''password'', ''url'', ''notes''],
      [''account'', ''login name'', ''password'', ''web site'', ''comments'']]"
| "parserColumns BrowserCsv =
     [[''url'', ''username'', ''password'', ''httprealm'', ''formactionorigin'', ''guid''],
      [''title'', ''url'', ''username'', ''password''], [''name'', ''url'', ''username'', ''password'']]"
| "parserColumns p = [[]]"

lemma headerSet_columns: "headerSetIs f cs \<Longrightarrow> hasColumns f cs" "headerIs f cs \<Longrightarrow> hasColumns f cs"
  by (auto simp: headerSetIs_def headerIs_def hasColumns_def list_all_iff)

lemma hasColumns_Cons: "hasColumns f (c # cs) \<longleftrightarrow> js c \<in> set (fe_csvHeader f) \<and> hasColumns f cs"
  and hasColumns_Nil: "hasColumns f []"
  by (simp_all add: hasColumns_def)

lemma matched_columns:
  "list_all (\<lambda>s. fs_match s f = None \<or> list_ex (hasColumns f) (parserColumns (fs_parser s))) FORMAT_SIGNATURES"
proof -
  have ch: "matchChromium f = None \<or> list_ex (hasColumns f) (parserColumns BrowserCsv)"
    using headerSet_columns(1) [of f "[''name'', ''url'', ''username'', ''password'', ''note'']"]
      headerSet_columns(1) [of f "[''name'', ''url'', ''username'', ''password'']"]
    unfolding matchChromium_None by (simp add: hasColumns_Cons) blast
  have sf: "\<not> (headerSetIs f [''title'', ''url'', ''username'', ''password'', ''notes'', ''otpauth''] \<or>
      headerSetIs f [''title'', ''url'', ''username'', ''password'', ''notes'']) \<or>
      list_ex (hasColumns f) (parserColumns BrowserCsv)"
    using headerSet_columns(1) [of f "[''title'', ''url'', ''username'', ''password'', ''notes'', ''otpauth'']"]
      headerSet_columns(1) [of f "[''title'', ''url'', ''username'', ''password'', ''notes'']"]
    by (simp add: hasColumns_Cons) blast
  have kp: "\<not> headerIs f [''account'', ''login name'', ''password'', ''web site'', ''comments''] \<or>
      list_ex (hasColumns f) (parserColumns KeepassCsv)"
    using headerSet_columns(2) [of f "[''account'', ''login name'', ''password'', ''web site'', ''comments'']"]
    by auto
  have pick: "(if b then Some v else None) = None \<longleftrightarrow> \<not> b" for b and v :: "ImportVendor list" by simp
  have rest: "\<not> hasColumns f cs \<or> list_ex (hasColumns f) (parserColumns p)"
    if "\<exists>ds \<in> set (parserColumns p). set ds \<subseteq> set cs" for cs p
    using that unfolding list_ex_iff hasColumns_def list_all_iff by blast
  show ?thesis
    unfolding FORMAT_SIGNATURES_def list.pred_inject FormatSignature.select_convs whenColumns_def pick
    by (intro conjI ch sf kp TrueI rest) (simp_all add: hasColumns_Nil)
qed

text \<open>
  C13. A CSV file routed to a vendor's parser is read by it: the parser never answers that the
  file is not one of its exports, and every row the CSV reader did not report as damaged becomes
  exactly one item or one refusal with a message, beside the reader's own reports. The header is
  assumed to end within the first 8192 characters, the part of the file detection looks at.
\<close>

theorem detected_csv_accounted:
  assumes "df_parser (detect filename content) = p"
    and "p \<in> {BrowserCsv, BitwardenCsv, LastpassCsv, OnepasswordCsv, KeepassCsv, NordpassCsv, DashlaneCsv}"
    and "tb_header (parseCsv (take HEADER_PROBE_LIMIT content)) = tb_header (parseCsv content)"
  shows "\<exists>r. parseText newURL (Detected p) content None = Some r \<and> rowsAccounted content r"
proof -
  let ?t = "parseCsv content"
  let ?c = "indexColumns (tb_header ?t)"
  have has: "hasColumns (probe filename content) = list_all (\<lambda>c. colHas ?c (js c))"
    by (rule ext) (simp only: hasColumns_def probe_columns [OF assms(3)])
  have "p \<noteq> GenericCsv" using assms(2) by auto
  from signature_of_parser [OF assms(1) this] obtain s vendors where s: "s \<in> set FORMAT_SIGNATURES" "fs_parser s = p"
    "fs_match s (probe filename content) = Some vendors" by blast
  have cols: "list_ex (list_all (\<lambda>c. colHas ?c (js c))) (parserColumns p)"
    using matched_columns [of "probe filename content"] s by (auto simp: list_all_iff has [symmetric])
  show ?thesis
  proof (cases p)
    case BrowserCsv
    then have "layoutFor ?c \<noteq> None"
      using cols unfolding layoutFor_def
      by (auto simp: BROWSER_LAYOUTS_def split: if_splits)
    then show ?thesis
      using browser.rows_accounted by (auto simp: BrowserCsv parseBrowserCsv_def Let_def rowsAccounted_def)
  next
    case KeepassCsv
    then have "find (\<lambda>candidate. list_all (colHas ?c) (kp_fingerprint candidate)) KEEPASS_LAYOUTS \<noteq> None"
      using cols by (auto simp: KEEPASS_LAYOUTS_def split: if_splits)
    then show ?thesis
      using keepass.rows_accounted by (auto simp: KeepassCsv parseKeePassCsv_def Let_def rowsAccounted_def)
  next
    case BitwardenCsv
    then show ?thesis using cols bitwarden_csv.rows_accounted
      by (simp add: parseBitwardenCsv_def Let_def rowsAccounted_def)
  next
    case LastpassCsv
    then show ?thesis using cols lastpass.rows_accounted
      by (simp add: parseLastPassCsv_def Let_def rowsAccounted_def)
  next
    case OnepasswordCsv
    then show ?thesis using cols onepassword_csv.rows_accounted
      by (simp add: parseOnePasswordCsv_def Let_def rowsAccounted_def)
  next
    case NordpassCsv
    then show ?thesis using cols nordpass.rows_accounted
      by (simp add: parseNordPassCsv_def Let_def rowsAccounted_def)
  next
    case DashlaneCsv
    then show ?thesis using cols dashlane_csv.rows_accounted
      by (simp add: parseDashlaneCsv_def Let_def rowsAccounted_def)
  qed (use assms(2) in auto)
qed

definition sampleDetected :: jstr where
  "sampleDetected = js ''url,username,password,extra,grouping'' @ [NL] @ js ''u,a,s,,''"

lemma sampleDetected_header:
  "fe_csvHeader (probe [] sampleDetected) = map js [''url'', ''username'', ''password'', ''extra'', ''grouping'']"
  unfolding probe_evidence by code_simp

theorem detected_csv_accounted_witness:
  "df_parser (detect [] sampleDetected) = LastpassCsv \<and>
   (\<exists>r. parseText (\<lambda>v. None) (Detected LastpassCsv) sampleDetected None = Some r \<and> rowsAccounted sampleDetected r)"
proof -
  define evidence where "evidence = probe [] sampleDetected"
  have j: "fe_json evidence = None" unfolding evidence_def probe_evidence by code_simp
  have z: "startsWith (fe_content evidence) ZIP_MAGIC = False" unfolding evidence_def probe_evidence by code_simp
  have "isBitwardenJson (fe_json evidence) = False" "matchProtonpass evidence = None"
    "list_ex (hasArray (fe_json evidence)) DASHLANE_JSON_KEYS = False" "hasArray (fe_json evidence) ''records'' = False"
    by (simp_all add: j isBitwardenJson_def matchProtonpass_def hasArray_def optProp_def DASHLANE_JSON_KEYS_def)
  then have d: "df_parser (detect [] sampleDetected) = LastpassCsv"
    unfolding detect_def FORMAT_SIGNATURES_def evidence_def [symmetric]
    by (simp add: z whenColumns_def hasColumns_def sampleDetected_header [folded evidence_def])
  have "length sampleDetected \<le> HEADER_PROBE_LIMIT" by (simp add: sampleDetected_def)
  then have "take HEADER_PROBE_LIMIT sampleDetected = sampleDetected" by (rule take_all)
  then show ?thesis using d detected_csv_accounted [OF d, of "\<lambda>v. None"] by simp
qed

text \<open>
  Two signatures can fire on one file, so their order decides the answer: a header with the
  columns of both Bitwarden's and LastPass's CSV export is claimed by both rules, and is read as
  Bitwarden's because that rule comes first.
\<close>

definition ambiguousCsv :: jstr where
  "ambiguousCsv = js ''login_uri,login_username,login_password,reprompt,grouping,extra,url,username,password''"

theorem signatures_overlap:
  "map fs_id (filter (\<lambda>s. fs_match s (probe [] ambiguousCsv) \<noteq> None) FORMAT_SIGNATURES) =
     [SigBitwardenCsv, SigLastpassCsv]"
proof -
  define evidence where "evidence = probe [] ambiguousCsv"
  have j: "fe_json evidence = None" unfolding evidence_def probe_evidence by code_simp
  have z: "startsWith (fe_content evidence) ZIP_MAGIC = False" unfolding evidence_def probe_evidence by code_simp
  have h: "fe_csvHeader evidence = map js [''login_uri'', ''login_username'', ''login_password'',
      ''reprompt'', ''grouping'', ''extra'', ''url'', ''username'', ''password'']" unfolding evidence_def probe_evidence by code_simp
  have "isBitwardenJson (fe_json evidence) = False" "matchProtonpass evidence = None"
    "list_ex (hasArray (fe_json evidence)) DASHLANE_JSON_KEYS = False" "hasArray (fe_json evidence) ''records'' = False"
    by (simp_all add: j isBitwardenJson_def matchProtonpass_def hasArray_def optProp_def DASHLANE_JSON_KEYS_def)
  moreover have "matchChromium evidence = None" by (simp add: matchChromium_None headerSetIs_def h)
  ultimately show ?thesis
    unfolding FORMAT_SIGNATURES_def evidence_def [symmetric]
    by (simp add: z whenColumns_def hasColumns_def headerSetIs_def headerIs_def h)
qed

end
