(* ===== verification/JsonText.thy ===== *)
theory JsonText
  imports Encoding
begin

text \<open>
  JSON text as the crypto package uses it: objects written from literals, that their text is
  always well-formed UTF-16 and so survives UTF-8, and \<^verbatim>\<open>String(value)\<close> of a parsed value.
\<close>

text \<open>An object literal of the source, with its keys as written.\<close>

definition jsObj :: "(string \<times> json) list \<Rightarrow> json" where
  "jsObj kvs = JObj (map (\<lambda>(k, v). (js k, v)) kvs)"

text \<open>
  \<^verbatim>\<open>String(v)\<close>. An object that carries its own \<^verbatim>\<open>toString\<close> cannot be converted, since a
  parsed property is never callable: \<open>None\<close> is the \<^verbatim>\<open>TypeError\<close>.
\<close>

fun jsString :: "json \<Rightarrow> jstr option" where
  "jsString JNull = Some (js ''null'')"
| "jsString (JBool b) = Some (if b then js ''true'' else js ''false'')"
| "jsString (JNum n) = Some (showNum n)"
| "jsString (JStr s) = Some s"
| "jsString (JArr vs) =
     (if list_all (\<lambda>v. jsString v \<noteq> None) vs
      then Some (join [44] (map (\<lambda>v. if v = JNull then [] else the (jsString v)) vs)) else None)"
| "jsString (JObj kvs) = (if mapHas kvs (js ''toString'') then None else Some (js ''[object Object]''))"

definition optString :: "json option \<Rightarrow> jstr option" where
  "optString v = (case v of None \<Rightarrow> Some (js ''undefined'') | Some x \<Rightarrow> jsString x)"

text \<open>\<^verbatim>\<open>throw new MalformedEnvelopeError(`... ${String(v)}`)\<close>.\<close>

definition malformedWith :: "string \<Rightarrow> json option \<Rightarrow> 'a result" where
  "malformedWith message v =
     (case optString v of None \<Rightarrow> Inl TypeError | Some t \<Rightarrow> Inl (MalformedEnvelopeError (js message @ t)))"

section \<open>Objects written from literals\<close>

lemma fold_mapSet_new:
  "distinct (map fst (m @ kvs)) \<Longrightarrow> fold (\<lambda>(k, v) m. mapSet m k v) kvs m = m @ kvs"
proof (induction kvs arbitrary: m)
  case (Cons kv kvs)
  obtain k v where kv: "kv = (k, v)" by fastforce
  have "k \<notin> fst ` set m" using Cons.prems kv by auto
  then have "mapSet m k v = m @ [(k, v)]"
    unfolding mapSet_def by (induction m) (auto split: prod.splits)
  then show ?case using Cons.IH [of "m @ [(k, v)]"] Cons.prems kv by auto
qed simp

lemma mkObj_plain:
  assumes "distinct (map fst kvs)" "list_all (\<lambda>(k, v). \<not> isIndexKey k) kvs"
  shows "mkObj kvs = kvs"
proof -
  have "filter (\<lambda>(k, v). isIndexKey k) kvs = []" "filter (\<lambda>(k, v). \<not> isIndexKey k) kvs = kvs"
    using assms(2) by (auto simp: filter_empty_conv filter_id_conv list_all_iff)
  then show ?thesis using fold_mapSet_new [of "[]" kvs] assms(1) by (simp add: mkObj_def objOrder_def)
qed

definition plainKey :: "string \<Rightarrow> bool" where
  "plainKey k = (\<not> isIndexKey (js k))"

lemma jsObj_wf:
  assumes "distinct (map fst kvs)" "list_all (\<lambda>(k, v). plainKey k) kvs" "list_all (\<lambda>(k, v). jsonWf v) kvs"
  shows "jsonWf (jsObj kvs)"
proof -
  let ?kvs = "map (\<lambda>(k, v). (js k, v)) kvs"
  have "inj js" by (rule injI) simp
  moreover have "map fst ?kvs = map js (map fst kvs)" by auto
  ultimately have "distinct (map fst ?kvs)" using assms(1) by (metis distinct_map inj_on_subset subset_UNIV)
  moreover have "list_all (\<lambda>(k, v). \<not> isIndexKey k) ?kvs"
    using assms(2) by (auto simp: list_all_iff plainKey_def)
  ultimately have "mkObj ?kvs = ?kvs" by (rule mkObj_plain)
  then show ?thesis using assms(3) by (auto simp: jsObj_def list_all_iff)
qed

lemma map_of_js: "map_of (map (\<lambda>(k, v). (js k, v)) kvs) (js k) = map_of kvs k"
  by (induction kvs) auto

section \<open>The text of a value is well formed\<close>

lemma wellFormed_append: "wellFormed s \<Longrightarrow> wellFormed t \<Longrightarrow> wellFormed (s @ t)"
proof (induction s rule: wellFormed.induct)
  case (2 c s)
  then show ?case by (cases s) (auto split: if_splits)
qed simp

definition noSurrogate :: "jstr \<Rightarrow> bool" where
  "noSurrogate s = list_all (\<lambda>c. \<not> isHigh c \<and> \<not> isLow c) s"

lemma noSurrogate_wf: "noSurrogate s \<Longrightarrow> wellFormed s"
  by (induction s) (auto simp: noSurrogate_def)

lemma noSurrogate_simps [simp]:
  "noSurrogate []" "noSurrogate (s @ t) \<longleftrightarrow> noSurrogate s \<and> noSurrogate t"
  "noSurrogate (c # s) \<longleftrightarrow> \<not> isHigh c \<and> \<not> isLow c \<and> noSurrogate s"
  by (auto simp: noSurrogate_def)

lemma surrogate_ascii: "c < 0xD800 \<Longrightarrow> \<not> isHigh c \<and> \<not> isLow c"
  by (auto simp: isHigh_def isLow_def word_le_nat_alt word_less_nat_alt)

lemma isDigit_noSurrogate: "list_all isDigit s \<Longrightarrow> noSurrogate s"
  by (induction s) (auto simp: isDigit_def isHigh_def isLow_def word_le_nat_alt)

lemma noSurrogate_take: "noSurrogate s \<Longrightarrow> noSurrogate (take n s) \<and> noSurrogate (drop n s)"
  by (auto simp: noSurrogate_def list_all_iff dest: in_set_takeD in_set_dropD)

lemma small_units:
  "\<not> isHigh 44" "\<not> isLow 44" "\<not> isHigh 45" "\<not> isLow 45" "\<not> isHigh 46" "\<not> isLow 46"
  "\<not> isHigh 43" "\<not> isLow 43" "\<not> isHigh 48" "\<not> isLow 48" "\<not> isHigh 101" "\<not> isLow 101"
  "\<not> isHigh 34" "\<not> isLow 34" "\<not> isHigh 58" "\<not> isLow 58" "\<not> isHigh 91" "\<not> isLow 91"
  "\<not> isHigh 93" "\<not> isLow 93" "\<not> isHigh 123" "\<not> isLow 123" "\<not> isHigh 125" "\<not> isLow 125"
  "\<not> isHigh 92" "\<not> isLow 92" "\<not> isHigh 117" "\<not> isLow 117"
  by (simp_all add: isHigh_def isLow_def)

lemma showNum_noSurrogate: "noSurrogate (showNum n)"
proof (cases n)
  case (Dec m e)
  have d: "noSurrogate (showNat k)" for k by (rule isDigit_noSurrogate) (rule showNat_digits)
  have z: "noSurrogate (zeros k)" for k by (rule isDigit_noSurrogate) (rule list_all_zeros)
  show ?thesis
    unfolding Dec showNum.simps Let_def
    by (auto simp: d z small_units noSurrogate_take [OF d])
qed

lemma escapeHex_noSurrogate: "noSurrogate (escapeHex c)"
proof -
  have "\<not> isHigh (hexDigit k) \<and> \<not> isLow (hexDigit k)" if "k < 16" for k
  proof -
    have "k \<in> {0..<16}" using that by simp
    moreover have "list_all (\<lambda>k. \<not> isHigh (hexDigit k) \<and> \<not> isLow (hexDigit k)) [0..<16]" by code_simp
    ultimately show ?thesis by (auto simp: list_all_iff)
  qed
  moreover have "unat c div 4096 < 16" using unit_less [of c] by (simp add: div_less_iff_less_mult)
  ultimately show ?thesis by (simp add: escapeHex_def Let_def small_units)
qed

lemma escapeUnit_wf: "\<not> isHigh c \<Longrightarrow> \<not> isLow c \<Longrightarrow> wellFormed (escapeUnit c)"
  by (rule noSurrogate_wf)
    (auto simp: escapeUnit_def small_units escapeHex_noSurrogate, auto simp: isHigh_def isLow_def)

lemma quoteBody_wf: "wellFormed (quoteBody s)"
proof (induction s rule: quoteBody.induct)
  case (2 c s)
  then show ?case
    by (auto simp: wellFormed_append escapeUnit_wf noSurrogate_wf [OF escapeHex_noSurrogate] isLow_def isHigh_def
        split: list.splits)
qed simp

lemma wellFormed_small [simp]: "wellFormed [44]" "wellFormed [34]" "wellFormed [58]" "wellFormed [91]"
  "wellFormed [93]" "wellFormed [123]" "wellFormed [125]"
  by (simp_all add: small_units)

lemma quote_wf: "wellFormed (quote s)"
  by (simp add: quote_def wellFormed_append quoteBody_wf del: append_Cons append.simps wellFormed.simps)

lemma join_wf: "list_all wellFormed xs \<Longrightarrow> wellFormed sep \<Longrightarrow> wellFormed (join sep xs)"
  by (induction sep xs rule: join.induct) (auto simp: wellFormed_append)

lemma stringify_wellFormed: "wellFormed (stringify v)"
proof (induction v)
  case JNull
  then show ?case by code_simp
next
  case (JBool b)
  have "wellFormed (js ''true'')" "wellFormed (js ''false'')" by code_simp+
  then show ?case by simp
next
  case (JNum x)
  then show ?case by (simp add: noSurrogate_wf showNum_noSurrogate)
next
  case (JStr s)
  then show ?case by (simp add: quote_wf)
next
  case (JArr vs)
  then have "list_all wellFormed (map stringify vs)" by (auto simp: list_all_iff)
  then show ?case
    unfolding stringify.simps by (intro wellFormed_append join_wf wellFormed_small)
next
  case (JObj kvs)
  have "wellFormed (quote k @ [58] @ stringify v)" if "(k, v) \<in> set kvs" for k v
  proof -
    have "wellFormed (stringify v)" using JObj that by (metis snd_conv snds.intros)
    then show ?thesis by (intro wellFormed_append quote_wf wellFormed_small)
  qed
  then have "list_all wellFormed (map (\<lambda>(k, v). quote k @ [58] @ stringify v) kvs)"
    by (auto simp: list_all_iff simp del: append_Cons)
  then show ?case
    unfolding stringify.simps by (intro wellFormed_append join_wf wellFormed_small)
qed

text \<open>So JSON text survives UTF-8, whatever strings it holds: lone surrogates are escaped.\<close>

lemma json_utf8: "utf8Decode (utf8Encode (stringify (JObj kvs))) = stringify (JObj kvs)"
  by (rule utf8_roundtrip [OF stringify_wellFormed]) simp

end
