(* ===== verification/World.thy ===== *)
theory World
  imports Errors
begin

text \<open>
  What the programs that handle keys run against: the key buffers they allocate, share and
  overwrite, the platform's random bytes, and exceptions. A program maps a world to its outcome
  and the world it leaves; the record is extensible, so that the vault adds its session and its
  server to it while the cryptographic layer stays unaware of both.

  A key is a buffer, named by its address, exactly where the source passes a
  \<^verbatim>\<open>Uint8Array\<close> that somebody is responsible for clearing
  (\<^verbatim>\<open>packages/crypto/src/memory.ts\<close>). Salts, public keys, nonces and ciphertexts are plain
  byte strings.
\<close>

type_synonym addr = nat

record world =
  wd_random :: "nat \<Rightarrow> byte"
  wd_heap :: "bytes list"

type_synonym ('z, 'a) prog = "'z world_scheme \<Rightarrow> 'a result \<times> 'z world_scheme"

section \<open>Sequencing and exceptions\<close>

definition ret :: "'a \<Rightarrow> ('z, 'a) prog" where
  "ret x w = (Inr x, w)"

definition throw :: "exn \<Rightarrow> ('z, 'a) prog" where
  "throw e w = (Inl e, w)"

definition ofResult :: "'a result \<Rightarrow> ('z, 'a) prog" where
  "ofResult r w = (r, w)"

definition andThen :: "('z, 'a) prog \<Rightarrow> ('a \<Rightarrow> ('z, 'b) prog) \<Rightarrow> ('z, 'b) prog" where
  "andThen m f w = (case m w of (r, w') \<Rightarrow> (case r of Inl e \<Rightarrow> (Inl e, w') | Inr x \<Rightarrow> f x w'))"

definition tryCatch :: "('z, 'a) prog \<Rightarrow> (exn \<Rightarrow> ('z, 'a) prog) \<Rightarrow> ('z, 'a) prog" where
  "tryCatch m h w = (case m w of (r, w') \<Rightarrow> (case r of Inl e \<Rightarrow> h e w' | Inr x \<Rightarrow> (Inr x, w')))"

text \<open>\<^verbatim>\<open>finally\<close>: the clean-ups of the source cannot throw.\<close>

definition tryFinally :: "('z, 'a) prog \<Rightarrow> ('z world_scheme \<Rightarrow> 'z world_scheme) \<Rightarrow> ('z, 'a) prog" where
  "tryFinally m cleanup w = (case m w of (r, w') \<Rightarrow> (r, cleanup w'))"

section \<open>Buffers\<close>

definition bufOf :: "'z world_scheme \<Rightarrow> addr \<Rightarrow> bytes" where
  "bufOf w a = (if a < length (wd_heap w) then wd_heap w ! a else [])"

definition newBuf :: "bytes \<Rightarrow> ('z, addr) prog" where
  "newBuf bs w = (Inr (length (wd_heap w)), w\<lparr> wd_heap := wd_heap w @ [bs] \<rparr>)"

definition readBuf :: "addr \<Rightarrow> ('z, bytes) prog" where
  "readBuf a w = (Inr (bufOf w a), w)"

definition zeroBytes :: "nat \<Rightarrow> bytes" where
  "zeroBytes n = replicate n 0"

definition clearBuf :: "addr \<Rightarrow> 'z world_scheme \<Rightarrow> 'z world_scheme" where
  "clearBuf a w = w\<lparr> wd_heap := (wd_heap w)[a := zeroBytes (length (bufOf w a))] \<rparr>"

text \<open>\<^verbatim>\<open>zeroize\<close>: a \<^verbatim>\<open>null\<close> among the buffers is skipped.\<close>

definition zeroize :: "addr option list \<Rightarrow> 'z world_scheme \<Rightarrow> 'z world_scheme" where
  "zeroize buffers w =
     fold (\<lambda>buffer. case buffer of None \<Rightarrow> (\<lambda>u. u) | Some a \<Rightarrow> clearBuf a) buffers w"

section \<open>Random bytes\<close>

text \<open>
  \<^verbatim>\<open>randomBytes\<close> (\<^verbatim>\<open>packages/crypto/src/random.ts\<close>) reads the next bytes of an endless
  supply.
\<close>

definition randomBytes :: "nat \<Rightarrow> ('z, bytes) prog" where
  "randomBytes n w =
     (if n = 0 then (Inl (JsError (js ''randomBytes length must be a positive integer'')), w)
      else (Inr (map (wd_random w) [0..<n]), w\<lparr> wd_random := (\<lambda>i. wd_random w (i + n)) \<rparr>))"

definition drawn :: "nat \<Rightarrow> 'z world_scheme \<Rightarrow> bytes" where
  "drawn n w = map (wd_random w) [0..<n]"

definition afterDraw :: "nat \<Rightarrow> 'z world_scheme \<Rightarrow> 'z world_scheme" where
  "afterDraw n w = w\<lparr> wd_random := (\<lambda>i. wd_random w (i + n)) \<rparr>"

section \<open>Facts about running programs\<close>

named_theorems run_simps \<open>how the combinators run\<close>

lemma run_basic [run_simps]:
  "ret x w = (Inr x, w)" "throw e w = (Inl e, w)" "ofResult r w = (r, w)" "readBuf a w = (Inr (bufOf w a), w)"
  by (simp_all add: ret_def throw_def ofResult_def readBuf_def)

lemma andThen_run [run_simps]:
  "m w = (Inr x, w') \<Longrightarrow> andThen m f w = f x w'"
  "m w = (Inl e, w') \<Longrightarrow> andThen m f w = (Inl e, w')"
  by (simp_all add: andThen_def)

lemma tryCatch_run [run_simps]:
  "m w = (Inr x, w') \<Longrightarrow> tryCatch m h w = (Inr x, w')"
  "m w = (Inl e, w') \<Longrightarrow> tryCatch m h w = h e w'"
  by (simp_all add: tryCatch_def)

lemma tryFinally_run [run_simps]: "m w = (r, w') \<Longrightarrow> tryFinally m c w = (r, c w')"
  by (simp add: tryFinally_def)

lemma randomBytes_run [run_simps]: "0 < n \<Longrightarrow> randomBytes n w = (Inr (drawn n w), afterDraw n w)"
  by (simp add: randomBytes_def drawn_def afterDraw_def)

lemma newBuf_run [run_simps]:
  "newBuf bs w = (Inr (length (wd_heap w)), w\<lparr> wd_heap := wd_heap w @ [bs] \<rparr>)"
  by (simp add: newBuf_def)

lemma length_drawn [simp]: "length (drawn n w) = n"
  by (simp add: drawn_def)

lemma afterDraw_heap [simp]: "wd_heap (afterDraw n w) = wd_heap w"
  by (simp add: afterDraw_def)

lemma bufOf_afterDraw [simp]: "bufOf (afterDraw n w) a = bufOf w a"
  by (simp add: bufOf_def)

lemma bufOf_append [simp]:
  "a < length (wd_heap w) \<Longrightarrow> bufOf (w\<lparr> wd_heap := wd_heap w @ bs \<rparr>) a = bufOf w a"
  "bufOf (w\<lparr> wd_heap := wd_heap w @ b # bs \<rparr>) (length (wd_heap w)) = b"
  by (simp_all add: bufOf_def nth_append)

lemma clearBuf_heap: "wd_heap (clearBuf a w) = (wd_heap w)[a := zeroBytes (length (bufOf w a))]"
  by (simp add: clearBuf_def)

lemma clearBuf_other [simp]: "a \<noteq> b \<Longrightarrow> bufOf (clearBuf a w) b = bufOf w b"
  by (simp add: bufOf_def clearBuf_def)

lemma length_heap_clear [simp]: "length (wd_heap (clearBuf a w)) = length (wd_heap w)"
  by (simp add: clearBuf_def)

lemma zeroize_simps [simp]:
  "zeroize [] w = w" "zeroize (None # bs) w = zeroize bs w"
  "zeroize (Some a # bs) w = zeroize bs (clearBuf a w)"
  by (simp_all add: zeroize_def)

lemma length_heap_zeroize [simp]: "length (wd_heap (zeroize bs w)) = length (wd_heap w)"
  by (induction bs arbitrary: w) (auto simp: zeroize_def split: option.split)

text \<open>A buffer is clear when every byte of it is zero.\<close>

definition isClear :: "bytes \<Rightarrow> bool" where
  "isClear bs = list_all (\<lambda>b. b = 0) bs"

lemma isClear_zeroBytes [simp]: "isClear (zeroBytes n)" "isClear []"
  by (simp_all add: isClear_def zeroBytes_def list_all_iff)

lemma bufOf_clearBuf [simp]: "isClear (bufOf (clearBuf a w) a)"
  by (simp add: bufOf_def clearBuf_def)

lemma clearBuf_keeps_clear: "isClear (bufOf w b) \<Longrightarrow> isClear (bufOf (clearBuf a w) b)"
  by (cases "a = b") auto

lemma zeroize_keeps_clear: "isClear (bufOf w b) \<Longrightarrow> isClear (bufOf (zeroize bs w) b)"
proof (induction bs arbitrary: w)
  case (Cons x bs)
  then show ?case by (cases x) (auto simp: clearBuf_keeps_clear)
qed simp

lemma zeroize_clears: "Some a \<in> set bs \<Longrightarrow> isClear (bufOf (zeroize bs w) a)"
proof (induction bs arbitrary: w)
  case (Cons x bs)
  show ?case
  proof (cases "x = Some a")
    case True
    then show ?thesis by (simp add: zeroize_keeps_clear)
  next
    case False
    then show ?thesis using Cons by (cases x) auto
  qed
qed simp

lemma zeroize_other: "Some a \<notin> set bs \<Longrightarrow> bufOf (zeroize bs w) a = bufOf w a"
proof (induction bs arbitrary: w)
  case (Cons x bs)
  then show ?case by (cases x) auto
qed simp

lemma zeroize_more [simp]:
  "wd_random (zeroize bs w) = wd_random w" "world.more (zeroize bs w) = world.more w"
proof -
  have c: "wd_random (clearBuf a w) = wd_random w \<and> world.more (clearBuf a w) = world.more w"
    for a and w :: "'a world_scheme" by (simp add: clearBuf_def)
  show "wd_random (zeroize bs w) = wd_random w" "world.more (zeroize bs w) = world.more w"
    by (induction bs arbitrary: w) (auto simp: zeroize_def c split: option.split)
qed

lemma zeroize_heap: "zeroize bs w = w\<lparr> wd_heap := wd_heap (zeroize bs w) \<rparr>"
  by (rule world.equality) simp_all

section \<open>Which buffers a program leaves behind\<close>

text \<open>
  \<open>leaves m K\<close>: the program touches no buffer that existed before, and every buffer it
  allocated is clear at the end, except the ones in \<open>K\<close> of its result. This has to hold
  whether it returns or throws; on a throw nothing may remain.
\<close>

definition tidy :: "'z world_scheme \<Rightarrow> 'z world_scheme \<Rightarrow> addr set \<Rightarrow> bool" where
  "tidy w w' kept =
     (length (wd_heap w) \<le> length (wd_heap w') \<and>
      (\<forall>a < length (wd_heap w). bufOf w' a = bufOf w a) \<and>
      (\<forall>a \<ge> length (wd_heap w). a \<notin> kept \<longrightarrow> isClear (bufOf w' a)))"

definition leaves :: "('z, 'a) prog \<Rightarrow> ('a \<Rightarrow> addr set) \<Rightarrow> bool" where
  "leaves m K = (\<forall>w r w'. m w = (r, w') \<longrightarrow> tidy w w' (case r of Inl e \<Rightarrow> {} | Inr x \<Rightarrow> K x))"

lemma tidy_refl [simp]: "tidy w w K"
  by (simp add: tidy_def bufOf_def)

lemma tidy_trans: "tidy w w1 K \<Longrightarrow> tidy w1 w2 L \<Longrightarrow> (\<forall>a\<in>K. a < length (wd_heap w1) \<longrightarrow> a \<in> L) \<Longrightarrow> tidy w w2 L"
  unfolding tidy_def
  by (metis (no_types, lifting) le_trans not_le order_less_le_trans)

lemma tidy_empty_trans: "tidy w w1 {} \<Longrightarrow> tidy w1 w2 L \<Longrightarrow> tidy w w2 L"
  by (rule tidy_trans) auto

lemma tidy_same_heap: "wd_heap w' = wd_heap w \<Longrightarrow> tidy w w' K"
  by (simp add: tidy_def bufOf_def)

lemma leavesD:
  "leaves m K \<Longrightarrow> m w = (Inr x, w') \<Longrightarrow> tidy w w' (K x)"
  "leaves m K \<Longrightarrow> m w = (Inl e, w') \<Longrightarrow> tidy w w' {}"
  unfolding leaves_def by fastforce+

lemma leavesI:
  "(\<And>w x w'. m w = (Inr x, w') \<Longrightarrow> tidy w w' (K x)) \<Longrightarrow> (\<And>w e w'. m w = (Inl e, w') \<Longrightarrow> tidy w w' {}) \<Longrightarrow>
   leaves m K"
  unfolding leaves_def by (auto split: sum.split)

lemma leaves_pure: "(\<And>w. wd_heap (snd (m w)) = wd_heap w) \<Longrightarrow> leaves m K"
  by (rule leavesI) (metis tidy_same_heap snd_conv)+

lemma leaves_ret [simp]: "leaves (ret x) K"
  by (rule leaves_pure) (simp add: ret_def)

lemma leaves_throw [simp]: "leaves (throw e) K"
  by (rule leaves_pure) (simp add: throw_def)

lemma leaves_ofResult [simp]: "leaves (ofResult r) K"
  by (rule leaves_pure) (simp add: ofResult_def)

lemma leaves_readBuf [simp]: "leaves (readBuf a) K"
  by (rule leaves_pure) (simp add: readBuf_def)

lemma leaves_randomBytes [simp]: "leaves (randomBytes n) K"
  by (rule leaves_pure) (simp add: randomBytes_def)

lemma leaves_andThen:
  assumes "leaves m (\<lambda>x. {})" "\<And>x. leaves (f x) K"
  shows "leaves (andThen m f) K"
  by (rule leavesI)
    (auto simp: andThen_def split: sum.splits prod.splits
      intro: tidy_empty_trans leavesD [OF assms(1)] leavesD [OF assms(2)])

lemma leaves_tryCatch:
  assumes "leaves m K" "\<And>e. leaves (h e) K"
  shows "leaves (tryCatch m h) K"
  by (rule leavesI)
    (auto simp: tryCatch_def split: sum.splits prod.splits
      intro: tidy_empty_trans leavesD [OF assms(1)] leavesD [OF assms(2)])

text \<open>A program that returns a buffer of its own making, and leaves no other.\<close>

definition makesKey :: "('z, addr) prog \<Rightarrow> bool" where
  "makesKey m =
     (leaves m (\<lambda>a. {a}) \<and> (\<forall>w a w'. m w = (Inr a, w') \<longrightarrow> length (wd_heap w) \<le> a))"

lemma makesKey_newBuf [intro, simp]: "makesKey (newBuf bs)"
  unfolding makesKey_def
proof
  show "leaves (newBuf bs) (\<lambda>a. {a})"
    by (rule leavesI) (auto simp: newBuf_def tidy_def bufOf_def nth_append)
qed (auto simp: newBuf_def)

lemma makesKey_andThen:
  assumes "leaves m (\<lambda>x. {})" "\<And>x. makesKey (f x)"
  shows "makesKey (andThen m f)"
  unfolding makesKey_def
proof (intro conjI allI impI)
  show "leaves (andThen m f) (\<lambda>a. {a})" using assms by (intro leaves_andThen) (auto simp: makesKey_def)
next
  fix w a w' assume "andThen m f w = (Inr a, w')"
  then obtain x w1 where x: "m w = (Inr x, w1)" "f x w1 = (Inr a, w')"
    by (auto simp: andThen_def split: sum.splits prod.splits)
  have "length (wd_heap w) \<le> length (wd_heap w1)" using leavesD(1) [OF assms(1) x(1)] by (simp add: tidy_def)
  also have "\<dots> \<le> a" using assms(2) x(2) by (auto simp: makesKey_def)
  finally show "length (wd_heap w) \<le> a" .
qed

text \<open>The pattern of the source: make a key, use it, clear it whichever way the use ended.\<close>

lemma tidy_clear:
  assumes "tidy w w1 {a}" "length (wd_heap w) \<le> a" "tidy w1 w2 K"
  shows "tidy w (clearBuf a w2) K"
  unfolding tidy_def length_heap_clear
proof (intro conjI allI impI)
  show "length (wd_heap w) \<le> length (wd_heap w2)" using assms by (simp add: tidy_def)
next
  fix b assume "b < length (wd_heap w)"
  then show "bufOf (clearBuf a w2) b = bufOf w b" using assms by (auto simp: tidy_def)
next
  fix b assume "length (wd_heap w) \<le> b" "b \<notin> K"
  then show "isClear (bufOf (clearBuf a w2) b)"
    using assms by (cases "a = b"; cases "b < length (wd_heap w1)") (auto simp: tidy_def)
qed

lemma leaves_using:
  assumes m: "makesKey m" and f: "\<And>a. leaves (f a) K"
  shows "leaves (andThen m (\<lambda>a. tryFinally (f a) (zeroize [Some a]))) K"
proof -
  have m1: "leaves m (\<lambda>a. {a})" and fresh: "\<And>w a w'. m w = (Inr a, w') \<Longrightarrow> length (wd_heap w) \<le> a"
    using m by (auto simp: makesKey_def)
  show ?thesis
    by (rule leavesI)
      (auto simp: andThen_def tryFinally_def split: sum.splits prod.splits
        intro: tidy_clear leavesD [OF m1] leavesD [OF f] fresh)
qed

lemma clearBuf_commute: "clearBuf a (clearBuf b w) = clearBuf b (clearBuf a w)"
proof (cases "a = b")
  case False
  have "(wd_heap w)[b := x, a := y] = (wd_heap w)[a := y, b := x]" for x y
    using False by (simp add: list_update_swap)
  then show ?thesis using False by (simp add: clearBuf_def bufOf_def)
qed simp

text \<open>Two keys, of which making the second cannot fail.\<close>

lemma leaves_using2:
  assumes m: "makesKey m" and n: "\<And>a. makesKey (n a)" and total: "\<And>a w. \<exists>b w'. n a w = (Inr b, w')"
    and f: "\<And>a b. leaves (f a b) K"
  shows "leaves (andThen m (\<lambda>a. andThen (n a) (\<lambda>b. tryFinally (f a b) (zeroize [Some a, Some b])))) K"
proof -
  have m1: "leaves m (\<lambda>a. {a})" and fresh: "\<And>w a w'. m w = (Inr a, w') \<Longrightarrow> length (wd_heap w) \<le> a"
    using m by (auto simp: makesKey_def)
  have n1: "leaves (n a) (\<lambda>b. {b})" and nfresh: "\<And>w b w'. n a w = (Inr b, w') \<Longrightarrow> length (wd_heap w) \<le> b" for a
    using n by (auto simp: makesKey_def)
  have clear2: "tidy w (clearBuf b (clearBuf a w3)) L"
    if "m w = (Inr a, w1)" "n a w1 = (Inr b, w2)" "tidy w2 w3 L" for w a w1 b w2 w3 L
  proof -
    have "tidy w1 (clearBuf b w3) L" by (rule tidy_clear [OF leavesD(1) [OF n1 that(2)] nfresh [OF that(2)] that(3)])
    from tidy_clear [OF leavesD(1) [OF m1 that(1)] fresh [OF that(1)] this] show ?thesis
      by (simp add: clearBuf_commute [of a b])
  qed
  have no_throw: False if "n a w = (Inl e, w')" for a w e w' using total [of a w] that by auto
  show ?thesis
    by (rule leavesI)
      (auto simp: andThen_def tryFinally_def split: sum.splits prod.splits
        intro: clear2 leavesD [OF m1] leavesD [OF f] dest: no_throw)
qed

lemmas leaves_intros = leaves_andThen leaves_tryCatch leaves_ret leaves_throw leaves_ofResult leaves_readBuf
  leaves_randomBytes

end
