(* ===== verification/Symmetric.thy ===== *)
theory Symmetric
  imports JsonText World
begin

text \<open>
  Authenticated encryption (\<^verbatim>\<open>packages/crypto/src/symmetric.ts\<close>): the envelope, its JSON
  text, and strings encrypted under a key. The primitives of the platform and of the libraries
  the package calls are the fields of \<open>platform\<close>; what is assumed of them is stated as laws.
\<close>

section \<open>The platform\<close>

record platform =
  pf_gcmEncrypt :: "bytes \<Rightarrow> bytes \<Rightarrow> bytes \<Rightarrow> bytes"
  pf_gcmDecrypt :: "bytes \<Rightarrow> bytes \<Rightarrow> bytes \<Rightarrow> bytes option"
  pf_argon2id :: "jstr \<Rightarrow> bytes \<Rightarrow> json option \<Rightarrow> json option \<Rightarrow> json option \<Rightarrow> nat \<Rightarrow> bytes result"
  pf_hkdf :: "bytes \<Rightarrow> bytes \<Rightarrow> nat \<Rightarrow> bytes"
  pf_sha256 :: "bytes \<Rightarrow> bytes"
  pf_publicKey :: "bytes \<Rightarrow> bytes result"
  pf_sharedSecret :: "bytes \<Rightarrow> bytes \<Rightarrow> bytes result"
  pf_randomPrivateKey :: "(nat \<Rightarrow> byte) \<Rightarrow> bytes \<times> (nat \<Rightarrow> byte)"
  pf_nfc :: "jstr \<Rightarrow> jstr"

text \<open>AES-GCM decrypts what it encrypted under the same key and nonce.\<close>

definition gcmLaw :: "platform \<Rightarrow> bool" where
  "gcmLaw pf = (\<forall>key iv plaintext. length key = 32 \<longrightarrow> length iv = 12 \<longrightarrow>
     pf_gcmDecrypt pf key iv (pf_gcmEncrypt pf key iv plaintext) = Some plaintext)"

section \<open>Envelopes\<close>

record Envelope =
  en_n :: jstr
  en_ct :: jstr

abbreviation (input) KEY_BYTES :: nat where "KEY_BYTES \<equiv> 32"
abbreviation (input) NONCE_BYTES :: nat where "NONCE_BYTES \<equiv> 12"

definition importKey :: "bytes \<Rightarrow> bytes result" where
  "importKey key =
     (if length key \<noteq> KEY_BYTES
      then Inl (InvalidKeyError (js ''Symmetric key must be 32 bytes, received '' @ showNat (length key)))
      else Inr key)"

definition encryptBytesWithNonce :: "platform \<Rightarrow> bytes \<Rightarrow> bytes \<Rightarrow> bytes \<Rightarrow> Envelope result" where
  "encryptBytesWithNonce pf plaintext key nonce =
     (if length nonce \<noteq> NONCE_BYTES
      then Inl (InvalidKeyError (js ''Nonce must be 12 bytes, received '' @ showNat (length nonce)))
      else bindR (importKey key)
        (\<lambda>cryptoKey. Inr \<lparr> en_n = toBase64 nonce,
           en_ct = toBase64 (pf_gcmEncrypt pf cryptoKey nonce plaintext) \<rparr>))"

definition encryptBytes :: "platform \<Rightarrow> bytes \<Rightarrow> bytes \<Rightarrow> ('z, Envelope) prog" where
  "encryptBytes pf plaintext key =
     andThen (randomBytes NONCE_BYTES) (\<lambda>nonce. ofResult (encryptBytesWithNonce pf plaintext key nonce))"

text \<open>Everything after the key check fails as a \<^verbatim>\<open>DecryptionError\<close>, bad base64 included.\<close>

definition decryptBytes :: "platform \<Rightarrow> Envelope \<Rightarrow> bytes \<Rightarrow> bytes result" where
  "decryptBytes pf envelope key =
     bindR (importKey key)
       (\<lambda>cryptoKey.
          case (fromBase64 (en_n envelope), fromBase64 (en_ct envelope)) of
            (Inr iv, Inr ct) \<Rightarrow>
              (case pf_gcmDecrypt pf cryptoKey iv ct of
                 None \<Rightarrow> Inl DecryptionError | Some plaintext \<Rightarrow> Inr plaintext)
          | _ \<Rightarrow> Inl DecryptionError)"

definition envelopeJson :: "Envelope \<Rightarrow> json" where
  "envelopeJson envelope =
     jsObj [(''v'', JNum (jint 1)), (''alg'', JStr (js ''A256GCM'')), (''n'', JStr (en_n envelope)),
            (''ct'', JStr (en_ct envelope))]"

definition serializeEnvelope :: "Envelope \<Rightarrow> jstr" where
  "serializeEnvelope envelope = stringify (envelopeJson envelope)"

text \<open>
  \<^verbatim>\<open>parseEnvelope\<close>. An array is an object to \<^verbatim>\<open>typeof\<close>, with none of the properties;
  \<open>field\<close> reads it so.
\<close>

definition isObjectLike :: "json \<Rightarrow> bool" where
  "isObjectLike raw = (case raw of JObj kvs \<Rightarrow> True | JArr vs \<Rightarrow> True | _ \<Rightarrow> False)"

definition parseEnvelope :: "jstr \<Rightarrow> Envelope result" where
  "parseEnvelope serialized =
     (case jsonParse serialized of
        None \<Rightarrow> Inl (MalformedEnvelopeError (js ''Envelope is not valid JSON''))
      | Some raw \<Rightarrow>
          if \<not> isObjectLike raw then Inl (MalformedEnvelopeError (js ''Envelope must be an object''))
          else if field raw (js ''v'') \<noteq> Some (JNum (jint 1))
            then malformedWith ''Unsupported envelope version: '' (field raw (js ''v''))
          else if field raw (js ''alg'') \<noteq> Some (JStr (js ''A256GCM''))
            then malformedWith ''Unsupported algorithm: '' (field raw (js ''alg''))
          else (case (field raw (js ''n''), field raw (js ''ct'')) of
              (Some (JStr n), Some (JStr ct)) \<Rightarrow> Inr \<lparr> en_n = n, en_ct = ct \<rparr>
            | _ \<Rightarrow> Inl (MalformedEnvelopeError (js ''Envelope is missing 'n' or 'ct'' @ [39]))))"

definition encryptString :: "platform \<Rightarrow> jstr \<Rightarrow> bytes \<Rightarrow> ('z, jstr) prog" where
  "encryptString pf plaintext key =
     andThen (encryptBytes pf (utf8Encode plaintext) key) (\<lambda>envelope. ret (serializeEnvelope envelope))"

definition decryptString :: "platform \<Rightarrow> jstr \<Rightarrow> bytes \<Rightarrow> jstr result" where
  "decryptString pf serialized key =
     bindR (parseEnvelope serialized) (\<lambda>envelope.
       bindR (decryptBytes pf envelope key) (\<lambda>plaintext. Inr (utf8Decode plaintext)))"

section \<open>Round trips\<close>

lemma jint_1: "jint 1 = Dec 1 0" and jint_1_wf: "jsonWf (JNum (jint 1))"
  by (simp_all add: jint_def normDec.simps showNat_small)

lemma envelope_plain: "plainKey ''v''" "plainKey ''alg''" "plainKey ''n''" "plainKey ''ct''" "plainKey ''epk''"
  by (simp_all add: plainKey_def isIndexKey_def js_simps isDigit_def)

lemma envelopeJson_wf: "jsonWf (envelopeJson e)"
  unfolding envelopeJson_def by (rule jsObj_wf) (simp_all add: envelope_plain jint_1_wf [simplified])

lemma field_jsObj: "field (jsObj kvs) (js k) = map_of kvs k"
  by (simp add: jsObj_def map_of_js)

lemma parse_serialize: "parseEnvelope (serializeEnvelope e) = Inr e"
  unfolding parseEnvelope_def serializeEnvelope_def jsonParse_stringify [OF envelopeJson_wf]
  by (simp add: field_jsObj envelopeJson_def isObjectLike_def) (simp add: jsObj_def)

lemma encryptBytes_run:
  "length key = KEY_BYTES \<Longrightarrow> encryptBytes pf plaintext key w =
     (Inr \<lparr> en_n = toBase64 (drawn NONCE_BYTES w),
            en_ct = toBase64 (pf_gcmEncrypt pf key (drawn NONCE_BYTES w) plaintext) \<rparr>, afterDraw NONCE_BYTES w)"
  by (simp add: encryptBytes_def encryptBytesWithNonce_def importKey_def run_simps)

lemma decrypt_encrypt:
  assumes "gcmLaw pf" "length key = KEY_BYTES" "length nonce = NONCE_BYTES"
  shows "decryptBytes pf \<lparr> en_n = toBase64 nonce, en_ct = toBase64 (pf_gcmEncrypt pf key nonce plaintext) \<rparr> key =
    Inr plaintext"
  using assms by (simp add: decryptBytes_def importKey_def fromBase64_toBase64 gcmLaw_def)

lemma encryptString_run:
  assumes "gcmLaw pf" "length key = KEY_BYTES"
  obtains s where "encryptString pf plaintext key w = (Inr s, afterDraw NONCE_BYTES w)"
    "decryptString pf s key = Inr (utf8Decode (utf8Encode plaintext))"
proof
  let ?s = "serializeEnvelope \<lparr> en_n = toBase64 (drawn NONCE_BYTES w),
            en_ct = toBase64 (pf_gcmEncrypt pf key (drawn NONCE_BYTES w) (utf8Encode plaintext)) \<rparr>"
  show "encryptString pf plaintext key w = (Inr ?s, afterDraw NONCE_BYTES w)"
    by (simp add: encryptString_def encryptBytes_run [OF assms(2)] run_simps)
  show "decryptString pf ?s key = Inr (utf8Decode (utf8Encode plaintext))"
    by (simp add: decryptString_def parse_serialize decrypt_encrypt [OF assms])
qed

lemma leaves_encryptBytes [simp]: "leaves (encryptBytes pf p k) K"
  unfolding encryptBytes_def by (intro leaves_intros)

lemma leaves_encryptString [simp]: "leaves (encryptString pf p k) K"
  unfolding encryptString_def by (intro leaves_intros leaves_encryptBytes)

text \<open>No ciphertext and no key of any length makes decryption fail otherwise than with a typed error.\<close>

lemma decryptBytes_errors:
  "decryptBytes pf e key = Inl x \<Longrightarrow> x = DecryptionError \<or> (\<exists>m. x = InvalidKeyError m)"
  by (auto simp: decryptBytes_def importKey_def bindR_def split: sum.splits option.splits if_splits)

lemma decryptBytes_wrong_length:
  "length key \<noteq> KEY_BYTES \<Longrightarrow>
   decryptBytes pf e key = Inl (InvalidKeyError (js ''Symmetric key must be 32 bytes, received '' @ showNat (length key)))"
  by (simp add: decryptBytes_def importKey_def)

end
