(* ===== verification/Keys.thy ===== *)
theory Keys
  imports Symmetric
begin

text \<open>
  Key derivation (\<^verbatim>\<open>packages/crypto/src/kdf.ts\<close>) and the key hierarchy
  (\<^verbatim>\<open>packages/crypto/src/keys.ts\<close>): the master key made from the password, the wrapping key
  and the login credential expanded from it, the user key wrapped under the wrapping key and the
  private key wrapped under the user key.

  Shown: what enrolment produces is opened again by an unlock with the same password; a password
  change leaves the user key what it was; and every derived key is cleared on every path.
\<close>

section \<open>Derivation\<close>

text \<open>
  Parameters arrive as \<^verbatim>\<open>JSON.parse(text) as KdfParams\<close>, a cast nothing checks, so they are
  a JSON value whose properties are read where the code reads them.
\<close>

type_synonym KdfParams = json

definition DEFAULT_KDF_PARAMS :: KdfParams where
  "DEFAULT_KDF_PARAMS =
     jsObj [(''algorithm'', JStr (js ''argon2id'')), (''memoryKiB'', JNum (jint 65536)),
            (''iterations'', JNum (jint 3)), (''parallelism'', JNum (jint 4))]"

definition DEFAULT_KDF_PARAMS_JSON :: jstr where
  "DEFAULT_KDF_PARAMS_JSON =
     js ''{\"algorithm\":\"argon2id\",\"memoryKiB\":65536,\"iterations\":3,\"parallelism\":4}''"

abbreviation (input) KDF_SALT_BYTES :: nat where "KDF_SALT_BYTES \<equiv> 16"
abbreviation (input) DERIVED_KEY_BYTES :: nat where "DERIVED_KEY_BYTES \<equiv> 32"

definition WRAP_INFO :: bytes where "WRAP_INFO = utf8Encode (js ''keyhole:wrap:v1'')"
definition AUTH_INFO :: bytes where "AUTH_INFO = utf8Encode (js ''keyhole:auth:v1'')"

definition generateKdfSalt :: "('z, bytes) prog" where
  "generateKdfSalt = randomBytes KDF_SALT_BYTES"

definition assertKdfSalt :: "bytes \<Rightarrow> unit result" where
  "assertKdfSalt salt =
     (if length salt \<noteq> KDF_SALT_BYTES
      then Inl (InvalidKeyError (js ''KDF salt must be 16 bytes, received '' @ showNat (length salt)))
      else Inr ())"

text \<open>The call to \<^verbatim>\<open>argon2id\<close>: reading a property of \<^verbatim>\<open>null\<close> throws.\<close>

definition callArgon2id :: "platform \<Rightarrow> jstr \<Rightarrow> bytes \<Rightarrow> KdfParams \<Rightarrow> nat \<Rightarrow> bytes result" where
  "callArgon2id pf password salt params n =
     (if params = JNull then Inl TypeError
      else pf_argon2id pf password salt (field params (js ''memoryKiB'')) (field params (js ''iterations''))
             (field params (js ''parallelism'')) n)"

definition deriveMasterKey :: "platform \<Rightarrow> jstr \<Rightarrow> bytes \<Rightarrow> KdfParams \<Rightarrow> ('z, addr) prog" where
  "deriveMasterKey pf masterPassword salt params =
     andThen (ofResult
         (if length masterPassword = 0 then Inl (InvalidKeyError (js ''Master password must not be empty''))
          else bindR (assertKdfSalt salt) (\<lambda>u.
            callArgon2id pf (pf_nfc pf masterPassword) salt params DERIVED_KEY_BYTES)))
       newBuf"

definition expand :: "platform \<Rightarrow> addr \<Rightarrow> bytes \<Rightarrow> ('z, bytes) prog" where
  "expand pf masterKey info =
     andThen (readBuf masterKey) (\<lambda>key.
       if length key \<noteq> DERIVED_KEY_BYTES
       then throw (InvalidKeyError (js ''Master key must be 32 bytes, received '' @ showNat (length key)))
       else ret (pf_hkdf pf key info DERIVED_KEY_BYTES))"

definition deriveWrapKey :: "platform \<Rightarrow> addr \<Rightarrow> ('z, addr) prog" where
  "deriveWrapKey pf masterKey = andThen (expand pf masterKey WRAP_INFO) newBuf"

definition deriveAuthHash :: "platform \<Rightarrow> addr \<Rightarrow> ('z, bytes) prog" where
  "deriveAuthHash pf masterKey = expand pf masterKey AUTH_INFO"

section \<open>Keys\<close>

record KeyPair =
  kp_publicKey :: bytes
  kp_privateKey :: addr

abbreviation (input) SYMMETRIC_KEY_BYTES :: nat where "SYMMETRIC_KEY_BYTES \<equiv> 32"

definition generateUserKey :: "('z, addr) prog" where
  "generateUserKey = andThen (randomBytes SYMMETRIC_KEY_BYTES) newBuf"

definition generateCollectionKey :: "('z, addr) prog" where
  "generateCollectionKey = andThen (randomBytes SYMMETRIC_KEY_BYTES) newBuf"

definition publicKeyFor :: "platform \<Rightarrow> addr \<Rightarrow> ('z, bytes) prog" where
  "publicKeyFor pf privateKey = andThen (readBuf privateKey) (\<lambda>k. ofResult (pf_publicKey pf k))"

definition drawPrivateKey :: "platform \<Rightarrow> ('z, bytes) prog" where
  "drawPrivateKey pf w =
     (case pf_randomPrivateKey pf (wd_random w) of (k, rest) \<Rightarrow> (Inr k, w\<lparr> wd_random := rest \<rparr>))"

definition generateKeyPair :: "platform \<Rightarrow> ('z, KeyPair) prog" where
  "generateKeyPair pf =
     andThen (andThen (drawPrivateKey pf) newBuf) (\<lambda>privateKey.
       andThen (publicKeyFor pf privateKey) (\<lambda>publicKey.
         ret \<lparr> kp_publicKey = publicKey, kp_privateKey = privateKey \<rparr>))"

definition wrapKey :: "platform \<Rightarrow> addr \<Rightarrow> addr \<Rightarrow> ('z, jstr) prog" where
  "wrapKey pf keyToWrap wrappingKey =
     andThen (readBuf keyToWrap) (\<lambda>key. andThen (readBuf wrappingKey) (\<lambda>wrapping.
       andThen (encryptBytes pf key wrapping) (\<lambda>envelope. ret (serializeEnvelope envelope))))"

definition unwrapKey :: "platform \<Rightarrow> jstr \<Rightarrow> addr \<Rightarrow> ('z, addr) prog" where
  "unwrapKey pf wrapped wrappingKey =
     andThen (readBuf wrappingKey) (\<lambda>wrapping.
       andThen (ofResult (bindR (parseEnvelope wrapped) (\<lambda>envelope. decryptBytes pf envelope wrapping))) newBuf)"

record EnrollmentResult =
  er_kdfSalt :: bytes
  er_params :: KdfParams
  er_authHash :: bytes
  er_protectedUserKey :: jstr
  er_publicKey :: bytes
  er_encryptedPrivateKey :: jstr
  er_userKey :: addr
  er_keyPair :: KeyPair

definition enrollUser :: "platform \<Rightarrow> jstr \<Rightarrow> KdfParams \<Rightarrow> ('z, EnrollmentResult) prog" where
  "enrollUser pf masterPassword params =
     andThen generateKdfSalt (\<lambda>kdfSalt.
     andThen (deriveMasterKey pf masterPassword kdfSalt params) (\<lambda>masterKey.
     andThen (deriveWrapKey pf masterKey) (\<lambda>wrappingKey.
       tryFinally
         (andThen (deriveAuthHash pf masterKey) (\<lambda>authHash.
          andThen generateUserKey (\<lambda>userKey.
          andThen (generateKeyPair pf) (\<lambda>keyPair.
          andThen (wrapKey pf userKey wrappingKey) (\<lambda>protectedUserKey.
          andThen (wrapKey pf (kp_privateKey keyPair) userKey) (\<lambda>encryptedPrivateKey.
            ret \<lparr> er_kdfSalt = kdfSalt, er_params = params, er_authHash = authHash,
                  er_protectedUserKey = protectedUserKey, er_publicKey = kp_publicKey keyPair,
                  er_encryptedPrivateKey = encryptedPrivateKey, er_userKey = userKey,
                  er_keyPair = keyPair \<rparr>))))))
         (zeroize [Some masterKey, Some wrappingKey]))))"

record UnlockedKeys =
  uk_userKey :: addr
  uk_privateKey :: addr

text \<open>An unlock in progress: its closures' variables as a record.\<close>

record UnlockSession =
  us_authHash :: bytes
  us_masterKey :: addr
  us_wrappingKey :: addr
  us_destroyed :: bool

definition beginUnlock :: "platform \<Rightarrow> jstr \<Rightarrow> bytes \<Rightarrow> KdfParams \<Rightarrow> ('z, UnlockSession) prog" where
  "beginUnlock pf masterPassword kdfSalt params =
     andThen (deriveMasterKey pf masterPassword kdfSalt params) (\<lambda>masterKey.
     andThen (deriveWrapKey pf masterKey) (\<lambda>wrappingKey.
     andThen (deriveAuthHash pf masterKey) (\<lambda>authHash.
       ret \<lparr> us_authHash = authHash, us_masterKey = masterKey, us_wrappingKey = wrappingKey,
             us_destroyed = False \<rparr>)))"

definition unlockFinish :: "platform \<Rightarrow> UnlockSession \<Rightarrow> jstr \<Rightarrow> jstr \<Rightarrow> ('z, UnlockedKeys) prog" where
  "unlockFinish pf us protectedUserKey encryptedPrivateKey =
     (if us_destroyed us
      then throw (KeyholeCryptoError (js ''Unlock session has been destroyed; call beginUnlock again to unlock''))
      else
        andThen (unwrapKey pf protectedUserKey (us_wrappingKey us)) (\<lambda>userKey.
        andThen (unwrapKey pf encryptedPrivateKey userKey) (\<lambda>privateKey.
          ret \<lparr> uk_userKey = userKey, uk_privateKey = privateKey \<rparr>)))"

definition unlockDestroy :: "UnlockSession \<Rightarrow> 'z world_scheme \<Rightarrow> UnlockSession \<times> 'z world_scheme" where
  "unlockDestroy us w =
     (us\<lparr> us_destroyed := True \<rparr>, zeroize [Some (us_masterKey us), Some (us_wrappingKey us)] w)"

record RotationResult =
  ro_kdfSalt :: bytes
  ro_params :: KdfParams
  ro_authHash :: bytes
  ro_protectedUserKey :: jstr

definition rotateMasterPassword :: "platform \<Rightarrow> jstr \<Rightarrow> addr \<Rightarrow> KdfParams \<Rightarrow> ('z, RotationResult) prog" where
  "rotateMasterPassword pf newMasterPassword userKey params =
     andThen generateKdfSalt (\<lambda>kdfSalt.
     andThen (deriveMasterKey pf newMasterPassword kdfSalt params) (\<lambda>masterKey.
     andThen (deriveWrapKey pf masterKey) (\<lambda>wrappingKey.
       tryFinally
         (andThen (deriveAuthHash pf masterKey) (\<lambda>authHash.
          andThen (wrapKey pf userKey wrappingKey) (\<lambda>protectedUserKey.
            ret \<lparr> ro_kdfSalt = kdfSalt, ro_params = params, ro_authHash = authHash,
                  ro_protectedUserKey = protectedUserKey \<rparr>)))
         (zeroize [Some masterKey, Some wrappingKey]))))"

section \<open>Laws of the derivation\<close>

text \<open>
  Both derivation functions return as many bytes as they are asked for; HKDF with SHA-256 gives at
  most 255 blocks of 32.
\<close>

definition kdfLaws :: "platform \<Rightarrow> bool" where
  "kdfLaws pf =
     ((\<forall>password salt m i p n h. pf_argon2id pf password salt m i p n = Inr h \<longrightarrow> length h = n) \<and>
      (\<forall>key info n. n \<le> 255 * 32 \<longrightarrow> length (pf_hkdf pf key info n) = n))"

text \<open>A private key the library draws has a public key of 32 bytes.\<close>

definition keyPairLaw :: "platform \<Rightarrow> bool" where
  "keyPairLaw pf =
     (\<forall>tape. \<exists>public. pf_publicKey pf (fst (pf_randomPrivateKey pf tape)) = Inr public \<and> length public = 32)"

definition masterBytes :: "platform \<Rightarrow> jstr \<Rightarrow> bytes \<Rightarrow> KdfParams \<Rightarrow> bytes result" where
  "masterBytes pf masterPassword salt params =
     (if length masterPassword = 0 then Inl (InvalidKeyError (js ''Master password must not be empty''))
      else bindR (assertKdfSalt salt) (\<lambda>u. callArgon2id pf (pf_nfc pf masterPassword) salt params DERIVED_KEY_BYTES))"

lemma masterBytes_length: "kdfLaws pf \<Longrightarrow> masterBytes pf pw salt params = Inr mk \<Longrightarrow> length mk = 32"
  by (auto simp: masterBytes_def bindR_eq_Inr callArgon2id_def kdfLaws_def split: if_splits)

lemma length_hkdf [simp]: "kdfLaws pf \<Longrightarrow> n \<le> 255 * 32 \<Longrightarrow> length (pf_hkdf pf key info n) = n"
  by (simp add: kdfLaws_def)

abbreviation wrapBytes :: "platform \<Rightarrow> bytes \<Rightarrow> bytes" where
  "wrapBytes pf mk \<equiv> pf_hkdf pf mk WRAP_INFO DERIVED_KEY_BYTES"

abbreviation authBytes :: "platform \<Rightarrow> bytes \<Rightarrow> bytes" where
  "authBytes pf mk \<equiv> pf_hkdf pf mk AUTH_INFO DERIVED_KEY_BYTES"

section \<open>How the programs run\<close>

definition pushBuf :: "bytes \<Rightarrow> 'z world_scheme \<Rightarrow> 'z world_scheme" where
  "pushBuf bs w = w\<lparr> wd_heap := wd_heap w @ [bs] \<rparr>"

lemma newBuf_push: "newBuf bs w = (Inr (length (wd_heap w)), pushBuf bs w)"
  by (simp add: newBuf_def pushBuf_def)

lemma pushBuf_simps [simp]:
  "wd_heap (pushBuf bs w) = wd_heap w @ [bs]" "wd_random (pushBuf bs w) = wd_random w"
  "world.more (pushBuf bs w) = world.more w" "world.more (afterDraw n w) = world.more w"
  "drawn n (pushBuf bs w) = drawn n w"
  by (simp_all add: pushBuf_def afterDraw_def drawn_def)

lemma bufOf_push [simp]:
  "bufOf (pushBuf bs w) a = (if a = length (wd_heap w) then bs else bufOf w a)"
  by (simp add: bufOf_def pushBuf_def nth_append)

lemma deriveMasterKey_run:
  "masterBytes pf pw salt params = Inr mk \<Longrightarrow>
     deriveMasterKey pf pw salt params w = (Inr (length (wd_heap w)), pushBuf mk w)"
  "masterBytes pf pw salt params = Inl e \<Longrightarrow> deriveMasterKey pf pw salt params w = (Inl e, w)"
  unfolding masterBytes_def deriveMasterKey_def by (simp_all add: andThen_def ofResult_def newBuf_push)

lemma deriveWrapKey_run:
  "length (bufOf w a) = 32 \<Longrightarrow>
   deriveWrapKey pf a w = (Inr (length (wd_heap w)), pushBuf (wrapBytes pf (bufOf w a)) w)"
  by (simp add: deriveWrapKey_def expand_def andThen_def ret_def readBuf_def newBuf_push)

lemma deriveAuthHash_run:
  "length (bufOf w a) = 32 \<Longrightarrow> deriveAuthHash pf a w = (Inr (authBytes pf (bufOf w a)), w)"
  by (simp add: deriveAuthHash_def expand_def andThen_def ret_def readBuf_def)

lemma generateKdfSalt_run: "generateKdfSalt w = (Inr (drawn 16 w), afterDraw 16 w)"
  by (simp add: generateKdfSalt_def run_simps)

lemma generateUserKey_run:
  "generateUserKey w = (Inr (length (wd_heap w)), pushBuf (drawn 32 w) (afterDraw 32 w))"
  by (simp add: generateUserKey_def andThen_def randomBytes_run newBuf_push)

definition wrapText :: "platform \<Rightarrow> bytes \<Rightarrow> bytes \<Rightarrow> bytes \<Rightarrow> jstr" where
  "wrapText pf key wrapping nonce =
     serializeEnvelope \<lparr> en_n = toBase64 nonce, en_ct = toBase64 (pf_gcmEncrypt pf wrapping nonce key) \<rparr>"

lemma wrapKey_run:
  "length (bufOf w b) = 32 \<Longrightarrow>
   wrapKey pf a b w = (Inr (wrapText pf (bufOf w a) (bufOf w b) (drawn 12 w)), afterDraw 12 w)"
  by (simp add: wrapKey_def andThen_def readBuf_def encryptBytes_run ret_def wrapText_def)

definition opens :: "platform \<Rightarrow> jstr \<Rightarrow> bytes \<Rightarrow> bytes \<Rightarrow> bool" where
  "opens pf wrapped key content = (bindR (parseEnvelope wrapped) (\<lambda>e. decryptBytes pf e key) = Inr content)"

lemma opens_wrapText:
  "gcmLaw pf \<Longrightarrow> length wrapping = 32 \<Longrightarrow> length nonce = 12 \<Longrightarrow> opens pf (wrapText pf key wrapping nonce) wrapping key"
  by (simp add: opens_def wrapText_def parse_serialize decrypt_encrypt)

lemma unwrapKey_run:
  "opens pf s (bufOf w b) content \<Longrightarrow> unwrapKey pf s b w = (Inr (length (wd_heap w)), pushBuf content w)"
  by (simp add: unwrapKey_def opens_def andThen_def readBuf_def ofResult_def newBuf_push)

lemma generateKeyPair_run:
  assumes "keyPairLaw pf"
  obtains priv public tape where
    "generateKeyPair pf w =
       (Inr \<lparr> kp_publicKey = public, kp_privateKey = length (wd_heap w) \<rparr>, pushBuf priv (w\<lparr> wd_random := tape \<rparr>))"
    "pf_publicKey pf priv = Inr public" "length public = 32"
proof -
  obtain k rest where k: "pf_randomPrivateKey pf (wd_random w) = (k, rest)" by fastforce
  then obtain public where p: "pf_publicKey pf k = Inr public" "length public = 32"
    using assms unfolding keyPairLaw_def by (metis fst_conv)
  show ?thesis
    by (rule that [of public k rest])
      (simp_all add: p k generateKeyPair_def drawPrivateKey_def publicKeyFor_def andThen_def newBuf_push readBuf_def
        ofResult_def ret_def)
qed

section \<open>Enrolment, unlock, rotation\<close>

lemma enrollUser_fails:
  "masterBytes pf pw (drawn 16 w) params = Inl e \<Longrightarrow> enrollUser pf pw params w = (Inl e, afterDraw 16 w)"
  by (simp add: enrollUser_def andThen_def generateKdfSalt_run deriveMasterKey_run)

lemma enrollUser_run:
  assumes "gcmLaw pf" "kdfLaws pf" "keyPairLaw pf" "masterBytes pf pw (drawn 16 w) params = Inr mk"
  obtains er w' uk pk where "enrollUser pf pw params w = (Inr er, w')"
    "er_kdfSalt er = drawn 16 w" "er_params er = params" "er_authHash er = authBytes pf mk"
    "opens pf (er_protectedUserKey er) (wrapBytes pf mk) uk" "opens pf (er_encryptedPrivateKey er) uk pk"
    "er_userKey er = length (wd_heap w) + 2" "kp_privateKey (er_keyPair er) = length (wd_heap w) + 3"
    "wd_heap w' = wd_heap w @ [zeroBytes 32, zeroBytes 32, uk, pk]" "length uk = 32"
    "world.more w' = world.more w" "pf_publicKey pf pk = Inr (er_publicKey er)" "length (er_publicKey er) = 32"
proof -
  have mk: "length mk = 32" by (rule masterBytes_length [OF assms(2,4)])
  define w1 where "w1 = pushBuf (drawn 32 (afterDraw 16 w))
    (afterDraw 32 (pushBuf (wrapBytes pf mk) (pushBuf mk (afterDraw 16 w))))"
  obtain pk public tape where kp: "generateKeyPair pf w1 =
      (Inr \<lparr> kp_publicKey = public, kp_privateKey = length (wd_heap w1) \<rparr>, pushBuf pk (w1\<lparr> wd_random := tape \<rparr>))"
    "pf_publicKey pf pk = Inr public" "length public = 32"
    by (rule generateKeyPair_run [OF assms(3)])
  define w2 where "w2 = pushBuf pk (w1\<lparr> wd_random := tape \<rparr>)"
  define uk where "uk = drawn 32 (afterDraw 16 w)"
  let ?n = "length (wd_heap w)"
  have heap1: "wd_heap w1 = wd_heap w @ [mk, wrapBytes pf mk, uk]" by (simp add: w1_def uk_def)
  have heap2: "wd_heap w2 = wd_heap w @ [mk, wrapBytes pf mk, uk, pk]" by (simp add: w2_def heap1)
  have bufs: "bufOf w2 (?n + 1) = wrapBytes pf mk" "bufOf w2 (?n + 2) = uk" "bufOf w2 (Suc (Suc (Suc ?n))) = pk"
    by (simp_all add: bufOf_def heap2 nth_append)
  define p1 where "p1 = wrapText pf uk (wrapBytes pf mk) (drawn 12 w2)"
  define p2 where "p2 = wrapText pf pk uk (drawn 12 (afterDraw 12 w2))"
  define er where "er = \<lparr> er_kdfSalt = drawn 16 w, er_params = params, er_authHash = authBytes pf mk,
    er_protectedUserKey = p1, er_publicKey = public, er_encryptedPrivateKey = p2, er_userKey = ?n + 2,
    er_keyPair = \<lparr> kp_publicKey = public, kp_privateKey = Suc (Suc (Suc ?n)) \<rparr> \<rparr>"
  define w3 where "w3 = zeroize [Some ?n, Some (?n + 1)] (afterDraw 12 (afterDraw 12 w2))"
  have luk: "length uk = 32" by (simp add: uk_def)
  have wr1: "wrapKey pf (?n + 2) (?n + 1) w2 = (Inr p1, afterDraw 12 w2)"
    using wrapKey_run [of w2 "?n + 1" pf "?n + 2"] assms(2) unfolding bufs by (simp add: p1_def)
  have wr2: "wrapKey pf (Suc (Suc (Suc ?n))) (?n + 2) (afterDraw 12 w2) = (Inr p2, afterDraw 12 (afterDraw 12 w2))"
    using wrapKey_run [of "afterDraw 12 w2" "?n + 2" pf "Suc (Suc (Suc ?n))"] luk unfolding bufOf_afterDraw bufs by (simp add: p2_def)
  have run: "enrollUser pf pw params w = (Inr er, w3)"
    unfolding enrollUser_def
    by (simp add: andThen_def tryFinally_def ret_def generateKdfSalt_run deriveMasterKey_run(1) [OF assms(4)] mk
        deriveWrapKey_run deriveAuthHash_run generateUserKey_run kp(1) [unfolded w1_def uk_def, simplified]
        w2_def [unfolded w1_def, symmetric] wr1 [simplified] wr2 [simplified] er_def w3_def)
  have heap3: "wd_heap w3 = wd_heap w @ [zeroBytes 32, zeroBytes 32, uk, pk]"
    using mk assms(2) by (simp add: w3_def clearBuf_heap heap2 bufOf_def nth_append list_update_append)
  show ?thesis
  proof (rule that [OF run, of uk pk])
    show "opens pf (er_protectedUserKey er) (wrapBytes pf mk) uk"
      using opens_wrapText [OF assms(1)] assms(2) by (simp add: er_def p1_def)
    show "opens pf (er_encryptedPrivateKey er) uk pk"
      using opens_wrapText [OF assms(1) luk] by (simp add: er_def p2_def)
    show "world.more w3 = world.more w" by (simp add: w3_def w2_def w1_def clearBuf_def)
  qed (simp_all add: er_def heap3 luk kp)
qed

lemma beginUnlock_run:
  assumes "kdfLaws pf" "masterBytes pf pw salt params = Inr mk"
  shows "beginUnlock pf pw salt params w =
    (Inr \<lparr> us_authHash = authBytes pf mk, us_masterKey = length (wd_heap w),
           us_wrappingKey = Suc (length (wd_heap w)), us_destroyed = False \<rparr>,
     pushBuf (wrapBytes pf mk) (pushBuf mk w))"
  using masterBytes_length [OF assms]
  by (simp add: beginUnlock_def andThen_def ret_def deriveMasterKey_run(1) [OF assms(2)] deriveWrapKey_run
      deriveAuthHash_run)

lemma unlockFinish_run:
  assumes "\<not> us_destroyed us" "opens pf p (bufOf w (us_wrappingKey us)) uk" "opens pf e uk pk"
  shows "unlockFinish pf us p e w =
    (Inr \<lparr> uk_userKey = length (wd_heap w), uk_privateKey = Suc (length (wd_heap w)) \<rparr>, pushBuf pk (pushBuf uk w))"
  using assms unwrapKey_run [OF assms(2)] unwrapKey_run [of pf e "pushBuf uk w" "length (wd_heap w)" pk]
  by (simp add: unlockFinish_def andThen_def ret_def)

lemma rotate_fails:
  "masterBytes pf pw (drawn 16 w) params = Inl e \<Longrightarrow>
   rotateMasterPassword pf pw a params w = (Inl e, afterDraw 16 w)"
  by (simp add: rotateMasterPassword_def andThen_def generateKdfSalt_run deriveMasterKey_run)

lemma rotate_run:
  assumes "gcmLaw pf" "kdfLaws pf" "masterBytes pf pw (drawn 16 w) params = Inr mk" "a < length (wd_heap w)"
  obtains ro w' where "rotateMasterPassword pf pw a params w = (Inr ro, w')"
    "ro_kdfSalt ro = drawn 16 w" "ro_params ro = params" "ro_authHash ro = authBytes pf mk"
    "opens pf (ro_protectedUserKey ro) (wrapBytes pf mk) (bufOf w a)"
    "wd_heap w' = wd_heap w @ [zeroBytes 32, zeroBytes 32]" "world.more w' = world.more w"
proof -
  have mk: "length mk = 32" by (rule masterBytes_length [OF assms(2,3)])
  let ?n = "length (wd_heap w)"
  define w1 where "w1 = pushBuf (wrapBytes pf mk) (pushBuf mk (afterDraw 16 w))"
  have bufs: "bufOf w1 (Suc ?n) = wrapBytes pf mk" "bufOf w1 a = bufOf w a" using assms(4) by (simp_all add: w1_def)
  define p1 where "p1 = wrapText pf (bufOf w a) (wrapBytes pf mk) (drawn 12 w1)"
  have wr: "wrapKey pf a (Suc ?n) w1 = (Inr p1, afterDraw 12 w1)"
    using wrapKey_run [of w1 "Suc ?n" pf a] assms(2) unfolding bufs by (simp add: p1_def)
  define ro where "ro = \<lparr> ro_kdfSalt = drawn 16 w, ro_params = params, ro_authHash = authBytes pf mk,
    ro_protectedUserKey = p1 \<rparr>"
  define w2 where "w2 = zeroize [Some ?n, Some (Suc ?n)] (afterDraw 12 w1)"
  have run: "rotateMasterPassword pf pw a params w = (Inr ro, w2)"
    unfolding rotateMasterPassword_def
    by (simp add: andThen_def tryFinally_def ret_def generateKdfSalt_run deriveMasterKey_run(1) [OF assms(3)] mk
        deriveWrapKey_run deriveAuthHash_run w1_def [symmetric] wr ro_def w2_def)
  show ?thesis
  proof (rule that [OF run])
    show "opens pf (ro_protectedUserKey ro) (wrapBytes pf mk) (bufOf w a)"
      using opens_wrapText [OF assms(1)] assms(2) by (simp add: ro_def p1_def)
    show "wd_heap w2 = wd_heap w @ [zeroBytes 32, zeroBytes 32]"
      using mk assms(2) by (simp add: w2_def clearBuf_heap w1_def bufOf_def nth_append list_update_append)
    show "world.more w2 = world.more w" by (simp add: w2_def w1_def clearBuf_def)
  qed (simp_all add: ro_def)
qed

text \<open>What an unlock gives, on whatever device: the keys' contents and the login credential.\<close>

definition unlocksTo :: "platform \<Rightarrow> jstr \<Rightarrow> bytes \<Rightarrow> KdfParams \<Rightarrow> jstr \<Rightarrow> jstr \<Rightarrow> bytes \<Rightarrow> bytes \<Rightarrow> bytes \<Rightarrow>
    'z world_scheme \<Rightarrow> bool" where
  "unlocksTo pf pw salt params protected encrypted auth user private w =
     (\<exists>us w1 keys w2. beginUnlock pf pw salt params w = (Inr us, w1) \<and> us_authHash us = auth \<and>
        unlockFinish pf us protected encrypted w1 = (Inr keys, w2) \<and>
        bufOf w2 (uk_userKey keys) = user \<and> bufOf w2 (uk_privateKey keys) = private)"

lemma unlocksTo_master:
  assumes "kdfLaws pf" "masterBytes pf pw salt params = Inr mk"
    "opens pf protected (wrapBytes pf mk) uk" "opens pf encrypted uk pk"
  shows "unlocksTo pf pw salt params protected encrypted (authBytes pf mk) uk pk w"
  unfolding unlocksTo_def
  by (intro exI conjI, rule beginUnlock_run [OF assms(1,2)], simp, rule unlockFinish_run)
    (use assms in simp_all)

text \<open>
  C1. An enrolment can be opened again: after \<^verbatim>\<open>enrollUser\<close> returned, an unlock with the same
  password, salt and parameters, on any device, derives the login credential that was
  registered and opens the two stored blobs to the very user key and private key that enrolment
  made. Assumed of the platform: AES-GCM decrypts what it encrypted, and the derivation functions
  return the number of bytes asked for.
\<close>

theorem enroll_then_unlock:
  assumes "gcmLaw pf" "kdfLaws pf" "keyPairLaw pf" "enrollUser pf pw params w = (Inr er, w1)"
  shows "unlocksTo pf pw (er_kdfSalt er) params (er_protectedUserKey er) (er_encryptedPrivateKey er)
    (er_authHash er) (bufOf w1 (er_userKey er)) (bufOf w1 (kp_privateKey (er_keyPair er))) device"
proof (cases "masterBytes pf pw (drawn 16 w) params")
  case (Inl e)
  then show ?thesis using assms(4) by (simp add: enrollUser_fails)
next
  case (Inr mk)
  from enrollUser_run [OF assms(1-3) Inr] obtain er' w' uk pk where er: "enrollUser pf pw params w = (Inr er', w')"
    "er_kdfSalt er' = drawn 16 w" "er_authHash er' = authBytes pf mk"
    "opens pf (er_protectedUserKey er') (wrapBytes pf mk) uk" "opens pf (er_encryptedPrivateKey er') uk pk"
    "er_userKey er' = length (wd_heap w) + 2" "kp_privateKey (er_keyPair er') = length (wd_heap w) + 3"
    "wd_heap w' = wd_heap w @ [zeroBytes 32, zeroBytes 32, uk, pk]" by metis
  have same: "er' = er" "w' = w1" using er(1) assms(4) by auto
  have "bufOf w1 (er_userKey er) = uk" "bufOf w1 (kp_privateKey (er_keyPair er)) = pk"
    using er(6-8) unfolding same by (simp_all add: bufOf_def nth_append)
  then show ?thesis using unlocksTo_master [OF assms(2) Inr er(4,5)] er(2,3) unfolding same by simp
qed

text \<open>
  Changing the master password keeps the vault: the wrapped key \<^verbatim>\<open>rotateMasterPassword\<close>
  returns opens, under the new password, to the unchanged user key, and the stored private key
  that was wrapped under that user key still opens. Nothing else has to be rewritten.
\<close>

theorem rotation_keeps_keys:
  assumes "gcmLaw pf" "kdfLaws pf" "userKey < length (wd_heap w)"
    and "rotateMasterPassword pf pw userKey params w = (Inr ro, w1)"
    and "opens pf encryptedPrivateKey (bufOf w userKey) private"
  shows "unlocksTo pf pw (ro_kdfSalt ro) (ro_params ro) (ro_protectedUserKey ro) encryptedPrivateKey
    (ro_authHash ro) (bufOf w userKey) private device \<and> bufOf w1 userKey = bufOf w userKey"
proof (cases "masterBytes pf pw (drawn 16 w) params")
  case (Inl e)
  then show ?thesis using assms(4) by (simp add: rotate_fails)
next
  case (Inr mk)
  from rotate_run [OF assms(1,2) Inr assms(3)] obtain ro' w' where ro: "rotateMasterPassword pf pw userKey params w = (Inr ro', w')"
    "ro_kdfSalt ro' = drawn 16 w" "ro_params ro' = params" "ro_authHash ro' = authBytes pf mk"
    "opens pf (ro_protectedUserKey ro') (wrapBytes pf mk) (bufOf w userKey)"
    "wd_heap w' = wd_heap w @ [zeroBytes 32, zeroBytes 32]" by metis
  have same: "ro' = ro" "w' = w1" using ro(1) assms(4) by auto
  have "bufOf w1 userKey = bufOf w userKey" using ro(6) assms(3) unfolding same by (simp add: bufOf_def nth_append)
  then show ?thesis using unlocksTo_master [OF assms(2) Inr ro(5) assms(5)] ro(2-4) unfolding same by simp
qed

section \<open>Clearing\<close>

lemma tidy_heap: "wd_heap w' = wd_heap w @ bs \<Longrightarrow>
    (\<And>i. i < length bs \<Longrightarrow> length (wd_heap w) + i \<notin> K \<Longrightarrow> isClear (bs ! i)) \<Longrightarrow> tidy w w' K"
  unfolding tidy_def bufOf_def
  by (auto simp: nth_append)

text \<open>
  Derived keys do not outlive their use. When \<^verbatim>\<open>enrollUser\<close> or
  \<^verbatim>\<open>rotateMasterPassword\<close> ends, returning or throwing, every buffer it allocated is zero
  except the user key and private key it hands to its caller, and no buffer of the caller's has
  changed; after \<^verbatim>\<open>destroy\<close> the same holds of a finished unlock.
\<close>

theorem derived_keys_cleared:
  assumes "gcmLaw pf" "kdfLaws pf" "keyPairLaw pf"
  shows "(enrollUser pf pw params w = (r, w') \<longrightarrow>
      tidy w w' (case r of Inl e \<Rightarrow> {} | Inr er \<Rightarrow> {er_userKey er, kp_privateKey (er_keyPair er)})) \<and>
    (a < length (wd_heap w) \<longrightarrow> rotateMasterPassword pf pw a params w = (r', w'') \<longrightarrow> tidy w w'' {}) \<and>
    (beginUnlock pf pw salt params w = (Inr us, w1) \<longrightarrow> unlockFinish pf us p e w1 = (Inr keys, w2) \<longrightarrow>
      tidy w (snd (unlockDestroy us w2)) {uk_userKey keys, uk_privateKey keys})"
proof (intro conjI impI)
  assume run: "enrollUser pf pw params w = (r, w')"
  show "tidy w w' (case r of Inl e \<Rightarrow> {} | Inr er \<Rightarrow> {er_userKey er, kp_privateKey (er_keyPair er)})"
  proof (cases "masterBytes pf pw (drawn 16 w) params")
    case (Inl e)
    then show ?thesis using run by (auto simp: enrollUser_fails intro: tidy_same_heap)
  next
    case (Inr mk)
    from enrollUser_run [OF assms Inr] obtain er v uk pk where er: "enrollUser pf pw params w = (Inr er, v)"
      "er_userKey er = length (wd_heap w) + 2" "kp_privateKey (er_keyPair er) = length (wd_heap w) + 3"
      "wd_heap v = wd_heap w @ [zeroBytes 32, zeroBytes 32, uk, pk]" by metis
    have "tidy w v {length (wd_heap w) + 2, length (wd_heap w) + 3}"
      by (rule tidy_heap [OF er(4)]) (auto simp: less_Suc_eq)
    then show ?thesis using run er by auto
  qed
next
  assume a: "a < length (wd_heap w)" and run: "rotateMasterPassword pf pw a params w = (r', w'')"
  show "tidy w w'' {}"
  proof (cases "masterBytes pf pw (drawn 16 w) params")
    case (Inl e)
    then show ?thesis using run by (auto simp: rotate_fails intro: tidy_same_heap)
  next
    case (Inr mk)
    from rotate_run [OF assms(1,2) Inr a] obtain ro v where ro: "rotateMasterPassword pf pw a params w = (Inr ro, v)"
      "wd_heap v = wd_heap w @ [zeroBytes 32, zeroBytes 32]" by metis
    have "tidy w v {}" by (rule tidy_heap [OF ro(2)]) (auto simp: less_Suc_eq)
    then show ?thesis using run ro by auto
  qed
next
  assume b: "beginUnlock pf pw salt params w = (Inr us, w1)" and f: "unlockFinish pf us p e w1 = (Inr keys, w2)"
  obtain mk where mk: "masterBytes pf pw salt params = Inr mk"
    using b by (cases "masterBytes pf pw salt params") (auto simp: beginUnlock_def andThen_def deriveMasterKey_run)
  have us: "us_masterKey us = length (wd_heap w)" "us_wrappingKey us = Suc (length (wd_heap w))" "\<not> us_destroyed us"
    "w1 = pushBuf (wrapBytes pf mk) (pushBuf mk w)"
    using b beginUnlock_run [OF assms(2) mk, of w] by auto
  obtain uk pk where keys: "keys = \<lparr> uk_userKey = length (wd_heap w1), uk_privateKey = Suc (length (wd_heap w1)) \<rparr>"
    "w2 = pushBuf pk (pushBuf uk w1)"
    using f us(3)
    by (auto simp: unlockFinish_def unwrapKey_def andThen_def readBuf_def ofResult_def newBuf_push ret_def
        split: sum.splits)
  have "wd_heap (snd (unlockDestroy us w2)) = wd_heap w @ [zeroBytes 32, zeroBytes 32, uk, pk]"
    using masterBytes_length [OF assms(2) mk] assms(2)
    by (simp add: unlockDestroy_def us keys(2) clearBuf_heap bufOf_def nth_append list_update_append)
  then show "tidy w (snd (unlockDestroy us w2)) {uk_userKey keys, uk_privateKey keys}"
    by (rule tidy_heap) (auto simp: keys us less_Suc_eq nth_Cons')
qed

section \<open>A platform for the examples\<close>

text \<open>Functions with the laws above and no secrecy; they show that the laws can hold together.\<close>

definition padTo :: "nat \<Rightarrow> bytes \<Rightarrow> bytes" where
  "padTo n bs = take n (bs @ replicate n 0)"

definition samplePlatform :: platform where
  "samplePlatform =
     \<lparr> pf_gcmEncrypt = (\<lambda>key iv plaintext. plaintext @ take 16 key),
       pf_gcmDecrypt = (\<lambda>key iv ct.
         let n = length ct - 16 in if drop n ct = take 16 key then Some (take n ct) else None),
       pf_argon2id = (\<lambda>password salt m i p n. Inr (padTo n (utf8Encode password @ salt))),
       pf_hkdf = (\<lambda>key info n. padTo n (drop 8 info @ key)),
       pf_sha256 = padTo 32,
       pf_publicKey = (\<lambda>k. Inr (padTo 32 k)),
       pf_sharedSecret = (\<lambda>k p. Inr (map2 (XOR) (padTo 32 k) (padTo 32 p))),
       pf_randomPrivateKey = (\<lambda>tape. (map tape [0..<32], \<lambda>i. tape (i + 32))),
       pf_nfc = (\<lambda>s. s) \<rparr>"

lemma length_padTo [simp]: "length (padTo n bs) = n"
  by (simp add: padTo_def)

lemma sample_laws: "gcmLaw samplePlatform" "kdfLaws samplePlatform" "keyPairLaw samplePlatform"
  by (auto simp: gcmLaw_def kdfLaws_def keyPairLaw_def samplePlatform_def Let_def)

definition sampleWorld :: world where
  "sampleWorld = \<lparr> wd_random = (\<lambda>i. of_nat i), wd_heap = [replicate 32 7] \<rparr>"

definition sampleParams :: KdfParams where
  "sampleParams = jsObj [(''memoryKiB'', JNum (jint 1))]"

lemma sample_master:
  "masterBytes samplePlatform (js ''pw'') (drawn 16 w) sampleParams = Inr (padTo 32 (utf8Encode (js ''pw'') @ drawn 16 w))"
  by (simp add: masterBytes_def assertKdfSalt_def callArgon2id_def sampleParams_def jsObj_def samplePlatform_def)

theorem enroll_then_unlock_witness:
  "\<exists>er w1. enrollUser samplePlatform (js ''pw'') sampleParams sampleWorld = (Inr er, w1) \<and>
     unlocksTo samplePlatform (js ''pw'') (er_kdfSalt er) sampleParams (er_protectedUserKey er)
       (er_encryptedPrivateKey er) (er_authHash er) (bufOf w1 (er_userKey er))
       (bufOf w1 (kp_privateKey (er_keyPair er))) sampleWorld"
proof -
  obtain er w1 where er: "enrollUser samplePlatform (js ''pw'') sampleParams sampleWorld = (Inr er, w1)"
    using enrollUser_run [OF sample_laws sample_master] by blast
  show ?thesis using er enroll_then_unlock [OF sample_laws er] by blast
qed

theorem rotation_keeps_keys_witness:
  "\<exists>ro w1. rotateMasterPassword samplePlatform (js ''pw'') 0 sampleParams sampleWorld = (Inr ro, w1) \<and>
     unlocksTo samplePlatform (js ''pw'') (ro_kdfSalt ro) (ro_params ro) (ro_protectedUserKey ro)
       (wrapText samplePlatform [9] (replicate 32 7) (replicate 12 0)) (ro_authHash ro) (replicate 32 7) [9] sampleWorld"
proof -
  have n: "0 < length (wd_heap sampleWorld)" by (simp add: sampleWorld_def)
  have b: "bufOf sampleWorld 0 = replicate 32 7" by (simp add: sampleWorld_def bufOf_def)
  have o: "opens samplePlatform (wrapText samplePlatform [9] (replicate 32 7) (replicate 12 0)) (bufOf sampleWorld 0) [9]"
    unfolding b by (rule opens_wrapText [OF sample_laws(1)]) simp_all
  obtain ro w1 where ro: "rotateMasterPassword samplePlatform (js ''pw'') 0 sampleParams sampleWorld = (Inr ro, w1)"
    using rotate_run [OF sample_laws(1,2) sample_master n] by blast
  show ?thesis using ro rotation_keeps_keys [OF sample_laws(1,2) n ro o] unfolding b by blast
qed

theorem derived_keys_cleared_witness:
  "\<exists>er w'. enrollUser samplePlatform (js ''pw'') sampleParams sampleWorld = (Inr er, w') \<and>
     tidy sampleWorld w' {er_userKey er, kp_privateKey (er_keyPair er)}"
proof -
  obtain er w' where er: "enrollUser samplePlatform (js ''pw'') sampleParams sampleWorld = (Inr er, w')"
    using enrollUser_run [OF sample_laws sample_master] by blast
  show ?thesis
    using er derived_keys_cleared [OF sample_laws, of "js ''pw''" sampleParams sampleWorld "Inr er" w'] by auto
qed

section \<open>A key that is not cleared\<close>

text \<open>
  A failed unlock leaves the user key in memory. When the first blob opens and the second
  does not, \<^verbatim>\<open>finish\<close> throws and drops its only reference to the user key it had opened; the
  \<^verbatim>\<open>destroy\<close> that follows clears the derived keys and not this one, so its buffer still holds
  the key.
\<close>

theorem failed_unlock_keeps_user_key:
  assumes "kdfLaws pf" "beginUnlock pf pw salt params w = (Inr us, w1)"
    and "opens pf protected (bufOf w1 (us_wrappingKey us)) user"
    and "bindR (parseEnvelope encrypted) (\<lambda>e. decryptBytes pf e user) = Inl err"
  shows "\<exists>w2. unlockFinish pf us protected encrypted w1 = (Inl err, w2) \<and>
    bufOf (snd (unlockDestroy us w2)) (length (wd_heap w1)) = user"
proof -
  obtain mk where mk: "masterBytes pf pw salt params = Inr mk"
    using assms(2) by (cases "masterBytes pf pw salt params") (auto simp: beginUnlock_def andThen_def deriveMasterKey_run)
  have us: "us_masterKey us = length (wd_heap w)" "us_wrappingKey us = Suc (length (wd_heap w))" "\<not> us_destroyed us"
    "w1 = pushBuf (wrapBytes pf mk) (pushBuf mk w)"
    using assms(2) beginUnlock_run [OF assms(1) mk, of w] by auto
  have "unlockFinish pf us protected encrypted w1 = (Inl err, pushBuf user w1)"
    using unwrapKey_run [OF assms(3)] us(3) assms(4)
    by (simp add: unlockFinish_def andThen_def unwrapKey_def [of pf encrypted] readBuf_def ofResult_def)
  then show ?thesis by (simp add: unlockDestroy_def us)
qed

theorem failed_unlock_keeps_user_key_witness:
  "\<exists>us w1 w2. beginUnlock samplePlatform (js ''pw'') (replicate 16 0) sampleParams sampleWorld = (Inr us, w1) \<and>
     unlockFinish samplePlatform us (wrapText samplePlatform [9] (bufOf w1 (us_wrappingKey us)) (replicate 12 0)) [] w1 =
       (Inl (MalformedEnvelopeError (js ''Envelope is not valid JSON'')), w2) \<and>
     bufOf (snd (unlockDestroy us w2)) (length (wd_heap w1)) = [9]"
proof -
  have m: "masterBytes samplePlatform (js ''pw'') (replicate 16 0) sampleParams =
      Inr (padTo 32 (utf8Encode (js ''pw'') @ replicate 16 0))"
    by (simp add: masterBytes_def assertKdfSalt_def callArgon2id_def sampleParams_def jsObj_def samplePlatform_def)
  obtain us w1 where b: "beginUnlock samplePlatform (js ''pw'') (replicate 16 0) sampleParams sampleWorld = (Inr us, w1)"
    and l: "length (bufOf w1 (us_wrappingKey us)) = 32"
    using beginUnlock_run [OF sample_laws(2) m, of sampleWorld] length_hkdf [OF sample_laws(2)] by fastforce
  have j: "jsonParse [] = None" by code_simp
  have "opens samplePlatform (wrapText samplePlatform [9] (bufOf w1 (us_wrappingKey us)) (replicate 12 0))
      (bufOf w1 (us_wrappingKey us)) [9]"
    by (rule opens_wrapText [OF sample_laws(1) l]) simp
  from failed_unlock_keeps_user_key [OF sample_laws(2) b this, of "[]"] b show ?thesis
    by (fastforce simp: parseEnvelope_def j)
qed

end
