(* ===== verification/Recovery.thy ===== *)
theory Recovery
  imports Keys
begin

text \<open>
  Recovery codes (\<^verbatim>\<open>packages/crypto/src/recovery.ts\<close>): 25 Crockford characters in groups of
  five, the key derived from them, its two halves, and the blob that holds the user key.

  Shown: a generated code, typed back in any grouping and case with the usual transcription
  slips, opens the blob made with it to the same user key, and derives the same credential;
  whatever a user types is either normalised to 25 characters of the alphabet or refused; and
  the derived keys are cleared.
\<close>

abbreviation (input) CODE_LENGTH :: nat where "CODE_LENGTH \<equiv> 25"
abbreviation (input) RECOVERY_KEY_BYTES :: nat where "RECOVERY_KEY_BYTES \<equiv> 32"

definition RECOVERY_WRAP_INFO :: bytes where "RECOVERY_WRAP_INFO = utf8Encode (js ''keyhole:recovery-wrap:v1'')"
definition RECOVERY_AUTH_INFO :: bytes where "RECOVERY_AUTH_INFO = utf8Encode (js ''keyhole:recovery-auth:v1'')"

definition generateRecoveryCode :: "('z, jstr) prog" where
  "generateRecoveryCode =
     andThen (randomBytes CODE_LENGTH) (\<lambda>bs. ret (groupChars (encodeCrockford bs) 5))"

text \<open>\<^verbatim>\<open>for (const char of cleaned)\<close> walks code points, so a refusal may name a surrogate pair.\<close>

fun checkCode :: "jstr \<Rightarrow> unit result" where
  "checkCode [] = Inr ()"
| "checkCode (c # s) =
     (if c \<in> set CROCKFORD_ALPHABET then checkCode s
      else Inl (InvalidRecoveryCodeError (js ''Invalid character in recovery code: '' @ firstChar (c # s))))"

definition normalizeRecoveryCode :: "jstr \<Rightarrow> jstr result" where
  "normalizeRecoveryCode input =
     (let cleaned = normalizeCrockford input in
      if length cleaned \<noteq> CODE_LENGTH
      then Inl (InvalidRecoveryCodeError
             (js ''Recovery code must be 25 characters, received '' @ showNat (length cleaned)))
      else bindR (checkCode cleaned) (\<lambda>u. Inr cleaned))"

definition deriveRecoveryKey :: "platform \<Rightarrow> jstr \<Rightarrow> bytes \<Rightarrow> KdfParams \<Rightarrow> ('z, addr) prog" where
  "deriveRecoveryKey pf code salt params =
     andThen (ofResult (bindR (assertKdfSalt salt) (\<lambda>u.
         bindR (normalizeRecoveryCode code) (\<lambda>password.
           callArgon2id pf password salt params RECOVERY_KEY_BYTES))))
       newBuf"

definition expandRecovery :: "platform \<Rightarrow> addr \<Rightarrow> bytes \<Rightarrow> ('z, addr) prog" where
  "expandRecovery pf recoveryKey info =
     andThen (readBuf recoveryKey) (\<lambda>key.
       if length key \<noteq> RECOVERY_KEY_BYTES
       then throw (InvalidKeyError (js ''Recovery key must be 32 bytes, received '' @ showNat (length key)))
       else newBuf (pf_hkdf pf key info RECOVERY_KEY_BYTES))"

definition deriveRecoveryWrapKey :: "platform \<Rightarrow> addr \<Rightarrow> ('z, addr) prog" where
  "deriveRecoveryWrapKey pf recoveryKey = expandRecovery pf recoveryKey RECOVERY_WRAP_INFO"

definition deriveRecoveryAuthHash :: "platform \<Rightarrow> addr \<Rightarrow> ('z, addr) prog" where
  "deriveRecoveryAuthHash pf recoveryKey = expandRecovery pf recoveryKey RECOVERY_AUTH_INFO"

record RecoveryBlob =
  rb_recoverySalt :: bytes
  rb_recoveryProtectedUserKey :: jstr
  rb_recoveryAuthHash :: addr
  rb_params :: KdfParams

definition createRecoveryBlob :: "platform \<Rightarrow> addr \<Rightarrow> jstr \<Rightarrow> KdfParams \<Rightarrow> ('z, RecoveryBlob) prog" where
  "createRecoveryBlob pf userKey code params =
     andThen generateKdfSalt (\<lambda>recoverySalt.
     andThen (deriveRecoveryKey pf code recoverySalt params) (\<lambda>recoveryKey.
     andThen (deriveRecoveryWrapKey pf recoveryKey) (\<lambda>wrappingKey.
       tryFinally
         (andThen (wrapKey pf userKey wrappingKey) (\<lambda>recoveryProtectedUserKey.
          andThen (deriveRecoveryAuthHash pf recoveryKey) (\<lambda>recoveryAuthHash.
            ret \<lparr> rb_recoverySalt = recoverySalt, rb_recoveryProtectedUserKey = recoveryProtectedUserKey,
                  rb_recoveryAuthHash = recoveryAuthHash, rb_params = params \<rparr>)))
         (zeroize [Some recoveryKey, Some wrappingKey]))))"

definition recoverUserKey :: "platform \<Rightarrow> jstr \<Rightarrow> jstr \<Rightarrow> bytes \<Rightarrow> KdfParams \<Rightarrow> ('z, addr) prog" where
  "recoverUserKey pf recoveryProtectedUserKey code recoverySalt params =
     andThen (deriveRecoveryKey pf code recoverySalt params) (\<lambda>recoveryKey.
     andThen (deriveRecoveryWrapKey pf recoveryKey) (\<lambda>wrappingKey.
       tryFinally (unwrapKey pf recoveryProtectedUserKey wrappingKey)
         (zeroize [Some recoveryKey, Some wrappingKey])))"

section \<open>Normalising what was typed\<close>

lemma checkCode_ok: "checkCode s = Inr () \<longleftrightarrow> set s \<subseteq> set CROCKFORD_ALPHABET"
  by (induction s) auto

lemma checkCode_cases: "checkCode s = Inr () \<or> (\<exists>m. checkCode s = Inl (InvalidRecoveryCodeError m))"
  by (induction s) auto

lemma normalizeRecoveryCode_ok:
  "normalizeRecoveryCode s = Inr c \<longleftrightarrow>
     c = normalizeCrockford s \<and> length c = CODE_LENGTH \<and> set c \<subseteq> set CROCKFORD_ALPHABET"
  by (auto simp: normalizeRecoveryCode_def Let_def bindR_eq_Inr checkCode_ok)

lemma normalize_alphabet: "set s \<subseteq> set CROCKFORD_ALPHABET \<Longrightarrow> normalizeCrockford s = s"
proof -
  assume s: "set s \<subseteq> set CROCKFORD_ALPHABET"
  have "map upper_unit s = map (\<lambda>c. [c]) s"
    using s by (intro map_cong refl crockford_unit(1)) auto
  then have "toUpperCase s = concat (map (\<lambda>c. [c]) s)" by (simp only: toUpperCase_def)
  then have up: "toUpperCase s = s" by simp
  have e: "\<not> isWhitespace c \<and> c \<noteq> 45 \<and> crockfordSubst c = c" if "c \<in> set s" for c
    using that s crockford_unit(2) by blast
  then show ?thesis by (simp add: normalizeCrockford_def up map_idI filter_id_conv)
qed

text \<open>
  Whatever is typed as a recovery code, the answer is a code of exactly 25 characters of the
  Crockford alphabet, unchanged by normalising it again, or the typed refusal
  \<^verbatim>\<open>InvalidRecoveryCodeError\<close>; no other error and no other shape.
\<close>

theorem normalize_recovery_code_total:
  "case normalizeRecoveryCode input of
     Inl e \<Rightarrow> (\<exists>m. e = InvalidRecoveryCodeError m)
   | Inr c \<Rightarrow> length c = 25 \<and> set c \<subseteq> set CROCKFORD_ALPHABET \<and> normalizeRecoveryCode c = Inr c"
proof (cases "normalizeRecoveryCode input")
  case (Inl e)
  then show ?thesis
    using checkCode_cases [of "normalizeCrockford input"]
    by (auto simp: normalizeRecoveryCode_def Let_def bindR_def split: if_splits)
next
  case (Inr c)
  then have "length c = 25" "set c \<subseteq> set CROCKFORD_ALPHABET" unfolding normalizeRecoveryCode_ok by blast+
  moreover from this have "normalizeRecoveryCode c = Inr c" by (simp add: normalizeRecoveryCode_ok normalize_alphabet)
  ultimately show ?thesis using Inr by simp
qed

lemma length_encodeCrockford: "length (encodeCrockford bs) = length bs"
proof -
  have "length (charAt CROCKFORD_ALPHABET (unat (b AND 31))) = 1" for b :: byte
  proof -
    have "unat (b AND 31) < 32" using word_and_le1 [of b 31] by (simp add: word_le_nat_alt)
    then show ?thesis by (simp add: charAt_def CROCKFORD_ALPHABET_def)
  qed
  then show ?thesis by (simp add: encodeCrockford_def length_concat comp_def sum_list_triv)
qed

lemma generated_accepted:
  assumes "generateRecoveryCode w = (Inr code, w')"
  shows "normalizeRecoveryCode code = Inr (encodeCrockford (drawn 25 w))" "w' = afterDraw 25 w"
proof -
  have c: "code = groupChars (encodeCrockford (drawn 25 w)) 5" and w: "w' = afterDraw 25 w"
    using assms by (simp_all add: generateRecoveryCode_def run_simps)
  have n: "normalizeCrockford code = encodeCrockford (drawn 25 w)" unfolding c by (rule normalize_grouped) simp
  show "normalizeRecoveryCode code = Inr (encodeCrockford (drawn 25 w))"
    unfolding normalizeRecoveryCode_ok n using encodeCrockford_set by (simp add: length_encodeCrockford)
  show "w' = afterDraw 25 w" by (rule w)
qed

section \<open>The blob\<close>

definition recoveryBytes :: "platform \<Rightarrow> jstr \<Rightarrow> bytes \<Rightarrow> KdfParams \<Rightarrow> bytes result" where
  "recoveryBytes pf code salt params =
     bindR (assertKdfSalt salt) (\<lambda>u.
         bindR (normalizeRecoveryCode code) (\<lambda>password.
           callArgon2id pf password salt params RECOVERY_KEY_BYTES))"

lemma recoveryBytes_length: "kdfLaws pf \<Longrightarrow> recoveryBytes pf code salt params = Inr rk \<Longrightarrow> length rk = 32"
  by (auto simp: recoveryBytes_def bindR_eq_Inr callArgon2id_def kdfLaws_def split: if_splits)

lemma recoveryBytes_cong:
  "normalizeCrockford typed = normalizeCrockford code \<Longrightarrow>
   recoveryBytes pf typed salt params = recoveryBytes pf code salt params"
  by (simp add: recoveryBytes_def normalizeRecoveryCode_def)

lemma deriveRecoveryKey_run:
  "recoveryBytes pf code salt params = Inr rk \<Longrightarrow>
     deriveRecoveryKey pf code salt params w = (Inr (length (wd_heap w)), pushBuf rk w)"
  "recoveryBytes pf code salt params = Inl e \<Longrightarrow> deriveRecoveryKey pf code salt params w = (Inl e, w)"
  unfolding recoveryBytes_def deriveRecoveryKey_def by (simp_all add: andThen_def ofResult_def newBuf_push)

abbreviation recoveryWrap :: "platform \<Rightarrow> bytes \<Rightarrow> bytes" where
  "recoveryWrap pf rk \<equiv> pf_hkdf pf rk RECOVERY_WRAP_INFO RECOVERY_KEY_BYTES"

abbreviation recoveryAuth :: "platform \<Rightarrow> bytes \<Rightarrow> bytes" where
  "recoveryAuth pf rk \<equiv> pf_hkdf pf rk RECOVERY_AUTH_INFO RECOVERY_KEY_BYTES"

lemma expandRecovery_run:
  "length (bufOf w a) = 32 \<Longrightarrow> deriveRecoveryWrapKey pf a w =
     (Inr (length (wd_heap w)), pushBuf (recoveryWrap pf (bufOf w a)) w)"
  "length (bufOf w a) = 32 \<Longrightarrow> deriveRecoveryAuthHash pf a w =
     (Inr (length (wd_heap w)), pushBuf (recoveryAuth pf (bufOf w a)) w)"
  by (simp_all add: deriveRecoveryWrapKey_def deriveRecoveryAuthHash_def expandRecovery_def andThen_def readBuf_def
      newBuf_push)

lemma createRecoveryBlob_fails:
  "recoveryBytes pf code (drawn 16 w) params = Inl e \<Longrightarrow>
   createRecoveryBlob pf a code params w = (Inl e, afterDraw 16 w)"
  by (simp add: createRecoveryBlob_def andThen_def generateKdfSalt_run deriveRecoveryKey_run)

lemma createRecoveryBlob_run:
  assumes "gcmLaw pf" "kdfLaws pf" "recoveryBytes pf code (drawn 16 w) params = Inr rk" "a < length (wd_heap w)"
  obtains blob w' where "createRecoveryBlob pf a code params w = (Inr blob, w')"
    "rb_recoverySalt blob = drawn 16 w" "rb_params blob = params"
    "opens pf (rb_recoveryProtectedUserKey blob) (recoveryWrap pf rk) (bufOf w a)"
    "rb_recoveryAuthHash blob = length (wd_heap w) + 2"
    "wd_heap w' = wd_heap w @ [zeroBytes 32, zeroBytes 32, recoveryAuth pf rk]" "world.more w' = world.more w"
proof -
  have rk: "length rk = 32" by (rule recoveryBytes_length [OF assms(2,3)])
  let ?n = "length (wd_heap w)"
  define w1 where "w1 = pushBuf (recoveryWrap pf rk) (pushBuf rk (afterDraw 16 w))"
  have heap1: "wd_heap w1 = wd_heap w @ [rk, recoveryWrap pf rk]" by (simp add: w1_def)
  have bufs: "bufOf w1 (Suc ?n) = recoveryWrap pf rk" "bufOf w1 a = bufOf w a" "bufOf w1 ?n = rk"
    using assms(4) by (simp_all add: w1_def)
  define p1 where "p1 = wrapText pf (bufOf w a) (recoveryWrap pf rk) (drawn 12 w1)"
  have wr: "wrapKey pf a (Suc ?n) w1 = (Inr p1, afterDraw 12 w1)"
    using wrapKey_run [of w1 "Suc ?n" pf a] assms(2) unfolding bufs by (simp add: p1_def)
  define blob where "blob = \<lparr> rb_recoverySalt = drawn 16 w, rb_recoveryProtectedUserKey = p1,
    rb_recoveryAuthHash = Suc (Suc ?n), rb_params = params \<rparr>"
  have au: "deriveRecoveryAuthHash pf ?n (afterDraw 12 w1) =
      (Inr (Suc (Suc ?n)), pushBuf (recoveryAuth pf rk) (afterDraw 12 w1))"
    using expandRecovery_run(2) [of "afterDraw 12 w1" ?n pf] rk by (simp add: bufs heap1)
  define w2 where "w2 = zeroize [Some ?n, Some (Suc ?n)] (pushBuf (recoveryAuth pf rk) (afterDraw 12 w1))"
  have run: "createRecoveryBlob pf a code params w = (Inr blob, w2)"
    unfolding createRecoveryBlob_def
    by (simp add: andThen_def tryFinally_def ret_def generateKdfSalt_run deriveRecoveryKey_run(1) [OF assms(3)] rk
        expandRecovery_run(1) w1_def [symmetric] wr au blob_def w2_def)
  show ?thesis
  proof (rule that [OF run])
    show "opens pf (rb_recoveryProtectedUserKey blob) (recoveryWrap pf rk) (bufOf w a)"
      using opens_wrapText [OF assms(1)] assms(2) by (simp add: blob_def p1_def)
    show "wd_heap w2 = wd_heap w @ [zeroBytes 32, zeroBytes 32, recoveryAuth pf rk]"
      using rk assms(2) by (simp add: w2_def clearBuf_heap heap1 bufOf_def nth_append list_update_append)
    show "world.more w2 = world.more w" by (simp add: w2_def w1_def clearBuf_def)
  qed (simp_all add: blob_def)
qed

lemma recoverUserKey_run:
  assumes "kdfLaws pf" "recoveryBytes pf code salt params = Inr rk" "opens pf s (recoveryWrap pf rk) user"
  shows "\<exists>w'. recoverUserKey pf s code salt params w = (Inr (length (wd_heap w) + 2), w') \<and>
    wd_heap w' = wd_heap w @ [zeroBytes 32, zeroBytes 32, user]"
proof -
  have rk: "length rk = 32" by (rule recoveryBytes_length [OF assms(1,2)])
  let ?n = "length (wd_heap w)"
  define w1 where "w1 = pushBuf (recoveryWrap pf rk) (pushBuf rk w)"
  have heap1: "wd_heap w1 = wd_heap w @ [rk, recoveryWrap pf rk]" by (simp add: w1_def)
  have un: "unwrapKey pf s (Suc ?n) w1 = (Inr (Suc (Suc ?n)), pushBuf user w1)"
    using unwrapKey_run [of pf s w1 "Suc ?n" user] assms(3) by (simp add: w1_def)
  show ?thesis
    unfolding recoverUserKey_def
    using rk assms(1)
    by (simp add: andThen_def tryFinally_def deriveRecoveryKey_run(1) [OF assms(2)] expandRecovery_run(1)
        w1_def [symmetric] un clearBuf_heap heap1 bufOf_def nth_append list_update_append)
qed

text \<open>
  A recovery code works. The blob \<^verbatim>\<open>createRecoveryBlob\<close> made with a code opens, given the
  code typed in any grouping and case and with the transcription slips Crockford's alphabet
  allows for, to the user key it was made from; both operations leave every buffer they allocated
  zero except the one they return, and no other buffer changed.
\<close>

theorem recovery_roundtrip:
  assumes "gcmLaw pf" "kdfLaws pf" "userKey < length (wd_heap w)"
    and "createRecoveryBlob pf userKey code params w = (Inr blob, w1)"
    and "normalizeCrockford typed = normalizeCrockford code"
  shows "tidy w w1 {rb_recoveryAuthHash blob} \<and>
    (\<exists>a w3. recoverUserKey pf (rb_recoveryProtectedUserKey blob) typed (rb_recoverySalt blob) (rb_params blob) device =
        (Inr a, w3) \<and> bufOf w3 a = bufOf w userKey \<and> tidy device w3 {a})"
proof (cases "recoveryBytes pf code (drawn 16 w) params")
  case (Inl e)
  then show ?thesis using assms(4) by (simp add: createRecoveryBlob_fails)
next
  case (Inr rk)
  from createRecoveryBlob_run [OF assms(1,2) Inr assms(3)] obtain blob' w' where b:
    "createRecoveryBlob pf userKey code params w = (Inr blob', w')"
    "rb_recoverySalt blob' = drawn 16 w" "rb_params blob' = params"
    "opens pf (rb_recoveryProtectedUserKey blob') (recoveryWrap pf rk) (bufOf w userKey)"
    "rb_recoveryAuthHash blob' = length (wd_heap w) + 2"
    "wd_heap w' = wd_heap w @ [zeroBytes 32, zeroBytes 32, recoveryAuth pf rk]" by metis
  have same: "blob' = blob" "w' = w1" using b(1) assms(4) by auto
  have t: "tidy w w1 {rb_recoveryAuthHash blob}"
    using b(5,6) unfolding same by (intro tidy_heap) (auto simp: less_Suc_eq)
  have "recoveryBytes pf typed (drawn 16 w) params = Inr rk" using Inr recoveryBytes_cong [OF assms(5)] by simp
  from recoverUserKey_run [OF assms(2) this b(4), of device] obtain w3 where w3:
    "recoverUserKey pf (rb_recoveryProtectedUserKey blob) typed (drawn 16 w) params device =
       (Inr (length (wd_heap device) + 2), w3)"
    "wd_heap w3 = wd_heap device @ [zeroBytes 32, zeroBytes 32, bufOf w userKey]" unfolding same by metis
  have "bufOf w3 (length (wd_heap device) + 2) = bufOf w userKey" by (simp add: bufOf_def w3(2) nth_append)
  moreover have "tidy device w3 {length (wd_heap device) + 2}"
    by (rule tidy_heap [OF w3(2)]) (auto simp: less_Suc_eq)
  ultimately show ?thesis using t w3(1) b(2,3) unfolding same by simp
qed

theorem recovery_roundtrip_witness:
  "\<exists>code w blob w1 a w3. generateRecoveryCode sampleWorld = (Inr code, w) \<and>
     createRecoveryBlob samplePlatform 0 code sampleParams w = (Inr blob, w1) \<and>
     recoverUserKey samplePlatform (rb_recoveryProtectedUserKey blob) code (rb_recoverySalt blob) (rb_params blob)
       sampleWorld = (Inr a, w3) \<and> bufOf w3 a = replicate 32 7"
proof -
  obtain code w where g: "generateRecoveryCode sampleWorld = (Inr code, w)"
    by (simp add: generateRecoveryCode_def run_simps)
  note ok = generated_accepted [OF g]
  have n: "0 < length (wd_heap w)" and b: "bufOf w 0 = replicate 32 7"
    by (simp_all add: ok(2) sampleWorld_def bufOf_def)
  have "recoveryBytes samplePlatform code (drawn 16 w) sampleParams =
      Inr (padTo 32 (utf8Encode (encodeCrockford (drawn 25 sampleWorld)) @ drawn 16 w))"
    by (simp add: recoveryBytes_def assertKdfSalt_def ok(1) callArgon2id_def sampleParams_def jsObj_def
        samplePlatform_def)
  from createRecoveryBlob_run [OF sample_laws(1,2) this n] obtain blob w1 where
    c: "createRecoveryBlob samplePlatform 0 code sampleParams w = (Inr blob, w1)" by metis
  show ?thesis using g c recovery_roundtrip [OF sample_laws(1,2) n c refl, of sampleWorld] unfolding b by blast
qed

end
