(* ===== verification/Api.thy ===== *)
theory Api
  imports World JsonText
begin

text \<open>
  The API client (\<^verbatim>\<open>packages/vault/src/api.ts\<close>): one request, at most one retry after a
  refresh, and the one place where a response becomes a result or a typed failure. The platform's
  \<^verbatim>\<open>fetch\<close> is an argument: a function of the request and of the server's state, which may
  fail to reach the server (\<open>None\<close>).
\<close>

record Request =
  rq_method :: jstr
  rq_path :: jstr
  rq_authorization :: "jstr option"
  rq_body :: "jstr option"

record Response =
  rp_status :: nat
  rp_contentLength :: "jstr option"
  rp_text :: "jstr option"

text \<open>\<^verbatim>\<open>response.ok\<close>, and \<^verbatim>\<open>response.text()\<close>, which rejects when the body breaks off.\<close>

definition rp_ok :: "Response \<Rightarrow> bool" where
  "rp_ok r = (200 \<le> rp_status r \<and> rp_status r \<le> 299)"

record 's served = world +
  sv_server :: 's

type_synonym ('s, 'z) fetch = "Request \<Rightarrow> ('s, 'z) served_scheme \<Rightarrow> Response option \<times> ('s, 'z) served_scheme"

section \<open>Errors\<close>

definition codeOf :: "json option \<Rightarrow> ApiErrorCode" where
  "codeOf raw =
     (if raw = Some (JStr (js ''bad_request'')) then BadRequest
      else if raw = Some (JStr (js ''unauthorized'')) then Unauthorized
      else if raw = Some (JStr (js ''forbidden'')) then Forbidden
      else if raw = Some (JStr (js ''not_found'')) then NotFound
      else if raw = Some (JStr (js ''conflict'')) then Conflict
      else if raw = Some (JStr (js ''rate_limited'')) then RateLimited
      else Internal)"

text \<open>\<^verbatim>\<open>a?.b\<close> and \<^verbatim>\<open>a ?? b\<close> on parsed values: \<^verbatim>\<open>null\<close> has no properties.\<close>

definition optField :: "json option \<Rightarrow> string \<Rightarrow> json option" where
  "optField v k = (case v of None \<Rightarrow> None | Some x \<Rightarrow> field x (js k))"

definition nullish :: "json option \<Rightarrow> bool" where
  "nullish v = (v = None \<or> v = Some JNull)"

definition toApiError :: "nat \<Rightarrow> json \<Rightarrow> exn" where
  "toApiError status body =
     (let envelope = optField (Some body) ''error'';
          code = codeOf (optField envelope ''code'');
          message = optField envelope ''message''
      in case (if nullish message then Some (js ''The server returned an error'') else optString message) of
           None \<Rightarrow> TypeError
         | Some text \<Rightarrow> ApiError code status text (Some body))"

section \<open>The client\<close>

record ('s, 'z) ApiClientOptions =
  op_baseUrl :: jstr
  op_getAccessToken :: "('s, 'z) served_scheme \<Rightarrow> jstr option"
  op_onUnauthorized :: "('s, 'z) served_scheme \<Rightarrow> bool \<times> ('s, 'z) served_scheme"
  op_fetch :: "('s, 'z) fetch"

definition apiSend ::
  "('s, 'z) ApiClientOptions \<Rightarrow> jstr \<Rightarrow> jstr \<Rightarrow> json option \<Rightarrow> ('s, 'z) served_scheme \<Rightarrow>
   Response result \<times> ('s, 'z) served_scheme" where
  "apiSend opts verb path body w =
     (let token = op_getAccessToken opts w;
          request = \<lparr> rq_method = verb, rq_path = op_baseUrl opts @ path,
                      rq_authorization = map_option (\<lambda>t. js ''Bearer '' @ t) token,
                      rq_body = map_option stringify body \<rparr>
      in case op_fetch opts request w of
           (None, w') \<Rightarrow> (Inl NetworkError, w')
         | (Some r, w') \<Rightarrow> (Inr r, w'))"

text \<open>What a response means: the result, or what is thrown.\<close>

definition interpretResponse :: "Response \<Rightarrow> json result" where
  "interpretResponse response =
     (if rp_status response = 204 \<or> rp_contentLength response = Some (js ''0'') then Inr JNull
      else case rp_text response of
          None \<Rightarrow> Inl TypeError
        | Some text \<Rightarrow>
            (let parsed = (if text = [] then Some JNull else jsonParse text) in
             if parsed = None \<and> rp_ok response
             then Inl (ApiError Internal (rp_status response) (js ''Malformed response'') (Some (JStr text)))
             else if \<not> rp_ok response then Inl (toApiError (rp_status response) (orElse parsed JNull))
             else Inr (orElse parsed JNull)))"

definition apiRequest ::
  "('s, 'z) ApiClientOptions \<Rightarrow> jstr \<Rightarrow> jstr \<Rightarrow> json option \<Rightarrow> ('s, 'z) served_scheme \<Rightarrow>
   json result \<times> ('s, 'z) served_scheme" where
  "apiRequest opts verb path body w =
     (case apiSend opts verb path body w of
        (Inl e, w1) \<Rightarrow> (Inl e, w1)
      | (Inr first, w1) \<Rightarrow>
          if rp_status first = 401 then
            (case op_onUnauthorized opts w1 of
               (True, w2) \<Rightarrow>
                 (case apiSend opts verb path body w2 of
                    (Inl e, w3) \<Rightarrow> (Inl e, w3)
                  | (Inr second, w3) \<Rightarrow> (interpretResponse second, w3))
             | (False, w2) \<Rightarrow> (interpretResponse first, w2))
          else (interpretResponse first, w1))"

definition apiGet where "apiGet opts path = apiRequest opts (js ''GET'') path None"
definition apiPost where "apiPost opts path body = apiRequest opts (js ''POST'') path body"
definition apiPut where "apiPut opts path body = apiRequest opts (js ''PUT'') path (Some body)"
definition apiPatch where "apiPatch opts path body = apiRequest opts (js ''PATCH'') path (Some body)"
definition apiDel where "apiDel opts path = apiRequest opts (js ''DELETE'') path None"

section \<open>How many requests a call makes\<close>

text \<open>A fetch that counts: the server's state carries the number of requests it was sent.\<close>

definition countingFetch :: "(Request \<Rightarrow> Response option) \<Rightarrow> (nat, 'z) fetch" where
  "countingFetch answer request w = (answer request, w\<lparr> sv_server := Suc (sv_server w) \<rparr>)"

text \<open>
  A call sends its request once, and a second time only after a 401 that the refresh callback
  said is worth retrying; there is never a third. Stated for any answers of the server, a refresh
  callback that itself sends nothing through this client, and a server that counts what it is
  sent.
\<close>

theorem api_at_most_one_retry:
  assumes "op_fetch opts = countingFetch answer"
    and "\<And>w. sv_server (snd (op_onUnauthorized opts w)) = sv_server w"
    and "apiRequest opts verb path body w = (r, w')"
  shows "sv_server w' = Suc (sv_server w) \<or>
    sv_server w' = Suc (Suc (sv_server w)) \<and>
      (\<exists>request first w1. answer request = Some first \<and> rp_status first = 401 \<and> fst (op_onUnauthorized opts w1))"
proof -
  obtain r1 w1 where s1: "apiSend opts verb path body w = (r1, w1)" by fastforce
  have n: "sv_server w1' = Suc (sv_server v)" and a: "r1' = Inr resp \<Longrightarrow> \<exists>request. answer request = Some resp"
    if "apiSend opts verb path body v = (r1', w1')" for v r1' w1' resp
    using that by (auto simp: apiSend_def assms(1) countingFetch_def Let_def split: option.splits prod.splits)
  obtain b w2 where u: "op_onUnauthorized opts w1 = (b, w2)" by fastforce
  have n2: "sv_server w2 = sv_server w1" using assms(2) [of w1] u by simp
  show ?thesis
  proof (cases r1)
    case (Inl e)
    then show ?thesis using assms(3) s1 n [OF s1] by (auto simp: apiRequest_def)
  next
    case (Inr first)
    show ?thesis
    proof (cases "rp_status first = 401 \<and> b")
      case False
      then show ?thesis
        using assms(3) s1 n [OF s1] Inr u n2 by (cases b) (auto simp: apiRequest_def split: if_splits)
    next
      case True
      obtain r3 w3 where s3: "apiSend opts verb path body w2 = (r3, w3)" by fastforce
      have "w' = w3" using assms(3) s1 Inr True u s3 by (auto simp: apiRequest_def split: sum.splits)
      then have "sv_server w' = Suc (Suc (sv_server w))" using n [OF s3] n2 n [OF s1] by simp
      moreover have "\<exists>request. answer request = Some first" by (rule a [OF s1 Inr])
      moreover have "fst (op_onUnauthorized opts w1)" using u True by simp
      ultimately show ?thesis using True by blast
    qed
  qed
qed

definition sampleOptions :: "(nat, unit) ApiClientOptions" where
  "sampleOptions =
     \<lparr> op_baseUrl = [], op_getAccessToken = (\<lambda>w. None), op_onUnauthorized = (\<lambda>w. (True, w)),
       op_fetch = countingFetch (\<lambda>request. Some \<lparr> rp_status = 401, rp_contentLength = None, rp_text = Some [] \<rparr>) \<rparr>"

definition sampleServed :: "nat served" where
  "sampleServed = \<lparr> wd_random = (\<lambda>i. 0), wd_heap = [], sv_server = 0 \<rparr>"

theorem api_at_most_one_retry_witness:
  "\<exists>r w'. apiRequest sampleOptions (js ''GET'') (js ''/api/sync'') None sampleServed = (r, w') \<and>
     (sv_server w' = 1 \<or> sv_server w' = 2)"
proof -
  obtain r w' where run: "apiRequest sampleOptions (js ''GET'') (js ''/api/sync'') None sampleServed = (r, w')" by fastforce
  have "sv_server (snd (op_onUnauthorized sampleOptions w)) = sv_server w" for w by (simp add: sampleOptions_def)
  from api_at_most_one_retry [OF _ this run] run show ?thesis
    by (fastforce simp: sampleOptions_def sampleServed_def)
qed

text \<open>
  An error with an empty body is reported as success: a response with \<^verbatim>\<open>Content-Length: 0\<close>
  resolves to \<^verbatim>\<open>null\<close> whatever its status, because that check comes before the status is
  looked at. A refusal such as a bare 500 or 403 from a proxy is then taken for a completed write.
\<close>

theorem empty_error_is_success:
  "interpretResponse \<lparr> rp_status = status, rp_contentLength = Some (js ''0''), rp_text = text \<rparr> = Inr JNull"
  by (simp add: interpretResponse_def)

text \<open>Apart from that, a status that is not a success never becomes a result.\<close>

lemma failure_is_thrown:
  "\<not> rp_ok r \<Longrightarrow> rp_contentLength r \<noteq> Some (js ''0'') \<Longrightarrow> \<exists>e. interpretResponse r = Inl e"
  by (auto simp: interpretResponse_def rp_ok_def Let_def split: option.split)

end
