(* ===== verification/Session.thy ===== *)
theory Session
  imports Api
begin

text \<open>
  The session (\<^verbatim>\<open>packages/vault/src/session.ts\<close>): the one holder of keys. Its closure
  variables are a record; the keys are addresses of buffers, so that clearing a key and sharing
  one between two key rings mean what they mean in the source.

  Shown: a key given to the session is, at every later moment, either still held or zero, along
  any sequence of operations; locking clears every key and forgets everything else; replacing the
  key ring clears exactly the keys it drops.
\<close>

record SessionTokens =
  st_accessToken :: jstr
  st_refreshToken :: jstr

record SessionUser =
  su_id :: jstr
  su_email :: jstr
  su_name :: jstr
  su_role :: jstr

record Session =
  se_tokens :: "SessionTokens option"
  se_user :: "SessionUser option"
  se_userKey :: "addr option"
  se_privateKey :: "addr option"
  se_collectionKeys :: "(jstr, addr) jmap"
  se_listeners :: "nat list"
  se_notified :: "nat list"

record 's app = "'s served" +
  ap_session :: Session

definition createSession :: Session where
  "createSession =
     \<lparr> se_tokens = None, se_user = None, se_userKey = None, se_privateKey = None, se_collectionKeys = [],
       se_listeners = [], se_notified = [] \<rparr>"

text \<open>Listeners are named by numbers; \<open>se_notified\<close> records who was called, in order.\<close>

definition notifyListeners :: "Session \<Rightarrow> Session" where
  "notifyListeners s = s\<lparr> se_notified := se_notified s @ se_listeners s \<rparr>"

definition isUnlocked :: "Session \<Rightarrow> bool" where
  "isUnlocked s = (se_userKey s \<noteq> None \<and> se_privateKey s \<noteq> None)"

definition getAccessToken :: "Session \<Rightarrow> jstr option" where
  "getAccessToken s = map_option st_accessToken (se_tokens s)"

definition getRefreshToken :: "Session \<Rightarrow> jstr option" where
  "getRefreshToken s = map_option st_refreshToken (se_tokens s)"

definition getKeys :: "Session \<Rightarrow> (addr \<times> addr) result" where
  "getKeys s =
     (case (se_userKey s, se_privateKey s) of
        (Some userKey, Some privateKey) \<Rightarrow> Inr (userKey, privateKey)
      | _ \<Rightarrow> Inl (JsError (js ''The vault is locked'')))"

definition getCollectionKey :: "Session \<Rightarrow> jstr \<Rightarrow> addr option" where
  "getCollectionKey s collectionId = mapGet (se_collectionKeys s) collectionId"

definition collectionIds :: "Session \<Rightarrow> jstr list" where
  "collectionIds s = map fst (se_collectionKeys s)"

definition heldKeys :: "Session \<Rightarrow> addr option list" where
  "heldKeys s = [se_userKey s, se_privateKey s] @ map (\<lambda>(i, a). Some a) (se_collectionKeys s)"

text \<open>The loop of \<^verbatim>\<open>setCollectionKeys\<close>: a key is compared by identity, under its own id.\<close>

fun dropOldKeys :: "(jstr, addr) jmap \<Rightarrow> (jstr, addr) jmap \<Rightarrow> 'z world_scheme \<Rightarrow> 'z world_scheme" where
  "dropOldKeys newRing [] w = w"
| "dropOldKeys newRing ((i, key) # ring) w =
     dropOldKeys newRing ring (if mapGet newRing i \<noteq> Some key then zeroize [Some key] w else w)"

definition setCollectionKeys :: "(jstr, addr) jmap \<Rightarrow> ('s, 'z) app_scheme \<Rightarrow> ('s, 'z) app_scheme" where
  "setCollectionKeys newRing w =
     (dropOldKeys newRing (se_collectionKeys (ap_session w)) w)\<lparr> ap_session := (ap_session w)\<lparr> se_collectionKeys := newRing \<rparr> \<rparr>"

definition openSession ::
  "SessionTokens \<Rightarrow> SessionUser \<Rightarrow> addr \<Rightarrow> addr \<Rightarrow> ('s, 'z) app_scheme \<Rightarrow> ('s, 'z) app_scheme" where
  "openSession tokens user userKey privateKey w =
     (let s = ap_session w in
      (zeroize (heldKeys s) w)\<lparr> ap_session := notifyListeners
         (s\<lparr> se_collectionKeys := [], se_tokens := Some tokens, se_user := Some user,
             se_userKey := Some userKey, se_privateKey := Some privateKey \<rparr>) \<rparr>)"

definition replaceTokens :: "SessionTokens \<Rightarrow> ('s, 'z) app_scheme \<Rightarrow> ('s, 'z) app_scheme" where
  "replaceTokens tokens w = w\<lparr> ap_session := (ap_session w)\<lparr> se_tokens := Some tokens \<rparr> \<rparr>"

definition lock :: "('s, 'z) app_scheme \<Rightarrow> ('s, 'z) app_scheme" where
  "lock w =
     (let s = ap_session w in
      (zeroize (heldKeys s) w)\<lparr> ap_session := notifyListeners
         (s\<lparr> se_collectionKeys := [], se_userKey := None, se_privateKey := None, se_tokens := None,
             se_user := None \<rparr>) \<rparr>)"

definition subscribeSession :: "nat \<Rightarrow> Session \<Rightarrow> Session" where
  "subscribeSession l s = (if l \<in> set (se_listeners s) then s else s\<lparr> se_listeners := se_listeners s @ [l] \<rparr>)"

definition unsubscribeSession :: "nat \<Rightarrow> Session \<Rightarrow> Session" where
  "unsubscribeSession l s = s\<lparr> se_listeners := filter (\<lambda>x. x \<noteq> l) (se_listeners s) \<rparr>"

section \<open>Clearing\<close>

lemma bufOf_more [simp]: "bufOf (w\<lparr> ap_session := s \<rparr>) a = bufOf w a"
  by (simp add: bufOf_def)

lemma heap_more [simp]: "wd_heap (w\<lparr> ap_session := s \<rparr>) = wd_heap w"
  by simp

lemma heldKeys_set:
  "Some a \<in> set (heldKeys s) \<longleftrightarrow>
     se_userKey s = Some a \<or> se_privateKey s = Some a \<or> a \<in> snd ` set (se_collectionKeys s)"
  by (force simp: heldKeys_def)

definition held :: "Session \<Rightarrow> addr set" where
  "held s = {a. Some a \<in> set (heldKeys s)}"

lemma dropOldKeys_clear: "isClear (bufOf w a) \<Longrightarrow> isClear (bufOf (dropOldKeys newRing ring w) a)"
  by (induction newRing ring w rule: dropOldKeys.induct) (auto simp: clearBuf_keeps_clear)

lemma dropOldKeys_length [simp]: "length (wd_heap (dropOldKeys newRing ring w)) = length (wd_heap w)"
  by (induction newRing ring w rule: dropOldKeys.induct) auto

lemma dropOldKeys_drops:
  "(i, a) \<in> set ring \<Longrightarrow> mapGet newRing i \<noteq> Some a \<Longrightarrow> isClear (bufOf (dropOldKeys newRing ring w) a)"
  by (induction newRing ring w rule: dropOldKeys.induct) (auto simp: dropOldKeys_clear)

lemma dropOldKeys_keeps:
  "\<not> (\<exists>i. (i, a) \<in> set ring \<and> mapGet newRing i \<noteq> Some a) \<Longrightarrow> bufOf (dropOldKeys newRing ring w) a = bufOf w a"
proof (induction newRing ring w rule: dropOldKeys.induct)
  case (2 newRing i key ring w)
  have "mapGet newRing i \<noteq> Some key \<Longrightarrow> key \<noteq> a" using 2(2) by auto
  moreover have "\<not> (\<exists>i. (i, a) \<in> set ring \<and> mapGet newRing i \<noteq> Some a)" using 2(2) by auto
  ultimately show ?case using 2(1) by simp
qed simp

lemma dropOldKeys_more [simp]: "world.more (dropOldKeys newRing ring w) = world.more w"
  by (induction newRing ring w rule: dropOldKeys.induct) (auto simp: clearBuf_def)

lemma setCollectionKeys_session [simp]:
  "ap_session (setCollectionKeys newRing w) = (ap_session w)\<lparr> se_collectionKeys := newRing \<rparr>"
  by (simp add: setCollectionKeys_def)

lemma setCollectionKeys_buf:
  "(\<exists>i. (i, a) \<in> set (se_collectionKeys (ap_session w)) \<and> mapGet newRing i \<noteq> Some a) \<Longrightarrow>
     isClear (bufOf (setCollectionKeys newRing w) a)"
  "\<not> (\<exists>i. (i, a) \<in> set (se_collectionKeys (ap_session w)) \<and> mapGet newRing i \<noteq> Some a) \<Longrightarrow>
     bufOf (setCollectionKeys newRing w) a = bufOf w a"
  "isClear (bufOf w a) \<Longrightarrow> isClear (bufOf (setCollectionKeys newRing w) a)"
  by (auto simp: setCollectionKeys_def dropOldKeys_drops dropOldKeys_keeps dropOldKeys_clear)

lemma lock_buf: "a \<in> held (ap_session w) \<Longrightarrow> isClear (bufOf (lock w) a)"
  "a \<notin> held (ap_session w) \<Longrightarrow> bufOf (lock w) a = bufOf w a"
  by (simp_all add: lock_def Let_def held_def zeroize_clears zeroize_other)

lemma open_buf: "a \<in> held (ap_session w) \<Longrightarrow> isClear (bufOf (openSession t u uk pk w) a)"
  "a \<notin> held (ap_session w) \<Longrightarrow> bufOf (openSession t u uk pk w) a = bufOf w a"
  by (simp_all add: openSession_def Let_def held_def zeroize_clears zeroize_other)

lemma lock_session:
  "held (ap_session (lock w)) = {}" "\<not> isUnlocked (ap_session (lock w))"
  "getAccessToken (ap_session (lock w)) = None" "getRefreshToken (ap_session (lock w)) = None"
  "se_user (ap_session (lock w)) = None" "getKeys (ap_session (lock w)) = Inl (JsError (js ''The vault is locked''))"
  "se_notified (ap_session (lock w)) = se_notified (ap_session w) @ se_listeners (ap_session w)"
  by (simp_all add: lock_def Let_def notifyListeners_def held_def heldKeys_def isUnlocked_def getAccessToken_def
      getRefreshToken_def getKeys_def)

text \<open>
  Locking clears every key: after \<^verbatim>\<open>lock\<close> each buffer the session held is zero, no other
  buffer has changed, the session holds no key, token or user, reading the keys throws, and every
  listener has been told once.
\<close>

theorem lock_clears:
  "(\<forall>a. if a \<in> held (ap_session w) then isClear (bufOf (lock w) a) else bufOf (lock w) a = bufOf w a) \<and>
   held (ap_session (lock w)) = {} \<and> \<not> isUnlocked (ap_session (lock w)) \<and>
   getAccessToken (ap_session (lock w)) = None \<and> getRefreshToken (ap_session (lock w)) = None \<and>
   se_user (ap_session (lock w)) = None \<and> getKeys (ap_session (lock w)) = Inl (JsError (js ''The vault is locked'')) \<and>
   se_notified (ap_session (lock w)) = se_notified (ap_session w) @ se_listeners (ap_session w)"
  using lock_session [of w] lock_buf [of _ w] by simp

text \<open>
  Replacing the key ring clears exactly the keys it drops: a collection key is zero afterwards
  if the new ring does not hold that very buffer under the same id, and every key the new ring
  carries over unchanged, and every other buffer, is as it was. No buffer may stand under two ids.
\<close>

theorem ring_replacement:
  assumes "inj_on snd (set (se_collectionKeys (ap_session w)))" "(i, a) \<in> set (se_collectionKeys (ap_session w))"
  shows "(if mapGet newRing i = Some a then bufOf (setCollectionKeys newRing w) a = bufOf w a
          else isClear (bufOf (setCollectionKeys newRing w) a)) \<and>
    (b \<notin> snd ` set (se_collectionKeys (ap_session w)) \<longrightarrow> bufOf (setCollectionKeys newRing w) b = bufOf w b) \<and>
    getCollectionKey (ap_session (setCollectionKeys newRing w)) i = mapGet newRing i"
proof -
  have u: "j = i" if "(j, a) \<in> set (se_collectionKeys (ap_session w))" for j
    using inj_onD [OF assms(1), of "(j, a)" "(i, a)"] that assms(2) by auto
  have "bufOf (setCollectionKeys newRing w) a = bufOf w a" if "mapGet newRing i = Some a"
    using that u by (intro setCollectionKeys_buf(2)) auto
  moreover have "isClear (bufOf (setCollectionKeys newRing w) a)" if "mapGet newRing i \<noteq> Some a"
    using that assms(2) by (intro setCollectionKeys_buf(1)) auto
  moreover have "bufOf (setCollectionKeys newRing w) b = bufOf w b" if "b \<notin> snd ` set (se_collectionKeys (ap_session w))"
    using that by (intro setCollectionKeys_buf(2)) force
  ultimately show ?thesis by (simp add: getCollectionKey_def)
qed

definition sampleApp :: "unit app" where
  "sampleApp =
     \<lparr> wd_random = (\<lambda>i. 0), wd_heap = [[1], [2], [3], [4]], sv_server = (),
       ap_session = createSession\<lparr> se_userKey := Some 0, se_privateKey := Some 1,
         se_collectionKeys := [(js ''a'', 2), (js ''b'', 3)] \<rparr> \<rparr>"

theorem ring_replacement_witness:
  "isClear (bufOf (setCollectionKeys [(js ''b'', 3)] sampleApp) 2) \<and>
   bufOf (setCollectionKeys [(js ''b'', 3)] sampleApp) 3 = [4]"
proof -
  have i: "inj_on snd (set (se_collectionKeys (ap_session sampleApp)))" by (simp add: sampleApp_def createSession_def)
  have m: "(js ''a'', 2) \<in> set (se_collectionKeys (ap_session sampleApp))"
    "(js ''b'', 3) \<in> set (se_collectionKeys (ap_session sampleApp))" by (simp_all add: sampleApp_def createSession_def)
  have b: "bufOf sampleApp 3 = [4]" by (simp add: sampleApp_def bufOf_def)
  show ?thesis
    using ring_replacement [OF i m(1), of "[(js ''b'', 3)]"] ring_replacement [OF i m(2), of "[(js ''b'', 3)]"] b
    by (simp add: mapGet_def)
qed

section \<open>Every operation, in any order\<close>

text \<open>
  A step of the session's life, with the set of keys it has ever been given. The keys handed to
  \<^verbatim>\<open>open\<close> are buffers it never had; a new ring holds, under each id, the buffer the session
  already holds there or one it never had, which is how \<^verbatim>\<open>adoptCollections\<close> and
  \<^verbatim>\<open>createCollection\<close> build it; other code may do anything to buffers that are not the
  session's, and clear its own.
\<close>

definition ringFor :: "addr set \<Rightarrow> Session \<Rightarrow> (jstr, addr) jmap \<Rightarrow> bool" where
  "ringFor given s newRing =
     (mapWf newRing \<and> (\<forall>(i, a) \<in> set newRing. mapGet (se_collectionKeys s) i = Some a \<or> a \<notin> given))"

inductive session_step ::
  "addr set \<times> ('s, 'z) app_scheme \<Rightarrow> addr set \<times> ('s, 'z) app_scheme \<Rightarrow> bool" where
  step_open: "uk \<notin> given \<Longrightarrow> pk \<notin> given \<Longrightarrow>
     session_step (given, w) (insert uk (insert pk given), openSession tokens user uk pk w)"
| step_ring: "ringFor given (ap_session w) newRing \<Longrightarrow>
     session_step (given, w) (given \<union> snd ` set newRing, setCollectionKeys newRing w)"
| step_tokens: "session_step (given, w) (given, replaceTokens tokens w)"
| step_lock: "session_step (given, w) (given, lock w)"
| step_other: "ap_session w' = ap_session w \<Longrightarrow> (\<And>a. a \<in> given \<Longrightarrow> bufOf w' a = bufOf w a) \<Longrightarrow>
     session_step (given, w) (given, w')"

inductive session_reach :: "addr set \<times> ('s, 'z) app_scheme \<Rightarrow> bool" where
  reach_init: "ap_session w = createSession \<Longrightarrow> session_reach ({}, w)"
| reach_step: "session_reach x \<Longrightarrow> session_step x y \<Longrightarrow> session_reach y"

definition sessionInv :: "addr set \<Rightarrow> ('s, 'z) app_scheme \<Rightarrow> bool" where
  "sessionInv given w =
     (held (ap_session w) \<subseteq> given \<and> mapWf (se_collectionKeys (ap_session w)) \<and>
      (\<forall>a \<in> given. a \<in> held (ap_session w) \<or> isClear (bufOf w a)))"

lemma held_open: "held (ap_session (openSession t u uk pk w)) = {uk, pk}"
  by (auto simp: openSession_def Let_def held_def heldKeys_def notifyListeners_def)

lemma held_eq:
  "held s = {a. se_userKey s = Some a \<or> se_privateKey s = Some a} \<union> snd ` set (se_collectionKeys s)"
  unfolding held_def heldKeys_set by auto

lemma held_ring:
  "held (ap_session (setCollectionKeys newRing w)) =
     {a. se_userKey (ap_session w) = Some a \<or> se_privateKey (ap_session w) = Some a} \<union> snd ` set newRing"
  by (simp add: held_eq)

lemma held_tokens: "held (ap_session (replaceTokens t w)) = held (ap_session w)"
  by (simp add: replaceTokens_def held_def heldKeys_def)

lemma ring_step_inv:
  assumes "sessionInv given w" "ringFor given (ap_session w) newRing"
  shows "sessionInv (given \<union> snd ` set newRing) (setCollectionKeys newRing w)"
  unfolding sessionInv_def
proof (intro conjI ballI)
  show "held (ap_session (setCollectionKeys newRing w)) \<subseteq> given \<union> snd ` set newRing"
    using assms(1) unfolding held_ring sessionInv_def held_eq [of "ap_session w"] by blast
  show "mapWf (se_collectionKeys (ap_session (setCollectionKeys newRing w)))"
    using assms(2) by (simp add: ringFor_def)
next
  fix a assume "a \<in> given \<union> snd ` set newRing"
  show "a \<in> held (ap_session (setCollectionKeys newRing w)) \<or> isClear (bufOf (setCollectionKeys newRing w) a)"
  proof (cases "a \<in> held (ap_session (setCollectionKeys newRing w))")
    case False
    then have nr: "a \<notin> snd ` set newRing" unfolding held_ring by blast
    then have g: "a \<in> given" using \<open>a \<in> _\<close> by blast
    show ?thesis
    proof (cases "a \<in> held (ap_session w)")
      case True
      then obtain i where "(i, a) \<in> set (se_collectionKeys (ap_session w))"
        using False unfolding held_eq [of "ap_session w"] held_ring by auto
      moreover have "mapGet newRing i \<noteq> Some a" using nr by (force simp: mapGet_def dest: map_of_SomeD)
      ultimately show ?thesis using setCollectionKeys_buf(1) by blast
    next
      case False
      then have "isClear (bufOf w a)" using assms(1) g by (auto simp: sessionInv_def)
      then show ?thesis using setCollectionKeys_buf(3) by blast
    qed
  qed simp
qed

lemma session_step_inv:
  assumes "sessionInv given w" "session_step (given, w) (given', w')"
  shows "sessionInv given' w'"
  using assms(2)
proof (cases rule: session_step.cases)
  case (step_open uk pk tokens user)
  have "a \<in> {uk, pk} \<or> isClear (bufOf w' a)" if "a \<in> given'" for a
  proof (cases "a \<in> held (ap_session w)")
    case True
    then show ?thesis using step_open open_buf(1) by blast
  next
    case False
    then show ?thesis using step_open that assms(1) open_buf(2) [OF False] by (auto simp: sessionInv_def)
  qed
  moreover have "se_collectionKeys (ap_session w') = []"
    using step_open by (simp add: openSession_def Let_def notifyListeners_def)
  ultimately show ?thesis using step_open by (auto simp: sessionInv_def held_open)
next
  case (step_ring newRing)
  then show ?thesis using ring_step_inv [OF assms(1)] by simp
next
  case (step_tokens tokens)
  then show ?thesis using assms(1) held_tokens [of tokens w]
    by (auto simp: sessionInv_def) (auto simp: replaceTokens_def)
next
  case step_lock
  have "isClear (bufOf (lock w) a)" if "a \<in> given" for a
    using that assms(1) lock_buf [of a w] by (cases "a \<in> held (ap_session w)") (auto simp: sessionInv_def)
  moreover have "se_collectionKeys (ap_session (lock w)) = []" by (simp add: lock_def Let_def notifyListeners_def)
  ultimately show ?thesis using step_lock by (auto simp: sessionInv_def lock_session(1))
next
  case step_other
  then show ?thesis using assms(1) by (auto simp: sessionInv_def)
qed

text \<open>
  C3. The session never loses a key it has not cleared. At every state reachable by any sequence
  of opening, locking, replacing tokens and replacing the key ring, interleaved with whatever
  other code does to buffers of its own, each key the session was ever given is still held by it
  or is zero; so when it is locked, every key it was ever given is zero.
\<close>

theorem session_keys_held_or_clear:
  assumes "session_reach (given, w)"
  shows "held (ap_session w) \<subseteq> given \<and> (\<forall>a \<in> given. a \<in> held (ap_session w) \<or> isClear (bufOf w a))"
proof -
  have "sessionInv given w"
    using assms
  proof (induction "(given, w)" arbitrary: given w rule: session_reach.induct)
    case (reach_init w)
    then show ?case by (simp add: sessionInv_def createSession_def held_def heldKeys_def)
  next
    case (reach_step x)
    obtain g v where x: "x = (g, v)" by fastforce
    then show ?case using reach_step.hyps(2) [OF x] reach_step.hyps(3) session_step_inv by blast
  qed
  then show ?thesis by (auto simp: sessionInv_def)
qed

theorem session_keys_held_or_clear_witness:
  "\<exists>w :: unit app. session_reach ({0, 1}, w) \<and> held (ap_session w) = {} \<and>
     isClear (bufOf w 0) \<and> isClear (bufOf w 1)"
proof -
  let ?w0 = "sampleApp\<lparr> ap_session := createSession \<rparr>"
  let ?t = "\<lparr> st_accessToken = [], st_refreshToken = [] \<rparr>" and ?u = "\<lparr> su_id = [], su_email = [], su_name = [], su_role = [] \<rparr>"
  have 1: "session_reach ({}, ?w0)" by (rule reach_init) simp
  have 2: "session_reach (insert 0 (insert 1 {}), openSession ?t ?u 0 1 ?w0)"
    by (rule reach_step [OF 1]) (rule step_open; simp)
  have 3: "session_reach ({0, 1}, lock (openSession ?t ?u 0 1 ?w0))"
    by (rule reach_step [OF 2]) (rule step_lock)
  show ?thesis using 3 session_keys_held_or_clear [OF 3] lock_session(1) [of "openSession ?t ?u 0 1 ?w0"] by auto
qed

end
