(* ===== verification/ItemCrypto.thy ===== *)
theory ItemCrypto
  imports Keys ItemTypes
begin

text \<open>
  Items (\<^verbatim>\<open>packages/crypto/src/item.ts\<close>): a body encrypted under a key of its own, and that
  key wrapped under the parent key. The body is the JSON text of the plaintext; what comes back is
  checked, property by property, before it is believed.

  Shown: an encrypted item decrypts, under its parent key, to itself, whatever strings it holds;
  moving it to another parent rewraps the key alone and it still decrypts; no operation leaves an
  item key behind, returning or throwing.
\<close>

record EncryptedItem =
  ei_ciphertext :: jstr
  ei_wrappedItemKey :: jstr

abbreviation (input) ITEM_KEY_BYTES :: nat where "ITEM_KEY_BYTES \<equiv> 32"

section \<open>Plaintexts as JSON\<close>

definition optJson :: "jstr option \<Rightarrow> json" where
  "optJson v = (case v of None \<Rightarrow> JNull | Some s \<Rightarrow> JStr s)"

definition historyJson :: "PasswordHistoryEntry \<Rightarrow> json" where
  "historyJson entry = jsObj [(''password'', JStr (ph_password entry)), (''changedAt'', JStr (ph_changedAt entry))]"

fun itemJson :: "ItemPlaintext \<Rightarrow> json" where
  "itemJson (PLogin l) =
     jsObj [(''type'', JStr (js ''login'')), (''name'', JStr (li_name l)), (''username'', JStr (li_username l)),
            (''password'', JStr (li_password l)), (''urls'', JArr (map JStr (li_urls l))),
            (''notes'', JStr (li_notes l)), (''favorite'', JBool (li_favorite l)),
            (''folderId'', optJson (li_folderId l)),
            (''passwordHistory'', JArr (map historyJson (li_passwordHistory l)))]"
| "itemJson (PNote n) =
     jsObj [(''type'', JStr (js ''note'')), (''name'', JStr (ni_name n)), (''notes'', JStr (ni_notes n)),
            (''favorite'', JBool (ni_favorite n)), (''folderId'', optJson (ni_folderId n))]"

text \<open>
  The checks of \<^verbatim>\<open>assertItemPlaintext\<close>, each giving the value it has checked. Properties
  outside the interface are not part of the plaintext.
\<close>

definition isString :: "json option \<Rightarrow> jstr option" where
  "isString v = (case v of Some (JStr s) \<Rightarrow> Some s | _ \<Rightarrow> None)"

definition isBoolean :: "json option \<Rightarrow> bool option" where
  "isBoolean v = (case v of Some (JBool b) \<Rightarrow> Some b | _ \<Rightarrow> None)"

definition isStringOrNull :: "json option \<Rightarrow> jstr option option" where
  "isStringOrNull v = (case v of Some JNull \<Rightarrow> Some None | Some (JStr s) \<Rightarrow> Some (Some s) | _ \<Rightarrow> None)"

text \<open>\<^verbatim>\<open>every\<close>, keeping what each element was read as.\<close>

fun everyOf :: "('a \<Rightarrow> 'b option) \<Rightarrow> 'a list \<Rightarrow> 'b list option" where
  "everyOf f [] = Some []"
| "everyOf f (x # xs) =
     (case f x of None \<Rightarrow> None | Some y \<Rightarrow> (case everyOf f xs of None \<Rightarrow> None | Some ys \<Rightarrow> Some (y # ys)))"

definition isStringArray :: "json option \<Rightarrow> jstr list option" where
  "isStringArray v = (case v of Some (JArr vs) \<Rightarrow> everyOf (\<lambda>x. isString (Some x)) vs | _ \<Rightarrow> None)"

definition historyEntry :: "json \<Rightarrow> PasswordHistoryEntry option" where
  "historyEntry entry =
     (case (isString (field entry (js ''password'')), isString (field entry (js ''changedAt''))) of
        (Some p, Some c) \<Rightarrow> Some \<lparr> ph_password = p, ph_changedAt = c \<rparr> | _ \<Rightarrow> None)"

definition isPasswordHistory :: "json option \<Rightarrow> PasswordHistoryEntry list option" where
  "isPasswordHistory v = (case v of Some (JArr vs) \<Rightarrow> everyOf historyEntry vs | _ \<Rightarrow> None)"

definition assertItemPlaintext :: "json \<Rightarrow> ItemPlaintext result" where
  "assertItemPlaintext v =
     (let get = (\<lambda>k. field v (js k)) in
      case (isString (get ''name''), isString (get ''notes''), isBoolean (get ''favorite''),
            isStringOrNull (get ''folderId'')) of
        (Some name, Some notes, Some favorite, Some folderId) \<Rightarrow>
          if get ''type'' = Some (JStr (js ''note''))
          then Inr (PNote \<lparr> ni_name = name, ni_notes = notes, ni_favorite = favorite, ni_folderId = folderId \<rparr>)
          else if get ''type'' = Some (JStr (js ''login'')) then
            (case (isString (get ''username''), isString (get ''password''), isStringArray (get ''urls''),
                   isPasswordHistory (get ''passwordHistory'')) of
               (Some username, Some password, Some urls, Some history) \<Rightarrow>
                 Inr (PLogin \<lparr> li_name = name, li_username = username, li_password = password, li_urls = urls,
                               li_notes = notes, li_favorite = favorite, li_folderId = folderId,
                               li_passwordHistory = history \<rparr>)
             | _ \<Rightarrow> Inl DecryptionError)
          else Inl DecryptionError
      | _ \<Rightarrow> Inl DecryptionError)"

section \<open>Operations\<close>

definition generateItemKey :: "('z, addr) prog" where
  "generateItemKey = andThen (randomBytes ITEM_KEY_BYTES) newBuf"

definition encryptItem :: "platform \<Rightarrow> ItemPlaintext \<Rightarrow> addr \<Rightarrow> ('z, EncryptedItem) prog" where
  "encryptItem pf item parentKey =
     andThen generateItemKey (\<lambda>itemKey.
       tryFinally
         (andThen (readBuf itemKey) (\<lambda>key.
          andThen (encryptString pf (stringify (itemJson item)) key) (\<lambda>ciphertext.
          andThen (wrapKey pf itemKey parentKey) (\<lambda>wrappedItemKey.
            ret \<lparr> ei_ciphertext = ciphertext, ei_wrappedItemKey = wrappedItemKey \<rparr>))))
         (zeroize [Some itemKey]))"

fun isKeyholeCryptoError :: "exn \<Rightarrow> bool" where
  "isKeyholeCryptoError (KeyholeCryptoError m) = True"
| "isKeyholeCryptoError DecryptionError = True"
| "isKeyholeCryptoError (MalformedEnvelopeError m) = True"
| "isKeyholeCryptoError (InvalidKeyError m) = True"
| "isKeyholeCryptoError (InvalidRecoveryCodeError m) = True"
| "isKeyholeCryptoError e = False"

definition decryptItem :: "platform \<Rightarrow> EncryptedItem \<Rightarrow> addr \<Rightarrow> ('z, ItemPlaintext) prog" where
  "decryptItem pf encrypted parentKey =
     andThen
       (andThen (unwrapKey pf (ei_wrappedItemKey encrypted) parentKey) (\<lambda>itemKey.
          tryFinally
            (tryCatch
               (andThen (readBuf itemKey) (\<lambda>key.
                andThen (ofResult (decryptString pf (ei_ciphertext encrypted) key)) (\<lambda>body.
                  ofResult (case jsonParse body of None \<Rightarrow> Inl SyntaxError | Some v \<Rightarrow> Inr v))))
               (\<lambda>error. if isKeyholeCryptoError error then throw error else throw DecryptionError))
            (zeroize [Some itemKey])))
       (\<lambda>parsed. ofResult (assertItemPlaintext parsed))"

definition rewrapItem :: "platform \<Rightarrow> EncryptedItem \<Rightarrow> addr \<Rightarrow> addr \<Rightarrow> ('z, EncryptedItem) prog" where
  "rewrapItem pf encrypted fromParentKey toParentKey =
     andThen (unwrapKey pf (ei_wrappedItemKey encrypted) fromParentKey) (\<lambda>itemKey.
       tryFinally
         (andThen (wrapKey pf itemKey toParentKey) (\<lambda>wrappedItemKey.
            ret \<lparr> ei_ciphertext = ei_ciphertext encrypted, ei_wrappedItemKey = wrappedItemKey \<rparr>))
         (zeroize [Some itemKey]))"

section \<open>The checks accept what was written\<close>

lemma itemKeys_plain:
  "plainKey ''type''" "plainKey ''name''" "plainKey ''username''" "plainKey ''password''" "plainKey ''urls''"
  "plainKey ''notes''" "plainKey ''favorite''" "plainKey ''folderId''" "plainKey ''passwordHistory''"
  "plainKey ''changedAt''"
  by (simp_all add: plainKey_def isIndexKey_def js_simps isDigit_def)

lemma optJson_wf [simp]: "jsonWf (optJson v)"
  by (cases v) (simp_all add: optJson_def)

lemma historyJson_wf [simp]: "jsonWf (historyJson e)"
  unfolding historyJson_def by (rule jsObj_wf) (simp_all add: itemKeys_plain)

lemma itemJson_wf: "jsonWf (itemJson item)"
  by (cases item; simp only: itemJson.simps; rule jsObj_wf) (simp_all add: itemKeys_plain list_all_iff)

lemma everyOf_map: "(\<And>x. f (g x) = Some x) \<Longrightarrow> everyOf f (map g xs) = Some xs"
  by (induction xs) simp_all

lemma isStringOrNull_opt [simp]: "isStringOrNull (Some (optJson v)) = Some v"
  by (cases v) (simp_all add: isStringOrNull_def optJson_def)

lemma isString_simp [simp]: "isString (Some (JStr s)) = Some s" "isBoolean (Some (JBool b)) = Some b"
  by (simp_all add: isString_def isBoolean_def)

lemma historyEntry_json: "historyEntry (historyJson e) = Some e"
  by (simp add: historyEntry_def historyJson_def field_jsObj)

lemma assert_itemJson: "assertItemPlaintext (itemJson item) = Inr item"
  by (cases item)
    (simp_all add: assertItemPlaintext_def field_jsObj Let_def isStringArray_def isPasswordHistory_def
      everyOf_map historyEntry_json)

lemma item_text: "utf8Decode (utf8Encode (stringify (itemJson item))) = stringify (itemJson item)"
  by (cases item) (simp_all only: itemJson.simps jsObj_def json_utf8)

section \<open>Clearing\<close>

lemma makesKey_generateItemKey: "makesKey generateItemKey"
  unfolding generateItemKey_def by (intro makesKey_andThen leaves_randomBytes makesKey_newBuf)

lemma makesKey_unwrapKey: "makesKey (unwrapKey pf s a)"
  unfolding unwrapKey_def by (intro makesKey_andThen leaves_readBuf leaves_ofResult makesKey_newBuf)

lemma leaves_wrapKey [simp]: "leaves (wrapKey pf a b) K"
  unfolding wrapKey_def by (intro leaves_intros leaves_encryptBytes)

text \<open>
  C25. No item key outlives the call that used it: encrypting, decrypting and rewrapping an item
  leave every buffer they allocated zero and every other buffer as it was, whether they return or
  throw, for every platform and every stored text.
\<close>

theorem item_keys_cleared:
  "leaves (encryptItem pf item parent) (\<lambda>x. {}) \<and> leaves (decryptItem pf encrypted parent) (\<lambda>x. {}) \<and>
   leaves (rewrapItem pf encrypted parent target) (\<lambda>x. {})"
proof (intro conjI)
  show "leaves (encryptItem pf item parent) (\<lambda>x. {})"
    unfolding encryptItem_def
    by (intro leaves_using makesKey_generateItemKey leaves_intros leaves_encryptString leaves_wrapKey)
  have "leaves (if isKeyholeCryptoError e then throw e else throw DecryptionError) (\<lambda>x :: json. {})" for e
    by simp
  then show "leaves (decryptItem pf encrypted parent) (\<lambda>x. {})"
    unfolding decryptItem_def by (intro leaves_andThen [OF leaves_using] makesKey_unwrapKey leaves_intros)
  show "leaves (rewrapItem pf encrypted parent target) (\<lambda>x. {})"
    unfolding rewrapItem_def by (intro leaves_using makesKey_unwrapKey leaves_intros leaves_wrapKey)
qed

section \<open>Round trips\<close>

text \<open>What it takes for a stored item to open under a parent key.\<close>

definition opensItem :: "platform \<Rightarrow> EncryptedItem \<Rightarrow> bytes \<Rightarrow> ItemPlaintext \<Rightarrow> bool" where
  "opensItem pf encrypted parent item =
     (\<exists>key. opens pf (ei_wrappedItemKey encrypted) parent key \<and>
        decryptString pf (ei_ciphertext encrypted) key = Inr (stringify (itemJson item)))"

lemma decryptItem_run:
  assumes "opensItem pf encrypted (bufOf w parent) item"
  shows "\<exists>w'. decryptItem pf encrypted parent w = (Inr item, w') \<and> world.more w' = world.more w"
proof -
  obtain key where key: "opens pf (ei_wrappedItemKey encrypted) (bufOf w parent) key"
    "decryptString pf (ei_ciphertext encrypted) key = Inr (stringify (itemJson item))"
    using assms by (auto simp: opensItem_def)
  show ?thesis
    by (simp add: decryptItem_def andThen_def tryFinally_def tryCatch_def unwrapKey_run [OF key(1)] readBuf_def
        ofResult_def key(2) jsonParse_stringify [OF itemJson_wf] assert_itemJson clearBuf_def)
qed

lemma encryptItem_run:
  assumes "gcmLaw pf" "length (bufOf w parent) = 32" "parent < length (wd_heap w)"
  obtains enc w' where "encryptItem pf item parent w = (Inr enc, w')"
    "opensItem pf enc (bufOf w parent) item" "wd_heap w' = wd_heap w @ [zeroBytes 32]" "world.more w' = world.more w"
proof -
  let ?n = "length (wd_heap w)"
  define k where "k = drawn 32 w"
  have lk: "length k = 32" by (simp add: k_def)
  define w1 where "w1 = pushBuf k (afterDraw 32 w)"
  obtain ct where ct: "encryptString pf (stringify (itemJson item)) k w1 = (Inr ct, afterDraw 12 w1)"
    "decryptString pf ct k = Inr (stringify (itemJson item))"
    using encryptString_run [OF assms(1) lk] by (metis item_text)
  have b: "bufOf w1 ?n = k" "bufOf w1 parent = bufOf w parent" using assms(3) by (simp_all add: w1_def)
  define wk where "wk = wrapText pf k (bufOf w parent) (drawn 12 (afterDraw 12 w1))"
  have wr: "wrapKey pf ?n parent (afterDraw 12 w1) = (Inr wk, afterDraw 12 (afterDraw 12 w1))"
    using wrapKey_run [of "afterDraw 12 w1" parent pf ?n] assms(2) by (simp add: b wk_def)
  define enc where "enc = \<lparr> ei_ciphertext = ct, ei_wrappedItemKey = wk \<rparr>"
  have g: "generateItemKey w = (Inr ?n, w1)"
    by (simp add: generateItemKey_def andThen_def randomBytes_run newBuf_push w1_def k_def)
  have run: "encryptItem pf item parent w = (Inr enc, clearBuf ?n (afterDraw 12 (afterDraw 12 w1)))"
    by (simp add: encryptItem_def andThen_def tryFinally_def g readBuf_def b ct(1) wr ret_def enc_def)
  show ?thesis
  proof (rule that [OF run])
    show "opensItem pf enc (bufOf w parent) item"
      using opens_wrapText [OF assms(1,2) length_drawn] ct(2) by (auto simp: opensItem_def enc_def wk_def)
    show "wd_heap (clearBuf ?n (afterDraw 12 (afterDraw 12 w1))) = wd_heap w @ [zeroBytes 32]"
      by (simp add: clearBuf_heap w1_def lk)
    show "world.more (clearBuf ?n (afterDraw 12 (afterDraw 12 w1))) = world.more w"
      by (simp add: clearBuf_def w1_def)
  qed
qed

text \<open>
  C6. An item comes back as it was stored: encrypting any item under a 32-byte parent key returns,
  and decrypting the result under the same key, on any device, returns that very item. Strings
  that are not well-formed text survive too, because the JSON text escapes them.
\<close>

theorem item_roundtrip:
  assumes "gcmLaw pf" "length (bufOf w parent) = 32" "parent < length (wd_heap w)"
  shows "\<exists>enc w1. encryptItem pf item parent w = (Inr enc, w1) \<and>
    (\<forall>device key. bufOf device key = bufOf w parent \<longrightarrow> (\<exists>w3. decryptItem pf enc key device = (Inr item, w3)))"
proof -
  obtain enc w1 where e: "encryptItem pf item parent w = (Inr enc, w1)" "opensItem pf enc (bufOf w parent) item"
    by (rule encryptItem_run [OF assms])
  have "\<exists>w3. decryptItem pf enc key device = (Inr item, w3)" if "bufOf device key = bufOf w parent" for device key
    using decryptItem_run [of pf enc device key item] e(2) that by auto
  then show ?thesis using e(1) by blast
qed

definition sampleItem :: ItemPlaintext where
  "sampleItem = PLogin \<lparr> li_name = js ''n'', li_username = js ''u'', li_password = [0xD800, 34], li_urls = [js ''x''],
     li_notes = [], li_favorite = True, li_folderId = None,
     li_passwordHistory = [\<lparr> ph_password = js ''p'', ph_changedAt = js ''t'' \<rparr>] \<rparr>"

theorem item_roundtrip_witness:
  "\<exists>enc w1 w3. encryptItem samplePlatform sampleItem 0 sampleWorld = (Inr enc, w1) \<and>
     decryptItem samplePlatform enc 0 sampleWorld = (Inr sampleItem, w3)"
proof -
  have "length (bufOf sampleWorld 0) = 32" "0 < length (wd_heap sampleWorld)"
    by (simp_all add: sampleWorld_def bufOf_def)
  from item_roundtrip [OF sample_laws(1) this, of sampleItem] show ?thesis by blast
qed

text \<open>
  Moving an item rewraps its key and nothing else: the ciphertext is the one it was, and the
  moved item decrypts to the same plaintext under the new parent key.
\<close>

theorem rewrap_keeps_item:
  assumes "gcmLaw pf" "opensItem pf enc (bufOf w source) item" "length (bufOf w target) = 32"
    and "target < length (wd_heap w)"
  shows "\<exists>moved w1. rewrapItem pf enc source target w = (Inr moved, w1) \<and> ei_ciphertext moved = ei_ciphertext enc \<and>
    (\<forall>device key. bufOf device key = bufOf w target \<longrightarrow> (\<exists>w3. decryptItem pf moved key device = (Inr item, w3)))"
proof -
  obtain k where k: "opens pf (ei_wrappedItemKey enc) (bufOf w source) k"
    "decryptString pf (ei_ciphertext enc) k = Inr (stringify (itemJson item))"
    using assms(2) by (auto simp: opensItem_def)
  let ?n = "length (wd_heap w)"
  define wk where "wk = wrapText pf k (bufOf w target) (drawn 12 w)"
  have wr: "wrapKey pf ?n target (pushBuf k w) = (Inr wk, afterDraw 12 (pushBuf k w))"
    using wrapKey_run [of "pushBuf k w" target pf ?n] assms(3,4) by (simp add: wk_def)
  define moved where "moved = \<lparr> ei_ciphertext = ei_ciphertext enc, ei_wrappedItemKey = wk \<rparr>"
  have "rewrapItem pf enc source target w = (Inr moved, clearBuf ?n (afterDraw 12 (pushBuf k w)))"
    by (simp add: rewrapItem_def andThen_def tryFinally_def unwrapKey_run [OF k(1)] wr ret_def moved_def)
  moreover have o: "opensItem pf moved (bufOf w target) item"
    using opens_wrapText [OF assms(1,3) length_drawn] k(2) by (auto simp: opensItem_def moved_def wk_def)
  moreover have "\<exists>w3. decryptItem pf moved key device = (Inr item, w3)" if "bufOf device key = bufOf w target" for device key
    using decryptItem_run [of pf moved device key item] o that by auto
  moreover have "ei_ciphertext moved = ei_ciphertext enc" by (simp add: moved_def)
  ultimately show ?thesis by blast
qed

theorem rewrap_keeps_item_witness:
  "\<exists>enc w1 moved w2. encryptItem samplePlatform sampleItem 0 sampleWorld = (Inr enc, w1) \<and>
     rewrapItem samplePlatform enc 0 0 w1 = (Inr moved, w2) \<and> ei_ciphertext moved = ei_ciphertext enc"
proof -
  have l: "length (bufOf sampleWorld 0) = 32" "0 < length (wd_heap sampleWorld)"
    by (simp_all add: sampleWorld_def bufOf_def)
  obtain enc w1 where e: "encryptItem samplePlatform sampleItem 0 sampleWorld = (Inr enc, w1)"
    "opensItem samplePlatform enc (bufOf sampleWorld 0) sampleItem" "wd_heap w1 = wd_heap sampleWorld @ [zeroBytes 32]"
    by (rule encryptItem_run [OF sample_laws(1) l])
  have b: "bufOf w1 0 = bufOf sampleWorld 0" "0 < length (wd_heap w1)"
    using e(3) l(2) by (simp_all add: bufOf_def nth_append)
  show ?thesis
    using e(1) rewrap_keeps_item [OF sample_laws(1), of enc w1 0 sampleItem 0] e(2) l(1) b by auto
qed

end
