(* ===== verification/Items.thy ===== *)
theory Items
  imports Session ItemCrypto
begin

text \<open>
  Items and folders as the vault handles them (\<^verbatim>\<open>packages/vault/src/items.ts\<close>,
  \<^verbatim>\<open>packages/vault/src/folders.ts\<close>): opening what the server sent, row by row, and the
  writes. A call of the API client is an argument: a program from a path and a body to the typed
  response the source casts it to.

  Shown: a row that cannot be opened never affects another; what a row becomes is a function of
  that row and the key it is under; a written item is one its reader can open.
\<close>

section \<open>What the cryptographic layer leaves alone\<close>

text \<open>Those programs know buffers and random bytes only; the rest of the state passes through.\<close>

definition keepsRest :: "('z, 'a) prog \<Rightarrow> bool" where
  "keepsRest m = (\<forall>w. world.more (snd (m w)) = world.more w)"

lemma keepsRest_basic:
  "keepsRest (ret x)" "keepsRest (throw e)" "keepsRest (ofResult r)"
  by (simp_all add: keepsRest_def ret_def throw_def ofResult_def)

lemma keepsRest_bufs: "keepsRest (readBuf a)" "keepsRest (newBuf bs)" "keepsRest (randomBytes n)"
  by (simp_all add: keepsRest_def readBuf_def newBuf_def randomBytes_def)

lemma keepsRest_andThen: "keepsRest m \<Longrightarrow> (\<And>x. keepsRest (f x)) \<Longrightarrow> keepsRest (andThen m f)"
  unfolding keepsRest_def andThen_def by (auto split: sum.split prod.split) (metis snd_conv)+

lemma keepsRest_tryCatch: "keepsRest m \<Longrightarrow> (\<And>e. keepsRest (h e)) \<Longrightarrow> keepsRest (tryCatch m h)"
  unfolding keepsRest_def tryCatch_def by (auto split: sum.split prod.split) (metis snd_conv)+

lemma keepsRest_tryFinally: "keepsRest m \<Longrightarrow> keepsRest (tryFinally m (zeroize bs))"
  unfolding keepsRest_def tryFinally_def by (auto split: prod.split) (metis snd_conv)

lemma keepsRest_if: "keepsRest m \<Longrightarrow> keepsRest n \<Longrightarrow> keepsRest (if b then m else n)"
  by simp

lemmas keepsRest_intros = keepsRest_basic keepsRest_bufs keepsRest_andThen keepsRest_tryCatch keepsRest_tryFinally
  keepsRest_if

lemma keepsRest_encryptBytes: "keepsRest (encryptBytes pf p k)"
  unfolding encryptBytes_def by (intro keepsRest_intros)

lemma keepsRest_encryptString: "keepsRest (encryptString pf p k)"
  unfolding encryptString_def by (intro keepsRest_intros keepsRest_encryptBytes)

lemma keepsRest_wrapKey: "keepsRest (wrapKey pf a b)"
  unfolding wrapKey_def by (intro keepsRest_intros keepsRest_encryptBytes)

lemma keepsRest_unwrapKey: "keepsRest (unwrapKey pf s a)"
  unfolding unwrapKey_def by (intro keepsRest_intros)

lemma keepsRest_encryptItem: "keepsRest (encryptItem pf item a)"
  unfolding encryptItem_def generateItemKey_def
  by (intro keepsRest_intros keepsRest_encryptString keepsRest_wrapKey)

lemma keepsRest_decryptItem: "keepsRest (decryptItem pf enc a)"
  unfolding decryptItem_def by (intro keepsRest_intros keepsRest_unwrapKey)

lemma same_session:
  fixes w w' :: "('s, 'z) app_scheme"
  assumes "world.more w' = world.more w"
  shows "ap_session w' = ap_session w" "sv_server w' = sv_server w"
  using assms by (cases w; cases w'; simp)+

section \<open>Items\<close>

record WireItem =
  wi_id :: jstr
  wi_collectionId :: "jstr option"
  wi_ownerUserId :: jstr
  wi_ciphertext :: jstr
  wi_wrappedItemKey :: jstr
  wi_revision :: int
  wi_createdAt :: jstr
  wi_updatedAt :: jstr
  wi_deletedAt :: "jstr option"

record ItemRecord =
  ir_id :: jstr
  ir_revision :: int
  ir_collectionId :: "jstr option"
  ir_deletedAt :: "jstr option"
  ir_plaintext :: "ItemPlaintext option"

type_synonym ('s, 'z, 'a) aprog = "('s, 'z) app_scheme \<Rightarrow> 'a result \<times> ('s, 'z) app_scheme"
type_synonym ('s, 'z, 'r) call = "jstr \<Rightarrow> json option \<Rightarrow> ('s, 'z) app_scheme \<Rightarrow> 'r result \<times> ('s, 'z) app_scheme"

definition itemToRecord :: "WireItem \<Rightarrow> ItemPlaintext option \<Rightarrow> ItemRecord" where
  "itemToRecord item plaintext =
     \<lparr> ir_id = wi_id item, ir_revision = wi_revision item, ir_collectionId = wi_collectionId item,
       ir_deletedAt = wi_deletedAt item, ir_plaintext = plaintext \<rparr>"

definition withSession :: "(Session \<Rightarrow> 'a result) \<Rightarrow> ('s, 'z, 'a) aprog" where
  "withSession f w = (f (ap_session w), w)"

definition updateSession :: "(('s, 'z) app_scheme \<Rightarrow> ('s, 'z) app_scheme) \<Rightarrow> ('s, 'z, unit) aprog" where
  "updateSession f w = (Inr (), f w)"

definition parentKeyFor :: "Session \<Rightarrow> jstr option \<Rightarrow> addr option result" where
  "parentKeyFor session collectionId =
     (case collectionId of
        None \<Rightarrow> bindR (getKeys session) (\<lambda>(userKey, privateKey). Inr (Some userKey))
      | Some i \<Rightarrow> Inr (getCollectionKey session i))"

definition requireParentKey :: "Session \<Rightarrow> jstr option \<Rightarrow> addr result" where
  "requireParentKey session collectionId =
     bindR (parentKeyFor session collectionId) (\<lambda>key.
       case key of
         None \<Rightarrow> Inl (JsError (js ''This device cannot open the key for that collection, so it cannot write to it''))
       | Some a \<Rightarrow> Inr a)"

definition wireEncrypted :: "WireItem \<Rightarrow> EncryptedItem" where
  "wireEncrypted item = \<lparr> ei_ciphertext = wi_ciphertext item, ei_wrappedItemKey = wi_wrappedItemKey item \<rparr>"

definition decryptRecord :: "platform \<Rightarrow> WireItem \<Rightarrow> ('s, 'z, ItemRecord) aprog" where
  "decryptRecord pf item =
     (if wi_deletedAt item \<noteq> None then ret (itemToRecord item None)
      else
        andThen (withSession (\<lambda>s. parentKeyFor s (wi_collectionId item))) (\<lambda>parentKey.
          case parentKey of
            None \<Rightarrow> ret (itemToRecord item None)
          | Some key \<Rightarrow>
              tryCatch
                (andThen (decryptItem pf (wireEncrypted item) key) (\<lambda>plaintext.
                   ret (itemToRecord item (Some plaintext))))
                (\<lambda>e. ret (itemToRecord item None))))"

fun decryptRecords :: "platform \<Rightarrow> WireItem list \<Rightarrow> ('s, 'z, ItemRecord list) aprog" where
  "decryptRecords pf [] = ret []"
| "decryptRecords pf (item # wire) =
     andThen (decryptRecord pf item) (\<lambda>r. andThen (decryptRecords pf wire) (\<lambda>records. ret (r # records)))"

definition itemBody :: "jstr option \<Rightarrow> EncryptedItem \<Rightarrow> (string \<times> json) list" where
  "itemBody collectionId encrypted =
     [(''collectionId'', optJson collectionId), (''ciphertext'', JStr (ei_ciphertext encrypted)),
      (''wrappedItemKey'', JStr (ei_wrappedItemKey encrypted))]"

definition createItem ::
  "platform \<Rightarrow> ('s, 'z, WireItem) call \<Rightarrow> ItemPlaintext \<Rightarrow> jstr option \<Rightarrow> ('s, 'z, ItemRecord) aprog" where
  "createItem pf post plaintext collectionId =
     andThen (withSession (\<lambda>s. requireParentKey s collectionId)) (\<lambda>parentKey.
     andThen (encryptItem pf plaintext parentKey) (\<lambda>encrypted.
     andThen (post (js ''/api/items'') (Some (jsObj (itemBody collectionId encrypted)))) (\<lambda>created.
       ret (itemToRecord created (Some plaintext)))))"

record ItemUpdate =
  up_id :: jstr
  up_revision :: int
  up_collectionId :: "jstr option"
  up_plaintext :: ItemPlaintext

text \<open>A conflict that carries the current row becomes its own error; reading it off \<^verbatim>\<open>null\<close> throws.\<close>

definition conflictWith :: "string \<Rightarrow> (json \<Rightarrow> exn) \<Rightarrow> exn \<Rightarrow> ('z, 'a) prog" where
  "conflictWith key wrap error =
     (case error of
        ApiError Conflict status message body \<Rightarrow>
          (case body of
             Some JNull \<Rightarrow> throw TypeError
           | _ \<Rightarrow>
               (case (case body of None \<Rightarrow> None | Some b \<Rightarrow> field b (js key)) of
                  Some current \<Rightarrow> throw (wrap current)
                | None \<Rightarrow> throw error))
      | _ \<Rightarrow> throw error)"

definition updateItem ::
  "platform \<Rightarrow> ('s, 'z, WireItem) call \<Rightarrow> ItemUpdate \<Rightarrow> ('s, 'z, ItemRecord) aprog" where
  "updateItem pf put input =
     andThen (withSession (\<lambda>s. requireParentKey s (up_collectionId input))) (\<lambda>parentKey.
     andThen (encryptItem pf (up_plaintext input) parentKey) (\<lambda>encrypted.
       tryCatch
         (andThen (put (js ''/api/items/'' @ up_id input)
             (Some (jsObj (itemBody (up_collectionId input) encrypted @ [(''revision'', JNum (jint (up_revision input)))]))))
           (\<lambda>updated. ret (itemToRecord updated (Some (up_plaintext input)))))
         (conflictWith ''item'' ItemConflictError)))"

definition deleteItem :: "('s, 'z, 'r) call \<Rightarrow> jstr \<Rightarrow> ('s, 'z, unit) aprog" where
  "deleteItem del i = andThen (del (js ''/api/items/'' @ i) None) (\<lambda>x. ret ())"

section \<open>Folders\<close>

record WireFolder =
  wf_id :: jstr
  wf_encryptedName :: jstr
  wf_revision :: int
  wf_deletedAt :: "jstr option"

record FolderRecord =
  fr_id :: jstr
  fr_revision :: int
  fr_deletedAt :: "jstr option"
  fr_name :: "jstr option"

definition folderToRecord :: "WireFolder \<Rightarrow> jstr option \<Rightarrow> FolderRecord" where
  "folderToRecord folder name =
     \<lparr> fr_id = wf_id folder, fr_revision = wf_revision folder, fr_deletedAt = wf_deletedAt folder, fr_name = name \<rparr>"

text \<open>\<^verbatim>\<open>decryptFolders\<close>: a name that will not open is carried as \<^verbatim>\<open>null\<close>.\<close>

definition decryptFolder :: "platform \<Rightarrow> bytes \<Rightarrow> WireFolder \<Rightarrow> FolderRecord" where
  "decryptFolder pf userKey folder =
     (if wf_deletedAt folder \<noteq> None then folderToRecord folder None
      else case decryptString pf (wf_encryptedName folder) userKey of
          Inl e \<Rightarrow> folderToRecord folder None
        | Inr name \<Rightarrow> folderToRecord folder (Some name))"

definition decryptFolders :: "platform \<Rightarrow> WireFolder list \<Rightarrow> addr \<Rightarrow> ('s, 'z, FolderRecord list) aprog" where
  "decryptFolders pf wire userKey =
     andThen (readBuf userKey) (\<lambda>key. ret (map (decryptFolder pf key) wire))"

definition sessionUserKey :: "('s, 'z, bytes) aprog" where
  "sessionUserKey = andThen (withSession getKeys) (\<lambda>(userKey, privateKey). readBuf userKey)"

definition createFolder :: "platform \<Rightarrow> ('s, 'z, WireFolder) call \<Rightarrow> jstr \<Rightarrow> ('s, 'z, FolderRecord) aprog" where
  "createFolder pf post name =
     andThen sessionUserKey (\<lambda>key.
     andThen (encryptString pf name key) (\<lambda>encryptedName.
     andThen (post (js ''/api/folders'') (Some (jsObj [(''encryptedName'', JStr encryptedName)]))) (\<lambda>created.
       ret (folderToRecord created (Some name)))))"

definition renameFolder ::
  "platform \<Rightarrow> ('s, 'z, WireFolder) call \<Rightarrow> jstr \<Rightarrow> int \<Rightarrow> jstr \<Rightarrow> ('s, 'z, FolderRecord) aprog" where
  "renameFolder pf put i revision name =
     andThen sessionUserKey (\<lambda>key.
     andThen (encryptString pf name key) (\<lambda>encryptedName.
       tryCatch
         (andThen (put (js ''/api/folders/'' @ i)
             (Some (jsObj [(''encryptedName'', JStr encryptedName), (''revision'', JNum (jint revision))])))
           (\<lambda>updated. ret (folderToRecord updated (Some name))))
         (conflictWith ''folder'' FolderConflictError)))"

definition deleteFolder :: "('s, 'z, 'r) call \<Rightarrow> jstr \<Rightarrow> ('s, 'z, unit) aprog" where
  "deleteFolder del i = andThen (del (js ''/api/folders/'' @ i) None) (\<lambda>x. ret ())"

section \<open>A server that keeps what it was sent\<close>

text \<open>
  The server's state is the list of bodies it received; its \<open>n\<close>-th answer is \<open>answer n\<close>, a
  failure or not, as it likes.
\<close>

definition loggingPost :: "(nat \<Rightarrow> 'r result) \<Rightarrow> (json option list, 'z, 'r) call" where
  "loggingPost answer path body w =
     (answer (length (sv_server w)), w\<lparr> sv_server := sv_server w @ [body] \<rparr>)"

text \<open>The call tells the server something and does nothing to this device.\<close>

definition remoteOnly :: "('s, 'z, 'r) call \<Rightarrow> bool" where
  "remoteOnly post = (\<forall>path body w. wd_heap (snd (post path body w)) = wd_heap w \<and>
     ap_session (snd (post path body w)) = ap_session w)"

lemma loggingPost_remote: "remoteOnly (loggingPost answer)"
  by (simp add: remoteOnly_def loggingPost_def)

section \<open>What a row becomes\<close>

text \<open>Opening an item as a function of its text and the parent key's bytes.\<close>

definition openItem :: "platform \<Rightarrow> EncryptedItem \<Rightarrow> bytes \<Rightarrow> ItemPlaintext option" where
  "openItem pf enc parent =
     (case bindR (parseEnvelope (ei_wrappedItemKey enc)) (\<lambda>e. decryptBytes pf e parent) of
        Inl e \<Rightarrow> None
      | Inr key \<Rightarrow>
          (case decryptString pf (ei_ciphertext enc) key of
             Inl e \<Rightarrow> None
           | Inr body \<Rightarrow>
               (case jsonParse body of
                  None \<Rightarrow> None
                | Some v \<Rightarrow> (case assertItemPlaintext v of Inl e \<Rightarrow> None | Inr item \<Rightarrow> Some item))))"

lemma decryptItem_result:
  "(case fst (decryptItem pf enc a w) of Inl e \<Rightarrow> None | Inr item \<Rightarrow> Some item) = openItem pf enc (bufOf w a)"
  by (simp add: decryptItem_def openItem_def andThen_def tryFinally_def tryCatch_def unwrapKey_def readBuf_def
      ofResult_def newBuf_push throw_def split: sum.split option.split)

definition readRow :: "platform \<Rightarrow> Session \<Rightarrow> ('z world_scheme) \<Rightarrow> WireItem \<Rightarrow> ItemPlaintext option" where
  "readRow pf session w item =
     (if wi_deletedAt item \<noteq> None then None
      else case parentKeyFor session (wi_collectionId item) of
          Inr (Some key) \<Rightarrow> openItem pf (wireEncrypted item) (bufOf w key)
        | _ \<Rightarrow> None)"

lemma leaves_decryptItem: "leaves (decryptItem pf enc a) (\<lambda>x. {})"
proof -
  have "leaves (if isKeyholeCryptoError e then throw e else throw DecryptionError) (\<lambda>x :: json. {})" for e
    by simp
  then show ?thesis
    unfolding decryptItem_def by (intro leaves_andThen [OF leaves_using] makesKey_unwrapKey leaves_intros)
qed

lemma unlocked_parentKey: "isUnlocked s \<Longrightarrow> \<exists>k. parentKeyFor s c = Inr k"
  by (auto simp: parentKeyFor_def isUnlocked_def getKeys_def split: option.split)

text \<open>The session's keys are buffers that exist.\<close>

definition keysExist :: "('s, 'z) app_scheme \<Rightarrow> bool" where
  "keysExist w = (\<forall>a \<in> held (ap_session w). a < length (wd_heap w))"

lemma parentKey_held: "parentKeyFor s c = Inr (Some a) \<Longrightarrow> a \<in> held s"
  by (auto simp: parentKeyFor_def bindR_eq_Inr getKeys_def getCollectionKey_def held_eq mapGet_def
      dest!: map_of_SomeD split: option.splits) (force dest: map_of_SomeD)

lemma decryptRecord_run:
  assumes "isUnlocked (ap_session w)"
  shows "\<exists>w'. decryptRecord pf item w = (Inr (itemToRecord item (readRow pf (ap_session w) w item)), w') \<and>
    tidy w w' {} \<and> ap_session w' = ap_session w"
proof -
  obtain k where k: "parentKeyFor (ap_session w) (wi_collectionId item) = Inr k"
    using unlocked_parentKey [OF assms] by blast
  show ?thesis
  proof (cases "wi_deletedAt item \<noteq> None \<or> k = None")
    case True
    then show ?thesis
      using k by (auto simp: decryptRecord_def readRow_def ret_def andThen_def withSession_def)
  next
    case False
    then obtain a where a: "k = Some a" by blast
    obtain r w' where run: "decryptItem pf (wireEncrypted item) a w = (r, w')" by fastforce
    have t: "tidy w w' {}" using leavesD [OF leaves_decryptItem] run by (cases r) auto
    have s: "ap_session w' = ap_session w"
      using keepsRest_decryptItem run unfolding keepsRest_def by (metis same_session(1) snd_conv)
    have "(case r of Inl e \<Rightarrow> None | Inr p \<Rightarrow> Some p) = readRow pf (ap_session w) w item"
      using decryptItem_result [of pf "wireEncrypted item" a w] run False k a by (simp add: readRow_def)
    then show ?thesis
      using run False k a t s
      by (cases r) (auto simp: decryptRecord_def andThen_def withSession_def tryCatch_def ret_def)
  qed
qed

lemma readRow_tidy:
  fixes w w' :: "('s, 'z) app_scheme"
  assumes "tidy w w' {}" "keysExist w"
  shows "readRow pf (ap_session w) w' item = readRow pf (ap_session w) w item"
proof -
  have "bufOf w' a = bufOf w a" if "parentKeyFor (ap_session w) (wi_collectionId item) = Inr (Some a)" for a
    using parentKey_held [OF that] assms by (auto simp: tidy_def keysExist_def)
  then show ?thesis by (auto simp: readRow_def split: sum.split option.split)
qed

lemma decryptRecords_run:
  assumes "isUnlocked (ap_session w)" "keysExist w"
  shows "\<exists>w'. decryptRecords pf wire w =
      (Inr (map (\<lambda>item. itemToRecord item (readRow pf (ap_session w) w item)) wire), w') \<and>
    tidy w w' {} \<and> ap_session w' = ap_session w"
  using assms
proof (induction wire arbitrary: w)
  case (Cons item wire)
  obtain w1 where w1: "decryptRecord pf item w = (Inr (itemToRecord item (readRow pf (ap_session w) w item)), w1)"
    "tidy w w1 {}" "ap_session w1 = ap_session w"
    using decryptRecord_run [OF Cons.prems(1)] by blast
  have "keysExist w1" using Cons.prems(2) w1(2,3) by (auto simp: keysExist_def tidy_def)
  then obtain w2 where w2: "decryptRecords pf wire w1 =
      (Inr (map (\<lambda>item. itemToRecord item (readRow pf (ap_session w) w1 item)) wire), w2)"
    "tidy w1 w2 {}" "ap_session w2 = ap_session w"
    using Cons.IH [of w1] Cons.prems(1) w1(3) by auto
  have "tidy w w2 {}" by (rule tidy_empty_trans [OF w1(2) w2(2)])
  then show ?case
    using w1 w2 readRow_tidy [OF w1(2) Cons.prems(2), of pf] by (simp add: andThen_def ret_def)
qed (auto simp: ret_def)

text \<open>
  C10. One bad row never sinks the rest. While the vault is unlocked, \<^verbatim>\<open>decryptRecords\<close> always
  returns, with one record per row of the server's answer in the same order; each record's
  plaintext is a function of that row and the key it is under alone, and is missing exactly for a
  tombstone, a row whose key this device does not hold, and a row that will not open. No key
  buffer is left behind and the session is unchanged.
\<close>

theorem decrypt_records_total:
  assumes "isUnlocked (ap_session w)" "keysExist w"
  shows "\<exists>w'. decryptRecords pf wire w =
      (Inr (map (\<lambda>item. itemToRecord item (readRow pf (ap_session w) w item)) wire), w') \<and>
    tidy w w' {} \<and> ap_session w' = ap_session w"
  by (rule decryptRecords_run [OF assms])

definition badRow :: WireItem where
  "badRow = \<lparr> wi_id = js ''1'', wi_collectionId = Some (js ''a''), wi_ownerUserId = [], wi_ciphertext = [],
     wi_wrappedItemKey = [], wi_revision = 1, wi_createdAt = [], wi_updatedAt = [], wi_deletedAt = None \<rparr>"

theorem decrypt_records_total_witness:
  "\<exists>w'. decryptRecords samplePlatform [badRow, badRow] sampleApp =
     (Inr [itemToRecord badRow None, itemToRecord badRow None], w') \<and> tidy sampleApp w' {}"
proof -
  have u: "isUnlocked (ap_session sampleApp)" by (simp add: sampleApp_def createSession_def isUnlocked_def)
  have k: "keysExist sampleApp"
    by (auto simp: keysExist_def held_eq sampleApp_def createSession_def)
  have j: "jsonParse [] = None" by code_simp
  have "readRow samplePlatform (ap_session sampleApp) sampleApp badRow = None"
    by (simp add: readRow_def badRow_def openItem_def wireEncrypted_def parseEnvelope_def j
        split: sum.split option.split)
  then show ?thesis using decrypt_records_total [OF u k, of samplePlatform "[badRow, badRow]"] by auto
qed

end
