(* ===== verification/Upload.thy ===== *)
theory Upload
  imports Items
begin

text \<open>
  The last step of an import (\<^verbatim>\<open>packages/vault/src/import/upload.ts\<close>): encrypt every item,
  post the ciphertexts in batches, and report what the server confirmed.

  Shown: every batch is within the server's limits; what was confirmed is a prefix of the items,
  each opening to the item it stands for, and the outcome's numbers say exactly which. Against what
  the server wrote, the numbers are right but for one answer: a success whose body cannot be parsed.
\<close>

abbreviation (input) MAX_ITEMS_PER_REQUEST :: nat where "MAX_ITEMS_PER_REQUEST \<equiv> 1000"

definition MAX_BODY_BYTES :: nat where "MAX_BODY_BYTES = push_bit 20 8"
definition BODY_BUDGET :: nat where "BODY_BUDGET = MAX_BODY_BYTES - 65536"

record BulkEntry =
  be_collectionId :: "jstr option"
  be_encrypted :: EncryptedItem

record UploadProgress =
  pr_uploaded :: nat
  pr_total :: nat

record UploadOutcome =
  ou_uploaded :: nat
  ou_total :: nat
  ou_inDoubt :: nat
  ou_error :: "exn option"

fun definitelyNotWritten :: "exn \<Rightarrow> bool" where
  "definitelyNotWritten (ApiError code status message body) = (status < 500)"
| "definitelyNotWritten e = False"

definition entryJson :: "BulkEntry \<Rightarrow> json" where
  "entryJson entry = jsObj (itemBody (be_collectionId entry) (be_encrypted entry))"

definition entryBytes :: "BulkEntry \<Rightarrow> nat" where
  "entryBytes entry = length (stringify (entryJson entry)) + 1"

definition chunkBody :: "BulkEntry list \<Rightarrow> json option" where
  "chunkBody chunk = Some (jsObj [(''items'', JArr (map entryJson chunk))])"

text \<open>The variables of the loop, and the progress reports made so far.\<close>

record UploadState =
  ul_uploaded :: nat
  ul_chunk :: "BulkEntry list"
  ul_chunkBytes :: nat
  ul_reports :: "UploadProgress list"

definition sendChunk :: "('s, 'z, 'r) call \<Rightarrow> nat \<Rightarrow> UploadState \<Rightarrow> ('s, 'z, UploadOutcome + UploadState) aprog" where
  "sendChunk post all st w =
     (case post (js ''/api/items/bulk'') (chunkBody (ul_chunk st)) w of
        (Inl error, w') \<Rightarrow>
          (Inr (Inl \<lparr> ou_uploaded = ul_uploaded st, ou_total = all,
                     ou_inDoubt = (if definitelyNotWritten error then 0 else length (ul_chunk st)),
                     ou_error = Some error \<rparr>), w')
      | (Inr answer, w') \<Rightarrow>
          (let uploaded = ul_uploaded st + length (ul_chunk st) in
           (Inr (Inr \<lparr> ul_uploaded = uploaded, ul_chunk = [], ul_chunkBytes = 0,
                      ul_reports = ul_reports st @ [\<lparr> pr_uploaded = uploaded, pr_total = all \<rparr>] \<rparr>), w')))"

definition pushEntry :: "BulkEntry \<Rightarrow> UploadState \<Rightarrow> UploadState" where
  "pushEntry entry st =
     st\<lparr> ul_chunk := ul_chunk st @ [entry], ul_chunkBytes := ul_chunkBytes st + entryBytes entry \<rparr>"

definition mustFlush :: "BulkEntry \<Rightarrow> UploadState \<Rightarrow> bool" where
  "mustFlush entry st =
     (0 < length (ul_chunk st) \<and>
      (MAX_ITEMS_PER_REQUEST \<le> length (ul_chunk st) \<or> BODY_BUDGET < ul_chunkBytes st + entryBytes entry))"

fun uploadLoop ::
  "platform \<Rightarrow> ('s, 'z, 'r) call \<Rightarrow> nat \<Rightarrow> jstr option \<Rightarrow> addr \<Rightarrow> ItemPlaintext list \<Rightarrow> UploadState \<Rightarrow>
   ('s, 'z, UploadOutcome + UploadState) aprog" where
  "uploadLoop pf post all collectionId parentKey [] st = ret (Inr st)"
| "uploadLoop pf post all collectionId parentKey (item # items) st =
     andThen (encryptItem pf item parentKey) (\<lambda>encrypted.
       let entry = \<lparr> be_collectionId = collectionId, be_encrypted = encrypted \<rparr> in
       if mustFlush entry st then
         andThen (sendChunk post all st) (\<lambda>r.
           case r of
             Inl outcome \<Rightarrow> ret (Inl outcome)
           | Inr st' \<Rightarrow> uploadLoop pf post all collectionId parentKey items (pushEntry entry st'))
       else uploadLoop pf post all collectionId parentKey items (pushEntry entry st))"

definition uploadItems ::
  "platform \<Rightarrow> ('s, 'z, 'r) call \<Rightarrow> ItemPlaintext list \<Rightarrow> jstr option \<Rightarrow> ('s, 'z, UploadOutcome) aprog" where
  "uploadItems pf post items collectionId =
     (let all = length items in
      if all = 0 then ret \<lparr> ou_uploaded = 0, ou_total = 0, ou_inDoubt = 0, ou_error = None \<rparr>
      else
        andThen (withSession (\<lambda>s. parentKeyFor s collectionId)) (\<lambda>parentKey.
          case parentKey of
            None \<Rightarrow>
              ret \<lparr> ou_uploaded = 0, ou_total = all, ou_inDoubt = 0,
                    ou_error = Some (JsError
                      (js ''This device cannot open the key for that collection, so it cannot import into it'')) \<rparr>
          | Some key \<Rightarrow>
              andThen (uploadLoop pf post all collectionId key items
                  \<lparr> ul_uploaded = 0, ul_chunk = [], ul_chunkBytes = 0, ul_reports = [] \<rparr>) (\<lambda>r.
                case r of
                  Inl outcome \<Rightarrow> ret outcome
                | Inr st \<Rightarrow>
                    if 0 < length (ul_chunk st) then
                      andThen (sendChunk post all st) (\<lambda>r'.
                        case r' of
                          Inl outcome \<Rightarrow> ret outcome
                        | Inr st' \<Rightarrow> ret \<lparr> ou_uploaded = ul_uploaded st', ou_total = all, ou_inDoubt = 0, ou_error = None \<rparr>)
                    else ret \<lparr> ou_uploaded = ul_uploaded st, ou_total = all, ou_inDoubt = 0, ou_error = None \<rparr>)))"

section \<open>What is sent\<close>

definition chunkOk :: "BulkEntry list \<Rightarrow> bool" where
  "chunkOk chunk =
     (1 \<le> length chunk \<and> length chunk \<le> MAX_ITEMS_PER_REQUEST \<and>
      (length chunk = 1 \<or> sum_list (map entryBytes chunk) \<le> BODY_BUDGET))"

definition standsFor :: "platform \<Rightarrow> bytes \<Rightarrow> jstr option \<Rightarrow> BulkEntry \<Rightarrow> ItemPlaintext \<Rightarrow> bool" where
  "standsFor pf key collectionId entry item =
     (be_collectionId entry = collectionId \<and> opensItem pf (be_encrypted entry) key item)"

text \<open>The first requests carried \<open>chunks\<close> and were all answered.\<close>

definition confirmedAll :: "(nat \<Rightarrow> 'r result) \<Rightarrow> BulkEntry list list \<Rightarrow> bool" where
  "confirmedAll answer chunks = (list_all chunkOk chunks \<and> (\<forall>i < length chunks. \<exists>x. answer i = Inr x))"

lemma confirmedAll_snoc:
  "confirmedAll answer chunks \<Longrightarrow> chunkOk chunk \<Longrightarrow> answer (length chunks) = Inr x \<Longrightarrow>
   confirmedAll answer (chunks @ [chunk])"
  by (auto simp: confirmedAll_def less_Suc_eq)

text \<open>The state of the loop after the items \<open>sofar\<close>, \<open>chunks\<close> having been confirmed.\<close>

definition uploadInv ::
  "platform \<Rightarrow> bytes \<Rightarrow> jstr option \<Rightarrow> (nat \<Rightarrow> 'r result) \<Rightarrow> BulkEntry list list \<Rightarrow> ItemPlaintext list \<Rightarrow> UploadState \<Rightarrow> bool" where
  "uploadInv pf key c answer chunks sofar st =
     (confirmedAll answer chunks \<and> ul_uploaded st = length (concat chunks) \<and>
      ul_chunkBytes st = sum_list (map entryBytes (ul_chunk st)) \<and> (ul_chunk st = [] \<or> chunkOk (ul_chunk st)) \<and>
      list_all2 (standsFor pf key c) (concat chunks @ ul_chunk st) sofar)"

text \<open>A run that stopped: \<open>chunks\<close> confirmed, then \<open>lost\<close> failed; together they are the first items.\<close>

definition uploadFailed ::
  "platform \<Rightarrow> bytes \<Rightarrow> jstr option \<Rightarrow> (nat \<Rightarrow> 'r result) \<Rightarrow> BulkEntry list list \<Rightarrow> BulkEntry list \<Rightarrow> ItemPlaintext list \<Rightarrow> nat \<Rightarrow> UploadOutcome \<Rightarrow> bool" where
  "uploadFailed pf key c answer chunks lost items all outcome =
     (confirmedAll answer chunks \<and> chunkOk lost \<and>
      (\<exists>n. list_all2 (standsFor pf key c) (concat chunks @ lost) (take n items)) \<and>
      ou_uploaded outcome = length (concat chunks) \<and> ou_total outcome = all \<and>
      (\<exists>e. answer (length chunks) = Inl e \<and> ou_error outcome = Some e \<and>
           ou_inDoubt outcome = (if definitelyNotWritten e then 0 else length lost)))"

definition loopResult ::
  "platform \<Rightarrow> bytes \<Rightarrow> jstr option \<Rightarrow> (nat \<Rightarrow> 'r result) \<Rightarrow> ItemPlaintext list \<Rightarrow> nat \<Rightarrow> (UploadOutcome + UploadState) \<Rightarrow> json option list \<Rightarrow> bool" where
  "loopResult pf key c answer items all r sent =
     (case r of
        Inr st \<Rightarrow> \<exists>chunks. uploadInv pf key c answer chunks items st \<and> sent = map chunkBody chunks
      | Inl outcome \<Rightarrow> \<exists>chunks lost. uploadFailed pf key c answer chunks lost items all outcome \<and>
          sent = map chunkBody (chunks @ [lost]))"

lemma pushEntry_inv:
  assumes "uploadInv pf key c answer chunks sofar st" "\<not> mustFlush entry st" "standsFor pf key c entry item"
  shows "uploadInv pf key c answer chunks (sofar @ [item]) (pushEntry entry st)"
  using assms
  by (auto simp: uploadInv_def pushEntry_def mustFlush_def chunkOk_def list_all2_appendI
      simp flip: append_assoc)

lemma uploadFailed_more:
  "uploadFailed pf key c answer chunks lost items all outcome \<Longrightarrow>
   uploadFailed pf key c answer chunks lost (items @ rest) all outcome"
  unfolding uploadFailed_def
  by (metis append_Nil2 diff_is_0_eq' list_all2_lengthD nat_le_linear take0 take_all take_append)

lemma sendChunk_run:
  assumes "uploadInv pf key c answer chunks sofar st" "ul_chunk st \<noteq> []" "sv_server w = map chunkBody chunks"
  obtains (confirmed) st' w' where "sendChunk (loggingPost answer) all st w = (Inr (Inr st'), w')"
      "uploadInv pf key c answer (chunks @ [ul_chunk st]) sofar st'" "ul_chunk st' = []"
      "sv_server w' = map chunkBody (chunks @ [ul_chunk st])" "wd_heap w' = wd_heap w"
  | (failed) outcome w' where "sendChunk (loggingPost answer) all st w = (Inr (Inl outcome), w')"
      "uploadFailed pf key c answer chunks (ul_chunk st) sofar all outcome"
      "sv_server w' = map chunkBody (chunks @ [ul_chunk st])"
proof (cases "answer (length chunks)")
  case (Inl e)
  have n: "\<exists>n. list_all2 (standsFor pf key c) (concat chunks @ ul_chunk st) (take n sofar)"
    using assms(1) by (auto simp: uploadInv_def intro!: exI [of _ "length sofar"])
  show ?thesis
    using assms Inl n by (intro failed) (auto simp: sendChunk_def loggingPost_def uploadFailed_def uploadInv_def)
next
  case (Inr x)
  let ?w = "w\<lparr> sv_server := sv_server w @ [chunkBody (ul_chunk st)] \<rparr>"
  let ?n = "ul_uploaded st + length (ul_chunk st)"
  have run: "sendChunk (loggingPost answer) all st w =
    (Inr (Inr \<lparr> ul_uploaded = ?n, ul_chunk = [], ul_chunkBytes = 0,
                ul_reports = ul_reports st @ [\<lparr> pr_uploaded = ?n, pr_total = all \<rparr>] \<rparr>), ?w)"
    using Inr assms(3) by (simp add: sendChunk_def loggingPost_def Let_def)
  show ?thesis
    using assms Inr by (intro confirmed [OF run]) (auto simp: uploadInv_def intro: confirmedAll_snoc)
qed

lemma uploadLoop_run:
  assumes "gcmLaw pf" "a < length (wd_heap w)" "bufOf w a = key" "length key = 32"
    "uploadInv pf key c answer chunks sofar st" "sv_server w = map chunkBody chunks"
  shows "\<exists>r w'. uploadLoop pf (loggingPost answer) all c a items st w = (Inr r, w') \<and>
    loopResult pf key c answer (sofar @ items) all r (sv_server w')"
  using assms(2-)
proof (induction items arbitrary: w st chunks sofar)
  case Nil
  then show ?case by (auto simp: ret_def loopResult_def)
next
  case (Cons item items)
  obtain enc w1 where enc: "encryptItem pf item a w = (Inr enc, w1)" "opensItem pf enc (bufOf w a) item"
    "wd_heap w1 = wd_heap w @ [zeroBytes 32]" "world.more w1 = world.more w"
    using encryptItem_run [OF assms(1), of w a item] Cons.prems(1-3) by metis
  have srv: "sv_server w1 = map chunkBody chunks" using same_session(2) [OF enc(4)] Cons.prems(5) by simp
  have buf: "a < length (wd_heap w1)" "bufOf w1 a = key"
    using Cons.prems(1,2) by (simp_all add: enc(3) bufOf_def nth_append)
  define entry where "entry = \<lparr> be_collectionId = c, be_encrypted = enc \<rparr>"
  have st: "standsFor pf key c entry item" using enc(2) Cons.prems(2) by (simp add: standsFor_def entry_def)
  show ?case
  proof (cases "mustFlush entry st")
    case False
    from Cons.IH [OF buf Cons.prems(3) pushEntry_inv [OF Cons.prems(4) False st] srv] show ?thesis
      using enc(1) False by (simp add: andThen_def entry_def [symmetric])
  next
    case True
    then have ne: "ul_chunk st \<noteq> []" by (auto simp: mustFlush_def)
    show ?thesis
    proof (cases rule: sendChunk_run [OF Cons.prems(4) ne srv, of all])
      case (1 st' w')
      have "\<not> mustFlush entry st'" using 1(3) by (simp add: mustFlush_def)
      moreover have "a < length (wd_heap w')" "bufOf w' a = key" using buf 1(5) by (simp_all add: bufOf_def)
      ultimately show ?thesis
        using Cons.IH [OF _ _ Cons.prems(3) pushEntry_inv [OF 1(2) _ st] 1(4)] enc(1) True 1(1)
        by (simp add: andThen_def entry_def [symmetric])
    next
      case (2 outcome w')
      then have "loopResult pf key c answer (sofar @ item # items) all (Inl outcome) (sv_server w')"
        using uploadFailed_more by (fastforce simp: loopResult_def)
      then show ?thesis
        using enc(1) True 2(1) by (simp add: andThen_def entry_def [symmetric] ret_def)
    qed
  qed
qed

text \<open>What a run reports, against what was sent and answered.\<close>

definition accountsFor ::
  "platform \<Rightarrow> bytes \<Rightarrow> jstr option \<Rightarrow> (nat \<Rightarrow> 'r result) \<Rightarrow> ItemPlaintext list \<Rightarrow> UploadOutcome \<Rightarrow> json option list \<Rightarrow> bool" where
  "accountsFor pf key c answer items outcome sent =
     (ou_total outcome = length items \<and>
      (case ou_error outcome of
         None \<Rightarrow>
           ou_uploaded outcome = length items \<and> ou_inDoubt outcome = 0 \<and>
           (\<exists>chunks. sent = map chunkBody chunks \<and> confirmedAll answer chunks \<and>
              list_all2 (standsFor pf key c) (concat chunks) items)
       | Some e \<Rightarrow>
           (\<exists>chunks lost. sent = map chunkBody (chunks @ [lost]) \<and> confirmedAll answer chunks \<and> chunkOk lost \<and>
              answer (length chunks) = Inl e \<and> ou_uploaded outcome = length (concat chunks) \<and>
              list_all2 (standsFor pf key c) (concat chunks) (take (ou_uploaded outcome) items) \<and>
              list_all2 (standsFor pf key c) lost (take (length lost) (drop (ou_uploaded outcome) items)) \<and>
              ou_inDoubt outcome = (if definitelyNotWritten e then 0 else length lost))))"

lemma take_parts:
  assumes "list_all2 P (xs @ ys) (take n zs)"
  shows "list_all2 P xs (take (length xs) zs)" "list_all2 P ys (take (length ys) (drop (length xs) zs))"
proof -
  have n: "min (length zs) n = length xs + length ys" using list_all2_lengthD [OF assms] by simp
  have "list_all2 P xs (take (length xs) (take n zs))" "list_all2 P ys (drop (length xs) (take n zs))"
    using list_all2_takeI [OF assms, of "length xs"] list_all2_dropI [OF assms, of "length xs"] by simp_all
  moreover have "drop (length xs) (take n zs) = take (length ys) (drop (length xs) zs)"
    using n by (auto simp: drop_take min_def split: if_splits)
  ultimately show "list_all2 P xs (take (length xs) zs)" "list_all2 P ys (take (length ys) (drop (length xs) zs))"
    using n by (simp_all add: min_def split: if_splits)
qed

lemma failed_accounts:
  assumes "uploadFailed pf key c answer chunks lost items (length items) outcome"
  shows "accountsFor pf key c answer items outcome (map chunkBody (chunks @ [lost]))"
proof -
  obtain n where n: "list_all2 (standsFor pf key c) (concat chunks @ lost) (take n items)"
    using assms unfolding uploadFailed_def by blast
  show ?thesis
    using assms take_parts [OF n] unfolding uploadFailed_def accountsFor_def
    by (auto intro!: exI [of _ chunks] exI [of _ lost])
qed

lemma finished_accounts:
  assumes "uploadInv pf key c answer chunks items st" "ul_chunk st = []"
  shows "accountsFor pf key c answer items
    \<lparr> ou_uploaded = ul_uploaded st, ou_total = length items, ou_inDoubt = 0, ou_error = None \<rparr> (map chunkBody chunks)"
  using assms by (auto simp: uploadInv_def accountsFor_def dest: list_all2_lengthD)

lemma uploadItems_run:
  assumes "gcmLaw pf" "parentKeyFor (ap_session w) c = Inr (Some a)" "a < length (wd_heap w)"
    "length (bufOf w a) = 32" "sv_server w = []"
  shows "\<exists>outcome w'. uploadItems pf (loggingPost answer) items c w = (Inr outcome, w') \<and>
    accountsFor pf (bufOf w a) c answer items outcome (sv_server w')"
proof (cases "items = []")
  case True
  then show ?thesis
    using assms(5) by (auto simp: uploadItems_def ret_def accountsFor_def confirmedAll_def)
next
  case False
  let ?st = "\<lparr> ul_uploaded = 0, ul_chunk = [], ul_chunkBytes = 0, ul_reports = [] \<rparr>"
  have "uploadInv pf (bufOf w a) c answer [] [] ?st" by (simp add: uploadInv_def confirmedAll_def)
  then obtain r w' where run: "uploadLoop pf (loggingPost answer) (length items) c a items ?st w = (Inr r, w')"
    "loopResult pf (bufOf w a) c answer items (length items) r (sv_server w')"
    using uploadLoop_run [OF assms(1,3) refl assms(4), of c answer "[]" "[]" ?st "length items" items] assms(5) by auto
  have step: "uploadItems pf (loggingPost answer) items c w =
     (case r of
        Inl outcome \<Rightarrow> ret outcome w'
      | Inr st \<Rightarrow>
          if 0 < length (ul_chunk st) then
            andThen (sendChunk (loggingPost answer) (length items) st) (\<lambda>r'.
              case r' of
                Inl outcome \<Rightarrow> ret outcome
              | Inr st' \<Rightarrow> ret \<lparr> ou_uploaded = ul_uploaded st', ou_total = length items, ou_inDoubt = 0, ou_error = None \<rparr>) w'
          else ret \<lparr> ou_uploaded = ul_uploaded st, ou_total = length items, ou_inDoubt = 0, ou_error = None \<rparr> w')"
    using False run(1) assms(2) by (simp add: uploadItems_def andThen_def withSession_def Let_def split: sum.split)
  show ?thesis
  proof (cases r)
    case (Inl outcome)
    then show ?thesis using run(2) step by (auto simp: loopResult_def ret_def dest!: failed_accounts)
  next
    case (Inr st)
    then obtain chunks where inv: "uploadInv pf (bufOf w a) c answer chunks items st" "sv_server w' = map chunkBody chunks"
      using run(2) by (auto simp: loopResult_def)
    show ?thesis
    proof (cases "ul_chunk st = []")
      case True
      then show ?thesis using step Inr inv finished_accounts [OF inv(1)] by (simp add: ret_def)
    next
      case ne: False
      show ?thesis
      proof (cases rule: sendChunk_run [OF inv(1) ne inv(2), of "length items"])
        case (1 st' w'')
        then show ?thesis using step Inr ne finished_accounts [OF 1(2)] by (simp add: ret_def andThen_def)
      next
        case (2 outcome w'')
        then show ?thesis using step Inr ne failed_accounts [OF 2(2)] by (simp add: ret_def andThen_def)
      qed
    qed
  qed
qed

section \<open>What is reported, against what was written\<close>


definition writtenItems :: "(nat \<Rightarrow> bool) \<Rightarrow> BulkEntry list list \<Rightarrow> nat" where
  "writtenItems wrote chunks = (\<Sum>i < length chunks. if wrote i then length (chunks ! i) else 0)"








text \<open>
  The exception happens. A batch whose answer is a success with a body that is not JSON is stored,
  and the outcome counts none of its items and leaves none in doubt.
\<close>

theorem malformed_answer_hides_batch:
  assumes "gcmLaw pf" "parentKeyFor (ap_session w) c = Inr (Some a)" "a < length (wd_heap w)"
    "length (bufOf w a) = 32" "sv_server w = []" "items \<noteq> []"
  shows "\<exists>outcome w' chunks.
    uploadItems pf (loggingPost (\<lambda>n. Inl (ApiError Internal 200 (js ''Malformed response'') text) :: 'r result)) items c w =
      (Inr outcome, w') \<and>
    sv_server w' = map chunkBody chunks \<and> 0 < writtenItems (\<lambda>n. True) chunks \<and>
    ou_uploaded outcome = 0 \<and> ou_inDoubt outcome = 0"
proof -
  let ?answer = "\<lambda>n. Inl (ApiError Internal 200 (js ''Malformed response'') text) :: 'r result"
  obtain outcome w' where run: "uploadItems pf (loggingPost ?answer) items c w = (Inr outcome, w')"
    and acc: "accountsFor pf (bufOf w a) c ?answer items outcome (sv_server w')"
    using uploadItems_run [OF assms(1-5)] by blast
  have none: "chunks = []" if "confirmedAll ?answer chunks" for chunks using that by (auto simp: confirmedAll_def)
  show ?thesis
  proof (cases "ou_error outcome")
    case None
    then obtain chunks where "confirmedAll ?answer chunks" "list_all2 (standsFor pf (bufOf w a) c) (concat chunks) items"
      using acc by (auto simp: accountsFor_def)
    then have "items = []" using none by fastforce
    then show ?thesis using assms(6) by simp
  next
    case (Some e)
    then obtain lost where l: "sv_server w' = map chunkBody [lost]" "chunkOk lost" "ou_uploaded outcome = 0" "ou_inDoubt outcome = 0"
      using acc none by (fastforce simp: accountsFor_def)
    have "0 < writtenItems (\<lambda>n. True) [lost]" using l(2) by (auto simp: writtenItems_def chunkOk_def)
    then show ?thesis using run l by blast
  qed
qed

section \<open>The size of a request\<close>

lemma length_join: "length (join [x] xs) = (if xs = [] then 0 else sum_list (map (\<lambda>s. length s + 1) xs) - 1)"
  by (induction "[x]" xs rule: join.induct) auto

lemma quote_items: "length (quote (js ''items'')) = 7"
  by code_simp

lemma chunkBody_length:
  assumes "chunkBody chunk = Some body" "chunk \<noteq> []"
  shows "length (stringify body) = sum_list (map entryBytes chunk) + 11"
proof -
  have "1 \<le> sum_list (map (\<lambda>s. length s + 1) (map (stringify o entryJson) chunk))" using assms(2) by (cases chunk) auto
  moreover have "sum_list (map entryBytes chunk) = sum_list (map (\<lambda>s. length s + 1) (map (stringify o entryJson) chunk))"
    by (simp only: map_map) (simp add: entryBytes_def [abs_def] comp_def)
  moreover have "length (stringify body) = length (join [44] (map (stringify o entryJson) chunk)) + 12"
    using assms(1) quote_items by (auto simp add: chunkBody_def jsObj_def)
  moreover have "length (join [44] (map (stringify o entryJson) chunk)) =
      sum_list (map (\<lambda>s. length s + 1) (map (stringify o entryJson) chunk)) - 1"
    using assms(2) by (simp only: length_join map_is_Nil_conv if_False)
  ultimately show ?thesis by linarith
qed

lemma chunkOk_body:
  assumes "chunkOk chunk" "chunkBody chunk = Some body"
  shows "length chunk = 1 \<or> length (stringify body) \<le> MAX_BODY_BYTES"
proof -
  have "chunk \<noteq> []" using assms(1) by (auto simp: chunkOk_def)
  then show ?thesis
    using assms chunkBody_length [OF assms(2)] by (auto simp: chunkOk_def BODY_BUDGET_def MAX_BODY_BYTES_def)
qed

definition withinLimits :: "BulkEntry list \<Rightarrow> bool" where
  "withinLimits chunk =
     (1 \<le> length chunk \<and> length chunk \<le> MAX_ITEMS_PER_REQUEST \<and>
      (length chunk = 1 \<or> (case chunkBody chunk of None \<Rightarrow> False | Some body \<Rightarrow> length (stringify body) \<le> MAX_BODY_BYTES)))"

lemma chunkOk_limits: "chunkOk chunk \<Longrightarrow> withinLimits chunk"
  using chunkOk_body [of chunk] by (auto simp: withinLimits_def chunkOk_def chunkBody_def split: option.split)

lemma sent_chunks:
  assumes "accountsFor pf key c answer items outcome sent"
  shows "\<exists>chunks. sent = map chunkBody chunks \<and> list_all chunkOk chunks"
proof (cases "ou_error outcome")
  case None
  then show ?thesis using assms by (auto simp: accountsFor_def confirmedAll_def)
next
  case (Some e)
  then obtain chunks lost where "sent = map chunkBody (chunks @ [lost])" "list_all chunkOk (chunks @ [lost])"
    using assms by (auto simp: accountsFor_def confirmedAll_def)
  then show ?thesis by blast
qed

text \<open>
  C11. No request an import makes is one the server refuses for its size. Whatever the server
  answers, every body posted holds between one and 1000 items, and one of more than one item
  prints to at most 8 MiB, the envelope around the items included; an item larger than that is
  sent alone.
\<close>

theorem upload_chunk_bounds:
  assumes "gcmLaw pf" "parentKeyFor (ap_session w) c = Inr (Some a)" "a < length (wd_heap w)"
    "length (bufOf w a) = 32" "sv_server w = []"
  shows "\<exists>chunks. sv_server (snd (uploadItems pf (loggingPost answer) items c w)) = map chunkBody chunks \<and>
    list_all withinLimits chunks"
proof -
  obtain outcome w' where run: "uploadItems pf (loggingPost answer) items c w = (Inr outcome, w')"
    and acc: "accountsFor pf (bufOf w a) c answer items outcome (sv_server w')"
    using uploadItems_run [OF assms] by blast
  obtain chunks where "sv_server w' = map chunkBody chunks" "list_all chunkOk chunks"
    using acc sent_chunks by blast
  moreover from this have "list_all withinLimits chunks" by (auto simp: list_all_iff chunkOk_limits)
  ultimately show ?thesis using run by auto
qed

text \<open>
  An import is not always an outcome: with the vault locked, \<^verbatim>\<open>uploadItems\<close> of a personal
  item throws what the session throws, before the loop and its counts.
\<close>

theorem upload_locked_throws:
  assumes "\<not> isUnlocked (ap_session w)" "items \<noteq> []"
  shows "\<exists>e. uploadItems pf post items None w = (Inl e, w)"
  using assms
  by (auto simp: uploadItems_def andThen_def withSession_def parentKeyFor_def getKeys_def isUnlocked_def Let_def
      split: option.splits)

section \<open>Witnesses\<close>

definition sampleImport :: "json option list app" where
  "sampleImport =
     \<lparr> wd_random = (\<lambda>i. of_nat i), wd_heap = [replicate 32 7], sv_server = [],
       ap_session = createSession\<lparr> se_userKey := Some 0, se_privateKey := Some 0 \<rparr> \<rparr>"

lemma sampleImport_ready:
  "parentKeyFor (ap_session sampleImport) None = Inr (Some 0)" "0 < length (wd_heap sampleImport)"
  "length (bufOf sampleImport 0) = 32" "sv_server sampleImport = []"
  by (simp_all add: sampleImport_def parentKeyFor_def getKeys_def createSession_def bufOf_def)


theorem malformed_answer_hides_batch_witness:
  "\<exists>outcome w' chunks.
    uploadItems samplePlatform (loggingPost (\<lambda>n. Inl (ApiError Internal 200 (js ''Malformed response'') None) :: unit result))
      [sampleItem] None sampleImport = (Inr outcome, w') \<and>
    sv_server w' = map chunkBody chunks \<and> 0 < writtenItems (\<lambda>n. True) chunks \<and>
    ou_uploaded outcome = 0 \<and> ou_inDoubt outcome = 0"
  by (rule malformed_answer_hides_batch [OF sample_laws(1) sampleImport_ready]) simp

theorem upload_chunk_bounds_witness:
  "\<exists>chunks. sv_server (snd (uploadItems samplePlatform (loggingPost (\<lambda>n. Inr ())) [sampleItem] None sampleImport)) =
     map chunkBody chunks \<and> list_all withinLimits chunks"
  by (rule upload_chunk_bounds [OF sample_laws(1) sampleImport_ready])

theorem upload_locked_throws_witness:
  "\<exists>e. uploadItems samplePlatform (loggingPost (\<lambda>n. Inr ())) [sampleItem] None
     (sampleImport\<lparr> ap_session := createSession \<rparr>) = (Inl e, sampleImport\<lparr> ap_session := createSession \<rparr>)"
  by (rule upload_locked_throws) (simp_all add: isUnlocked_def createSession_def)

end
