(* ===== verification/Seal.thy ===== *)
theory Seal
  imports Keys
begin

text \<open>
  Sealing a key to a user's public key (\<^verbatim>\<open>packages/crypto/src/seal.ts\<close>) and the fingerprint
  two people compare (\<^verbatim>\<open>packages/crypto/src/fingerprint.ts\<close>).

  Shown: what is sealed to a public key opens with its private key to the same 32 bytes; opening
  returns 32 bytes or throws, whatever text it is given; no shared secret, seal key or ephemeral
  private key is left behind; a fingerprint is the digest's first sixteen bytes, five bits of each.
\<close>

record SealedKey =
  sk_epk :: jstr
  sk_n :: jstr
  sk_ct :: jstr

definition SEAL_ALG :: jstr where "SEAL_ALG = js ''X25519-HKDF-SHA256-A256GCM''"
definition SEAL_INFO_PREFIX :: bytes where "SEAL_INFO_PREFIX = utf8Encode (js ''keyhole:seal:v1'')"

abbreviation (input) PUBLIC_KEY_BYTES :: nat where "PUBLIC_KEY_BYTES \<equiv> 32"
abbreviation (input) SEALED_SECRET_BYTES :: nat where "SEALED_SECRET_BYTES \<equiv> 32"

definition sealBytes :: "platform \<Rightarrow> bytes \<Rightarrow> bytes \<Rightarrow> bytes \<Rightarrow> bytes" where
  "sealBytes pf sharedSecret ephemeralPublicKey recipientPublicKey =
     pf_hkdf pf sharedSecret (concatBytes [SEAL_INFO_PREFIX, ephemeralPublicKey, recipientPublicKey]) 32"

definition deriveSealKey :: "platform \<Rightarrow> addr \<Rightarrow> bytes \<Rightarrow> bytes \<Rightarrow> ('z, addr) prog" where
  "deriveSealKey pf sharedSecret ephemeralPublicKey recipientPublicKey =
     andThen (readBuf sharedSecret) (\<lambda>secret.
       newBuf (sealBytes pf secret ephemeralPublicKey recipientPublicKey))"

definition sealedJson :: "SealedKey \<Rightarrow> json" where
  "sealedJson sealed =
     jsObj [(''v'', JNum (jint 1)), (''alg'', JStr SEAL_ALG), (''epk'', JStr (sk_epk sealed)),
            (''n'', JStr (sk_n sealed)), (''ct'', JStr (sk_ct sealed))]"

text \<open>
  \<^verbatim>\<open>sealToUserWithEphemeral\<close>: the shared secret and the seal key are made before the
  \<^verbatim>\<open>try\<close>, and cleared after it.
\<close>

definition sealToUserWithEphemeral ::
  "platform \<Rightarrow> addr \<Rightarrow> bytes \<Rightarrow> addr \<Rightarrow> bytes \<Rightarrow> ('z, jstr) prog" where
  "sealToUserWithEphemeral pf secret recipientPublicKey ephemeralPrivateKey nonce =
     (if length recipientPublicKey \<noteq> PUBLIC_KEY_BYTES
      then throw (InvalidKeyError (js ''Recipient public key must be 32 bytes, received '' @ showNat (length recipientPublicKey)))
      else
        andThen (publicKeyFor pf ephemeralPrivateKey) (\<lambda>ephemeralPublicKey.
        andThen (andThen (readBuf ephemeralPrivateKey) (\<lambda>k.
            andThen (ofResult (pf_sharedSecret pf k recipientPublicKey)) newBuf)) (\<lambda>sharedSecret.
        andThen (deriveSealKey pf sharedSecret ephemeralPublicKey recipientPublicKey) (\<lambda>sealKey.
          tryFinally
            (andThen (readBuf secret) (\<lambda>plaintext. andThen (readBuf sealKey) (\<lambda>key.
             andThen (ofResult (encryptBytesWithNonce pf plaintext key nonce)) (\<lambda>envelope.
               ret (stringify (sealedJson
                 \<lparr> sk_epk = toBase64 ephemeralPublicKey, sk_n = en_n envelope, sk_ct = en_ct envelope \<rparr>))))))
            (zeroize [Some sharedSecret, Some sealKey])))))"

definition sealToUser :: "platform \<Rightarrow> addr \<Rightarrow> bytes \<Rightarrow> ('z, jstr) prog" where
  "sealToUser pf secret recipientPublicKey =
     andThen (generateKeyPair pf) (\<lambda>ephemeral.
       tryFinally
         (andThen (randomBytes NONCE_BYTES) (\<lambda>nonce.
            sealToUserWithEphemeral pf secret recipientPublicKey (kp_privateKey ephemeral) nonce))
         (zeroize [Some (kp_privateKey ephemeral)]))"

definition parseSealed :: "jstr \<Rightarrow> SealedKey result" where
  "parseSealed serialized =
     (case jsonParse serialized of
        None \<Rightarrow> Inl (MalformedEnvelopeError (js ''Sealed key is not valid JSON''))
      | Some raw \<Rightarrow>
          if \<not> isObjectLike raw then Inl (MalformedEnvelopeError (js ''Sealed key must be an object''))
          else if field raw (js ''v'') \<noteq> Some (JNum (jint 1))
            then malformedWith ''Unsupported sealed key version: '' (field raw (js ''v''))
          else if field raw (js ''alg'') \<noteq> Some (JStr SEAL_ALG)
            then malformedWith ''Unsupported sealed key algorithm: '' (field raw (js ''alg''))
          else (case (field raw (js ''epk''), field raw (js ''n''), field raw (js ''ct'')) of
              (Some (JStr epk), Some (JStr n), Some (JStr ct)) \<Rightarrow>
                (case fromBase64 epk of
                   Inl e \<Rightarrow> Inl (MalformedEnvelopeError (js ''Sealed key 'epk' is not valid base64''))
                 | Inr key \<Rightarrow>
                     if length key \<noteq> PUBLIC_KEY_BYTES
                     then Inl (MalformedEnvelopeError
                            (js ''Sealed key 'epk' must be 32 bytes, received '' @ showNat (length key)))
                     else Inr \<lparr> sk_epk = epk, sk_n = n, sk_ct = ct \<rparr>)
            | _ \<Rightarrow> Inl (MalformedEnvelopeError (js ''Sealed key is missing 'epk', 'n', or 'ct'' @ [39]))))"

text \<open>
  \<^verbatim>\<open>openSealed\<close>. Only the library's two calls are inside the first \<^verbatim>\<open>try\<close>; deriving the
  seal key cannot throw.
\<close>

definition openSealed :: "platform \<Rightarrow> jstr \<Rightarrow> addr \<Rightarrow> ('z, addr) prog" where
  "openSealed pf sealed recipientPrivateKey =
     andThen (ofResult (parseSealed sealed)) (\<lambda>parsed.
     andThen (ofResult (fromBase64 (sk_epk parsed))) (\<lambda>ephemeralPublicKey.
     andThen (tryCatch (publicKeyFor pf recipientPrivateKey) (\<lambda>e. throw DecryptionError)) (\<lambda>recipientPublicKey.
     andThen (tryCatch (andThen (readBuf recipientPrivateKey) (\<lambda>k.
         andThen (ofResult (pf_sharedSecret pf k ephemeralPublicKey)) newBuf)) (\<lambda>e. throw DecryptionError)) (\<lambda>sharedSecret.
     andThen (deriveSealKey pf sharedSecret ephemeralPublicKey recipientPublicKey) (\<lambda>sealKey.
       tryFinally
         (andThen (readBuf sealKey) (\<lambda>key.
          andThen (ofResult (decryptBytes pf \<lparr> en_n = sk_n parsed, en_ct = sk_ct parsed \<rparr> key)) (\<lambda>opened.
            if length opened \<noteq> SEALED_SECRET_BYTES then throw DecryptionError else newBuf opened)))
         (zeroize [Some sharedSecret, Some sealKey]))))))"

section \<open>Fingerprints\<close>

definition publicKeyFingerprint :: "platform \<Rightarrow> bytes \<Rightarrow> jstr \<Rightarrow> jstr" where
  "publicKeyFingerprint pf publicKey email =
     (let normalizedEmail = utf8Encode (toLowerCase (trim email));
          digest = pf_sha256 pf (concatBytes [normalizedEmail, publicKey])
      in groupChars (encodeCrockford (take 16 digest)) 4)"

section \<open>What opening returns\<close>

lemma deriveSealKey_run:
  "deriveSealKey pf a epk rpk w = (Inr (length (wd_heap w)), pushBuf (sealBytes pf (bufOf w a) epk rpk) w)"
  by (simp add: deriveSealKey_def andThen_def readBuf_def newBuf_push)

lemma deriveSealKey_makes: "makesKey (deriveSealKey pf a epk rpk)"
  unfolding deriveSealKey_def by (intro makesKey_andThen leaves_readBuf makesKey_newBuf)

lemma leaves_publicKeyFor [simp]: "leaves (publicKeyFor pf a) K"
  unfolding publicKeyFor_def by (intro leaves_intros)

lemma sharedSecret_makes:
  "makesKey (andThen (readBuf a) (\<lambda>k. andThen (ofResult (pf_sharedSecret pf k p)) newBuf))"
  by (intro makesKey_andThen leaves_readBuf leaves_ofResult makesKey_newBuf)

lemma makesKey_tryCatch: "makesKey m \<Longrightarrow> makesKey (tryCatch m (\<lambda>e. throw x))"
  unfolding makesKey_def
proof (intro conjI allI impI)
  assume "leaves m (\<lambda>a. {a}) \<and> (\<forall>w a w'. m w = (Inr a, w') \<longrightarrow> length (wd_heap w) \<le> a)"
  then show "leaves (tryCatch m (\<lambda>e. throw x)) (\<lambda>a. {a})" by (auto intro: leaves_tryCatch)
next
  fix w a w'
  assume "leaves m (\<lambda>a. {a}) \<and> (\<forall>w a w'. m w = (Inr a, w') \<longrightarrow> length (wd_heap w) \<le> a)"
    and "tryCatch m (\<lambda>e. throw x) w = (Inr a, w')"
  then show "length (wd_heap w) \<le> a" by (auto simp: tryCatch_def throw_def split: sum.splits prod.splits)
qed

lemma leaves_newBuf: "leaves (newBuf bs) (\<lambda>a. {a})"
  using makesKey_newBuf [of bs] unfolding makesKey_def by blast

lemma leaves_seal: "leaves (sealToUserWithEphemeral pf secret public ephemeral nonce) (\<lambda>x. {})"
proof (cases "length public = 32")
  case True
  show ?thesis
    unfolding sealToUserWithEphemeral_def if_not_P [OF iffD2 [OF not_not True]]
    by (intro leaves_andThen [OF leaves_publicKeyFor] leaves_using2 sharedSecret_makes deriveSealKey_makes leaves_intros)
      (simp add: deriveSealKey_run)
qed (simp add: sealToUserWithEphemeral_def)

lemma leaves_open: "leaves (openSealed pf sealed k) (\<lambda>a. {a})"
proof -
  have "leaves (if length opened \<noteq> SEALED_SECRET_BYTES then throw DecryptionError else newBuf opened) (\<lambda>a. {a})"
    for opened by (simp add: leaves_newBuf)
  then show ?thesis
    unfolding openSealed_def
    by (intro leaves_andThen [OF leaves_ofResult] leaves_andThen [OF leaves_tryCatch] leaves_using2
        makesKey_tryCatch sharedSecret_makes deriveSealKey_makes leaves_intros leaves_publicKeyFor)
      (simp add: deriveSealKey_run)
qed

lemma openSealed_length:
  assumes "openSealed pf sealed k w = (Inr a, w')"
  shows "a < length (wd_heap w')" "length (bufOf w' a) = 32"
proof -
  obtain w1 s t opened where "w' = zeroize [Some s, Some t] (pushBuf opened w1)" "a = length (wd_heap w1)"
      "length opened = 32" "s < length (wd_heap w1)" "t < length (wd_heap w1)"
    using assms
    by (auto simp: openSealed_def andThen_def tryFinally_def tryCatch_def ofResult_def readBuf_def throw_def
        newBuf_push deriveSealKey_run split: sum.splits prod.splits if_splits)
  then show "a < length (wd_heap w')" "length (bufOf w' a) = 32" by simp_all
qed

text \<open>
  Opening a sealed key gives 32 bytes or throws. Whatever text the server sends and whatever
  the platform's primitives return, a value \<^verbatim>\<open>openSealed\<close> hands back is a buffer of exactly 32
  bytes, so no key of another length reaches the item cipher; and every other buffer it made is
  zero at the end, the caller's untouched.
\<close>

theorem open_sealed_bounds:
  assumes "openSealed pf sealed privateKey w = (r, w')"
  shows "case r of
     Inl e \<Rightarrow> tidy w w' {}
   | Inr a \<Rightarrow> length (bufOf w' a) = 32 \<and> tidy w w' {a}"
  using leavesD [OF leaves_open, of pf sealed privateKey w] openSealed_length [of pf sealed privateKey w] assms
  by (cases r) auto

section \<open>Round trip\<close>

text \<open>X25519: both sides of an exchange compute the same secret.\<close>

definition exchangeLaw :: "platform \<Rightarrow> bool" where
  "exchangeLaw pf =
     (\<forall>a b publicA publicB. pf_publicKey pf a = Inr publicA \<longrightarrow> pf_publicKey pf b = Inr publicB \<longrightarrow>
        (\<exists>secret. pf_sharedSecret pf a publicB = Inr secret \<and> pf_sharedSecret pf b publicA = Inr secret))"

lemma sealedJson_wf: "jsonWf (sealedJson s)"
  unfolding sealedJson_def by (rule jsObj_wf) (simp_all add: envelope_plain jint_1_wf [simplified])

lemma parse_sealed:
  assumes "length epk = 32"
  shows "parseSealed (stringify (sealedJson \<lparr> sk_epk = toBase64 epk, sk_n = n, sk_ct = ct \<rparr>)) =
    Inr \<lparr> sk_epk = toBase64 epk, sk_n = n, sk_ct = ct \<rparr>"
  unfolding parseSealed_def jsonParse_stringify [OF sealedJson_wf]
  using assms by (simp add: field_jsObj sealedJson_def isObjectLike_def fromBase64_toBase64) (simp add: jsObj_def)

definition sealText :: "platform \<Rightarrow> bytes \<Rightarrow> bytes \<Rightarrow> bytes \<Rightarrow> bytes \<Rightarrow> jstr" where
  "sealText pf plaintext key epk nonce =
     stringify (sealedJson \<lparr> sk_epk = toBase64 epk, sk_n = toBase64 nonce,
       sk_ct = toBase64 (pf_gcmEncrypt pf key nonce plaintext) \<rparr>)"

lemma seal_run:
  assumes "kdfLaws pf" "length public = 32" "length nonce = 12"
    "pf_publicKey pf (bufOf w e) = Inr epk" "pf_sharedSecret pf (bufOf w e) public = Inr s" "secret < length (wd_heap w)"
  shows "\<exists>w'. sealToUserWithEphemeral pf secret public e nonce w =
    (Inr (sealText pf (bufOf w secret) (sealBytes pf s epk public) epk nonce), w') \<and> world.more w' = world.more w"
proof -
  have "length (sealBytes pf s epk public) = 32" using assms(1) by (simp add: sealBytes_def)
  then show ?thesis
    using assms
    by (simp add: sealToUserWithEphemeral_def publicKeyFor_def andThen_def tryFinally_def readBuf_def ofResult_def
        newBuf_push deriveSealKey_run encryptBytesWithNonce_def importKey_def ret_def sealText_def clearBuf_def)
qed

lemma sealToUser_run:
  assumes "kdfLaws pf" "keyPairLaw pf" "exchangeLaw pf" "secret < length (wd_heap w)"
    "pf_publicKey pf private = Inr public" "length public = 32"
  obtains epk nonce s w' where
    "sealToUser pf secret public w = (Inr (sealText pf (bufOf w secret) (sealBytes pf s epk public) epk nonce), w')"
    "pf_sharedSecret pf private epk = Inr s" "length epk = 32" "length nonce = 12" "tidy w w' {}"
    "world.more w' = world.more w"
proof -
  let ?n = "length (wd_heap w)"
  obtain e epk tape where kp: "generateKeyPair pf w =
      (Inr \<lparr> kp_publicKey = epk, kp_privateKey = ?n \<rparr>, pushBuf e (w\<lparr> wd_random := tape \<rparr>))"
    "pf_publicKey pf e = Inr epk" "length epk = 32"
    by (rule generateKeyPair_run [OF assms(2)])
  obtain s where s: "pf_sharedSecret pf e public = Inr s" "pf_sharedSecret pf private epk = Inr s"
    using assms(3,5) kp(2) unfolding exchangeLaw_def by blast
  define w1 where "w1 = pushBuf e (w\<lparr> wd_random := tape \<rparr>)"
  define w2 where "w2 = afterDraw 12 w1"
  have buf: "bufOf w2 ?n = e" "bufOf w2 secret = bufOf w secret" "secret < length (wd_heap w2)"
    using assms(4) by (simp_all add: w2_def w1_def) (simp add: bufOf_def)
  have "pf_publicKey pf (bufOf w2 ?n) = Inr epk" "pf_sharedSecret pf (bufOf w2 ?n) public = Inr s"
    using kp(2) s(1) by (simp_all add: buf)
  from seal_run [OF assms(1,6) length_drawn this buf(3), of "w1"] obtain w3 where
    w3: "sealToUserWithEphemeral pf secret public ?n (drawn 12 w1) w2 =
      (Inr (sealText pf (bufOf w secret) (sealBytes pf s epk public) epk (drawn 12 w1)), w3)"
      "world.more w3 = world.more w2" unfolding buf by blast
  have run: "sealToUser pf secret public w =
      (Inr (sealText pf (bufOf w secret) (sealBytes pf s epk public) epk (drawn 12 w1)), clearBuf ?n w3)"
    by (simp add: sealToUser_def andThen_def tryFinally_def kp(1) randomBytes_run w1_def [symmetric] w2_def [symmetric] w3)
  have "tidy w w2 {?n}" by (rule tidy_heap [of _ _ "[e]"]) (simp_all add: w2_def w1_def)
  then have "tidy w (clearBuf ?n w3) {}" by (rule tidy_clear [OF _ _ leavesD(1) [OF leaves_seal w3(1)]]) simp
  then show ?thesis
    by (rule that [OF run s(2) kp(3) length_drawn]) (simp add: clearBuf_def w3(2) w2_def w1_def)
qed

lemma sealToUser_opens:
  assumes "gcmLaw pf" "kdfLaws pf" "keyPairLaw pf" "exchangeLaw pf"
    and "secret < length (wd_heap w)" "length (bufOf w secret) = 32"
    and "pf_publicKey pf (bufOf device privateKey) = Inr public" "length public = 32"
  shows "\<exists>sealed w1 a w3. sealToUser pf secret public w = (Inr sealed, w1) \<and> tidy w w1 {} \<and>
    world.more w1 = world.more w \<and> openSealed pf sealed privateKey device = (Inr a, w3) \<and> bufOf w3 a = bufOf w secret"
proof -
  obtain epk nonce s w1 where run:
    "sealToUser pf secret public w = (Inr (sealText pf (bufOf w secret) (sealBytes pf s epk public) epk nonce), w1)"
    "pf_sharedSecret pf (bufOf device privateKey) epk = Inr s" "length epk = 32" "length nonce = 12" "tidy w w1 {}" "world.more w1 = world.more w"
    by (rule sealToUser_run [OF assms(2,3,4,5,7,8)])
  have key: "length (sealBytes pf s epk public) = 32" using assms(2) by (simp add: sealBytes_def)
  have "\<exists>a w3. openSealed pf (sealText pf (bufOf w secret) (sealBytes pf s epk public) epk nonce) privateKey device =
      (Inr a, w3) \<and> bufOf w3 a = bufOf w secret"
    using assms(6,7) run(2)
    by (simp add: openSealed_def sealText_def parse_sealed [OF run(3)] andThen_def tryFinally_def tryCatch_def
        ofResult_def readBuf_def publicKeyFor_def fromBase64_toBase64 newBuf_push deriveSealKey_run
        decrypt_encrypt [OF assms(1) key run(4)])
  then show ?thesis using run(1,5,6) by blast
qed

text \<open>
  C9. A sealed key reaches the person it was sealed to: sealing a 32-byte key to a public key
  returns, and the holder of the private key opens the text to the same 32 bytes. Sealing leaves
  none of its own keys behind.
\<close>

theorem seal_roundtrip:
  assumes "gcmLaw pf" "kdfLaws pf" "keyPairLaw pf" "exchangeLaw pf"
    and "secret < length (wd_heap w)" "length (bufOf w secret) = 32"
    and "pf_publicKey pf (bufOf device privateKey) = Inr public" "length public = 32"
  shows "\<exists>sealed w1 a w3. sealToUser pf secret public w = (Inr sealed, w1) \<and> tidy w w1 {} \<and>
    openSealed pf sealed privateKey device = (Inr a, w3) \<and> bufOf w3 a = bufOf w secret"
  using sealToUser_opens [OF assms] by blast

lemma sample_exchange: "exchangeLaw samplePlatform"
proof -
  have p: "padTo 32 (padTo 32 k) = padTo 32 k" for k by (simp add: padTo_def)
  have "map2 (XOR) xs ys = map2 (XOR) ys xs" for xs ys :: bytes
    by (simp add: zip_commute [of xs ys] comp_def case_prod_beta xor.commute)
  then show ?thesis by (auto simp: exchangeLaw_def samplePlatform_def p)
qed

theorem seal_roundtrip_witness:
  "\<exists>sealed w1 a w3. sealToUser samplePlatform 0 (replicate 32 7) sampleWorld = (Inr sealed, w1) \<and>
     openSealed samplePlatform sealed 0 sampleWorld = (Inr a, w3) \<and> bufOf w3 a = replicate 32 7"
proof -
  have b: "bufOf sampleWorld 0 = replicate 32 7" "0 < length (wd_heap sampleWorld)"
    by (simp_all add: sampleWorld_def bufOf_def)
  have l: "length (bufOf sampleWorld 0) = 32" "length (replicate 32 (7::byte)) = 32" by (simp_all add: b)
  have p: "pf_publicKey samplePlatform (bufOf sampleWorld 0) = Inr (replicate 32 7)"
    by (simp add: samplePlatform_def padTo_def b)
  from seal_roundtrip [OF sample_laws sample_exchange b(2) l(1) p l(2)] show ?thesis unfolding b(1) by blast
qed

theorem open_sealed_bounds_witness:
  "\<exists>a w'. openSealed samplePlatform
      (sealText samplePlatform (replicate 32 9) (sealBytes samplePlatform (replicate 32 6) (replicate 32 1) (replicate 32 7))
        (replicate 32 1) (replicate 12 0)) 0 sampleWorld = (Inr a, w') \<and> length (bufOf w' a) = 32 \<and> tidy sampleWorld w' {a}"
proof -
  have b: "bufOf sampleWorld 0 = replicate 32 7" by (simp add: sampleWorld_def bufOf_def)
  have x: "map2 (XOR) (replicate n (7::byte)) (replicate n 1) = replicate n 6" for n by (induction n) simp_all
  have s: "pf_sharedSecret samplePlatform (replicate 32 7) (replicate 32 1) = Inr (replicate 32 6)"
    using x [of 32] by (simp add: samplePlatform_def padTo_def)
  have p: "pf_publicKey samplePlatform (replicate 32 7) = Inr (replicate 32 7)"
    by (simp add: samplePlatform_def padTo_def)
  have key: "length (sealBytes samplePlatform (replicate 32 6) (replicate 32 1) (replicate 32 7)) = 32"
    using sample_laws(2) by (simp add: sealBytes_def)
  have epk: "length (replicate 32 (1::byte)) = 32" and nn: "length (replicate 12 (0::byte)) = 12" by simp_all
  obtain a w' where "openSealed samplePlatform
      (sealText samplePlatform (replicate 32 9) (sealBytes samplePlatform (replicate 32 6) (replicate 32 1) (replicate 32 7))
        (replicate 32 1) (replicate 12 0)) 0 sampleWorld = (Inr a, w')"
    by (simp add: openSealed_def sealText_def parse_sealed [OF epk] andThen_def tryFinally_def tryCatch_def
        ofResult_def readBuf_def publicKeyFor_def fromBase64_toBase64 newBuf_push deriveSealKey_run b p s
        decrypt_encrypt [OF sample_laws(1) key nn])
  then show ?thesis using open_sealed_bounds [of samplePlatform] by fastforce
qed

section \<open>What a fingerprint shows\<close>

text \<open>Read back without its dashes it is the first sixteen bytes of the digest, five bits of each.\<close>

lemma fingerprint_digest:
  "normalizeCrockford (publicKeyFingerprint pf publicKey email) =
     encodeCrockford (take 16 (pf_sha256 pf (utf8Encode (toLowerCase (trim email)) @ publicKey)))"
  unfolding publicKeyFingerprint_def Let_def by (subst normalize_grouped) (simp_all add: concatBytes_def)

end
