(* ===== verification/Collections.thy ===== *)
theory Collections
  imports Items Seal
begin

text \<open>
  Shared collections and the directory of users (\<^verbatim>\<open>packages/vault/src/collections.ts\<close>,
  \<^verbatim>\<open>packages/vault/src/directory.ts\<close>): opening the sealed keys of a sync, creating a
  collection, and sealing its key to another member.

  Shown: after a sync the key ring is exactly the collections of that sync, kept keys being the
  buffers they were and dropped ones cleared; a created collection's key is held and sealed, or
  cleared when anything failed; a fulfilled grant is one the recipient can open.
\<close>

section \<open>Data\<close>

record WireCollection =
  wc_id :: jstr
  wc_name :: jstr
  wc_role :: jstr
  wc_sealedCollectionKey :: jstr
  wc_createdBy :: jstr
  wc_createdAt :: jstr

datatype CollectionRole = RManager | RMember

record CollectionSummary =
  cs_id :: jstr
  cs_name :: jstr
  cs_role :: CollectionRole
  cs_usable :: bool

definition normalizeRole :: "jstr \<Rightarrow> CollectionRole" where
  "normalizeRole role = (if role = js ''manager'' then RManager else RMember)"

record PendingGrant =
  pg_collectionId :: jstr
  pg_collectionName :: jstr
  pg_userId :: jstr
  pg_role :: jstr
  pg_requestedBy :: jstr
  pg_createdAt :: jstr

record Member =
  mb_userId :: jstr
  mb_name :: jstr
  mb_email :: jstr
  mb_role :: jstr
  mb_grantedAt :: jstr

record DirectoryUser =
  du_id :: jstr
  du_name :: jstr
  du_email :: jstr
  du_publicKey :: jstr

record DirectoryPerson = DirectoryUser +
  du_fingerprint :: jstr

section \<open>Directory\<close>

text \<open>One user of the response; a public key that is not base64 is left out.\<close>

definition directoryEntry :: "platform \<Rightarrow> DirectoryUser \<Rightarrow> DirectoryPerson option" where
  "directoryEntry pf user =
     (case fromBase64 (du_publicKey user) of
        Inl e \<Rightarrow> None
      | Inr key \<Rightarrow> Some \<lparr> du_id = du_id user, du_name = du_name user, du_email = du_email user,
          du_publicKey = du_publicKey user, du_fingerprint = publicKeyFingerprint pf key (du_email user) \<rparr>)"

definition loadDirectory :: "platform \<Rightarrow> ('s, 'z, DirectoryUser list) call \<Rightarrow> ('s, 'z, DirectoryPerson list) aprog" where
  "loadDirectory pf get =
     andThen (get (js ''/api/directory'') None) (\<lambda>users. ret (List.map_filter (directoryEntry pf) users))"

section \<open>Opening the keys of a sync\<close>

text \<open>The \<^verbatim>\<open>try\<close> of the loop: the key already held, or the sealed one opened.\<close>

definition adoptOne ::
  "platform \<Rightarrow> addr \<Rightarrow> WireCollection \<Rightarrow> (jstr, addr) jmap \<Rightarrow> ('s, 'z, (jstr, addr) jmap \<times> bool) aprog" where
  "adoptOne pf privateKey collection ring =
     tryCatch
       (andThen (withSession (\<lambda>s. Inr (getCollectionKey s (wc_id collection)))) (\<lambda>existing.
          case existing of
            Some key \<Rightarrow> ret (mapSet ring (wc_id collection) key, True)
          | None \<Rightarrow> andThen (openSealed pf (wc_sealedCollectionKey collection) privateKey) (\<lambda>key.
              ret (mapSet ring (wc_id collection) key, True))))
       (\<lambda>e. ret (ring, False))"

definition summaryOf :: "WireCollection \<Rightarrow> bool \<Rightarrow> CollectionSummary" where
  "summaryOf collection usable =
     \<lparr> cs_id = wc_id collection, cs_name = wc_name collection, cs_role = normalizeRole (wc_role collection),
       cs_usable = usable \<rparr>"

fun adoptLoop ::
  "platform \<Rightarrow> addr \<Rightarrow> WireCollection list \<Rightarrow> (jstr, addr) jmap \<Rightarrow>
   ('s, 'z, CollectionSummary list \<times> (jstr, addr) jmap) aprog" where
  "adoptLoop pf privateKey [] ring = ret ([], ring)"
| "adoptLoop pf privateKey (collection # wire) ring =
     andThen (adoptOne pf privateKey collection ring) (\<lambda>(ring', usable).
     andThen (adoptLoop pf privateKey wire ring') (\<lambda>(summaries, ring'').
       ret (summaryOf collection usable # summaries, ring'')))"

definition adoptCollections :: "platform \<Rightarrow> WireCollection list \<Rightarrow> ('s, 'z, CollectionSummary list) aprog" where
  "adoptCollections pf wire =
     andThen (withSession getKeys) (\<lambda>(userKey, privateKey).
     andThen (adoptLoop pf privateKey wire []) (\<lambda>(summaries, ring).
     andThen (updateSession (setCollectionKeys ring)) (\<lambda>u. ret summaries)))"

section \<open>Creating and sharing\<close>

text \<open>The copy of the ring \<^verbatim>\<open>createCollection\<close> installs its key in.\<close>

definition copyRing :: "Session \<Rightarrow> (jstr, addr) jmap" where
  "copyRing s =
     fold (\<lambda>i m. case getCollectionKey s i of None \<Rightarrow> m | Some existing \<Rightarrow> mapSet m i existing) (collectionIds s) []"

definition createCollection ::
  "platform \<Rightarrow> ('s, 'z, WireCollection) call \<Rightarrow> jstr \<Rightarrow> jstr \<Rightarrow> ('s, 'z, CollectionSummary) aprog" where
  "createCollection pf post name ownPublicKey =
     andThen generateCollectionKey (\<lambda>collectionKey.
       tryCatch
         (andThen (ofResult (fromBase64 ownPublicKey)) (\<lambda>public.
          andThen (sealToUser pf collectionKey public) (\<lambda>sealedCollectionKey.
          andThen (post (js ''/api/collections'')
              (Some (jsObj [(''name'', JStr name), (''sealedCollectionKey'', JStr sealedCollectionKey)]))) (\<lambda>created.
          andThen (updateSession (\<lambda>w. setCollectionKeys (mapSet (copyRing (ap_session w)) (wc_id created) collectionKey) w)) (\<lambda>u.
            ret \<lparr> cs_id = wc_id created, cs_name = wc_name created, cs_role = RManager, cs_usable = True \<rparr>)))))
         (\<lambda>err w. (Inl err, zeroize [Some collectionKey] w)))"

definition deleteCollection :: "('s, 'z, 'r) call \<Rightarrow> jstr \<Rightarrow> ('s, 'z, unit) aprog" where
  "deleteCollection del collectionId = andThen (del (js ''/api/collections/'' @ collectionId) None) (\<lambda>x. ret ())"

definition listMembers :: "('s, 'z, Member list) call \<Rightarrow> jstr \<Rightarrow> ('s, 'z, Member list) aprog" where
  "listMembers get collectionId = get (js ''/api/collections/'' @ collectionId @ js ''/members'') None"

definition loadPendingGrants :: "('s, 'z, PendingGrant list) call \<Rightarrow> ('s, 'z, PendingGrant list) aprog" where
  "loadPendingGrants get = get (js ''/api/collections/pending-grants'') None"

datatype AddOutcome = Granted | Pending

definition roleText :: "CollectionRole \<Rightarrow> jstr" where
  "roleText role = (case role of RManager \<Rightarrow> js ''manager'' | RMember \<Rightarrow> js ''member'')"

text \<open>\<^verbatim>\<open>addMember\<close>: the answer read is the server's \<^verbatim>\<open>status\<close>.\<close>

definition addMember ::
  "platform \<Rightarrow> ('s, 'z, jstr option) call \<Rightarrow> jstr \<Rightarrow> DirectoryPerson \<Rightarrow> CollectionRole \<Rightarrow> ('s, 'z, AddOutcome) aprog" where
  "addMember pf post collectionId recipient role =
     andThen (withSession (\<lambda>s. Inr (getCollectionKey s collectionId))) (\<lambda>collectionKey.
     andThen
       (case collectionKey of
          None \<Rightarrow> ret []
        | Some key \<Rightarrow>
            andThen (ofResult (fromBase64 (du_publicKey recipient))) (\<lambda>public.
            andThen (sealToUser pf key public) (\<lambda>sealed. ret [(''sealedCollectionKey'', JStr sealed)])))
       (\<lambda>sealedPart.
     andThen (post (js ''/api/collections/'' @ collectionId @ js ''/members'')
         (Some (jsObj ([(''userId'', JStr (du_id recipient)), (''role'', JStr (roleText role))] @ sealedPart)))) (\<lambda>status.
       ret (if status = Some (js ''granted'') then Granted else Pending))))"

definition removeMember :: "('s, 'z, 'r) call \<Rightarrow> jstr \<Rightarrow> jstr \<Rightarrow> ('s, 'z, unit) aprog" where
  "removeMember del collectionId userId =
     andThen (del (js ''/api/collections/'' @ collectionId @ js ''/members/'' @ userId) None) (\<lambda>x. ret ())"

definition fulfilGrant ::
  "platform \<Rightarrow> ('s, 'z, 'r) call \<Rightarrow> PendingGrant \<Rightarrow> DirectoryPerson \<Rightarrow> ('s, 'z, unit) aprog" where
  "fulfilGrant pf post grant recipient =
     (if du_id recipient \<noteq> pg_userId grant
      then throw (JsError (js ''The chosen recipient does not match the pending grant''))
      else
        andThen (withSession (\<lambda>s. Inr (getCollectionKey s (pg_collectionId grant)))) (\<lambda>collectionKey.
          case collectionKey of
            None \<Rightarrow> throw (JsError (js ''This device cannot open the key for that collection''))
          | Some key \<Rightarrow>
              andThen (ofResult (fromBase64 (du_publicKey recipient))) (\<lambda>public.
              andThen (sealToUser pf key public) (\<lambda>sealed.
              andThen (post (js ''/api/collections/'' @ pg_collectionId grant @ js ''/grants'')
                  (Some (jsObj [(''userId'', JStr (pg_userId grant)), (''sealedCollectionKey'', JStr sealed)]))) (\<lambda>x.
                ret ())))))"

section \<open>The key ring after a sync\<close>

lemma tidy_mono: "tidy w w' K \<Longrightarrow> K \<subseteq> L \<Longrightarrow> tidy w w' L"
  by (auto simp: tidy_def)

lemma keepsRest_publicKeyFor: "keepsRest (publicKeyFor pf a)"
  unfolding publicKeyFor_def by (intro keepsRest_intros)

lemma keepsRest_openSealed: "keepsRest (openSealed pf s a)"
  unfolding openSealed_def deriveSealKey_def by (intro keepsRest_intros keepsRest_publicKeyFor)

lemma openSealed_new:
  assumes "openSealed pf sealed k w = (Inr a, w')"
  shows "length (wd_heap w) \<le> a"
  using assms
  by (auto simp: openSealed_def andThen_def tryFinally_def tryCatch_def ofResult_def readBuf_def throw_def
      newBuf_push deriveSealKey_run publicKeyFor_def split: sum.splits prod.splits if_splits)

text \<open>
  \<open>added\<close> is what the rows \<open>wire\<close> put in the ring: keys already held, as they are, and new
  buffers of 32 bytes.
\<close>

definition heldOrNew :: "('s, 'z) app_scheme \<Rightarrow> ('s, 'z) app_scheme \<Rightarrow> jstr \<Rightarrow> addr \<Rightarrow> bool" where
  "heldOrNew w w' i a =
     (getCollectionKey (ap_session w) i = Some a \<or>
      getCollectionKey (ap_session w) i = None \<and> length (wd_heap w) \<le> a \<and> a < length (wd_heap w') \<and>
      length (bufOf w' a) = 32)"

definition adopted ::
  "('s, 'z) app_scheme \<Rightarrow> ('s, 'z) app_scheme \<Rightarrow> WireCollection list \<Rightarrow> (jstr, addr) jmap \<Rightarrow> bool" where
  "adopted w w' wire added =
     (mapWf added \<and> fst ` set added \<subseteq> wc_id ` set wire \<and> (\<forall>x \<in> set added. heldOrNew w w' (fst x) (snd x)) \<and>
      (\<forall>i \<in> wc_id ` set wire. \<forall>a. getCollectionKey (ap_session w) i = Some a \<longrightarrow> (i, a) \<in> set added))"

lemma heldOrNew_left: "heldOrNew w w1 i a \<Longrightarrow> tidy w1 w2 K \<Longrightarrow> heldOrNew w w2 i a"
  by (auto simp: heldOrNew_def tidy_def)

lemma heldOrNew_right: "heldOrNew w1 w2 i a \<Longrightarrow> tidy w w1 K \<Longrightarrow> ap_session w1 = ap_session w \<Longrightarrow> heldOrNew w w2 i a"
  by (auto simp: heldOrNew_def tidy_def)

lemma mapSet_new: "k \<notin> fst ` set m \<Longrightarrow> mapSet m k v = m @ [(k, v)]"
  unfolding mapSet_def by (induction m) (auto split: prod.splits)

lemma adoptOne_run:
  assumes "wc_id c \<notin> fst ` set ring"
  shows "\<exists>added w'. adoptOne pf pk c ring w = (Inr (ring @ added, added \<noteq> []), w') \<and>
    ap_session w' = ap_session w \<and> tidy w w' (snd ` set added) \<and> adopted w w' [c] added"
proof (cases "getCollectionKey (ap_session w) (wc_id c)")
  case (Some a)
  have "adoptOne pf pk c ring w = (Inr (ring @ [(wc_id c, a)], True), w)"
    using Some assms by (simp add: adoptOne_def tryCatch_def andThen_def withSession_def ret_def mapSet_new)
  then show ?thesis using Some by (intro exI [of _ "[(wc_id c, a)]"] exI [of _ w]) (simp add: adopted_def heldOrNew_def mapWf_def)
next
  case None
  obtain r w' where run: "openSealed pf (wc_sealedCollectionKey c) pk w = (r, w')" by fastforce
  have s: "ap_session w' = ap_session w"
    using keepsRest_openSealed run unfolding keepsRest_def by (metis same_session(1) snd_conv)
  show ?thesis
  proof (cases r)
    case (Inl e)
    then have "adoptOne pf pk c ring w = (Inr (ring @ [], False), w')" "tidy w w' {}"
      using None run leavesD(2) [OF leaves_open]
      by (auto simp: adoptOne_def tryCatch_def andThen_def withSession_def ret_def)
    then show ?thesis using None s by (intro exI [of _ "[]"] exI [of _ w']) (simp add: adopted_def)
  next
    case (Inr a)
    then have "adoptOne pf pk c ring w = (Inr (ring @ [(wc_id c, a)], True), w')" "tidy w w' {a}"
      using None run leavesD(1) [OF leaves_open] assms
      by (auto simp: adoptOne_def tryCatch_def andThen_def withSession_def ret_def mapSet_new)
    moreover have "length (wd_heap w) \<le> a" "a < length (wd_heap w')" "length (bufOf w' a) = 32"
      using openSealed_new openSealed_length run Inr by blast+
    ultimately show ?thesis
      using None s by (intro exI [of _ "[(wc_id c, a)]"] exI [of _ w']) (simp add: adopted_def heldOrNew_def mapWf_def)
  qed
qed

lemma adopted_append:
  assumes "adopted w w1 [c] xs" "adopted w1 w2 wire ys" "ap_session w1 = ap_session w"
    "tidy w w1 (snd ` set xs)" "tidy w1 w2 (snd ` set ys)" "wc_id c \<notin> wc_id ` set wire"
  shows "adopted w w2 (c # wire) (xs @ ys)" "tidy w w2 (snd ` set (xs @ ys))"
proof -
  have sub: "fst ` set xs \<subseteq> {wc_id c}" "fst ` set ys \<subseteq> wc_id ` set wire" using assms(1,2) by (auto simp: adopted_def)
  have "{wc_id c} \<inter> wc_id ` set wire = {}" using assms(6) by simp
  then have "fst ` set xs \<inter> fst ` set ys = {}" using Int_mono [OF sub] by simp
  then have "mapWf (xs @ ys)" using assms(1,2) unfolding adopted_def mapWf_def by auto
  moreover have "heldOrNew w w2 (fst x) (snd x)" if "x \<in> set (xs @ ys)" for x
    using that assms(1,2) heldOrNew_left [OF _ assms(5)] heldOrNew_right [OF _ assms(4) assms(3)]
    unfolding adopted_def by auto
  moreover have "fst ` set (xs @ ys) \<subseteq> wc_id ` set (c # wire)" using assms(1,2) unfolding adopted_def by auto
  moreover have "(i, a) \<in> set (xs @ ys)" if "i \<in> wc_id ` set (c # wire)" "getCollectionKey (ap_session w) i = Some a" for i a
    using that assms(1,2,3) unfolding adopted_def by auto
  ultimately show "adopted w w2 (c # wire) (xs @ ys)" unfolding adopted_def by blast
  have "tidy w1 w2 (snd ` set (xs @ ys))" by (rule tidy_mono [OF assms(5)]) auto
  then show "tidy w w2 (snd ` set (xs @ ys))" by (rule tidy_trans [OF assms(4)]) auto
qed

lemma adoptLoop_run:
  assumes "distinct (map wc_id wire)" "wc_id ` set wire \<inter> fst ` set ring = {}"
  shows "\<exists>added w'. adoptLoop pf pk wire ring w =
      (Inr (map (\<lambda>c. summaryOf c (wc_id c \<in> fst ` set added)) wire, ring @ added), w') \<and>
    ap_session w' = ap_session w \<and> tidy w w' (snd ` set added) \<and> adopted w w' wire added"
  using assms
proof (induction wire arbitrary: ring w)
  case Nil
  then show ?case by (auto simp: ret_def adopted_def)
next
  case (Cons c wire)
  obtain xs w1 where one: "adoptOne pf pk c ring w = (Inr (ring @ xs, xs \<noteq> []), w1)"
    "ap_session w1 = ap_session w" "tidy w w1 (snd ` set xs)" "adopted w w1 [c] xs"
    using adoptOne_run [of c ring pf pk w] Cons.prems(2) by auto
  have xs: "fst ` set xs \<subseteq> {wc_id c}" using one(4) by (auto simp: adopted_def)
  have c: "wc_id c \<notin> wc_id ` set wire" and d: "distinct (map wc_id wire)" using Cons.prems(1) by simp_all
  have "wc_id ` set wire \<inter> (fst ` set ring \<union> {wc_id c}) = {}" using Cons.prems(2) c by simp
  moreover have "fst ` set (ring @ xs) \<subseteq> fst ` set ring \<union> {wc_id c}"
    unfolding set_append image_Un by (rule Un_mono [OF subset_refl xs])
  ultimately have disj: "wc_id ` set wire \<inter> fst ` set (ring @ xs) = {}"
    using Int_mono [OF subset_refl] by (metis subset_empty)
  obtain ys w2 where rest: "adoptLoop pf pk wire (ring @ xs) w1 =
      (Inr (map (\<lambda>c. summaryOf c (wc_id c \<in> fst ` set ys)) wire, (ring @ xs) @ ys), w2)"
    "ap_session w2 = ap_session w1" "tidy w1 w2 (snd ` set ys)" "adopted w1 w2 wire ys"
    using Cons.IH [OF d disj, of w1] by blast
  have ys: "wc_id c \<notin> fst ` set ys" using rest(4) c unfolding adopted_def by (metis subsetD)
  have "(xs \<noteq> []) = (wc_id c \<in> fst ` set (xs @ ys))"
    using xs ys by (cases xs) auto
  moreover have "map (\<lambda>c. summaryOf c (wc_id c \<in> fst ` set ys)) wire =
      map (\<lambda>c. summaryOf c (wc_id c \<in> fst ` set (xs @ ys))) wire"
  proof (intro map_cong refl)
    fix d assume "d \<in> set wire"
    then have "wc_id d \<noteq> wc_id c" using c by (metis imageI)
    then have "wc_id d \<notin> fst ` set xs" using subsetD [OF xs] by (metis singletonD)
    then show "summaryOf d (wc_id d \<in> fst ` set ys) = summaryOf d (wc_id d \<in> fst ` set (xs @ ys))" by (simp add: image_Un)
  qed
  ultimately show ?case
    using one(1,2) rest(1,2) adopted_append [OF one(4) rest(4) one(2) one(3) rest(3) c]
    by (intro exI [of _ "xs @ ys"] exI [of _ w2]) (simp add: andThen_def ret_def)
qed

text \<open>The ring a sync installs, from what the loop collected.\<close>

lemma adopted_ring:
  fixes w w1 :: "('s, 'z) app_scheme"
  assumes "adopted w w1 wire added" "tidy w w1 (snd ` set added)" "ap_session w1 = ap_session w" "keysExist w"
    and "mapWf (se_collectionKeys (ap_session w))" "inj_on snd (set (se_collectionKeys (ap_session w)))"
    and "w' = setCollectionKeys added w1"
  shows "getCollectionKey (ap_session w) i = Some a \<Longrightarrow> i \<in> wc_id ` set wire \<Longrightarrow>
      getCollectionKey (ap_session w') i = Some a \<and> bufOf w' a = bufOf w a"
    and "getCollectionKey (ap_session w) i = Some a \<Longrightarrow> i \<notin> wc_id ` set wire \<Longrightarrow>
      getCollectionKey (ap_session w') i = None \<and> isClear (bufOf w' a)"
    and "getCollectionKey (ap_session w) i = None \<Longrightarrow> getCollectionKey (ap_session w') i = Some a \<Longrightarrow>
      i \<in> wc_id ` set wire \<and> length (wd_heap w) \<le> a \<and> length (bufOf w' a) = 32"
proof -
  have wf: "mapWf added" using assms(1) by (simp add: adopted_def)
  have ring: "getCollectionKey (ap_session w') i = mapGet added i" for i by (simp add: assms(7) getCollectionKey_def)
  have old: "(j, b) \<in> set (se_collectionKeys (ap_session w)) \<longleftrightarrow> getCollectionKey (ap_session w) j = Some b" for j b
    using assms(5) by (simp add: getCollectionKey_def mapGet_def mapWf_def)
  have small: "b < length (wd_heap w)" if "getCollectionKey (ap_session w) j = Some b" for j b
    using that assms(4) old [of j b] by (force simp: keysExist_def held_eq)
  have in_wire: "i \<in> wc_id ` set wire" if "mapGet added i = Some a" for i a
    using that assms(1) unfolding adopted_def by (auto simp: mapGet_def dest!: map_of_SomeD)
  show "getCollectionKey (ap_session w') i = Some a \<and> bufOf w' a = bufOf w a"
    if g: "getCollectionKey (ap_session w) i = Some a" and i: "i \<in> wc_id ` set wire"
  proof -
    have "(i, a) \<in> set added" using assms(1) g i unfolding adopted_def by blast
    then have m: "mapGet added i = Some a" using wf by (simp add: mapGet_def mapWf_def)
    have "j = i" if "(j, a) \<in> set (se_collectionKeys (ap_session w))" for j
      using inj_onD [OF assms(6), of "(j, a)" "(i, a)"] that g old [of i a] by auto
    then have "bufOf w' a = bufOf w1 a"
      unfolding assms(7) using m assms(3) by (intro setCollectionKeys_buf(2)) auto
    moreover have "bufOf w1 a = bufOf w a" using assms(2) small [OF g] by (simp add: tidy_def)
    ultimately show ?thesis using m ring by simp
  qed
  show "getCollectionKey (ap_session w') i = None \<and> isClear (bufOf w' a)"
    if g: "getCollectionKey (ap_session w) i = Some a" and i: "i \<notin> wc_id ` set wire"
  proof -
    have m: "mapGet added i = None" using in_wire [of i] i by (cases "mapGet added i") auto
    have "isClear (bufOf w' a)"
      unfolding assms(7) using g old [of i a] m assms(3) by (intro setCollectionKeys_buf(1) exI [of _ i]) simp
    then show ?thesis using m ring by simp
  qed
  show "i \<in> wc_id ` set wire \<and> length (wd_heap w) \<le> a \<and> length (bufOf w' a) = 32"
    if n: "getCollectionKey (ap_session w) i = None" and g: "getCollectionKey (ap_session w') i = Some a"
  proof -
    have m: "mapGet added i = Some a" using g ring by simp
    then have "heldOrNew w w1 i a" using assms(1) unfolding adopted_def by (force simp: mapGet_def dest!: map_of_SomeD)
    then have new: "length (wd_heap w) \<le> a" "length (bufOf w1 a) = 32" using n by (simp_all add: heldOrNew_def)
    have "bufOf w' a = bufOf w1 a"
      unfolding assms(7) using small [of _ a] new(1) old assms(3) by (intro setCollectionKeys_buf(2)) force
    then show ?thesis using new in_wire [OF m] by simp
  qed
qed

lemma adoptCollections_run:
  assumes "getKeys (ap_session w) = Inr (uk, pk)" "distinct (map wc_id wire)"
  obtains added w1 where "adoptCollections pf wire w =
      (Inr (map (\<lambda>c. summaryOf c (mapHas added (wc_id c))) wire), setCollectionKeys added w1)"
    "ap_session w1 = ap_session w" "tidy w w1 (snd ` set added)" "adopted w w1 wire added"
proof -
  obtain added w1 where run: "adoptLoop pf pk wire [] w =
      (Inr (map (\<lambda>c. summaryOf c (wc_id c \<in> fst ` set added)) wire, [] @ added), w1)"
    "ap_session w1 = ap_session w" "tidy w w1 (snd ` set added)" "adopted w w1 wire added"
    using adoptLoop_run [OF assms(2), of "[]" pf pk w] by auto
  have "(i \<in> fst ` set added) = mapHas added i" for i by (simp add: mapHas_def map_of_eq_None_iff)
  then show ?thesis
    using run assms(1)
    by (intro that [of added w1]) (simp_all add: adoptCollections_def andThen_def withSession_def updateSession_def ret_def)
qed

text \<open>
  C23. After a sync the key ring is exactly the collections of that sync. Adopting the server's list
  returns one summary per row in order, \<^verbatim>\<open>usable\<close> just when the session now holds that
  collection's key, whatever the sealed texts were; a key already held stays the buffer it was,
  unchanged; a key whose collection is gone is dropped and zeroed; a new one is a fresh buffer of
  32 bytes.
\<close>

theorem adopt_collections:
  assumes "isUnlocked (ap_session w)" "keysExist w" "mapWf (se_collectionKeys (ap_session w))"
    "inj_on snd (set (se_collectionKeys (ap_session w)))" "distinct (map wc_id wire)"
  shows "\<exists>w'. adoptCollections pf wire w =
      (Inr (map (\<lambda>c. summaryOf c (getCollectionKey (ap_session w') (wc_id c) \<noteq> None)) wire), w') \<and>
    getKeys (ap_session w') = getKeys (ap_session w) \<and>
    (\<forall>i. case getCollectionKey (ap_session w) i of
       Some a \<Rightarrow>
         if i \<in> wc_id ` set wire then getCollectionKey (ap_session w') i = Some a \<and> bufOf w' a = bufOf w a
         else getCollectionKey (ap_session w') i = None \<and> isClear (bufOf w' a)
     | None \<Rightarrow>
         (\<forall>a. getCollectionKey (ap_session w') i = Some a \<longrightarrow>
            i \<in> wc_id ` set wire \<and> length (wd_heap w) \<le> a \<and> length (bufOf w' a) = 32))"
proof -
  obtain uk pk where k: "getKeys (ap_session w) = Inr (uk, pk)"
    using assms(1) by (auto simp: isUnlocked_def getKeys_def)
  obtain added w1 where run: "adoptCollections pf wire w =
      (Inr (map (\<lambda>c. summaryOf c (mapHas added (wc_id c))) wire), setCollectionKeys added w1)"
    "ap_session w1 = ap_session w" "tidy w w1 (snd ` set added)" "adopted w w1 wire added"
    by (rule adoptCollections_run [OF k assms(5)])
  note ring = adopted_ring [OF run(4,3,2) assms(2-4) refl]
  have "mapHas added i = (getCollectionKey (ap_session (setCollectionKeys added w1)) i \<noteq> None)" for i
    by (simp add: mapHas_get getCollectionKey_def)
  then show ?thesis
    using run(1,2) ring by (intro exI [of _ "setCollectionKeys added w1"]) (auto simp: getKeys_def split: option.split)
qed

text \<open>
  Locking while the last sealed key of a sync is being opened: the loop goes on, and the ring it
  installs afterwards puts the keys it opened into the locked session, live.
\<close>

lemma lock_during_sync_keeps_keys:
  assumes "keysExist w" "distinct (map wc_id wire)" "adoptLoop pf pk wire [] w = (Inr (summaries, ring), w1)"
    and "mapGet ring i = Some a" "getCollectionKey (ap_session w) i = None"
  defines "v \<equiv> setCollectionKeys ring (lock w1)"
  shows "\<not> isUnlocked (ap_session v)" "getCollectionKey (ap_session v) i = Some a" "bufOf v a = bufOf w1 a"
    "length (bufOf v a) = 32"
proof -
  obtain added w' where run: "adoptLoop pf pk wire [] w = (Inr (map (\<lambda>c. summaryOf c (wc_id c \<in> fst ` set added)) wire, added), w')"
    "ap_session w' = ap_session w" "adopted w w' wire added"
    using adoptLoop_run [OF assms(2), of "[]" pf pk w] by auto
  then have r: "ring = added" "w' = w1" using assms(3) by simp_all
  have "(i, a) \<in> set added" using assms(4) by (auto simp: r mapGet_def dest!: map_of_SomeD)
  then have n: "length (wd_heap w) \<le> a" "length (bufOf w1 a) = 32"
    using run(3) assms(5) unfolding r adopted_def heldOrNew_def by auto
  then have "a \<notin> held (ap_session w1)" using run(2) assms(1) unfolding r keysExist_def by fastforce
  then have l: "bufOf (lock w1) a = bufOf w1 a" by (rule lock_buf(2))
  have none: "se_collectionKeys (ap_session (lock w1)) = []" by (simp add: lock_def Let_def notifyListeners_def)
  show b: "bufOf v a = bufOf w1 a"
    using setCollectionKeys_buf(2) [of a "lock w1" ring] l by (simp add: v_def none)
  show "length (bufOf v a) = 32" using n(2) b by simp
  show "\<not> isUnlocked (ap_session v)" using lock_session(2) [of w1] by (simp add: v_def isUnlocked_def)
  show "getCollectionKey (ap_session v) i = Some a" using assms(4) by (simp add: v_def getCollectionKey_def)
qed

definition sampleRow :: WireCollection where
  "sampleRow = \<lparr> wc_id = js ''b'', wc_name = js ''n'', wc_role = js ''member'', wc_sealedCollectionKey = [],
     wc_createdBy = [], wc_createdAt = [] \<rparr>"

theorem adopt_collections_witness:
  "\<exists>w'. adoptCollections samplePlatform [sampleRow] sampleApp =
     (Inr [\<lparr> cs_id = js ''b'', cs_name = js ''n'', cs_role = RMember, cs_usable = True \<rparr>], w') \<and>
     bufOf w' 3 = [4] \<and> isClear (bufOf w' 2)"
proof -
  let ?s = "ap_session sampleApp"
  have k: "getCollectionKey ?s (js ''a'') = Some 2" "getCollectionKey ?s (js ''b'') = Some 3"
    by (simp_all add: getCollectionKey_def sampleApp_def createSession_def mapGet_def)
  have b: "bufOf sampleApp 3 = [4]" by (simp add: sampleApp_def bufOf_def)
  have a: "isUnlocked ?s" "keysExist sampleApp" "mapWf (se_collectionKeys ?s)"
    "inj_on snd (set (se_collectionKeys ?s))" "distinct (map wc_id [sampleRow])"
    by (auto simp: sampleApp_def createSession_def isUnlocked_def keysExist_def held_eq mapWf_def)
  obtain w' where w': "adoptCollections samplePlatform [sampleRow] sampleApp =
      (Inr (map (\<lambda>c. summaryOf c (getCollectionKey (ap_session w') (wc_id c) \<noteq> None)) [sampleRow]), w')"
    and ring: "\<And>i. case getCollectionKey ?s i of
       Some a \<Rightarrow>
         if i \<in> wc_id ` set [sampleRow] then getCollectionKey (ap_session w') i = Some a \<and> bufOf w' a = bufOf sampleApp a
         else getCollectionKey (ap_session w') i = None \<and> isClear (bufOf w' a)
     | None \<Rightarrow>
         (\<forall>a. getCollectionKey (ap_session w') i = Some a \<longrightarrow>
            i \<in> wc_id ` set [sampleRow] \<and> length (wd_heap sampleApp) \<le> a \<and> length (bufOf w' a) = 32)"
    using adopt_collections [OF a, of samplePlatform] by blast
  show ?thesis
    using w' ring [of "js ''a''"] ring [of "js ''b''"] k b
    by (simp add: sampleRow_def summaryOf_def normalizeRole_def)
qed

section \<open>Sealing to others\<close>

lemma sealToUser_tidy:
  assumes "keyPairLaw pf" "sealToUser pf secret public w = (r, w')"
  shows "tidy w w' {} \<and> ap_session w' = ap_session (w :: ('s, 'z) app_scheme)"
proof -
  let ?n = "length (wd_heap w)"
  obtain e epk tape where kp: "generateKeyPair pf w =
      (Inr \<lparr> kp_publicKey = epk, kp_privateKey = ?n \<rparr>, pushBuf e (w\<lparr> wd_random := tape \<rparr>))"
    by (rule generateKeyPair_run [OF assms(1)])
  define w1 where "w1 = afterDraw 12 (pushBuf e (w\<lparr> wd_random := tape \<rparr>))"
  obtain r2 w2 where run: "sealToUserWithEphemeral pf secret public ?n (drawn 12 (pushBuf e (w\<lparr> wd_random := tape \<rparr>))) w1 = (r2, w2)"
    by fastforce
  have w': "w' = clearBuf ?n w2"
    using assms(2) run by (simp add: sealToUser_def andThen_def tryFinally_def kp randomBytes_run w1_def)
  have "tidy w w1 {?n}" by (rule tidy_heap [of _ _ "[e]"]) (simp_all add: w1_def)
  moreover have "tidy w1 w2 {}"
    by (cases r2) (use leavesD(2) [OF leaves_seal] leavesD(1) [OF leaves_seal] run in blast)+
  ultimately have "tidy w w' {}" unfolding w' by (intro tidy_clear) simp_all
  moreover have "keepsRest (sealToUserWithEphemeral pf secret public ?n nonce)" for nonce
    unfolding sealToUserWithEphemeral_def deriveSealKey_def by (intro keepsRest_intros keepsRest_publicKeyFor)
  then have "world.more w2 = world.more w1" using run unfolding keepsRest_def by (metis snd_conv)
  then have "world.more w' = world.more w" by (simp add: w' w1_def clearBuf_def)
  ultimately show ?thesis using same_session(1) by blast
qed

lemma createCollection_failed:
  fixes w :: "('s, 'z) app_scheme"
  assumes "keyPairLaw pf" "remoteOnly post" "createCollection pf post name own w = (Inl e, w')"
  shows "tidy w w' {} \<and> ap_session w' = ap_session w"
proof -
  let ?n = "length (wd_heap w)"
  let ?w1 = "pushBuf (drawn 32 w) (afterDraw 32 w)"
  have gen: "generateCollectionKey w = (Inr ?n, ?w1)"
    by (simp add: generateCollectionKey_def andThen_def randomBytes_run newBuf_push)
  obtain w2 where w2: "w' = clearBuf ?n w2" "tidy ?w1 w2 {}" "ap_session w2 = ap_session ?w1"
  proof (cases "fromBase64 own")
    case (Inl x)
    then show ?thesis
      using assms(3) by (intro that [of ?w1]) (auto simp: createCollection_def andThen_def tryCatch_def gen ofResult_def)
  next
    case (Inr public)
    obtain r w3 where seal: "sealToUser pf ?n public ?w1 = (r, w3)" by fastforce
    note t = sealToUser_tidy [OF assms(1) seal]
    show ?thesis
    proof (cases r)
      case Inl: (Inl x)
      then show ?thesis
        using assms(3) Inr seal t
        by (intro that [of w3]) (auto simp: createCollection_def andThen_def tryCatch_def gen ofResult_def)
    next
      case Inr': (Inr sealed)
      let ?body = "Some (jsObj [(''name'', JStr name), (''sealedCollectionKey'', JStr sealed)])"
      obtain a w4 where post: "post (js ''/api/collections'') ?body w3 = (a, w4)" by fastforce
      have p: "wd_heap w4 = wd_heap w3" "ap_session w4 = ap_session w3"
        using assms(2) post unfolding remoteOnly_def by (metis snd_conv)+
      have "tidy ?w1 w4 {}" using t tidy_empty_trans [OF _ tidy_same_heap [OF p(1)]] by blast
      then show ?thesis
        using assms(3) Inr Inr' seal post p t
        by (cases a; intro that [of w4])
          (auto simp: createCollection_def andThen_def tryCatch_def gen ofResult_def updateSession_def ret_def)
    qed
  qed
  have "tidy w ?w1 {?n}" by (rule tidy_heap [of _ _ "[drawn 32 w]"]) simp_all
  then have "tidy w (clearBuf ?n w2) {}" by (rule tidy_clear [OF _ _ w2(2)]) simp
  moreover have "ap_session (clearBuf ?n w2) = ap_session w2"
    by (rule same_session(1)) (simp add: clearBuf_def)
  moreover have "ap_session ?w1 = ap_session w" by (rule same_session(1)) simp
  ultimately show ?thesis using w2 by simp
qed

text \<open>
  A collection that could not be created leaves no key behind. However \<^verbatim>\<open>createCollection\<close>
  fails, over its own public key, the sealing or the request, every buffer it made is zero, every
  buffer that was there is as it was, and the session is unchanged.
\<close>

theorem failed_collection_clears_key:
  fixes w :: "('s, 'z) app_scheme"
  assumes "keyPairLaw pf" "remoteOnly post" "createCollection pf post name own w = (Inl e, w')"
  shows "tidy w w' {} \<and> ap_session w' = ap_session w"
  by (rule createCollection_failed [OF assms])

definition sampleShared :: "json option list app" where
  "sampleShared =
     \<lparr> wd_random = (\<lambda>i. 0), wd_heap = [replicate 32 7, replicate 32 9], sv_server = [],
       ap_session = createSession\<lparr> se_userKey := Some 0, se_privateKey := Some 0,
         se_collectionKeys := [(js ''b'', 1)] \<rparr> \<rparr>"

theorem failed_collection_clears_key_witness:
  "\<exists>e w'. createCollection samplePlatform (loggingPost (\<lambda>n. Inr sampleRow)) (js ''n'') (js ''?'') sampleShared = (Inl e, w') \<and>
     tidy sampleShared w' {}"
proof -
  have "isl (fromBase64 (js ''?''))" by code_simp
  then obtain e where "fromBase64 (js ''?'') = Inl e" by (cases "fromBase64 (js ''?'')") auto
  then obtain e w' where "createCollection samplePlatform (loggingPost (\<lambda>n. Inr sampleRow)) (js ''n'') (js ''?'')
      sampleShared = (Inl e, w')"
    by (auto simp: createCollection_def andThen_def tryCatch_def generateCollectionKey_def randomBytes_run newBuf_push ofResult_def)
  then show ?thesis using failed_collection_clears_key [OF sample_laws(3) loggingPost_remote] by blast
qed

lemma copyRing_fold:
  "\<forall>(i, a) \<in> set xs. getCollectionKey s i = Some a \<Longrightarrow>
   fold (\<lambda>i m. case getCollectionKey s i of None \<Rightarrow> m | Some existing \<Rightarrow> mapSet m i existing) (map fst xs) m =
   fold (\<lambda>(k, v) m. mapSet m k v) xs m"
  by (induction xs arbitrary: m) auto

lemma copyRing_eq: "mapWf (se_collectionKeys s) \<Longrightarrow> copyRing s = se_collectionKeys s"
  using copyRing_fold [of "se_collectionKeys s" s "[]"] fold_mapSet_new [of "[]" "se_collectionKeys s"]
  by (auto simp: copyRing_def collectionIds_def mapWf_def getCollectionKey_def mapGet_def)

lemma createCollection_run:
  fixes w :: "(json option list, 'z) app_scheme"
  assumes laws: "gcmLaw pf" "kdfLaws pf" "keyPairLaw pf" "exchangeLaw pf"
    and public: "pf_publicKey pf (bufOf w privateKey) = Inr public" "length public = 32"
    and ring: "mapWf (se_collectionKeys (ap_session w))" "keysExist w"
    and server: "sv_server w = []" "answer 0 = Inr created"
  shows "\<exists>sealed key w' a w3. createCollection pf (loggingPost answer) name (toBase64 public) w =
      (Inr \<lparr> cs_id = wc_id created, cs_name = wc_name created, cs_role = RManager, cs_usable = True \<rparr>, w') \<and>
    sv_server w' = [Some (jsObj [(''name'', JStr name), (''sealedCollectionKey'', JStr sealed)])] \<and>
    openSealed pf sealed privateKey w = (Inr a, w3) \<and> bufOf w3 a = bufOf w' key \<and> length (bufOf w' key) = 32 \<and>
    getCollectionKey (ap_session w') = (getCollectionKey (ap_session w))(wc_id created \<mapsto> key)"
proof -
  let ?n = "length (wd_heap w)"
  let ?w1 = "pushBuf (drawn 32 w) (afterDraw 32 w)"
  have gen: "generateCollectionKey w = (Inr ?n, ?w1)"
    by (simp add: generateCollectionKey_def andThen_def randomBytes_run newBuf_push)
  have n: "?n < length (wd_heap ?w1)" "length (bufOf ?w1 ?n) = 32" by simp_all
  obtain sealed w2 a w3 where seal: "sealToUser pf ?n public ?w1 = (Inr sealed, w2)" "tidy ?w1 w2 {}"
    "world.more w2 = world.more ?w1" "openSealed pf sealed privateKey w = (Inr a, w3)" "bufOf w3 a = bufOf ?w1 ?n"
    using sealToUser_opens [OF laws n public] by blast
  let ?body = "Some (jsObj [(''name'', JStr name), (''sealedCollectionKey'', JStr sealed)])"
  have s: "ap_session w2 = ap_session w" "sv_server w2 = []"
    using same_session [of w2 w] seal(3) server(1) by simp_all
  let ?w3 = "w2\<lparr> sv_server := [?body] \<rparr>"
  let ?ring = "mapSet (se_collectionKeys (ap_session w)) (wc_id created) ?n"
  have run: "createCollection pf (loggingPost answer) name (toBase64 public) w =
      (Inr \<lparr> cs_id = wc_id created, cs_name = wc_name created, cs_role = RManager, cs_usable = True \<rparr>,
       setCollectionKeys ?ring ?w3)"
    using seal(1) s server(2)
    by (simp add: createCollection_def andThen_def tryCatch_def gen ofResult_def fromBase64_toBase64 loggingPost_def
        updateSession_def ret_def copyRing_eq [OF ring(1)])
  have "?n \<notin> snd ` set (se_collectionKeys (ap_session w))" using ring(2) by (auto simp: keysExist_def held_eq)
  then have "bufOf (setCollectionKeys ?ring ?w3) ?n = bufOf ?w3 ?n"
    using s(1) by (intro setCollectionKeys_buf(2)) force
  also have "\<dots> = bufOf w2 ?n" by (simp add: bufOf_def)
  also have "\<dots> = bufOf ?w1 ?n" using seal(2) n(1) by (simp add: tidy_def)
  finally have key: "bufOf (setCollectionKeys ?ring ?w3) ?n = bufOf ?w1 ?n" .
  have srv: "sv_server (setCollectionKeys ?ring ?w3) = [?body]"
    using same_session(2) [of "dropOldKeys ?ring (se_collectionKeys (ap_session ?w3)) ?w3" ?w3]
    by (simp add: setCollectionKeys_def)
  have "getCollectionKey (ap_session (setCollectionKeys ?ring ?w3)) =
      (getCollectionKey (ap_session w))(wc_id created \<mapsto> ?n)"
    using s(1) by (auto simp: getCollectionKey_def mapGet_set fun_eq_iff)
  then show ?thesis using run srv seal(4,5) key n(2)
    by (intro exI [of _ sealed] exI [of _ ?n] exI [of _ "setCollectionKeys ?ring ?w3"] exI [of _ a] exI [of _ w3]) simp
qed

text \<open>
  C20. A created collection is usable at once and later. When the server accepts it, the session
  holds a key of 32 bytes under the server's id and every other key as before, and the sealed text
  the server was sent opens, with the creator's private key, to that same key.
\<close>

theorem created_collection_usable:
  fixes w :: "(json option list, 'z) app_scheme"
  assumes "gcmLaw pf" "kdfLaws pf" "keyPairLaw pf" "exchangeLaw pf"
    and "pf_publicKey pf (bufOf w privateKey) = Inr public" "length public = 32"
    and "mapWf (se_collectionKeys (ap_session w))" "keysExist w"
    and "sv_server w = []" "answer 0 = Inr created"
  shows "\<exists>sealed key w' a w3. createCollection pf (loggingPost answer) name (toBase64 public) w =
      (Inr \<lparr> cs_id = wc_id created, cs_name = wc_name created, cs_role = RManager, cs_usable = True \<rparr>, w') \<and>
    sv_server w' = [Some (jsObj [(''name'', JStr name), (''sealedCollectionKey'', JStr sealed)])] \<and>
    openSealed pf sealed privateKey w = (Inr a, w3) \<and> bufOf w3 a = bufOf w' key \<and> length (bufOf w' key) = 32 \<and>
    getCollectionKey (ap_session w') = (getCollectionKey (ap_session w))(wc_id created \<mapsto> key)"
  using assms by (rule createCollection_run)

text \<open>
  A fulfilled grant is one its recipient can use. For the recipient the grant names,
  \<^verbatim>\<open>fulfilGrant\<close> posts one request, whose sealed text the recipient's device opens to this
  session's key of that collection, and leaves no other key behind; for anyone else it throws and
  sends nothing.
\<close>

theorem fulfilled_grant_opens:
  fixes w :: "(json option list, 'z) app_scheme"
  assumes "gcmLaw pf" "kdfLaws pf" "keyPairLaw pf" "exchangeLaw pf"
    and "getCollectionKey (ap_session w) (pg_collectionId grant) = Some key"
      "key < length (wd_heap w)" "length (bufOf w key) = 32"
    and "du_publicKey recipient = toBase64 public" "pf_publicKey pf (bufOf device privateKey) = Inr public" "length public = 32"
  shows "if du_id recipient = pg_userId grant then
      \<exists>sealed r w' a w3. fulfilGrant pf (loggingPost answer) grant recipient w = (r, w') \<and> tidy w w' {} \<and>
        sv_server w' = sv_server w @ [Some (jsObj [(''userId'', JStr (du_id recipient)), (''sealedCollectionKey'', JStr sealed)])] \<and>
        openSealed pf sealed privateKey device = (Inr a, w3) \<and> bufOf w3 a = bufOf w key
    else \<exists>e. fulfilGrant pf (loggingPost answer) grant recipient w = (Inl e, w)"
proof -
  obtain sealed w1 a w3 where seal: "sealToUser pf key public w = (Inr sealed, w1)" "tidy w w1 {}"
    "world.more w1 = world.more w" "openSealed pf sealed privateKey device = (Inr a, w3)" "bufOf w3 a = bufOf w key"
    using sealToUser_opens [OF assms(1-4,6,7,9,10)] by blast
  have "sv_server w1 = sv_server w" using seal(3) by (rule same_session(2))
  moreover have "tidy w (w1\<lparr> sv_server := x \<rparr>) {}" for x
    by (rule tidy_empty_trans [OF seal(2)]) (simp add: tidy_same_heap)
  ultimately show ?thesis
    using seal(1,4,5) assms(5,8)
    by (cases "answer (length (sv_server w))")
      (auto simp: fulfilGrant_def throw_def andThen_def withSession_def ofResult_def fromBase64_toBase64 loggingPost_def ret_def)
qed

lemma sampleShared_ready:
  "pf_publicKey samplePlatform (bufOf sampleShared 0) = Inr (replicate 32 7)" "length (replicate 32 (7::byte)) = 32"
  "mapWf (se_collectionKeys (ap_session sampleShared))" "keysExist sampleShared" "sv_server sampleShared = []"
  "getCollectionKey (ap_session sampleShared) (js ''b'') = Some 1" "1 < length (wd_heap sampleShared)"
  "bufOf sampleShared 1 = replicate 32 9"
  by (auto simp: sampleShared_def samplePlatform_def padTo_def bufOf_def createSession_def mapWf_def keysExist_def
      held_eq getCollectionKey_def mapGet_def)

theorem created_collection_usable_witness:
  "\<exists>sealed key w' a w3. createCollection samplePlatform (loggingPost (\<lambda>n. Inr (sampleRow\<lparr> wc_id := js ''c'' \<rparr>))) (js ''n'')
       (toBase64 (replicate 32 7)) sampleShared =
     (Inr \<lparr> cs_id = js ''c'', cs_name = js ''n'', cs_role = RManager, cs_usable = True \<rparr>, w') \<and>
     openSealed samplePlatform sealed 0 sampleShared = (Inr a, w3) \<and> bufOf w3 a = bufOf w' key \<and>
     getCollectionKey (ap_session w') (js ''c'') = Some key \<and> getCollectionKey (ap_session w') (js ''b'') = Some 1"
proof -
  have "js ''b'' \<noteq> js ''c''" by code_simp
  then show ?thesis
    using created_collection_usable [OF sample_laws sample_exchange sampleShared_ready(1-5),
        of "\<lambda>n. Inr (sampleRow\<lparr> wc_id := js ''c'' \<rparr>)" "sampleRow\<lparr> wc_id := js ''c'' \<rparr>" "js ''n''"] sampleShared_ready(6)
    by (fastforce simp: sampleRow_def)
qed

definition sampleGrant :: PendingGrant where
  "sampleGrant = \<lparr> pg_collectionId = js ''b'', pg_collectionName = [], pg_userId = js ''u'', pg_role = [],
     pg_requestedBy = [], pg_createdAt = [] \<rparr>"

definition sampleRecipient :: DirectoryPerson where
  "sampleRecipient = \<lparr> du_id = js ''u'', du_name = [], du_email = [], du_publicKey = toBase64 (replicate 32 7),
     du_fingerprint = [] \<rparr>"

theorem fulfilled_grant_opens_witness:
  "\<exists>sealed r w' a w3. fulfilGrant samplePlatform (loggingPost (\<lambda>n. Inr ())) sampleGrant sampleRecipient sampleShared = (r, w') \<and>
     openSealed samplePlatform sealed 0 sampleWorld = (Inr a, w3) \<and> bufOf w3 a = replicate 32 9"
proof -
  have p: "pf_publicKey samplePlatform (bufOf sampleWorld 0) = Inr (replicate 32 7)"
    by (simp add: samplePlatform_def sampleWorld_def padTo_def bufOf_def)
  have g: "getCollectionKey (ap_session sampleShared) (pg_collectionId sampleGrant) = Some 1"
    using sampleShared_ready(6) by (simp add: sampleGrant_def)
  have l: "length (bufOf sampleShared 1) = 32" unfolding sampleShared_ready(8) by simp
  have r: "du_publicKey sampleRecipient = toBase64 (replicate 32 7)" "du_id sampleRecipient = pg_userId sampleGrant"
    by (simp_all add: sampleRecipient_def sampleGrant_def)
  show ?thesis
    using fulfilled_grant_opens [OF sample_laws sample_exchange g sampleShared_ready(7) l r(1) p sampleShared_ready(2),
        of "\<lambda>n. Inr ()"] unfolding if_P [OF r(2)] sampleShared_ready(8) by blast
qed

end
