(* ===== verification/Store.thy ===== *)
theory Store
  imports Collections
begin

text \<open>
  The in-memory vault of one unlocked session (\<^verbatim>\<open>packages/vault/src/store.ts\<close>): a full load,
  incremental syncs merged into what is held, and the local changes the screens make.

  Shown: a sync that the server answers as \<^verbatim>\<open>internal/store/sync.go\<close> documents takes a store that
  shows the server's rows to one that shows the server's new rows; a failed sync changes nothing
  but the status; no operation ever holds two rows of one id or a tombstone.
\<close>

section \<open>Merging\<close>

definition byId :: "('r \<Rightarrow> jstr) \<Rightarrow> 'r list \<Rightarrow> (jstr, 'r) jmap" where
  "byId idOf existing = fold (\<lambda>record m. mapSet m (idOf record) record) existing []"

definition mergeOne :: "('r \<Rightarrow> jstr) \<Rightarrow> ('r \<Rightarrow> jstr option) \<Rightarrow> 'r \<Rightarrow> (jstr, 'r) jmap \<Rightarrow> (jstr, 'r) jmap" where
  "mergeOne idOf deletedAt record m =
     (if deletedAt record \<noteq> None then mapDelete m (idOf record) else mapSet m (idOf record) record)"

definition mergeRows :: "('r \<Rightarrow> jstr) \<Rightarrow> ('r \<Rightarrow> jstr option) \<Rightarrow> 'r list \<Rightarrow> 'r list \<Rightarrow> 'r list" where
  "mergeRows idOf deletedAt existing incoming =
     map snd (fold (mergeOne idOf deletedAt) incoming (byId idOf existing))"

section \<open>The store\<close>

datatype VaultStatus = VEmpty | VLoading | VReady | VError

text \<open>\<^verbatim>\<open>error\<close> is the error whose message the source keeps.\<close>

record VaultState =
  va_revision :: int
  va_items :: "ItemRecord list"
  va_folders :: "FolderRecord list"
  va_collections :: "CollectionSummary list"
  va_status :: VaultStatus
  va_error :: "exn option"

record SyncResponse =
  sr_revision :: int
  sr_items :: "WireItem list"
  sr_folders :: "WireFolder list option"
  sr_collections :: "WireCollection list option"

definition EMPTY :: VaultState where
  "EMPTY = \<lparr> va_revision = 0, va_items = [], va_folders = [], va_collections = [], va_status = VEmpty, va_error = None \<rparr>"

text \<open>The app with a store: its state, its listeners, and the calls made to them.\<close>

record 's shop = "'s app" +
  vs_state :: VaultState
  vs_listeners :: "nat list"
  vs_notified :: "nat list"

type_synonym ('s, 'z, 'a) vprog = "('s, 'z) shop_scheme \<Rightarrow> 'a result \<times> ('s, 'z) shop_scheme"

definition setState :: "(VaultState \<Rightarrow> VaultState) \<Rightarrow> ('s, 'z) shop_scheme \<Rightarrow> ('s, 'z) shop_scheme" where
  "setState f w = w\<lparr> vs_state := f (vs_state w), vs_notified := vs_notified w @ vs_listeners w \<rparr>"

definition subscribeStore :: "nat \<Rightarrow> ('s, 'z) shop_scheme \<Rightarrow> ('s, 'z) shop_scheme" where
  "subscribeStore l w = (if l \<in> set (vs_listeners w) then w else w\<lparr> vs_listeners := vs_listeners w @ [l] \<rparr>)"

definition unsubscribeStore :: "nat \<Rightarrow> ('s, 'z) shop_scheme \<Rightarrow> ('s, 'z) shop_scheme" where
  "unsubscribeStore l w = w\<lparr> vs_listeners := filter (\<lambda>x. x \<noteq> l) (vs_listeners w) \<rparr>"

abbreviation mergeItems :: "ItemRecord list \<Rightarrow> ItemRecord list \<Rightarrow> ItemRecord list" where
  "mergeItems \<equiv> mergeRows ir_id ir_deletedAt"

abbreviation mergeFolders :: "FolderRecord list \<Rightarrow> FolderRecord list \<Rightarrow> FolderRecord list" where
  "mergeFolders \<equiv> mergeRows fr_id fr_deletedAt"

definition syncPath :: "int option \<Rightarrow> jstr" where
  "syncPath since =
     (case since of
        None \<Rightarrow> js ''/api/sync''
      | Some n \<Rightarrow> js ''/api/sync?since='' @ stringify (JNum (jint n)))"

definition applySync ::
  "int option \<Rightarrow> int \<Rightarrow> ItemRecord list \<Rightarrow> FolderRecord list \<Rightarrow> CollectionSummary list \<Rightarrow> VaultState \<Rightarrow> VaultState" where
  "applySync since revision records folders collections state =
     state\<lparr> va_revision := revision,
            va_items := (if since = None then mergeItems [] records else mergeItems (va_items state) records),
            va_folders := (if since = None then mergeFolders [] folders else mergeFolders (va_folders state) folders),
            va_collections := collections, va_status := VReady, va_error := None \<rparr>"

definition stepState :: "(VaultState \<Rightarrow> VaultState) \<Rightarrow> ('s, 'z, unit) vprog" where
  "stepState f w = (Inr (), setState f w)"

definition orEmpty :: "'a list option \<Rightarrow> 'a list" where
  "orEmpty xs = (case xs of None \<Rightarrow> [] | Some ys \<Rightarrow> ys)"

definition fetchInto ::
  "platform \<Rightarrow> ('s, 'z shop_ext, SyncResponse) call \<Rightarrow> int option \<Rightarrow> ('s, 'z, unit) vprog" where
  "fetchInto pf get since =
     tryCatch
       (andThen (get (syncPath since) None) (\<lambda>response.
        andThen (adoptCollections pf (orEmpty (sr_collections response))) (\<lambda>collections.
        andThen (decryptRecords pf (sr_items response)) (\<lambda>records.
        andThen (withSession getKeys) (\<lambda>(userKey, privateKey).
        andThen (decryptFolders pf (orEmpty (sr_folders response)) userKey) (\<lambda>folders.
          stepState (applySync since (sr_revision response) records folders collections)))))))
       (\<lambda>error. andThen (stepState (\<lambda>state. state\<lparr> va_status := VError, va_error := Some error \<rparr>)) (\<lambda>u. throw error))"

definition load :: "platform \<Rightarrow> ('s, 'z shop_ext, SyncResponse) call \<Rightarrow> ('s, 'z, unit) vprog" where
  "load pf get =
     andThen (stepState (\<lambda>state. state\<lparr> va_status := VLoading, va_error := None \<rparr>)) (\<lambda>u. fetchInto pf get None)"

definition resync :: "platform \<Rightarrow> ('s, 'z shop_ext, SyncResponse) call \<Rightarrow> ('s, 'z, unit) vprog" where
  "resync pf get w = fetchInto pf get (Some (va_revision (vs_state w))) w"

definition upsert :: "ItemRecord \<Rightarrow> ('s, 'z) shop_scheme \<Rightarrow> ('s, 'z) shop_scheme" where
  "upsert record = setState (\<lambda>state. state\<lparr> va_items := mergeItems (va_items state) [record], va_status := VReady \<rparr>)"

definition removeItem :: "jstr \<Rightarrow> ('s, 'z) shop_scheme \<Rightarrow> ('s, 'z) shop_scheme" where
  "removeItem i = setState (\<lambda>state. state\<lparr> va_items := filter (\<lambda>item. ir_id item \<noteq> i) (va_items state) \<rparr>)"

definition clearStore :: "('s, 'z) shop_scheme \<Rightarrow> ('s, 'z) shop_scheme" where
  "clearStore w = w\<lparr> vs_state := EMPTY, vs_notified := vs_notified w @ vs_listeners w \<rparr>"

section \<open>Merging as a map\<close>

text \<open>The rows a list stands for, and what an answer makes of them.\<close>

definition rowsOf :: "('r \<Rightarrow> jstr) \<Rightarrow> 'r list \<Rightarrow> jstr \<rightharpoonup> 'r" where
  "rowsOf idOf rs = map_of (map (\<lambda>r. (idOf r, r)) rs)"

definition applyRow :: "('r \<Rightarrow> jstr) \<Rightarrow> ('r \<Rightarrow> jstr option) \<Rightarrow> 'r \<Rightarrow> (jstr \<rightharpoonup> 'r) \<Rightarrow> (jstr \<rightharpoonup> 'r)" where
  "applyRow idOf deletedAt r m = m(idOf r := (if deletedAt r = None then Some r else None))"

definition keyed :: "('r \<Rightarrow> jstr) \<Rightarrow> ('r \<Rightarrow> jstr option) \<Rightarrow> 'r list \<Rightarrow> bool" where
  "keyed idOf deletedAt rs = (distinct (map idOf rs) \<and> (\<forall>r \<in> set rs. deletedAt r = None))"

text \<open>The map of the loop: well formed, every row under its own id, no tombstone.\<close>

definition keyedMap :: "('r \<Rightarrow> jstr) \<Rightarrow> ('r \<Rightarrow> jstr option) \<Rightarrow> (jstr, 'r) jmap \<Rightarrow> bool" where
  "keyedMap idOf deletedAt m = (mapWf m \<and> (\<forall>(k, r) \<in> set m. k = idOf r \<and> deletedAt r = None))"

lemma byId_keyed: "distinct (map idOf rs) \<Longrightarrow> byId idOf rs = map (\<lambda>r. (idOf r, r)) rs"
  using fold_mapSet_new [of "[]" "map (\<lambda>r. (idOf r, r)) rs"]
  by (simp add: byId_def fold_map comp_def)

lemma keyedMap_byId: "keyed idOf deletedAt rs \<Longrightarrow> keyedMap idOf deletedAt (byId idOf rs)"
  by (auto simp: keyed_def keyedMap_def byId_keyed mapWf_def comp_def)

lemma mapSet_subset: "x \<in> set (mapSet m k v) \<Longrightarrow> x = (k, v) \<or> x \<in> set m"
  unfolding mapSet_def by (induction m) (auto split: if_splits)

lemma mapDelete_subset: "x \<in> set (mapDelete m k) \<Longrightarrow> x \<in> set m"
  unfolding mapDelete_def by (auto simp: AList.delete_eq)

lemma mergeOne_keyed: "keyedMap idOf deletedAt m \<Longrightarrow> keyedMap idOf deletedAt (mergeOne idOf deletedAt r m)"
  unfolding keyedMap_def mergeOne_def
  by (auto simp: jm.wf_put jm.wf_remove dest!: mapSet_subset mapDelete_subset)

lemma mergeOne_get: "mapGet (mergeOne idOf deletedAt r m) = applyRow idOf deletedAt r (mapGet m)"
  by (simp add: mergeOne_def applyRow_def mapGet_set mapGet_delete)

lemma merge_fold:
  "keyedMap idOf deletedAt m \<Longrightarrow> keyedMap idOf deletedAt (fold (mergeOne idOf deletedAt) rs m)"
  "mapGet (fold (mergeOne idOf deletedAt) rs m) = fold (applyRow idOf deletedAt) rs (mapGet m)"
  by (induction rs arbitrary: m) (simp_all add: mergeOne_keyed mergeOne_get)

lemma keyedMap_rows:
  assumes "keyedMap idOf deletedAt m"
  shows "rowsOf idOf (map snd m) = mapGet m" "keyed idOf deletedAt (map snd m)"
proof -
  have k: "map (\<lambda>r. (idOf r, r)) (map snd m) = m" using assms by (auto simp: keyedMap_def intro!: map_idI)
  then show "rowsOf idOf (map snd m) = mapGet m" by (simp add: rowsOf_def mapGet_def fun_eq_iff)
  have "map idOf (map snd m) = map fst m" using assms by (auto simp: keyedMap_def)
  then have "distinct (map idOf (map snd m))" using assms by (simp add: keyedMap_def mapWf_def del: map_map)
  then show "keyed idOf deletedAt (map snd m)" using assms by (auto simp: keyedMap_def keyed_def)
qed

lemma mergeRows_map:
  assumes "keyed idOf deletedAt existing"
  shows "rowsOf idOf (mergeRows idOf deletedAt existing incoming) = fold (applyRow idOf deletedAt) incoming (rowsOf idOf existing)"
    and "keyed idOf deletedAt (mergeRows idOf deletedAt existing incoming)"
proof -
  note k = merge_fold(1) [OF keyedMap_byId [OF assms]]
  have "mapGet (byId idOf existing) = rowsOf idOf existing"
    using assms by (simp add: byId_keyed keyed_def rowsOf_def mapGet_def fun_eq_iff)
  then show "rowsOf idOf (mergeRows idOf deletedAt existing incoming) = fold (applyRow idOf deletedAt) incoming (rowsOf idOf existing)"
    using keyedMap_rows(1) [OF k] by (simp add: mergeRows_def merge_fold(2))
  show "keyed idOf deletedAt (mergeRows idOf deletedAt existing incoming)"
    using keyedMap_rows(2) [OF k] by (simp add: mergeRows_def)
qed

section \<open>An answer of the server, applied\<close>

text \<open>
  What \<^verbatim>\<open>internal/store/sync.go\<close> promises of an answer: at most one row per id; a row, live or a
  tombstone, for each id that changed; nothing for the others. \<open>rows\<close> are the server's live rows
  at the revision asked from, \<open>rows'\<close> those at the revision answered.
\<close>

definition answersSince :: "('w \<Rightarrow> jstr) \<Rightarrow> ('w \<Rightarrow> jstr option) \<Rightarrow> 'w list \<Rightarrow> (jstr \<rightharpoonup> 'w) \<Rightarrow> (jstr \<rightharpoonup> 'w) \<Rightarrow> bool" where
  "answersSince wireId wireDeleted wire rows rows' =
     (distinct (map wireId wire) \<and>
      (\<forall>i. rows' i = (case rowsOf wireId wire i of
         None \<Rightarrow> rows i
       | Some x \<Rightarrow> if wireDeleted x = None then Some x else None)))"

text \<open>The records held show the server's rows: one per row, with that row's fields.\<close>

definition reflects :: "('r \<Rightarrow> jstr) \<Rightarrow> ('w \<Rightarrow> 'p option \<Rightarrow> 'r) \<Rightarrow> 'r list \<Rightarrow> (jstr \<rightharpoonup> 'w) \<Rightarrow> bool" where
  "reflects idOf rowOf records rows =
     (\<forall>i. case rows i of
        None \<Rightarrow> rowsOf idOf records i = None
      | Some x \<Rightarrow> \<exists>p. rowsOf idOf records i = Some (rowOf x p))"

locale synced_rows =
  fixes wireId :: "'w \<Rightarrow> jstr" and wireDeleted :: "'w \<Rightarrow> jstr option"
    and idOf :: "'r \<Rightarrow> jstr" and deletedAt :: "'r \<Rightarrow> jstr option"
    and rowOf :: "'w \<Rightarrow> 'p option \<Rightarrow> 'r"
  assumes row_id: "idOf (rowOf x p) = wireId x"
    and row_deleted: "deletedAt (rowOf x p) = wireDeleted x"
begin

lemma fold_applyRow:
  "distinct (map wireId wire) \<Longrightarrow>
   fold (applyRow idOf deletedAt) (map (\<lambda>x. rowOf x (f x)) wire) m i =
     (case rowsOf wireId wire i of
        None \<Rightarrow> m i
      | Some x \<Rightarrow> if wireDeleted x = None then Some (rowOf x (f x)) else None)"
proof (induction wire arbitrary: m)
  case (Cons x wire)
  have "rowsOf wireId wire (wireId x) = None"
    using Cons.prems by (auto simp: rowsOf_def map_of_eq_None_iff)
  then show ?case using Cons by (auto simp: applyRow_def row_id row_deleted rowsOf_def split: option.split)
qed (simp add: rowsOf_def)

lemma merge_reflects:
  assumes "keyed idOf deletedAt existing" "reflects idOf rowOf existing rows"
    and "answersSince wireId wireDeleted wire rows rows'"
  shows "reflects idOf rowOf (mergeRows idOf deletedAt existing (map (\<lambda>x. rowOf x (f x)) wire)) rows'"
proof -
  have "distinct (map wireId wire)" using assms(3) by (simp add: answersSince_def)
  note merged = mergeRows_map(1) [OF assms(1)] fold_applyRow [OF this]
  show ?thesis
    unfolding reflects_def
  proof
    fix i
    have "rows' i = (case rowsOf wireId wire i of None \<Rightarrow> rows i | Some x \<Rightarrow> if wireDeleted x = None then Some x else None)"
      using assms(3) unfolding answersSince_def by blast
    moreover have "case rows i of None \<Rightarrow> rowsOf idOf existing i = None | Some x \<Rightarrow> \<exists>p. rowsOf idOf existing i = Some (rowOf x p)"
      using assms(2) unfolding reflects_def by blast
    ultimately show "case rows' i of
        None \<Rightarrow> rowsOf idOf (mergeRows idOf deletedAt existing (map (\<lambda>x. rowOf x (f x)) wire)) i = None
      | Some x \<Rightarrow> \<exists>p. rowsOf idOf (mergeRows idOf deletedAt existing (map (\<lambda>x. rowOf x (f x)) wire)) i = Some (rowOf x p)"
      unfolding merged by (cases "rowsOf wireId wire i"; cases "rows i") auto
  qed
qed

end

interpretation item_rows: synced_rows wi_id wi_deletedAt ir_id ir_deletedAt itemToRecord
  by unfold_locales (simp_all add: itemToRecord_def)

interpretation folder_rows: synced_rows wf_id wf_deletedAt fr_id fr_deletedAt folderToRecord
  by unfold_locales (simp_all add: folderToRecord_def)

section \<open>What a sync does to the store\<close>

definition keepsStore :: "('s, 'z, 'a) vprog \<Rightarrow> bool" where
  "keepsStore m = (\<forall>w. vs_state (snd (m w)) = vs_state w)"

lemma same_store:
  fixes w w' :: "('s, 'z) shop_scheme"
  shows "world.more w' = world.more w \<Longrightarrow> vs_state w' = vs_state w"
  by (cases w; cases w'; simp)

lemma keepsRest_store: "keepsRest m \<Longrightarrow> keepsStore m"
  using same_store unfolding keepsRest_def keepsStore_def by blast

lemma keepsStore_andThen: "keepsStore m \<Longrightarrow> (\<And>x. keepsStore (f x)) \<Longrightarrow> keepsStore (andThen m f)"
  unfolding keepsStore_def andThen_def by (auto split: sum.split prod.split) (metis snd_conv)+

lemma keepsStore_tryCatch: "keepsStore m \<Longrightarrow> (\<And>e. keepsStore (h e)) \<Longrightarrow> keepsStore (tryCatch m h)"
  unfolding keepsStore_def tryCatch_def by (auto split: sum.split prod.split) (metis snd_conv)+

lemma keepsStore_basic: "keepsStore (ret x)" "keepsStore (throw e)" "keepsStore (withSession g)" "keepsStore (readBuf a)"
  by (simp_all add: keepsStore_def ret_def throw_def withSession_def readBuf_def)

lemma keepsStore_ring: "keepsStore (updateSession (setCollectionKeys ring))"
proof -
  have "vs_state (dropOldKeys ring old w) = vs_state w" for old and w :: "('a, 'b) shop_scheme"
    by (rule same_store) simp
  then show ?thesis by (simp add: keepsStore_def updateSession_def setCollectionKeys_def)
qed

lemma keepsStore_openSealed: "keepsStore (openSealed pf s a)"
  by (rule keepsRest_store [OF keepsRest_openSealed])

lemma keepsStore_decryptItem: "keepsStore (decryptItem pf enc a)"
  by (rule keepsRest_store [OF keepsRest_decryptItem])

lemmas keepsStore_intros = keepsStore_basic keepsStore_andThen keepsStore_tryCatch keepsStore_ring
  keepsStore_openSealed keepsStore_decryptItem

lemma keepsStore_adopt: "keepsStore (adoptCollections pf wire)"
proof -
  have one: "keepsStore (adoptOne pf pk c ring)" for pk c and ring :: "(jstr, addr) jmap"
    unfolding adoptOne_def by (intro keepsStore_intros) (auto split: option.split intro!: keepsStore_intros)
  have "keepsStore (adoptLoop pf pk wire ring)" for pk ring
    by (induction wire arbitrary: ring) (auto intro!: keepsStore_intros one split: prod.split)
  then show ?thesis
    unfolding adoptCollections_def by (auto intro!: keepsStore_intros split: prod.split)
qed

lemma keepsStore_decrypt: "keepsStore (decryptRecords pf wire)"
proof -
  have "keepsStore (decryptRecord pf item)" for item
    unfolding decryptRecord_def by (auto intro!: keepsStore_intros split: option.split)
  then show ?thesis by (induction wire) (auto intro!: keepsStore_intros)
qed

lemma keepsStore_folders: "keepsStore (decryptFolders pf wire key)"
  unfolding decryptFolders_def by (intro keepsStore_intros)

text \<open>A call that tells the server something and leaves the store alone.\<close>

definition storeFree :: "('s, 'z shop_ext, 'r) call \<Rightarrow> bool" where
  "storeFree get = (\<forall>path body. keepsStore (get path body))"

definition becomes :: "('s, 'z, 'a) vprog \<Rightarrow> (VaultState \<Rightarrow> 'a result \<Rightarrow> VaultState \<Rightarrow> bool) \<Rightarrow> bool" where
  "becomes m Q = (\<forall>w. Q (vs_state w) (fst (m w)) (vs_state (snd (m w))))"

lemma becomes_andThen:
  assumes "keepsStore m" "\<And>s e. Q s (Inl e) s" "\<And>x. becomes (f x) Q"
  shows "becomes (andThen m f) Q"
  unfolding becomes_def
proof
  fix w
  obtain r w1 where run: "m w = (r, w1)" by fastforce
  have "vs_state w1 = vs_state w" using assms(1) run unfolding keepsStore_def by (metis snd_conv)
  moreover have "Q (vs_state w1) (fst (f x w1)) (vs_state (snd (f x w1)))" for x
    using assms(3) unfolding becomes_def by blast
  ultimately show "Q (vs_state w) (fst (andThen m f w)) (vs_state (snd (andThen m f w)))"
    using run assms(2) by (cases r) (auto simp: andThen_def)
qed

definition syncedTo :: "int option \<Rightarrow> VaultState \<Rightarrow> VaultState \<Rightarrow> bool" where
  "syncedTo since s s' = (\<exists>revision records folders collections. s' = applySync since revision records folders collections s)"

definition failedAs :: "exn \<Rightarrow> VaultState \<Rightarrow> VaultState" where
  "failedAs e s = s\<lparr> va_status := VError, va_error := Some e \<rparr>"

lemma fetchInto_becomes:
  assumes "storeFree get"
  shows "becomes (fetchInto pf get since) (\<lambda>s r s'. case r of Inl e \<Rightarrow> s' = failedAs e s | Inr u \<Rightarrow> syncedTo since s s')"
proof -
  let ?body = "andThen (get (syncPath since) None) (\<lambda>response.
        andThen (adoptCollections pf (orEmpty (sr_collections response))) (\<lambda>collections.
        andThen (decryptRecords pf (sr_items response)) (\<lambda>records.
        andThen (withSession getKeys) (\<lambda>(userKey, privateKey).
        andThen (decryptFolders pf (orEmpty (sr_folders response)) userKey) (\<lambda>folders.
          stepState (applySync since (sr_revision response) records folders collections))))))"
  have "becomes ?body (\<lambda>s r s'. case r of Inl e \<Rightarrow> s' = s | Inr u \<Rightarrow> syncedTo since s s')"
  proof (rule becomes_andThen)
    show "keepsStore (get (syncPath since) None)" using assms by (simp add: storeFree_def)
    fix response
    show "becomes (andThen (adoptCollections pf (orEmpty (sr_collections response))) (\<lambda>collections.
        andThen (decryptRecords pf (sr_items response)) (\<lambda>records.
        andThen (withSession getKeys) (\<lambda>(userKey, privateKey).
        andThen (decryptFolders pf (orEmpty (sr_folders response)) userKey) (\<lambda>folders.
          stepState (applySync since (sr_revision response) records folders collections))))))
      (\<lambda>s r s'. case r of Inl e \<Rightarrow> s' = s | Inr u \<Rightarrow> syncedTo since s s')"
      apply (intro becomes_andThen keepsStore_adopt keepsStore_decrypt keepsStore_basic)
         apply simp_all
      apply (split prod.split)
      apply (intro allI impI becomes_andThen keepsStore_folders)
       apply simp
      apply (auto simp: becomes_def stepState_def setState_def syncedTo_def)
      done
  qed simp
  note body = this [unfolded becomes_def, rule_format]
  show ?thesis
    unfolding becomes_def
  proof
    fix w
    obtain r w1 where run: "?body w = (r, w1)" by fastforce
    show "case fst (fetchInto pf get since w) of Inl e \<Rightarrow> vs_state (snd (fetchInto pf get since w)) = failedAs e (vs_state w)
        | Inr u \<Rightarrow> syncedTo since (vs_state w) (vs_state (snd (fetchInto pf get since w)))"
      using body [of w] run
      by (cases r) (simp_all add: fetchInto_def tryCatch_def andThen_def [of "stepState f" for f] stepState_def setState_def
          throw_def failedAs_def)
  qed
qed

text \<open>
  A sync that fails, at the request, at the keys or anywhere else, throws and leaves every row,
  folder, collection and the revision as they were; only the status and the error say so. The next
  sync asks from the same revision.
\<close>

theorem failed_sync_changes_nothing:
  assumes "storeFree get" "resync pf get w = (Inl e, w')"
  shows "vs_state w' = (vs_state w)\<lparr> va_status := VError, va_error := Some e \<rparr>"
  using fetchInto_becomes [OF assms(1), of pf "Some (va_revision (vs_state w))", unfolded becomes_def, rule_format, of w] assms(2)
  by (simp add: resync_def failedAs_def)

lemma adopted_keysExist:
  assumes "adopted w w1 wire added" "tidy w w1 K" "ap_session w1 = ap_session w" "keysExist w"
  shows "keysExist (setCollectionKeys added w1)"
  unfolding keysExist_def
proof
  fix a assume a: "a \<in> held (ap_session (setCollectionKeys added w1))"
  have len: "length (wd_heap (setCollectionKeys added w1)) = length (wd_heap w1)" "length (wd_heap w) \<le> length (wd_heap w1)"
    using assms(2) by (simp_all add: setCollectionKeys_def tidy_def)
  have old: "b < length (wd_heap w1)" if "b \<in> held (ap_session w)" for b
    using that assms(4) len(2) by (auto simp: keysExist_def)
  have key: "b \<in> held (ap_session w)" if "getCollectionKey (ap_session w) i = Some b" for i b
    using that by (force simp: held_eq getCollectionKey_def mapGet_def dest!: map_of_SomeD)
  from a consider "a \<in> held (ap_session w)" | i where "(i, a) \<in> set added"
    unfolding held_ring assms(3) by (auto simp: held_eq)
  then show "a < length (wd_heap (setCollectionKeys added w1))"
  proof cases
    case 2
    then have "heldOrNew w w1 i a" using assms(1) unfolding adopted_def by force
    then show ?thesis using old key len(1) by (auto simp: heldOrNew_def)
  qed (simp add: old len(1))
qed

lemma decryptFolders_run:
  "decryptFolders pf wire a w = (Inr (map (decryptFolder pf (bufOf w a)) wire), w)"
  by (simp add: decryptFolders_def andThen_def readBuf_def ret_def)

lemma decryptFolder_row: "decryptFolder pf key x = folderToRecord x (fr_name (decryptFolder pf key x))"
  by (simp add: decryptFolder_def folderToRecord_def split: sum.split)

lemma fetchInto_run:
  fixes w :: "('s, 'z) shop_scheme"
  assumes "get (syncPath since) None w = (Inr response, w1)" "isUnlocked (ap_session w1)" "keysExist w1"
    and "distinct (map wc_id (orEmpty (sr_collections response)))"
  shows "\<exists>w' f g collections. fetchInto pf get since w = (Inr (), w') \<and>
    vs_state w' = applySync since (sr_revision response) (map (\<lambda>x. itemToRecord x (f x)) (sr_items response))
      (map (\<lambda>x. folderToRecord x (g x)) (orEmpty (sr_folders response))) collections (vs_state w1) \<and>
    map cs_id collections = map wc_id (orEmpty (sr_collections response))"
proof -
  obtain uk pk where k: "getKeys (ap_session w1) = Inr (uk, pk)"
    using assms(2) by (auto simp: isUnlocked_def getKeys_def)
  obtain added w2 where adopt: "adoptCollections pf (orEmpty (sr_collections response)) w1 =
      (Inr (map (\<lambda>c. summaryOf c (mapHas added (wc_id c))) (orEmpty (sr_collections response))), setCollectionKeys added w2)"
    "ap_session w2 = ap_session w1" "tidy w1 w2 (snd ` set added)" "adopted w1 w2 (orEmpty (sr_collections response)) added"
    by (rule adoptCollections_run [OF k assms(4)])
  define w3 where "w3 = setCollectionKeys added w2"
  have u: "isUnlocked (ap_session w3)" "getKeys (ap_session w3) = Inr (uk, pk)"
    using assms(2) k adopt(2) by (simp_all add: isUnlocked_def getKeys_def w3_def)
  have "keysExist w3" unfolding w3_def by (rule adopted_keysExist [OF adopt(4,3,2) assms(3)])
  then obtain f w4 where records: "decryptRecords pf (sr_items response) w3 =
      (Inr (map (\<lambda>x. itemToRecord x (f x)) (sr_items response)), w4)" "ap_session w4 = ap_session w3"
    using decryptRecords_run [OF u(1)] by blast
  have kept: "vs_state w3 = vs_state w1" "vs_state w4 = vs_state w3"
    using keepsStore_adopt [unfolded keepsStore_def, rule_format, of pf "orEmpty (sr_collections response)" w1] adopt(1)
      keepsStore_decrypt [unfolded keepsStore_def, rule_format, of pf "sr_items response" w3] records(1)
    by (simp_all add: w3_def)
  define cols where "cols = map (\<lambda>c. summaryOf c (mapHas added (wc_id c))) (orEmpty (sr_collections response))"
  define g where "g = (\<lambda>x. fr_name (decryptFolder pf (bufOf w4 uk) x))"
  have folders: "decryptFolders pf (orEmpty (sr_folders response)) uk w4 =
      (Inr (map (\<lambda>x. folderToRecord x (g x)) (orEmpty (sr_folders response))), w4)"
    unfolding decryptFolders_run g_def using decryptFolder_row by (metis (no_types, lifting))
  have run: "fetchInto pf get since w = (Inr (), setState (applySync since (sr_revision response)
      (map (\<lambda>x. itemToRecord x (f x)) (sr_items response))
      (map (\<lambda>x. folderToRecord x (g x)) (orEmpty (sr_folders response))) cols) w4)"
    using u(2)
    by (simp add: fetchInto_def tryCatch_def andThen_def assms(1) adopt(1) [folded w3_def cols_def] withSession_def
        records folders stepState_def)
  have "map cs_id cols = map wc_id (orEmpty (sr_collections response))" by (simp add: cols_def summaryOf_def)
  then show ?thesis
    using run kept
    by (intro exI [of _ "setState (applySync since (sr_revision response)
      (map (\<lambda>x. itemToRecord x (f x)) (sr_items response))
      (map (\<lambda>x. folderToRecord x (g x)) (orEmpty (sr_folders response))) cols) w4"] exI [of _ f] exI [of _ g] exI [of _ cols])
      (simp add: setState_def)
qed

section \<open>The store shows the server\<close>

definition storeShows :: "VaultState \<Rightarrow> (jstr \<rightharpoonup> WireItem) \<Rightarrow> (jstr \<rightharpoonup> WireFolder) \<Rightarrow> bool" where
  "storeShows st items folders =
     (keyed ir_id ir_deletedAt (va_items st) \<and> reflects ir_id itemToRecord (va_items st) items \<and>
      keyed fr_id fr_deletedAt (va_folders st) \<and> reflects fr_id folderToRecord (va_folders st) folders)"

lemma keyed_Nil [simp]: "keyed idOf deletedAt []"
  by (simp add: keyed_def)

lemma storeShows_empty [simp]: "va_items st = [] \<Longrightarrow> va_folders st = [] \<Longrightarrow> storeShows st Map.empty Map.empty"
  by (simp add: storeShows_def reflects_def rowsOf_def)

lemma applySync_shows:
  assumes "storeShows st items folders"
    and "answersSince wi_id wi_deletedAt wireItems items items'"
    and "answersSince wf_id wf_deletedAt wireFolders folders folders'"
  shows "storeShows (applySync (Some n) revision (map (\<lambda>x. itemToRecord x (f x)) wireItems)
      (map (\<lambda>x. folderToRecord x (g x)) wireFolders) collections st) items' folders'"
  using assms mergeRows_map(2) [of ir_id ir_deletedAt "va_items st"] mergeRows_map(2) [of fr_id fr_deletedAt "va_folders st"]
    item_rows.merge_reflects [of "va_items st" items wireItems items' f]
    folder_rows.merge_reflects [of "va_folders st" folders wireFolders folders' g]
  by (simp add: storeShows_def applySync_def)

lemma applySync_load:
  "storeShows (applySync None revision records folders collections st) items rows =
   storeShows (applySync (Some n) revision records folders collections (st\<lparr> va_items := [], va_folders := [] \<rparr>)) items rows"
  by (simp add: storeShows_def applySync_def)

text \<open>
  C19. An incremental sync refines the server's history. If the store shows the server's rows at
  the revision it holds and the server answers as it documents, then \<^verbatim>\<open>resync\<close> returns with a
  store that shows the server's rows at the answered revision: changed rows replaced, tombstones
  gone, everything the answer leaves out still there. The revision is the answer's, and the
  collections are exactly the answer's.
\<close>

theorem resync_refines:
  fixes w :: "('s, 'z) shop_scheme"
  assumes "storeShows (vs_state w) items folders"
    and "get (syncPath (Some (va_revision (vs_state w)))) None w = (Inr response, w1)" "vs_state w1 = vs_state w"
    and "isUnlocked (ap_session w1)" "keysExist w1" "distinct (map wc_id (orEmpty (sr_collections response)))"
    and "answersSince wi_id wi_deletedAt (sr_items response) items items'"
    and "answersSince wf_id wf_deletedAt (orEmpty (sr_folders response)) folders folders'"
  shows "\<exists>w'. resync pf get w = (Inr (), w') \<and> storeShows (vs_state w') items' folders' \<and>
    va_revision (vs_state w') = sr_revision response \<and> va_status (vs_state w') = VReady \<and>
    map cs_id (va_collections (vs_state w')) = map wc_id (orEmpty (sr_collections response))"
proof -
  obtain w' f g collections where run: "fetchInto pf get (Some (va_revision (vs_state w))) w = (Inr (), w')"
    "vs_state w' = applySync (Some (va_revision (vs_state w))) (sr_revision response)
      (map (\<lambda>x. itemToRecord x (f x)) (sr_items response))
      (map (\<lambda>x. folderToRecord x (g x)) (orEmpty (sr_folders response))) collections (vs_state w1)"
    "map cs_id collections = map wc_id (orEmpty (sr_collections response))"
    using fetchInto_run [where get = get and since = "Some (va_revision (vs_state w))", OF assms(2,4,5,6)] by blast
  have "storeShows (vs_state w') items' folders'"
    unfolding run(2) assms(3) by (rule applySync_shows [OF assms(1,7,8)])
  then show ?thesis using run by (auto simp: resync_def applySync_def)
qed

text \<open>
  A full load shows the server whatever the store held before: every live row of the answer and
  nothing else, so a row that vanished without a tombstone is gone too.
\<close>

theorem load_shows_server:
  fixes w :: "('s, 'z) shop_scheme"
  assumes "get (js ''/api/sync'') None (setState (\<lambda>s. s\<lparr> va_status := VLoading, va_error := None \<rparr>) w) = (Inr response, w1)"
    and "isUnlocked (ap_session w1)" "keysExist w1" "distinct (map wc_id (orEmpty (sr_collections response)))"
    and "answersSince wi_id wi_deletedAt (sr_items response) Map.empty items"
    and "answersSince wf_id wf_deletedAt (orEmpty (sr_folders response)) Map.empty folders"
  shows "\<exists>w'. load pf get w = (Inr (), w') \<and> storeShows (vs_state w') items folders \<and>
    va_revision (vs_state w') = sr_revision response \<and> va_status (vs_state w') = VReady \<and> va_error (vs_state w') = None"
proof -
  let ?w = "setState (\<lambda>s. s\<lparr> va_status := VLoading, va_error := None \<rparr>) w"
  have get: "get (syncPath None) None ?w = (Inr response, w1)" using assms(1) by (simp add: syncPath_def)
  obtain w' f g collections where run: "fetchInto pf get None ?w = (Inr (), w')"
    "vs_state w' = applySync None (sr_revision response) (map (\<lambda>x. itemToRecord x (f x)) (sr_items response))
      (map (\<lambda>x. folderToRecord x (g x)) (orEmpty (sr_folders response))) collections (vs_state w1)"
    using fetchInto_run [where get = get and since = None, OF get assms(2-4)] by blast
  have "storeShows (vs_state w') items folders"
    unfolding run(2) applySync_load [of _ _ _ _ _ _ _ 0] by (rule applySync_shows [OF _ assms(5,6)]) simp
  then show ?thesis using run by (auto simp: load_def andThen_def stepState_def applySync_def)
qed

section \<open>Every operation, in any order\<close>

definition storeInv :: "VaultState \<Rightarrow> bool" where
  "storeInv st = (keyed ir_id ir_deletedAt (va_items st) \<and> keyed fr_id fr_deletedAt (va_folders st))"

inductive store_step :: "('s, 'z) shop_scheme \<Rightarrow> ('s, 'z) shop_scheme \<Rightarrow> bool" where
  step_load: "storeFree get \<Longrightarrow> load pf get w = (r, w') \<Longrightarrow> store_step w w'"
| step_resync: "storeFree get \<Longrightarrow> resync pf get w = (r, w') \<Longrightarrow> store_step w w'"
| step_upsert: "store_step w (upsert record w)"
| step_remove: "store_step w (removeItem i w)"
| step_clear: "store_step w (clearStore w)"
| step_listen: "store_step w (subscribeStore l w)"
| step_unlisten: "store_step w (unsubscribeStore l w)"
| step_elsewhere: "vs_state w' = vs_state w \<Longrightarrow> store_step w w'"

inductive store_reach :: "('s, 'z) shop_scheme \<Rightarrow> bool" where
  reach_start: "vs_state w = EMPTY \<Longrightarrow> store_reach w"
| reach_next: "store_reach w \<Longrightarrow> store_step w w' \<Longrightarrow> store_reach w'"

lemma keyed_filter: "keyed idOf deletedAt rs \<Longrightarrow> keyed idOf deletedAt (filter P rs)"
  by (auto simp: keyed_def distinct_map_filter)

lemma syncedTo_inv: "syncedTo since s s' \<Longrightarrow> storeInv s \<Longrightarrow> storeInv s'"
  by (auto simp: syncedTo_def storeInv_def applySync_def mergeRows_map(2))

lemma fetchInto_inv:
  assumes "storeFree get" "fetchInto pf get since w = (r, w')" "storeInv (vs_state w)"
  shows "storeInv (vs_state w')"
  using fetchInto_becomes [OF assms(1), of pf since, unfolded becomes_def, rule_format, of w] assms(2,3)
  by (cases r) (auto simp: failedAs_def storeInv_def dest: syncedTo_inv)

lemma store_step_inv: "store_step w w' \<Longrightarrow> storeInv (vs_state w) \<Longrightarrow> storeInv (vs_state w')"
proof (induction rule: store_step.induct)
  case (step_load get pf w r w')
  have "storeInv (vs_state (setState (\<lambda>s. s\<lparr> va_status := VLoading, va_error := None \<rparr>) w))"
    using step_load.prems by (simp add: setState_def storeInv_def)
  from fetchInto_inv [OF step_load.hyps(1) _ this] step_load.hyps(2) show ?case
    by (simp add: load_def andThen_def stepState_def)
next
  case (step_resync get pf w r w')
  then show ?case using fetchInto_inv by (auto simp: resync_def)
qed (auto simp: storeInv_def upsert_def removeItem_def clearStore_def EMPTY_def setState_def keyed_filter
    subscribeStore_def unsubscribeStore_def mergeRows_map(2))

text \<open>
  C24. The store never holds two rows of one id, nor a tombstone, among its items or its folders:
  from the empty store, through any sequence of loads, syncs against any server, successful or
  failed, local upserts and removals, and clearings.
\<close>

theorem store_rows_unique:
  assumes "store_reach w"
  shows "distinct (map ir_id (va_items (vs_state w))) \<and> (\<forall>r \<in> set (va_items (vs_state w)). ir_deletedAt r = None) \<and>
    distinct (map fr_id (va_folders (vs_state w))) \<and> (\<forall>r \<in> set (va_folders (vs_state w)). fr_deletedAt r = None)"
proof -
  have "storeInv (vs_state w)"
    using assms by induction (simp add: storeInv_def EMPTY_def, rule store_step_inv)
  then show ?thesis by (simp add: storeInv_def keyed_def)
qed

section \<open>Witnesses\<close>

definition sampleShop :: "unit shop" where
  "sampleShop =
     \<lparr> wd_random = (\<lambda>i. 0), wd_heap = [replicate 32 7], sv_server = (),
       ap_session = createSession\<lparr> se_userKey := Some 0, se_privateKey := Some 0 \<rparr>,
       vs_state = EMPTY, vs_listeners = [], vs_notified = [] \<rparr>"

definition answering :: "'r result \<Rightarrow> ('s, 'z, 'r) call" where
  "answering r path body w = (r, w)"

definition sampleResponse :: SyncResponse where
  "sampleResponse = \<lparr> sr_revision = 4, sr_items = [badRow], sr_folders = None, sr_collections = None \<rparr>"

lemma sampleShop_ready: "isUnlocked (ap_session sampleShop)" "keysExist sampleShop"
  by (auto simp: sampleShop_def createSession_def isUnlocked_def keysExist_def held_eq)

lemma sample_answer:
  "answersSince wi_id wi_deletedAt (sr_items sampleResponse) Map.empty [js ''1'' \<mapsto> badRow]"
  "answersSince wf_id wf_deletedAt (orEmpty (sr_folders sampleResponse)) Map.empty Map.empty"
  "distinct (map wc_id (orEmpty (sr_collections sampleResponse)))"
  by (simp_all add: answersSince_def rowsOf_def sampleResponse_def badRow_def orEmpty_def)

theorem resync_refines_witness:
  "\<exists>w'. resync samplePlatform (answering (Inr sampleResponse)) sampleShop = (Inr (), w') \<and>
     storeShows (vs_state w') [js ''1'' \<mapsto> badRow] Map.empty \<and> va_revision (vs_state w') = 4"
proof -
  have "storeShows (vs_state sampleShop) Map.empty Map.empty" by (simp add: sampleShop_def EMPTY_def)
  moreover have "sr_revision sampleResponse = 4" by (simp add: sampleResponse_def)
  ultimately show ?thesis
    using resync_refines [where get = "answering (Inr sampleResponse)", OF _ _ refl sampleShop_ready sample_answer(3,1,2),
        of samplePlatform] by (auto simp: answering_def)
qed

theorem load_shows_server_witness:
  "\<exists>w'. load samplePlatform (answering (Inr sampleResponse)) sampleShop = (Inr (), w') \<and>
     storeShows (vs_state w') [js ''1'' \<mapsto> badRow] Map.empty"
proof -
  let ?w = "setState (\<lambda>s. s\<lparr> va_status := VLoading, va_error := None \<rparr>) sampleShop"
  have "isUnlocked (ap_session ?w)" "keysExist ?w"
    using sampleShop_ready by (simp_all add: setState_def keysExist_def)
  from load_shows_server [where get = "answering (Inr sampleResponse)", OF _ this sample_answer(3,1,2)]
  show ?thesis by (simp add: answering_def) blast
qed

theorem failed_sync_changes_nothing_witness:
  "\<exists>w'. resync samplePlatform (answering (Inl NetworkError)) sampleShop = (Inl NetworkError, w') \<and>
     vs_state w' = EMPTY\<lparr> va_status := VError, va_error := Some NetworkError \<rparr>"
proof -
  have "storeFree (answering (Inl NetworkError))" by (simp add: storeFree_def keepsStore_def answering_def)
  moreover obtain w' where "resync samplePlatform (answering (Inl NetworkError)) sampleShop = (Inl NetworkError, w')"
    by (simp add: resync_def fetchInto_def tryCatch_def andThen_def answering_def stepState_def throw_def)
  ultimately show ?thesis
    using failed_sync_changes_nothing by (fastforce simp: sampleShop_def)
qed

theorem store_rows_unique_witness:
  "store_reach (upsert (itemToRecord badRow None) sampleShop) \<and>
   distinct (map ir_id (va_items (vs_state (upsert (itemToRecord badRow None) sampleShop))))"
proof -
  have "store_reach sampleShop" by (rule reach_start) (simp add: sampleShop_def)
  then have r: "store_reach (upsert (itemToRecord badRow None) sampleShop)" by (rule reach_next) (rule step_upsert)
  show ?thesis using r store_rows_unique [OF r] by blast
qed

end
