(* ===== verification/Generator.thy ===== *)
theory Generator
  imports World JsonText "HOL-Library.Multiset"
begin

text \<open>
  The password generator (\<^verbatim>\<open>packages/vault/src/generator.ts\<close>). The rejection loop of
  \<^verbatim>\<open>randomIndex\<close> ends only if the random bytes ever give an accepted value, so a program here
  may also not return, which is the value \<open>None\<close>.

  The numbers of \<^verbatim>\<open>randomIndex\<close> are doubles, so what it computes is rounded to 53 bits.

  Shown: no index below a limit of at most \<open>2 ^ 48\<close> is favoured by the bytes, and some indices below
  a wider one are never drawn; with bytes that are not forever rejected the generator returns, with
  a password of the length asked for, over the enabled classes, with each of them.
\<close>

type_synonym ('z, 'a) gen = "'z world_scheme \<Rightarrow> ('a result \<times> 'z world_scheme) option"

definition gRet :: "'a \<Rightarrow> ('z, 'a) gen" where
  "gRet x w = Some (Inr x, w)"

definition gThrow :: "exn \<Rightarrow> ('z, 'a) gen" where
  "gThrow e w = Some (Inl e, w)"

definition gThen :: "('z, 'a) gen \<Rightarrow> ('a \<Rightarrow> ('z, 'b) gen) \<Rightarrow> ('z, 'b) gen" where
  "gThen m f w =
     (case m w of
        None \<Rightarrow> None
      | Some (Inl e, w') \<Rightarrow> Some (Inl e, w')
      | Some (Inr x, w') \<Rightarrow> f x w')"

section \<open>Options\<close>

record GeneratorOptions =
  go_length :: int
  go_lowercase :: bool
  go_uppercase :: bool
  go_digits :: bool
  go_symbols :: bool

definition DEFAULT_GENERATOR_OPTIONS :: GeneratorOptions where
  "DEFAULT_GENERATOR_OPTIONS =
     \<lparr> go_length = 20, go_lowercase = True, go_uppercase = True, go_digits = True, go_symbols = True \<rparr>"

definition CLASSES_lowercase :: jstr where "CLASSES_lowercase = js ''abcdefghijklmnopqrstuvwxyz''"
definition CLASSES_uppercase :: jstr where "CLASSES_uppercase = js ''ABCDEFGHIJKLMNOPQRSTUVWXYZ''"
definition CLASSES_digits :: jstr where "CLASSES_digits = js ''0123456789''"
definition CLASSES_symbols :: jstr where "CLASSES_symbols = js ''!#$%&()*+,-.:;<=>?@[]^_{|}~''"

text \<open>\<^verbatim>\<open>Partial<GeneratorOptions>\<close>: what the caller left out is the default.\<close>

record PartialOptions =
  po_length :: "int option"
  po_lowercase :: "bool option"
  po_uppercase :: "bool option"
  po_digits :: "bool option"
  po_symbols :: "bool option"

definition orDefault :: "'a option \<Rightarrow> 'a \<Rightarrow> 'a" where
  "orDefault x d = (case x of None \<Rightarrow> d | Some y \<Rightarrow> y)"

definition settingsOf :: "PartialOptions \<Rightarrow> GeneratorOptions" where
  "settingsOf options =
     \<lparr> go_length = orDefault (po_length options) (go_length DEFAULT_GENERATOR_OPTIONS),
       go_lowercase = orDefault (po_lowercase options) (go_lowercase DEFAULT_GENERATOR_OPTIONS),
       go_uppercase = orDefault (po_uppercase options) (go_uppercase DEFAULT_GENERATOR_OPTIONS),
       go_digits = orDefault (po_digits options) (go_digits DEFAULT_GENERATOR_OPTIONS),
       go_symbols = orDefault (po_symbols options) (go_symbols DEFAULT_GENERATOR_OPTIONS) \<rparr>"

section \<open>Doubles\<close>

text \<open>
  The integers a double can hold, as natural numbers: 53 significant bits, the nearest one chosen
  and the even one of two as near. Overflow to infinity, from \<open>2 ^ 1024\<close> on, is left out.
\<close>

definition roundHalfEven :: "nat \<Rightarrow> nat \<Rightarrow> nat" where
  "roundHalfEven a b =
     (let q = a div b; r = a mod b in if 2 * r < b \<or> 2 * r = b \<and> even q then q else q + 1)"

text \<open>The exponent of the leading bit.\<close>

fun exponentOf :: "nat \<Rightarrow> nat" where
  "exponentOf n = (if n < 2 then 0 else Suc (exponentOf (n div 2)))"

declare exponentOf.simps [simp del]

definition toDouble :: "nat \<Rightarrow> nat" where
  "toDouble n =
     (if n < 2 ^ 53 then n else let unit = 2 ^ (exponentOf n - 52) in roundHalfEven n unit * unit)"

text \<open>
  \<^verbatim>\<open>Math.floor(a / b)\<close> for \<open>b \<le> a\<close>: the exact quotient, whose leading bit is that of
  its integer part, rounded to 52 bits after the leading one and then cut off.
\<close>

definition floorQuotient :: "nat \<Rightarrow> nat \<Rightarrow> nat" where
  "floorQuotient a b =
     (let e = exponentOf (a div b) in roundHalfEven (a * 2 ^ 52) (b * 2 ^ e) * 2 ^ e div 2 ^ 52)"

section \<open>An index\<close>

text \<open>The loop of \<^verbatim>\<open>byteWidthFor\<close>.\<close>

function widthLoop :: "nat \<Rightarrow> nat \<Rightarrow> nat \<Rightarrow> nat" where
  "widthLoop limit width rng =
     (if 0 < rng \<and> rng < limit then widthLoop limit (width + 1) (rng * 256) else width)"
  by pat_completeness auto
termination by (relation "measure (\<lambda>(limit, width, rng). limit - rng)") auto

definition byteWidthFor :: "nat \<Rightarrow> nat" where
  "byteWidthFor limit = widthLoop limit 1 256"

definition bytesValue :: "bytes \<Rightarrow> nat" where
  "bytesValue bs = fold (\<lambda>b value. toDouble (toDouble (value * 256) + unat b)) bs 0"

partial_function (option) rejectLoop ::
  "nat \<Rightarrow> nat \<Rightarrow> nat \<Rightarrow> (nat \<Rightarrow> 'w \<Rightarrow> bytes \<times> 'w) \<Rightarrow> 'w \<Rightarrow> (nat \<times> 'w) option" where
  "rejectLoop limit byteWidth ceiling byteSource w =
     (let (bytes, w') = byteSource byteWidth w in
      if bytesValue bytes < ceiling then Some (bytesValue bytes mod limit, w')
      else rejectLoop limit byteWidth ceiling byteSource w')"

declare rejectLoop.simps [code]

text \<open>
  \<^verbatim>\<open>randomIndex\<close>, for any source of bytes. Powers of 256 and remainders of doubles are exact;
  the limit is an integer that a double can hold.
\<close>

definition randomIndex :: "int \<Rightarrow> (nat \<Rightarrow> 'w \<Rightarrow> bytes \<times> 'w) \<Rightarrow> 'w \<Rightarrow> (nat result \<times> 'w) option" where
  "randomIndex limit byteSource w =
     (if limit < 1 then Some (Inl (JsError (js ''limit must be at least 1, got '' @ stringify (JNum (jint limit)))), w)
      else
        (let n = nat limit; byteWidth = byteWidthFor n; rng = 256 ^ byteWidth; ceiling = toDouble (floorQuotient rng n * n) in
         case rejectLoop n byteWidth ceiling byteSource w of
           None \<Rightarrow> None
         | Some (i, w') \<Rightarrow> Some (Inr i, w')))"

definition secureBytes :: "nat \<Rightarrow> 'z world_scheme \<Rightarrow> bytes \<times> 'z world_scheme" where
  "secureBytes n w = (drawn n w, afterDraw n w)"

definition secureRandomIndex :: "nat \<Rightarrow> ('z, nat) gen" where
  "secureRandomIndex limit = randomIndex (int limit) secureBytes"

section \<open>A password\<close>

text \<open>A password is a list of code units.\<close>

definition pick :: "jstr \<Rightarrow> ('z, jstr) gen" where
  "pick alphabet = gThen (secureRandomIndex (length alphabet)) (\<lambda>i. gRet (charAt alphabet i))"

definition enabledClasses :: "GeneratorOptions \<Rightarrow> jstr list" where
  "enabledClasses settings =
     (if go_lowercase settings then [CLASSES_lowercase] else []) @
     (if go_uppercase settings then [CLASSES_uppercase] else []) @
     (if go_digits settings then [CLASSES_digits] else []) @
     (if go_symbols settings then [CLASSES_symbols] else [])"

fun pickEach :: "jstr list \<Rightarrow> ('z, jstr list) gen" where
  "pickEach [] = gRet []"
| "pickEach (alphabet # rest) = gThen (pick alphabet) (\<lambda>c. gThen (pickEach rest) (\<lambda>cs. gRet (c # cs)))"

fun fillLoop :: "nat \<Rightarrow> jstr \<Rightarrow> jstr list \<Rightarrow> ('z, jstr list) gen" where
  "fillLoop 0 allChars characters = gRet characters"
| "fillLoop (Suc missing) allChars characters =
     gThen (pick allChars) (\<lambda>c. fillLoop missing allChars (characters @ [c]))"

text \<open>The loop of the shuffle, from \<open>i\<close> down to 1.\<close>

fun shuffleFrom :: "nat \<Rightarrow> jstr list \<Rightarrow> ('z, jstr list) gen" where
  "shuffleFrom 0 characters = gRet characters"
| "shuffleFrom (Suc i) characters =
     gThen (secureRandomIndex (Suc i + 1)) (\<lambda>j.
       let a = characters ! Suc i; b = characters ! j in
       shuffleFrom i ((characters[Suc i := b])[j := a]))"

definition generatePassword :: "PartialOptions \<Rightarrow> ('z, jstr) gen" where
  "generatePassword options =
     (let settings = settingsOf options; enabled = enabledClasses settings in
      if length enabled = 0 then gThrow (JsError (js ''At least one character class must be enabled''))
      else if go_length settings < int (length enabled)
        then gThrow (JsError (js ''Length must be at least '' @ showNat (length enabled) @ js '' to include every enabled class''))
      else
        gThen (pickEach enabled) (\<lambda>characters.
        gThen (fillLoop (nat (go_length settings) - length characters) (concat enabled) characters) (\<lambda>filled.
        gThen (shuffleFrom (length filled - 1) filled) (\<lambda>shuffled.
          gRet (concat shuffled)))))"

section \<open>The width of a draw\<close>

lemma widthLoop_enough:
  "rng = 256 ^ width \<Longrightarrow> limit \<le> 256 ^ widthLoop limit width rng \<and> width \<le> widthLoop limit width rng"
proof (induction limit width rng rule: widthLoop.induct)
  case (1 limit width rng)
  show ?case
  proof (cases "0 < rng \<and> rng < limit")
    case True
    then show ?thesis using 1 by (simp add: widthLoop.simps [of limit width rng] mult.commute)
  next
    case False
    then show ?thesis using 1(2) by (simp add: widthLoop.simps [of limit width rng])
  qed
qed

declare widthLoop.simps [simp del]

lemma byteWidth_enough: "limit \<le> 256 ^ byteWidthFor limit" "0 < byteWidthFor limit"
  using widthLoop_enough [of 256 1 limit] by (simp_all add: byteWidthFor_def)

definition indexRange :: "nat \<Rightarrow> nat" where
  "indexRange limit = 256 ^ byteWidthFor limit"

definition indexCeiling :: "nat \<Rightarrow> nat" where
  "indexCeiling limit = toDouble (floorQuotient (indexRange limit) limit * limit)"

lemma range_enough: "limit \<le> indexRange limit"
  using byteWidth_enough(1) by (simp add: indexRange_def)

lemma widthLoop_least: "rng = 256 ^ width \<Longrightarrow> width \<le> k \<Longrightarrow> limit \<le> 256 ^ k \<Longrightarrow> widthLoop limit width rng \<le> k"
proof (induction limit width rng rule: widthLoop.induct)
  case (1 limit width rng)
  show ?case
  proof (cases "0 < rng \<and> rng < limit")
    case True
    then have "(256 :: nat) ^ width < 256 ^ k" using 1(2,4) by linarith
    then have "width + 1 \<le> k" by simp
    then have "widthLoop limit (width + 1) (rng * 256) \<le> k" using 1 True by simp
    then show ?thesis using True by (subst widthLoop.simps) simp
  next
    case False
    then have "widthLoop limit width rng = width" by (subst widthLoop.simps) auto
    then show ?thesis using 1(3) by simp
  qed
qed

lemma byteWidth_six: "limit \<le> 2 ^ 48 \<Longrightarrow> byteWidthFor limit \<le> 6"
  unfolding byteWidthFor_def by (rule widthLoop_least) simp_all

section \<open>What is exact\<close>

lemma roundHalfEven_bounds:
  assumes "0 < b"
  shows "a div b \<le> roundHalfEven a b" "2 * (roundHalfEven a b * b) \<le> 2 * a + b"
proof -
  show "a div b \<le> roundHalfEven a b" by (simp add: roundHalfEven_def Let_def)
  define q where "q = a div b"
  define r where "r = a mod b"
  have a: "a = q * b + r" by (simp add: q_def r_def)
  have "roundHalfEven a b = q \<or> roundHalfEven a b = q + 1 \<and> b \<le> 2 * r"
    by (simp add: roundHalfEven_def Let_def q_def r_def)
  then show "2 * (roundHalfEven a b * b) \<le> 2 * a + b" by (elim disjE conjE) (simp_all add: a)
qed

lemma exponentOf_bound: "0 < n \<Longrightarrow> 2 ^ exponentOf n \<le> n"
proof (induction n rule: exponentOf.induct)
  case (1 n)
  show ?case
  proof (cases "n < 2")
    case True
    then show ?thesis using 1(2) by (simp add: exponentOf.simps [of n])
  next
    case False
    then have "2 ^ exponentOf (n div 2) \<le> n div 2" using 1(1) by simp
    then show ?thesis using False by (simp add: exponentOf.simps [of n])
  qed
qed

lemma toDouble_small [simp]: "n < 2 ^ 53 \<Longrightarrow> toDouble n = n"
  by (simp add: toDouble_def)

lemma toDouble_pos: "0 < n \<Longrightarrow> 0 < toDouble n"
proof (cases "n < 2 ^ 53")
  case False
  assume n: "0 < n"
  let ?u = "2 ^ (exponentOf n - 52) :: nat"
  have "?u \<le> 2 ^ exponentOf n" by (rule power_increasing) simp_all
  then have "?u \<le> n" using exponentOf_bound [OF n] by linarith
  then have "1 \<le> n div ?u" by (simp add: Suc_leI div_greater_zero_iff)
  then have "1 \<le> roundHalfEven n ?u" using roundHalfEven_bounds(1) [of ?u n] by simp
  then show ?thesis using False by (simp add: toDouble_def Let_def)
qed simp

lemma exponent_quotient:
  assumes "0 < b" "b \<le> (a :: nat)"
  shows "b * 2 ^ exponentOf (a div b) \<le> a"
proof -
  have "0 < a div b" using assms by (simp add: div_greater_zero_iff)
  then have "b * 2 ^ exponentOf (a div b) \<le> b * (a div b)" using exponentOf_bound by (intro mult_le_mono2) blast
  also have "\<dots> \<le> a" by simp
  finally show ?thesis .
qed

lemma floorQuotient_pos:
  assumes "0 < b" "b \<le> a"
  shows "0 < floorQuotient a b"
proof -
  let ?e = "exponentOf (a div b)"
  let ?m = "roundHalfEven (a * 2 ^ 52) (b * 2 ^ ?e)"
  have "2 ^ 52 * (b * 2 ^ ?e) \<le> a * 2 ^ 52" using exponent_quotient [OF assms] by simp
  then have "2 ^ 52 \<le> a * 2 ^ 52 div (b * 2 ^ ?e)" using assms(1) by (simp add: less_eq_div_iff_mult_less_eq)
  also have "\<dots> \<le> ?m" using assms(1) by (intro roundHalfEven_bounds(1)) simp
  finally have "2 ^ 52 * 1 \<le> ?m * 2 ^ ?e" by (intro mult_le_mono) simp_all
  then show ?thesis by (simp add: floorQuotient_def Let_def div_greater_zero_iff)
qed

lemma floorQuotient_exact:
  assumes "0 < b" "b \<le> a" "a < 2 ^ 53"
  shows "floorQuotient a b = a div b"
proof -
  define q where "q = a div b"
  define e where "e = exponentOf q"
  define m where "m = roundHalfEven (a * 2 ^ 52) (b * 2 ^ e)"
  have pos: "0 < b * 2 ^ e" using assms(1) by simp
  have be: "b * 2 ^ e \<le> a" unfolding e_def q_def by (rule exponent_quotient [OF assms(1,2)])
  have qb: "q * b \<le> a" "a < (q + 1) * b"
    using assms(1) dividend_less_div_times [of b a] by (simp_all add: q_def)
  have "1 * 2 ^ e \<le> b * 2 ^ e" using assms(1) by (intro mult_le_mono1) simp
  then have "(2 :: nat) ^ e < 2 ^ 53" using be assms(3) by linarith
  then have "e < 53" by (rule power_less_imp_less_exp [rotated]) simp
  then have e: "e \<le> 52" by simp
  then have split: "(2 :: nat) ^ 52 = 2 ^ (52 - e) * 2 ^ e" by (simp flip: power_add)
  have "q * 2 ^ (52 - e) * (b * 2 ^ e) = q * b * 2 ^ 52" unfolding split by simp
  also have "\<dots> \<le> a * 2 ^ 52" using qb(1) by (rule mult_le_mono1)
  finally have "q * 2 ^ (52 - e) \<le> a * 2 ^ 52 div (b * 2 ^ e)" using pos by (simp add: less_eq_div_iff_mult_less_eq)
  also have "\<dots> \<le> m" unfolding m_def by (rule roundHalfEven_bounds(1) [OF pos])
  finally have "q * 2 ^ (52 - e) * 2 ^ e \<le> m * 2 ^ e" by (rule mult_le_mono1)
  then have low: "q * 2 ^ 52 \<le> m * 2 ^ e" unfolding split by simp
  have "m * 2 ^ e < (q + 1) * 2 ^ 52"
  proof (rule ccontr)
    assume "\<not> m * 2 ^ e < (q + 1) * 2 ^ 52"
    then have "(q + 1) * 2 ^ 52 * b \<le> m * 2 ^ e * b" by (intro mult_le_mono1) linarith
    then have "(q + 1) * b * 2 ^ 52 \<le> m * (b * 2 ^ e)" by (simp only: ac_simps)
    moreover have "(a + 1) * 2 ^ 52 \<le> (q + 1) * b * 2 ^ 52" using qb(2) by (intro mult_le_mono1) simp
    moreover have "2 * (m * (b * 2 ^ e)) \<le> 2 * (a * 2 ^ 52) + b * 2 ^ e"
      unfolding m_def by (rule roundHalfEven_bounds(2) [OF pos])
    ultimately have "2 * ((a + 1) * 2 ^ 52) \<le> 2 * (a * 2 ^ 52) + b * 2 ^ e" by linarith
    then show False using be assms(3) by simp
  qed
  then have "m * 2 ^ e div 2 ^ 52 = q" using low by (intro div_nat_eqI) (simp_all add: mult.commute)
  then show ?thesis by (simp add: floorQuotient_def Let_def m_def e_def q_def)
qed

lemma ceiling_exact:
  assumes "0 < limit" "limit \<le> 2 ^ 48"
  shows "indexCeiling limit = indexRange limit div limit * limit"
proof -
  have "indexRange limit \<le> 256 ^ 6" unfolding indexRange_def by (rule power_increasing [OF byteWidth_six [OF assms(2)]]) simp
  then have r: "indexRange limit < 2 ^ 53" by simp
  have "indexRange limit div limit * limit \<le> indexRange limit" by simp
  then have "indexRange limit div limit * limit < 2 ^ 53" using r by linarith
  then show ?thesis by (simp add: indexCeiling_def floorQuotient_exact [OF assms(1) range_enough r])
qed

lemma ceiling_pos: "0 < limit \<Longrightarrow> 0 < indexCeiling limit"
  unfolding indexCeiling_def by (intro toDouble_pos mult_pos_pos floorQuotient_pos range_enough)

text \<open>More than half of the values are accepted.\<close>

lemma ceiling_half:
  assumes "0 < limit" "limit \<le> 2 ^ 48"
  shows "indexRange limit < 2 * indexCeiling limit" "indexCeiling limit \<le> indexRange limit" "limit \<le> indexCeiling limit"
proof -
  let ?q = "indexRange limit div limit"
  have q: "1 \<le> ?q" using assms range_enough [of limit] by (simp add: Suc_leI div_greater_zero_iff)
  have "indexRange limit < ?q * limit + limit" using assms by (metis dividend_less_div_times add.commute)
  also have "\<dots> \<le> 2 * (?q * limit)" using q by simp
  finally show "indexRange limit < 2 * indexCeiling limit" by (simp add: ceiling_exact [OF assms])
  show "indexCeiling limit \<le> indexRange limit" by (simp add: ceiling_exact [OF assms])
  show "limit \<le> indexCeiling limit" using q by (simp add: ceiling_exact [OF assms])
qed

section \<open>No index is favoured\<close>

text \<open>The value of the bytes without rounding, and when it is the same.\<close>

definition plainValue :: "bytes \<Rightarrow> nat" where
  "plainValue bs = fold (\<lambda>b value. value * 256 + unat b) bs 0"

lemma plainValue_snoc: "plainValue (bs @ [b]) = plainValue bs * 256 + unat b"
  by (simp add: plainValue_def)

lemma unat_byte: "unat (b :: byte) < 256"
  using unsigned_less [of b] by simp

lemma plainValue_bij: "bij_betw plainValue {bs. length bs = k} {..<256 ^ k}"
proof (induction k)
  case 0
  show ?case by (auto simp: bij_betw_def plainValue_def inj_on_def image_def)
next
  case (Suc k)
  have inj: "inj_on plainValue {bs. length bs = Suc k}"
  proof (rule inj_onI, clarsimp)
    fix xs ys :: bytes
    assume a: "length xs = Suc k" "length ys = Suc k" "plainValue xs = plainValue ys"
    obtain xs' x ys' y where d: "xs = xs' @ [x]" "ys = ys' @ [y]" using a(1,2) by (metis length_Suc_conv_rev)
    have v: "plainValue xs' * 256 + unat x = plainValue ys' * 256 + unat y"
      using a(3) by (simp add: d plainValue_snoc)
    have "unat x = unat y" using arg_cong [OF v, of "\<lambda>n. n mod 256"] unat_byte [of x] unat_byte [of y] by simp
    moreover from this v have "plainValue xs' = plainValue ys'" by simp
    ultimately have "xs' = ys'" "x = y"
      using Suc a(1,2) unfolding d bij_betw_def by (auto dest!: inj_onD [of plainValue _ xs' ys'] simp: word_unat_eq_iff)
    then show "xs = ys" by (simp add: d)
  qed
  have "plainValue ` {bs. length bs = Suc k} = {..<256 ^ Suc k}"
  proof (intro equalityI subsetI)
    fix n assume "n \<in> plainValue ` {bs. length bs = Suc k}"
    then obtain xs x where d: "n = plainValue (xs @ [x])" "length xs = k"
      by (auto simp: length_Suc_conv_rev)
    have "plainValue xs < 256 ^ k" using Suc d(2) unfolding bij_betw_def by auto
    then show "n \<in> {..<256 ^ Suc k}" using unat_byte [of x] by (simp add: d plainValue_snoc)
  next
    fix n :: nat assume "n \<in> {..<256 ^ Suc k}"
    then have "n div 256 \<in> {..<256 ^ k}" by (simp add: less_mult_imp_div_less mult.commute)
    then obtain xs where xs: "length xs = k" "plainValue xs = n div 256"
      using Suc unfolding bij_betw_def by (metis (mono_tags, lifting) imageE mem_Collect_eq)
    have "unat (of_nat (n mod 256) :: byte) = n mod 256" by (simp add: unat_of_nat)
    then have "plainValue (xs @ [of_nat (n mod 256)]) = n" by (simp add: plainValue_snoc xs(2))
    then show "n \<in> plainValue ` {bs. length bs = Suc k}" using xs(1) by (metis (mono_tags, lifting) image_eqI length_append_singleton mem_Collect_eq)
  qed
  then show ?case using inj by (simp add: bij_betw_def)
qed

lemma plainValue_bound: "plainValue bs < 256 ^ length bs"
  using plainValue_bij [of "length bs"] by (auto simp: bij_betw_def)

lemma bytesValue_exact: "length bs \<le> 6 \<Longrightarrow> bytesValue bs = plainValue bs"
proof (induction bs rule: rev_induct)
  case Nil
  show ?case by (simp add: bytesValue_def plainValue_def)
next
  case (snoc b bs)
  have "(256 :: nat) ^ length (bs @ [b]) \<le> 256 ^ 6" using snoc(2) by (intro power_increasing) simp_all
  then have v: "plainValue bs * 256 + unat b < 2 ^ 53" using plainValue_bound [of "bs @ [b]"] by (simp add: plainValue_snoc)
  then have "plainValue bs * 256 < 2 ^ 53" by linarith
  moreover have "bytesValue (bs @ [b]) = toDouble (toDouble (bytesValue bs * 256) + unat b)" by (simp add: bytesValue_def)
  ultimately show ?case using snoc v by (simp add: plainValue_snoc)
qed

lemma card_bytes:
  assumes "A \<subseteq> {..<256 ^ k}"
  shows "card {bs. length bs = k \<and> plainValue bs \<in> A} = card A"
proof -
  have inj: "inj_on plainValue {bs. length bs = k}" and img: "plainValue ` {bs. length bs = k} = {..<256 ^ k}"
    using plainValue_bij [of k] by (simp_all add: bij_betw_def)
  have "plainValue ` {bs. length bs = k \<and> plainValue bs \<in> A} = plainValue ` {bs. length bs = k} \<inter> A" by blast
  also have "\<dots> = A" using assms unfolding img by blast
  finally have "plainValue ` {bs. length bs = k \<and> plainValue bs \<in> A} = A" .
  moreover have "inj_on plainValue {bs. length bs = k \<and> plainValue bs \<in> A}"
    by (rule inj_on_subset [OF inj]) blast
  ultimately show ?thesis by (metis card_image)
qed

lemma card_residue:
  assumes "i < (limit :: nat)"
  shows "card {v. v < q * limit \<and> v mod limit = i} = q"
proof -
  have "{v. v < q * limit \<and> v mod limit = i} = (\<lambda>n. n * limit + i) ` {..<q}"
  proof (intro equalityI subsetI)
    fix v assume v: "v \<in> {v. v < q * limit \<and> v mod limit = i}"
    then have d: "v div limit \<in> {..<q}" by (simp add: less_mult_imp_div_less)
    have "v mod limit = i" using v by simp
    then have e: "v = v div limit * limit + i" using div_mult_mod_eq [of v limit] by metis
    show "v \<in> (\<lambda>n. n * limit + i) ` {..<q}" by (rule image_eqI [where x = "v div limit"]) (rule e, rule d)
  next
    fix v assume "v \<in> (\<lambda>n. n * limit + i) ` {..<q}"
    then obtain n where n: "v = n * limit + i" "n < q" by blast
    have "n * limit + i < (n + 1) * limit" using assms by simp
    also have "\<dots> \<le> q * limit" using n(2) by (intro mult_le_mono1) simp
    finally show "v \<in> {v. v < q * limit \<and> v mod limit = i}" using n assms by simp
  qed
  moreover have "inj_on (\<lambda>n. n * limit + i) {..<q}" using assms by (auto simp: inj_on_def)
  ultimately show ?thesis by (simp add: card_image)
qed

lemma rejectLoop_constD:
  "rejectLoop limit k c source w = Some y \<Longrightarrow> source = (\<lambda>n w. (bs, w)) \<longrightarrow> bytesValue bs < c"
  by (erule rejectLoop.raw_induct [rotated]) (auto simp: Let_def split: if_splits prod.splits)

lemma rejectLoop_same:
  "rejectLoop limit k c (\<lambda>n w. (bs, w)) w = (if bytesValue bs < c then Some (bytesValue bs mod limit, w) else None)"
proof (cases "bytesValue bs < c")
  case True
  then show ?thesis by (subst rejectLoop.simps) simp
next
  case False
  have "rejectLoop limit k c (\<lambda>n w. (bs, w)) w = None"
  proof (rule ccontr)
    assume "rejectLoop limit k c (\<lambda>n w. (bs, w)) w \<noteq> None"
    then obtain y where "rejectLoop limit k c (\<lambda>n w. (bs, w)) w = Some y" by blast
    from rejectLoop_constD [OF this] show False using False by simp
  qed
  then show ?thesis using False by simp
qed

text \<open>Whether an index is drawn at all, and which, from a source that always gives the same bytes.\<close>

lemma randomIndex_same:
  assumes "0 < limit"
  shows "randomIndex (int limit) (\<lambda>n w. (bs, w)) () =
    (if bytesValue bs < indexCeiling limit then Some (Inr (bytesValue bs mod limit), ()) else None)"
  using assms by (simp add: randomIndex_def Let_def rejectLoop_same indexCeiling_def indexRange_def)

text \<open>
  C22. No index is favoured. For a limit of at most \<open>2 ^ 48\<close>, of the byte strings a draw can give,
  each index below the limit is chosen by exactly as many, and more than half of all strings are
  accepted, so modulo bias is gone and a draw is repeated less often than not. Limits above 256,
  which one byte cannot reach, are included; at this bound the doubles the code computes with round
  nothing.
\<close>

theorem random_index_unbiased:
  assumes "i < limit" "limit \<le> 2 ^ 48"
  shows "card {bs. length bs = byteWidthFor limit \<and> randomIndex (int limit) (\<lambda>n w. (bs, w)) () = Some (Inr i, ())} =
      indexRange limit div limit \<and>
    2 * card {bs. length bs = byteWidthFor limit \<and> randomIndex (int limit) (\<lambda>n w. (bs, w)) () = None} <
      indexRange limit"
proof
  let ?k = "byteWidthFor limit" and ?c = "indexCeiling limit" and ?r = "indexRange limit"
  have pos: "0 < limit" using assms by simp
  note c = ceiling_half [OF pos assms(2)]
  have v: "bytesValue bs = plainValue bs" if "length bs = ?k" for bs
    using that bytesValue_exact byteWidth_six [OF assms(2)] by simp
  have "{bs. length bs = ?k \<and> randomIndex (int limit) (\<lambda>n w. (bs, w)) () = Some (Inr i, ())} =
      {bs. length bs = ?k \<and> plainValue bs \<in> {v. v < ?c \<and> v mod limit = i}}"
    by (auto simp: randomIndex_same [OF pos] v)
  moreover have "card \<dots> = card {v. v < ?c \<and> v mod limit = i}"
    using c(2) by (intro card_bytes) (auto simp: indexRange_def)
  moreover have "\<dots> = ?r div limit" unfolding ceiling_exact [OF pos assms(2)] by (rule card_residue [OF assms(1)])
  ultimately show "card {bs. length bs = ?k \<and> randomIndex (int limit) (\<lambda>n w. (bs, w)) () = Some (Inr i, ())} = ?r div limit"
    by simp
  have "{bs. length bs = ?k \<and> randomIndex (int limit) (\<lambda>n w. (bs, w)) () = None} =
      {bs. length bs = ?k \<and> plainValue bs \<in> {?c..<?r}}"
    using plainValue_bij [of ?k] by (auto simp: randomIndex_same [OF pos] v bij_betw_def indexRange_def)
  moreover have "card \<dots> = card {?c..<?r}" by (rule card_bytes) (auto simp: indexRange_def)
  ultimately show "2 * card {bs. length bs = ?k \<and> randomIndex (int limit) (\<lambda>n w. (bs, w)) () = None} < ?r"
    using c by simp
qed

theorem random_index_unbiased_witness:
  "card {bs. length bs = byteWidthFor 10 \<and> randomIndex (int 10) (\<lambda>n w. (bs, w)) () = Some (Inr 3, ())} = 25"
proof -
  have "indexRange 10 div 10 = 25" by code_simp
  then show ?thesis using random_index_unbiased [of 3 10] by simp
qed

text \<open>
  Beyond that bound the rounding shows. For the limit \<open>2 ^ 55\<close>, one the comment on the function
  covers, an odd index above \<open>2 ^ 53\<close> is never drawn, whatever the bytes.
\<close>

lemma exponentOf_least: "2 ^ k \<le> m \<Longrightarrow> k \<le> exponentOf m"
proof (induction k arbitrary: m)
  case (Suc k)
  have one: "(1 :: nat) \<le> 2 ^ k" by simp
  have m: "2 * 2 ^ k \<le> m" using Suc.prems by simp
  have "\<not> m < 2" using one m by linarith
  moreover have "2 ^ k \<le> m div 2" using m by (simp add: less_eq_div_iff_mult_less_eq)
  ultimately have "\<not> m < 2" "2 ^ k \<le> m div 2" by blast+
  then show ?case using Suc.IH [of "m div 2"] by (simp add: exponentOf.simps [of m])
qed simp

lemma toDouble_even:
  assumes "2 ^ 53 \<le> toDouble n"
  shows "even (toDouble n)"
proof (cases "n < 2 ^ 53")
  case True
  then have "toDouble n = n" by (rule toDouble_small)
  then show ?thesis using True assms by linarith
next
  case False
  then have "2 ^ 53 \<le> n" by linarith
  then have "53 \<le> exponentOf n" by (rule exponentOf_least)
  then have "even ((2 :: nat) ^ (exponentOf n - 52))" by simp
  then show ?thesis using False by (simp only: toDouble_def if_False Let_def dvd_mult)
qed

lemma rejectLoop_value:
  "rejectLoop limit k c source w = Some y \<Longrightarrow> \<exists>bs. fst y = bytesValue bs mod limit"
  by (erule rejectLoop.raw_induct [rotated]) (auto simp: Let_def split: if_splits prod.splits)

theorem wide_index_biased:
  assumes "randomIndex (2 ^ 55) source w = Some (Inr i, w')" "2 ^ 53 \<le> i"
  shows "even i"
proof -
  have n: "nat (2 ^ 55) = 2 ^ 55" "\<not> (2 :: int) ^ 55 < 1" by simp_all
  obtain k c where "rejectLoop (2 ^ 55) k c source w = Some (i, w')"
    using assms(1) by (simp only: randomIndex_def n Let_def if_False) (auto split: option.splits)
  from rejectLoop_value [OF this] obtain bs where bs: "i = bytesValue bs mod 2 ^ 55" by auto
  then have "2 ^ 53 \<le> bytesValue bs" using assms(2) mod_less_eq_dividend [of "bytesValue bs" "2 ^ 55"] by linarith
  moreover have "\<exists>n. bytesValue bs = toDouble n"
    by (cases bs rule: rev_cases) (auto simp: bytesValue_def intro: exI [of _ 0])
  ultimately have "even (bytesValue bs)" using toDouble_even by metis
  then show "even i" unfolding bs by (rule dvd_mod) simp
qed

section \<open>The generator returns\<close>

text \<open>
  The supply of random bytes never starves a draw: from every position, cut into strings of any
  width, some string is below any bound above zero. A supply of independent uniform bytes is such
  with probability one.
\<close>

definition fairSupply :: "(nat \<Rightarrow> byte) \<Rightarrow> bool" where
  "fairSupply rnd =
     (\<forall>width start bound. 0 < width \<longrightarrow> 0 < bound \<longrightarrow>
        (\<exists>n. bytesValue (map (\<lambda>j. rnd (start + n * width + j)) [0..<width]) < bound))"

lemma fairSupply_later: "fairSupply rnd \<Longrightarrow> fairSupply (\<lambda>i. rnd (i + m))"
  unfolding fairSupply_def
proof (intro allI impI)
  fix width start bound :: nat
  assume "\<forall>width start bound. 0 < width \<longrightarrow> 0 < bound \<longrightarrow>
      (\<exists>n. bytesValue (map (\<lambda>j. rnd (start + n * width + j)) [0..<width]) < bound)" "0 < width" "0 < bound"
  then obtain n where "bytesValue (map (\<lambda>j. rnd (start + m + n * width + j)) [0..<width]) < bound" by blast
  then show "\<exists>n. bytesValue (map (\<lambda>j. rnd (start + n * width + j + m)) [0..<width]) < bound"
    by (intro exI [of _ n]) (simp add: ac_simps)
qed

text \<open>Total correctness: from any fair supply the program returns, without an error.\<close>

definition returnsWith :: "('z, 'a) gen \<Rightarrow> ('a \<Rightarrow> bool) \<Rightarrow> bool" where
  "returnsWith m P =
     (\<forall>w. fairSupply (wd_random w) \<longrightarrow> (\<exists>x w'. m w = Some (Inr x, w') \<and> fairSupply (wd_random w') \<and> P x))"

lemma returns_ret: "P x \<Longrightarrow> returnsWith (gRet x) P"
  by (simp add: returnsWith_def gRet_def)

lemma returns_then:
  fixes m :: "('z, 'a) gen"
  assumes "returnsWith m P" "\<And>x. P x \<Longrightarrow> returnsWith (f x) Q"
  shows "returnsWith (gThen m f) Q"
  unfolding returnsWith_def
proof (intro allI impI)
  fix w :: "'z world_scheme"
  assume "fairSupply (wd_random w)"
  then obtain x w1 where "m w = Some (Inr x, w1)" "fairSupply (wd_random w1)" "P x"
    using assms(1) unfolding returnsWith_def by blast
  then show "\<exists>x w'. gThen m f w = Some (Inr x, w') \<and> fairSupply (wd_random w') \<and> Q x"
    using assms(2) [of x] unfolding returnsWith_def gThen_def by simp
qed

lemma returns_weaken: "returnsWith m P \<Longrightarrow> (\<And>x. P x \<Longrightarrow> Q x) \<Longrightarrow> returnsWith m Q"
  unfolding returnsWith_def by blast

lemma rejectLoop_returns:
  assumes "0 < limit" "fairSupply (wd_random w)"
    and "bytesValue (map (\<lambda>j. wd_random w (n * width + j)) [0..<width]) < c"
  shows "\<exists>i w'. rejectLoop limit width c secureBytes w = Some (i, w') \<and> i < limit \<and> fairSupply (wd_random w')"
  using assms(2,3)
proof (induction n arbitrary: w)
  case 0
  then show ?case
    using assms(1) fairSupply_later [OF 0(1), of width]
    by (subst rejectLoop.simps) (simp add: secureBytes_def drawn_def afterDraw_def)
next
  case (Suc n)
  show ?case
  proof (cases "bytesValue (drawn width w) < c")
    case True
    then show ?thesis
      using assms(1) fairSupply_later [OF Suc(2), of width]
      by (subst rejectLoop.simps) (simp add: secureBytes_def afterDraw_def)
  next
    case False
    have "bytesValue (map (\<lambda>j. wd_random (afterDraw width w) (n * width + j)) [0..<width]) < c"
      using Suc(3) by (simp add: afterDraw_def ac_simps)
    from Suc.IH [OF _ this] fairSupply_later [OF Suc(2), of width] have
      "\<exists>i w'. rejectLoop limit width c secureBytes (afterDraw width w) = Some (i, w') \<and> i < limit \<and> fairSupply (wd_random w')"
      by (simp add: afterDraw_def)
    moreover have "rejectLoop limit width c secureBytes w = rejectLoop limit width c secureBytes (afterDraw width w)"
      using False by (subst rejectLoop.simps) (simp add: secureBytes_def)
    ultimately show ?thesis by simp
  qed
qed

lemma index_returns: "0 < limit \<Longrightarrow> returnsWith (secureRandomIndex limit) (\<lambda>i. i < limit)"
  unfolding returnsWith_def
proof (intro allI impI)
  fix w :: "'a world_scheme"
  assume pos: "0 < limit" and fair: "fairSupply (wd_random w)"
  let ?k = "byteWidthFor limit"
  have "0 < indexCeiling limit" by (rule ceiling_pos [OF pos])
  then obtain n where "bytesValue (map (\<lambda>j. wd_random w (0 + n * ?k + j)) [0..<?k]) < indexCeiling limit"
    using fair byteWidth_enough(2) [of limit] unfolding fairSupply_def by blast
  then obtain i w' where "rejectLoop limit ?k (indexCeiling limit) secureBytes w = Some (i, w')" "i < limit"
      "fairSupply (wd_random w')"
    using rejectLoop_returns [OF pos fair, of n ?k "indexCeiling limit"] by auto
  then show "\<exists>x w'. secureRandomIndex limit w = Some (Inr x, w') \<and> fairSupply (wd_random w') \<and> x < limit"
    using pos by (simp add: secureRandomIndex_def randomIndex_def Let_def indexCeiling_def indexRange_def)
qed

definition oneOf :: "jstr \<Rightarrow> jstr \<Rightarrow> bool" where
  "oneOf alphabet c = (\<exists>x \<in> set alphabet. c = [x])"

lemma pick_returns: "alphabet \<noteq> [] \<Longrightarrow> returnsWith (pick alphabet) (oneOf alphabet)"
  unfolding pick_def
  by (rule returns_then [OF index_returns]) (auto intro!: returns_ret simp: charAt_def oneOf_def)

lemma pickEach_returns:
  "\<forall>a \<in> set alphabets. a \<noteq> [] \<Longrightarrow> returnsWith (pickEach alphabets) (list_all2 oneOf alphabets)"
proof (induction alphabets)
  case (Cons a alphabets)
  then show ?case by (auto intro!: returns_then [OF pick_returns] returns_then [OF Cons.IH] returns_ret)
qed (simp add: returns_ret)

lemma fillLoop_returns:
  assumes "alphabet \<noteq> []"
  shows "returnsWith (fillLoop n alphabet characters :: ('z, jstr list) gen)
    (\<lambda>cs. \<exists>extra. cs = characters @ extra \<and> length extra = n \<and> list_all (oneOf alphabet) extra)"
proof (induction n arbitrary: characters)
  case (Suc n)
  have "returnsWith (fillLoop n alphabet (characters @ [c]) :: ('z, jstr list) gen)
      (\<lambda>cs. \<exists>extra. cs = characters @ extra \<and> length extra = Suc n \<and> list_all (oneOf alphabet) extra)"
    if "oneOf alphabet c" for c
  proof (rule returns_weaken [OF Suc.IH])
    fix cs assume "\<exists>extra. cs = (characters @ [c]) @ extra \<and> length extra = n \<and> list_all (oneOf alphabet) extra"
    then obtain extra where "cs = (characters @ [c]) @ extra" "length extra = n" "list_all (oneOf alphabet) extra" by blast
    then show "\<exists>extra. cs = characters @ extra \<and> length extra = Suc n \<and> list_all (oneOf alphabet) extra"
      using that by (intro exI [of _ "c # extra"]) simp
  qed
  then show ?case unfolding fillLoop.simps by (rule returns_then [OF pick_returns [OF assms]])
qed (simp add: returns_ret)

lemma shuffle_returns:
  "i < length characters \<or> i = 0 \<Longrightarrow> returnsWith (shuffleFrom i characters :: ('z, jstr list) gen) (\<lambda>cs. mset cs = mset characters)"
proof (induction i arbitrary: characters)
  case (Suc i)
  have "returnsWith (shuffleFrom i ((characters[Suc i := characters ! j])[j := characters ! Suc i]) :: ('z, jstr list) gen)
      (\<lambda>cs. mset cs = mset characters)" if "j < Suc i + 1" for j
  proof -
    have "mset ((characters[Suc i := characters ! j])[j := characters ! Suc i]) = mset characters"
      using Suc.prems that by (intro mset_swap) simp_all
    then show ?thesis
      using Suc.IH [of "(characters[Suc i := characters ! j])[j := characters ! Suc i]"] Suc.prems by simp
  qed
  then show ?case by (auto simp: Let_def intro!: returns_then [OF index_returns])
qed (simp add: returns_ret)

lemma enabled_nonempty: "a \<in> set (enabledClasses settings) \<Longrightarrow> a \<noteq> []"
proof -
  have "CLASSES_lowercase \<noteq> [] \<and> CLASSES_uppercase \<noteq> [] \<and> CLASSES_digits \<noteq> [] \<and> CLASSES_symbols \<noteq> []"
    by (simp add: CLASSES_lowercase_def CLASSES_uppercase_def CLASSES_digits_def CLASSES_symbols_def js_simps)
  then show "a \<in> set (enabledClasses settings) \<Longrightarrow> a \<noteq> []"
    by (auto simp: enabledClasses_def split: if_splits)
qed

text \<open>What a site's policy asks of a password.\<close>

definition meetsPolicy :: "GeneratorOptions \<Rightarrow> jstr \<Rightarrow> bool" where
  "meetsPolicy settings password =
     (int (length password) = go_length settings \<and>
      set password \<subseteq> set (concat (enabledClasses settings)) \<and>
      (\<forall>alphabet \<in> set (enabledClasses settings). set password \<inter> set alphabet \<noteq> {}))"

lemma oneOf_concat: "list_all (oneOf alphabet) cs \<Longrightarrow> length (concat cs) = length cs \<and> set (concat cs) \<subseteq> set alphabet"
  by (induction cs) (auto simp: oneOf_def)

lemma oneOf_each:
  "list_all2 oneOf alphabets cs \<Longrightarrow> length (concat cs) = length alphabets \<and> set (concat cs) \<subseteq> set (concat alphabets) \<and>
   (\<forall>alphabet \<in> set alphabets. set (concat cs) \<inter> set alphabet \<noteq> {})"
  by (induction rule: list_all2_induct) (auto simp: oneOf_def)

lemma concat_mset:
  fixes cs ds :: "jstr list"
  assumes "mset cs = mset ds"
  shows "set (concat cs) = set (concat ds)" "length (concat cs) = length (concat ds)"
proof -
  have "set cs = set ds" using assms by (rule mset_eq_setD)
  then show "set (concat cs) = set (concat ds)" by simp
  have "sum_list (map length xs) = sum_mset (image_mset length (mset xs))" for xs :: "jstr list"
    by (induction xs) simp_all
  then show "length (concat cs) = length (concat ds)" unfolding length_concat using assms by metis
qed

lemma password_policy:
  assumes "list_all2 oneOf (enabledClasses settings) cs" "list_all (oneOf (concat (enabledClasses settings))) extra"
    and "length extra = nat (go_length settings) - length cs" "int (length (enabledClasses settings)) \<le> go_length settings"
    and "mset ds = mset (cs @ extra)"
  shows "meetsPolicy settings (concat ds)"
proof -
  note d = concat_mset [OF assms(5)] and e = oneOf_each [OF assms(1)] and x = oneOf_concat [OF assms(2)]
  have "length (concat ds) = length (concat cs) + length (concat extra)" using d(2) by simp
  then have "int (length (concat ds)) = go_length settings"
    using e x assms(1,3,4) by (simp add: list_all2_lengthD)
  moreover have "set (concat ds) \<subseteq> set (concat (enabledClasses settings))" using d(1) e x by auto
  moreover have "set (concat ds) \<inter> set alphabet \<noteq> {}" if "alphabet \<in> set (enabledClasses settings)" for alphabet
  proof -
    have "set (concat cs) \<subseteq> set (concat ds)" unfolding d(1) by auto
    moreover have "set (concat cs) \<inter> set alphabet \<noteq> {}" using e that by blast
    ultimately show ?thesis by blast
  qed
  ultimately show ?thesis unfolding meetsPolicy_def by blast
qed

text \<open>
  C21. The generator returns, and with the password it promised: from any fair supply of random
  bytes, options that enable a class and ask for at least one character of each give a password of
  exactly the length asked for, over the enabled classes only, with a character of every one of
  them; any other options are refused before a byte is drawn.
\<close>

theorem generate_password_returns:
  assumes "fairSupply (wd_random w)"
  shows "if enabledClasses (settingsOf options) = [] \<or>
        go_length (settingsOf options) < int (length (enabledClasses (settingsOf options)))
      then \<exists>e. generatePassword options w = Some (Inl e, w)
      else \<exists>password w'. generatePassword options w = Some (Inr password, w') \<and>
        meetsPolicy (settingsOf options) password"
proof (cases "enabledClasses (settingsOf options) = [] \<or>
        go_length (settingsOf options) < int (length (enabledClasses (settingsOf options)))")
  case True
  then show ?thesis by (auto simp: generatePassword_def Let_def gThrow_def)
next
  case False
  let ?s = "settingsOf options" and ?e = "enabledClasses (settingsOf options)"
  let ?body = "gThen (pickEach ?e) (\<lambda>characters.
        gThen (fillLoop (nat (go_length ?s) - length characters) (concat ?e) characters) (\<lambda>filled.
        gThen (shuffleFrom (length filled - 1) filled) (\<lambda>shuffled.
          gRet (concat shuffled))))"
  have ne: "\<forall>a \<in> set ?e. a \<noteq> []" using enabled_nonempty by blast
  have all: "concat ?e \<noteq> []" using False ne by (cases ?e) auto
  have "returnsWith ?body (meetsPolicy ?s)"
  proof (rule returns_then [OF pickEach_returns [OF ne]], rule returns_then [OF fillLoop_returns [OF all]])
    fix cs filled
    assume cs: "list_all2 oneOf ?e cs" and "\<exists>extra. filled = cs @ extra \<and> length extra = nat (go_length ?s) - length cs \<and>
      list_all (oneOf (concat ?e)) extra"
    then obtain extra where extra: "filled = cs @ extra" "length extra = nat (go_length ?s) - length cs"
      "list_all (oneOf (concat ?e)) extra" by blast
    have "length filled - 1 < length filled \<or> length filled - 1 = 0" by auto
    then show "returnsWith (gThen (shuffleFrom (length filled - 1) filled) (\<lambda>shuffled. gRet (concat shuffled))) (meetsPolicy ?s)"
    proof (rule returns_then [OF shuffle_returns])
      fix ds assume "mset ds = mset filled"
      then have "meetsPolicy ?s (concat ds)" using password_policy [OF cs extra(3,2)] False extra(1) by auto
      then show "returnsWith (gRet (concat ds)) (meetsPolicy ?s)" by (rule returns_ret)
    qed
  qed
  then have "\<exists>x w'. ?body w = Some (Inr x, w') \<and> fairSupply (wd_random w') \<and> meetsPolicy ?s x"
    using assms unfolding returnsWith_def by blast
  then show ?thesis using False by (auto simp: generatePassword_def Let_def)
qed

definition zeroWorld :: world where
  "zeroWorld = \<lparr> wd_random = (\<lambda>i. 0), wd_heap = [] \<rparr>"

lemma zeroWorld_fair: "fairSupply (wd_random zeroWorld)"
proof -
  have "bytesValue (map (\<lambda>j. 0) [0..<k]) = 0" for k by (induction k) (simp_all add: bytesValue_def)
  then show ?thesis by (simp add: fairSupply_def zeroWorld_def)
qed

theorem generate_password_returns_witness:
  "\<exists>password w'. generatePassword \<lparr> po_length = Some 6, po_lowercase = None, po_uppercase = None, po_digits = None,
     po_symbols = Some False \<rparr> zeroWorld = Some (Inr password, w') \<and> length password = 6"
proof -
  let ?o = "\<lparr> po_length = Some 6, po_lowercase = None, po_uppercase = None, po_digits = None, po_symbols = Some False \<rparr>"
  have "length (enabledClasses (settingsOf ?o)) = 3" "go_length (settingsOf ?o) = 6"
    by (simp_all add: settingsOf_def enabledClasses_def orDefault_def DEFAULT_GENERATOR_OPTIONS_def)
  then show ?thesis
    using generate_password_returns [OF zeroWorld_fair, of ?o] by (auto simp: meetsPolicy_def split: if_splits)
qed

end
