(* ===== verification/Uri.thy ===== *)
theory Uri
  imports Encoding
begin

text \<open>
  The URI functions of the language that the client calls: \<^verbatim>\<open>encodeURIComponent\<close> and
  \<^verbatim>\<open>decodeURIComponent\<close> on code units, and the serialisation of \<^verbatim>\<open>URLSearchParams\<close>.

  Shown: decoding an encoded component gives it back, and an encoded component holds none of the
  characters that separate the parts of a path or of a query.
\<close>

section \<open>Encoding\<close>

definition alphaNumerics :: jstr where
  "alphaNumerics = js ''ABCDEFGHIJKLMNOPQRSTUVWXYZabcdefghijklmnopqrstuvwxyz0123456789''"

definition upperHex :: "nat \<Rightarrow> code_unit" where
  "upperHex n = (if n < 10 then 48 + of_nat n else 55 + of_nat n)"

definition percentByte :: "nat \<Rightarrow> jstr" where
  "percentByte b = [37, upperHex (b div 16), upperHex (b mod 16)]"

definition uriUnreserved :: "code_unit \<Rightarrow> bool" where
  "uriUnreserved c = (c \<in> set alphaNumerics \<or> c \<in> {45, 95, 46, 33, 126, 42, 39, 40, 41})"

definition uriPointText :: "nat \<Rightarrow> jstr" where
  "uriPointText p =
     (if p < 128 \<and> uriUnreserved (of_nat p) then [of_nat p] else concat (map percentByte (utf8Point p)))"

text \<open>A lone surrogate is refused.\<close>

definition encodeURIComponent :: "jstr \<Rightarrow> jstr result" where
  "encodeURIComponent s =
     (if wellFormed s then Inr (concat (map uriPointText (codePoints s))) else Inl URIError)"

section \<open>Decoding\<close>

text \<open>One escaped octet, and the escaped octets of one code point with their number.\<close>

fun uriOctet :: "jstr \<Rightarrow> nat option" where
  "uriOctet (p # a # b # s) =
     (if p \<noteq> 37 then None
      else case (hexVal a, hexVal b) of (Some x, Some y) \<Rightarrow> Some (x * 16 + y) | _ \<Rightarrow> None)"
| "uriOctet _ = None"

fun uriOctets :: "nat \<Rightarrow> jstr \<Rightarrow> nat list option" where
  "uriOctets 0 s = Some []"
| "uriOctets (Suc n) s =
     (case uriOctet s of None \<Rightarrow> None | Some b \<Rightarrow> map_option (\<lambda>bs. b # bs) (uriOctets n (drop 3 s)))"

definition sequenceLength :: "nat \<Rightarrow> nat option" where
  "sequenceLength b =
     (if b < 0x80 then Some 1 else if b < 0xC0 then None else if b < 0xE0 then Some 2
      else if b < 0xF0 then Some 3 else if b < 0xF8 then Some 4 else None)"

definition octetsPoint :: "nat list \<Rightarrow> nat" where
  "octetsPoint bs =
     (case bs of
        [a] \<Rightarrow> a
      | [a, b] \<Rightarrow> (a - 0xC0) * 64 + (b - 0x80)
      | [a, b, c] \<Rightarrow> (a - 0xE0) * 4096 + (b - 0x80) * 64 + (c - 0x80)
      | [a, b, c, d] \<Rightarrow> (a - 0xF0) * 262144 + (b - 0x80) * 4096 + (c - 0x80) * 64 + (d - 0x80)
      | _ \<Rightarrow> 0)"

text \<open>The octets are the UTF-8 encoding of a scalar value: their point encodes to them again.\<close>

definition uriPoint :: "jstr \<Rightarrow> (nat \<times> nat) option" where
  "uriPoint s =
     (case uriOctet s of
        None \<Rightarrow> None
      | Some b \<Rightarrow>
          (case sequenceLength b of
             None \<Rightarrow> None
           | Some n \<Rightarrow>
               (case uriOctets n s of
                  None \<Rightarrow> None
                | Some bs \<Rightarrow>
                    let p = octetsPoint bs in
                    if utf8Point p = bs \<and> scalar p then Some (p, n) else None)))"

function decodeURIComponent :: "jstr \<Rightarrow> jstr result" where
  "decodeURIComponent [] = Inr []"
| "decodeURIComponent (c # s) =
     (if c \<noteq> 37 then bindR (decodeURIComponent s) (\<lambda>t. Inr (c # t))
      else case uriPoint (c # s) of
        None \<Rightarrow> Inl URIError
      | Some (p, n) \<Rightarrow> bindR (decodeURIComponent (drop (3 * n - 1) s)) (\<lambda>t. Inr (pointUnits p @ t)))"
  by pat_completeness auto
termination by (relation "measure length") auto

section \<open>Query strings\<close>

definition formByte :: "nat \<Rightarrow> jstr" where
  "formByte b =
     (if b = 32 then [43]
      else if b < 128 \<and> (of_nat b \<in> set alphaNumerics \<or> b \<in> {42, 45, 46, 95}) then [of_nat b]
      else percentByte b)"

definition formText :: "jstr \<Rightarrow> jstr" where
  "formText s = concat (map (\<lambda>b. formByte (unat b)) (utf8Encode s))"

definition searchParams :: "(jstr \<times> jstr) list \<Rightarrow> jstr" where
  "searchParams kvs = join (js ''&'') (map (\<lambda>(k, v). formText k @ js ''='' @ formText v) kvs)"

section \<open>Round trip\<close>

lemma upperHex_hexVal: "n < 16 \<Longrightarrow> hexVal (upperHex n) = Some n"
proof -
  have "\<forall>n \<in> set [0..<16]. hexVal (upperHex n) = Some n" by code_simp
  then show "n < 16 \<Longrightarrow> ?thesis" by simp
qed

lemma uriOctet_percent: "b < 256 \<Longrightarrow> uriOctet (percentByte b @ s) = Some b"
  by (simp add: percentByte_def upperHex_hexVal)

lemma uriOctets_percent:
  "list_all (\<lambda>b. b < 256) bs \<Longrightarrow> uriOctets (length bs) (concat (map percentByte bs) @ s) = Some bs"
  by (induction bs) (simp_all add: uriOctet_percent, simp add: percentByte_def)

lemma utf8Point_bytes: "p < 0x110000 \<Longrightarrow> list_all (\<lambda>b. b < 256) (utf8Point p)"
  using utf8Point_byte by (auto simp: list_all_iff)

lemma sequenceLength_point: "p < 0x110000 \<Longrightarrow> sequenceLength (hd (utf8Point p)) = Some (length (utf8Point p))"
  by (auto simp: utf8Point_def sequenceLength_def)

lemma octetsPoint_point: "p < 0x110000 \<Longrightarrow> octetsPoint (utf8Point p) = p"
proof -
  have a: "p div 64 * 64 + p mod 64 = p" by (rule div_mult_mod_eq)
  have b: "p div 4096 * 64 + p div 64 mod 64 = p div 64"
    using div_mult_mod_eq [of "p div 64" 64] by (simp add: div_mult2_eq [symmetric])
  have c: "p div 262144 * 64 + p div 4096 mod 64 = p div 4096"
    using div_mult_mod_eq [of "p div 4096" 64] by (simp add: div_mult2_eq [symmetric])
  have d: "p div 4096 * 4096 + p div 64 mod 64 * 64 + p mod 64 = p" using a b by linarith
  have e: "p div 262144 * 262144 + p div 4096 mod 64 * 4096 + p div 64 mod 64 * 64 + p mod 64 = p"
    using c d by linarith
  show ?thesis using a d e by (auto simp: utf8Point_def octetsPoint_def)
qed

lemma utf8Point_nonempty: "utf8Point p \<noteq> []"
  by (simp add: utf8Point_def)

lemma uriPoint_escaped:
  assumes "scalar p"
  shows "uriPoint (concat (map percentByte (utf8Point p)) @ s) = Some (p, length (utf8Point p))"
proof -
  have p: "p < 0x110000" using assms by (simp add: scalar_def)
  have b: "uriOctet (concat (map percentByte (utf8Point p)) @ s) = Some (hd (utf8Point p))"
    using utf8Point_nonempty [of p] utf8Point_bytes [OF p]
    by (cases "utf8Point p") (simp_all add: uriOctet_percent)
  show ?thesis
    by (simp add: uriPoint_def b sequenceLength_point [OF p] uriOctets_percent [OF utf8Point_bytes [OF p]]
        octetsPoint_point [OF p] assms Let_def)
qed

lemma length_escaped: "length (concat (map percentByte bs)) = 3 * length bs"
  by (induction bs) (simp_all add: percentByte_def)

lemma unreserved_not_percent: "uriUnreserved c \<Longrightarrow> c \<noteq> 37"
proof
  assume "uriUnreserved c" "c = 37"
  moreover have "\<not> uriUnreserved 37" by code_simp
  ultimately show False by simp
qed

lemma decode_point:
  assumes "scalar p"
  shows "decodeURIComponent (uriPointText p @ s) = bindR (decodeURIComponent s) (\<lambda>t. Inr (pointUnits p @ t))"
proof (cases "p < 128 \<and> uriUnreserved (of_nat p)")
  case True
  then show ?thesis using unreserved_not_percent by (simp add: uriPointText_def pointUnits_def)
next
  case False
  let ?e = "concat (map percentByte (utf8Point p))"
  have e: "uriPointText p = ?e" using False by (simp only: uriPointText_def if_False)
  obtain u where u: "?e = 37 # u"
    using utf8Point_nonempty [of p] by (cases "utf8Point p") (auto simp: percentByte_def)
  have n: "length u = 3 * length (utf8Point p) - 1" using length_escaped [of "utf8Point p"] u by simp
  have d: "drop (3 * length (utf8Point p) - 1) (u @ s) = s" using n by simp
  have "uriPoint (37 # u @ s) = Some (p, length (utf8Point p))" using uriPoint_escaped [OF assms, of s] u by simp
  then show ?thesis using d by (simp add: e u)
qed

lemma decode_points:
  "list_all scalar ps \<Longrightarrow> decodeURIComponent (concat (map uriPointText ps)) = Inr (concat (map pointUnits ps))"
  by (induction ps) (simp_all add: decode_point bindR_def)

lemma uri_roundtrip: "encodeURIComponent s = Inr t \<Longrightarrow> decodeURIComponent t = Inr s"
  using decode_points [OF codePoints_scalar] units_codePoints [of s]
  by (auto simp: encodeURIComponent_def split: if_splits)

section \<open>What an encoded component is made of\<close>

lemma upperHex_alnum: "n < 16 \<Longrightarrow> upperHex n \<in> set alphaNumerics"
proof -
  have "\<forall>n \<in> set [0..<16]. upperHex n \<in> set alphaNumerics" by code_simp
  then show "n < 16 \<Longrightarrow> ?thesis" by simp
qed

lemma percentByte_set: "b < 256 \<Longrightarrow> set (percentByte b) \<subseteq> insert 37 (set alphaNumerics)"
  using upperHex_alnum [of "b div 16"] upperHex_alnum [of "b mod 16"] by (simp add: percentByte_def less_mult_imp_div_less)

lemma uriPointText_set: "p < 0x110000 \<Longrightarrow> c \<in> set (uriPointText p) \<Longrightarrow> c = 37 \<or> uriUnreserved c"
  using utf8Point_bytes [of p] percentByte_set
  by (fastforce simp: uriPointText_def uriUnreserved_def list_all_iff split: if_splits)

lemma encoded_set:
  assumes "encodeURIComponent s = Inr t" "c \<in> set t"
  shows "c = 37 \<or> uriUnreserved c"
proof -
  obtain p where p: "p \<in> set (codePoints s)" "c \<in> set (uriPointText p)"
    using assms by (auto simp: encodeURIComponent_def split: if_splits)
  have "p < 0x110000" using p(1) codePoints_scalar [of s] by (auto simp: list_all_iff scalar_def)
  then show ?thesis using uriPointText_set p(2) by blast
qed

lemma encoded_no_separator:
  assumes "encodeURIComponent s = Inr t"
  shows "set (js ''/?#&='') \<inter> set t = {}"
proof -
  have "\<forall>c \<in> set (js ''/?#&=''). c \<noteq> 37 \<and> \<not> uriUnreserved c" by code_simp
  then show ?thesis using encoded_set [OF assms] by blast
qed

lemma uriPointText_nonempty: "uriPointText p \<noteq> []"
  using utf8Point_nonempty [of p] by (auto simp: uriPointText_def percentByte_def)

lemma encoded_nonempty: "encodeURIComponent s = Inr t \<Longrightarrow> s \<noteq> [] \<Longrightarrow> t \<noteq> []"
  using uriPointText_nonempty
  by (cases s) (auto simp: encodeURIComponent_def split: if_splits list.splits)

end
