(* ===== verification/Account.thy ===== *)
theory Account
  imports Items Recovery Seal Uri
begin

text \<open>
  Getting into an account and keeping it: unlock, enrolment, recovery and the account settings
  (\<^verbatim>\<open>unlock.ts\<close>, \<^verbatim>\<open>enroll.ts\<close>, \<^verbatim>\<open>recover.ts\<close> and \<^verbatim>\<open>account.ts\<close> of
  \<^verbatim>\<open>packages/vault/src\<close>). A response is the record the source casts it to; \<^verbatim>\<open>rememberEmail\<close>
  is an argument, as it is there.

  Shown: what enrolment, recovery and a password change send to the server is what later opens
  the account again, with the same keys; a finished recovery returns its new code whenever the
  server may have accepted it, and enrolment once the server said so, unless storing the address
  then throws, which loses the code; and a wrong password is reported for that and for nothing else.
\<close>

section \<open>Data\<close>

record PreloginResponse =
  pl_kdfSalt :: jstr
  pl_params :: jstr

record LoginResponse =
  lr_accessToken :: jstr
  lr_refreshToken :: jstr
  lr_protectedUserKey :: jstr
  lr_encryptedPrivateKey :: jstr
  lr_user :: SessionUser

record EnrolmentOutcome =
  eo_recoveryCode :: jstr
  eo_loggedIn :: bool

record RecoverPreloginResponse =
  rp_recoverySalt :: jstr
  rp_recoveryKdfParams :: jstr

record RecoverResponse =
  rr_recoveryProtectedUserKey :: jstr
  rr_encryptedPrivateKey :: jstr
  rr_recoveryToken :: jstr
  rr_expiresIn :: int

record RecoverySession =
  rs_email :: jstr
  rs_userKey :: addr
  rs_privateKey :: addr
  rs_recoveryToken :: jstr
  rs_expiresIn :: int

record RecoveryOutcome =
  ro_recoveryCode :: jstr
  ro_confirmed :: bool

record AccountRow =
  ac_id :: jstr
  ac_email :: jstr
  ac_name :: jstr
  ac_role :: jstr
  ac_publicKey :: jstr
  ac_createdAt :: jstr

record AccountProfile = AccountRow +
  ac_fingerprint :: jstr

record DeviceSession =
  ds_id :: jstr
  ds_deviceLabel :: jstr
  ds_createdAt :: jstr
  ds_lastSeenAt :: jstr
  ds_current :: bool

text \<open>\<^verbatim>\<open>JSON.parse(text) as KdfParams\<close>.\<close>

definition parseParams :: "jstr \<Rightarrow> KdfParams result" where
  "parseParams s = (case jsonParse s of None \<Rightarrow> Inl SyntaxError | Some v \<Rightarrow> Inr v)"

definition emailBody :: "jstr \<Rightarrow> json" where
  "emailBody email = jsObj [(''email'', JStr email)]"

definition loginBody :: "jstr \<Rightarrow> bytes \<Rightarrow> jstr \<Rightarrow> json" where
  "loginBody email authHash deviceLabel =
     jsObj [(''email'', JStr email), (''authHash'', JStr (toBase64 authHash)), (''deviceLabel'', JStr deviceLabel)]"

definition loginTokens :: "LoginResponse \<Rightarrow> SessionTokens" where
  "loginTokens login = \<lparr> st_accessToken = lr_accessToken login, st_refreshToken = lr_refreshToken login \<rparr>"

section \<open>Unlocking\<close>

text \<open>The \<^verbatim>\<open>catch\<close> around a request: an \<^verbatim>\<open>unauthorized\<close> becomes \<open>wrong\<close>.\<close>

definition rethrowAs :: "exn \<Rightarrow> exn \<Rightarrow> ('z, 'a) prog" where
  "rethrowAs wrong error =
     (case error of ApiError Unauthorized status message body \<Rightarrow> throw wrong | _ \<Rightarrow> throw error)"

definition unlock ::
  "platform \<Rightarrow> ('s, 'z, PreloginResponse) call \<Rightarrow> ('s, 'z, LoginResponse) call \<Rightarrow> (jstr \<Rightarrow> ('s, 'z, unit) aprog) \<Rightarrow>
   jstr \<Rightarrow> jstr \<Rightarrow> jstr \<Rightarrow> ('s, 'z, unit) aprog" where
  "unlock pf postPrelogin postLogin rememberEmail email masterPassword deviceLabel =
     andThen (postPrelogin (js ''/api/auth/prelogin'') (Some (emailBody email))) (\<lambda>prelogin.
     andThen (ofResult (parseParams (pl_params prelogin))) (\<lambda>params.
     andThen (ofResult (fromBase64 (pl_kdfSalt prelogin))) (\<lambda>salt.
     andThen (beginUnlock pf masterPassword salt params) (\<lambda>us.
       tryFinally
         (andThen
            (tryCatch (postLogin (js ''/api/auth/login'') (Some (loginBody email (us_authHash us) deviceLabel)))
               (rethrowAs WrongMasterPasswordError)) (\<lambda>login.
          andThen (unlockFinish pf us (lr_protectedUserKey login) (lr_encryptedPrivateKey login)) (\<lambda>keys.
          andThen (updateSession (openSession (loginTokens login) (lr_user login) (uk_userKey keys) (uk_privateKey keys)))
            (\<lambda>u. rememberEmail email))))
         (\<lambda>w. snd (unlockDestroy us w))))))"

section \<open>Enrolment\<close>

text \<open>
  A new recovery code, the blob it opens, and the text of its credential, whose buffer is cleared
  once it is text. Enrolment, a finished recovery and a regenerated code all do this.
\<close>

definition issueRecovery :: "platform \<Rightarrow> ('z, addr) prog \<Rightarrow> ('z, jstr \<times> RecoveryBlob \<times> jstr) prog" where
  "issueRecovery pf userKeyOf =
     andThen generateRecoveryCode (\<lambda>recoveryCode.
     andThen userKeyOf (\<lambda>userKey.
     andThen (createRecoveryBlob pf userKey recoveryCode DEFAULT_KDF_PARAMS) (\<lambda>blob.
     andThen (readBuf (rb_recoveryAuthHash blob)) (\<lambda>auth w.
       (Inr (recoveryCode, blob, toBase64 auth), zeroize [Some (rb_recoveryAuthHash blob)] w)))))"

definition enrolBody :: "EnrollmentResult \<Rightarrow> RecoveryBlob \<Rightarrow> jstr \<Rightarrow> json" where
  "enrolBody enrolled recovery recoveryAuthHash =
     jsObj [(''kdfSalt'', JStr (toBase64 (er_kdfSalt enrolled))), (''params'', JStr DEFAULT_KDF_PARAMS_JSON),
       (''authHash'', JStr (toBase64 (er_authHash enrolled))),
       (''protectedUserKey'', JStr (er_protectedUserKey enrolled)),
       (''publicKey'', JStr (toBase64 (er_publicKey enrolled))),
       (''encryptedPrivateKey'', JStr (er_encryptedPrivateKey enrolled)),
       (''recoverySalt'', JStr (toBase64 (rb_recoverySalt recovery))),
       (''recoveryProtectedUserKey'', JStr (rb_recoveryProtectedUserKey recovery)),
       (''recoveryAuthHash'', JStr recoveryAuthHash), (''recoveryKdfParams'', JStr DEFAULT_KDF_PARAMS_JSON)]"

definition enroll ::
  "platform \<Rightarrow> ('s, 'z, 'r) call \<Rightarrow> ('s, 'z, LoginResponse) call \<Rightarrow> (jstr \<Rightarrow> ('s, 'z, unit) aprog) \<Rightarrow>
   jstr \<Rightarrow> jstr \<Rightarrow> jstr \<Rightarrow> jstr \<Rightarrow> ('s, 'z, EnrolmentOutcome) aprog" where
  "enroll pf postEnroll postLogin rememberEmail inviteToken email masterPassword deviceLabel =
     andThen (enrollUser pf masterPassword DEFAULT_KDF_PARAMS) (\<lambda>enrolled.
     andThen (issueRecovery pf (ret (er_userKey enrolled))) (\<lambda>(recoveryCode, recovery, recoveryAuthHash).
     andThen (ofResult (encodeURIComponent inviteToken)) (\<lambda>token.
     andThen (postEnroll (js ''/api/enroll/'' @ token) (Some (enrolBody enrolled recovery recoveryAuthHash))) (\<lambda>answer.
     andThen (rememberEmail email) (\<lambda>u.
       tryCatch
         (andThen (postLogin (js ''/api/auth/login'') (Some (loginBody email (er_authHash enrolled) deviceLabel))) (\<lambda>login.
          andThen (updateSession (openSession (loginTokens login) (lr_user login) (er_userKey enrolled)
              (kp_privateKey (er_keyPair enrolled)))) (\<lambda>u.
            ret \<lparr> eo_recoveryCode = recoveryCode, eo_loggedIn = True \<rparr>)))
         (\<lambda>e. ret \<lparr> eo_recoveryCode = recoveryCode, eo_loggedIn = False \<rparr>))))))"

section \<open>Recovery\<close>

text \<open>\<^verbatim>\<open>wrappingKey\<close> is \<^verbatim>\<open>null\<close> until it is derived, and the outer \<^verbatim>\<open>finally\<close> clears both.\<close>

definition recoverWith ::
  "platform \<Rightarrow> ('s, 'z, RecoverResponse) call \<Rightarrow> jstr \<Rightarrow> addr \<Rightarrow> ('s, 'z, RecoverySession) aprog" where
  "recoverWith pf postRecover email recoveryKey =
     tryFinally
       (andThen (deriveRecoveryAuthHash pf recoveryKey) (\<lambda>authHalf.
        andThen (tryFinally (andThen (readBuf authHalf) (\<lambda>auth. ret (toBase64 auth))) (zeroize [Some authHalf]))
          (\<lambda>recoveryAuthHash.
        andThen
          (tryCatch
             (postRecover (js ''/api/auth/recover'')
                (Some (jsObj [(''email'', JStr email), (''recoveryAuthHash'', JStr recoveryAuthHash)])))
             (rethrowAs WrongRecoveryCodeError)) (\<lambda>redeemed.
        andThen (deriveRecoveryWrapKey pf recoveryKey) (\<lambda>wrappingKey.
        tryFinally
          (andThen (unwrapKey pf (rr_recoveryProtectedUserKey redeemed) wrappingKey) (\<lambda>userKey.
           andThen (unwrapKey pf (rr_encryptedPrivateKey redeemed) userKey) (\<lambda>privateKey.
             ret \<lparr> rs_email = email, rs_userKey = userKey, rs_privateKey = privateKey,
                   rs_recoveryToken = rr_recoveryToken redeemed, rs_expiresIn = rr_expiresIn redeemed \<rparr>)))
          (zeroize [Some wrappingKey]))))))
       (zeroize [Some recoveryKey])"

definition recoverAccount ::
  "platform \<Rightarrow> ('s, 'z, RecoverPreloginResponse) call \<Rightarrow> ('s, 'z, RecoverResponse) call \<Rightarrow> jstr \<Rightarrow> jstr \<Rightarrow>
   ('s, 'z, RecoverySession) aprog" where
  "recoverAccount pf postPrelogin postRecover email recoveryCode =
     andThen (postPrelogin (js ''/api/auth/recover/prelogin'') (Some (emailBody email))) (\<lambda>prelogin.
     andThen (ofResult (parseParams (rp_recoveryKdfParams prelogin))) (\<lambda>params.
     andThen (ofResult (fromBase64 (rp_recoverySalt prelogin))) (\<lambda>salt.
     andThen (deriveRecoveryKey pf recoveryCode salt params) (\<lambda>recoveryKey.
       recoverWith pf postRecover email recoveryKey))))"

definition destroyRecovery :: "RecoverySession \<Rightarrow> 'z world_scheme \<Rightarrow> 'z world_scheme" where
  "destroyRecovery session = zeroize [Some (rs_userKey session), Some (rs_privateKey session)]"

definition recoveryBody :: "jstr \<Rightarrow> RotationResult \<Rightarrow> RecoveryBlob \<Rightarrow> jstr \<Rightarrow> json" where
  "recoveryBody recoveryToken rotation blob recoveryAuthHash =
     jsObj [(''recoveryToken'', JStr recoveryToken), (''kdfSalt'', JStr (toBase64 (ro_kdfSalt rotation))),
       (''params'', JStr DEFAULT_KDF_PARAMS_JSON), (''authHash'', JStr (toBase64 (ro_authHash rotation))),
       (''protectedUserKey'', JStr (ro_protectedUserKey rotation)),
       (''recoverySalt'', JStr (toBase64 (rb_recoverySalt blob))), (''recoveryKdfParams'', JStr DEFAULT_KDF_PARAMS_JSON),
       (''recoveryProtectedUserKey'', JStr (rb_recoveryProtectedUserKey blob)),
       (''recoveryAuthHash'', JStr recoveryAuthHash)]"

text \<open>The server refused: the answer has a status of the 400s, whatever its code.\<close>

definition refused :: "exn \<Rightarrow> bool" where
  "refused error = (case error of ApiError code status message body \<Rightarrow> 400 \<le> status \<and> status < 500 | _ \<Rightarrow> False)"

definition completeRecovery ::
  "platform \<Rightarrow> ('s, 'z, 'r) call \<Rightarrow> RecoverySession \<Rightarrow> jstr \<Rightarrow> ('s, 'z, RecoveryOutcome) aprog" where
  "completeRecovery pf postComplete session newMasterPassword =
     andThen (rotateMasterPassword pf newMasterPassword (rs_userKey session) DEFAULT_KDF_PARAMS) (\<lambda>rotation.
     andThen (issueRecovery pf (ret (rs_userKey session))) (\<lambda>(recoveryCode, blob, recoveryAuthHash).
       tryCatch
         (andThen (postComplete (js ''/api/auth/recover/complete'')
             (Some (recoveryBody (rs_recoveryToken session) rotation blob recoveryAuthHash))) (\<lambda>answer.
           ret \<lparr> ro_recoveryCode = recoveryCode, ro_confirmed = True \<rparr>))
         (\<lambda>error. if refused error then throw error
            else ret \<lparr> ro_recoveryCode = recoveryCode, ro_confirmed = False \<rparr>)))"

section \<open>Account settings\<close>

definition currentAuthHash :: "platform \<Rightarrow> ('s, 'z, PreloginResponse) call \<Rightarrow> jstr \<Rightarrow> jstr \<Rightarrow> ('s, 'z, jstr) aprog" where
  "currentAuthHash pf postPrelogin email currentPassword =
     andThen (postPrelogin (js ''/api/auth/prelogin'') (Some (emailBody email))) (\<lambda>prelogin.
     andThen (ofResult (parseParams (pl_params prelogin))) (\<lambda>params.
     andThen (ofResult (fromBase64 (pl_kdfSalt prelogin))) (\<lambda>salt.
     andThen (deriveMasterKey pf currentPassword salt params) (\<lambda>masterKey.
       tryFinally (andThen (deriveAuthHash pf masterKey) (\<lambda>auth. ret (toBase64 auth))) (zeroize [Some masterKey])))))"

definition loadAccount :: "platform \<Rightarrow> ('s, 'z, AccountRow) call \<Rightarrow> ('s, 'z, AccountProfile) aprog" where
  "loadAccount pf get =
     andThen (get (js ''/api/account'') None) (\<lambda>profile.
       ret (AccountRow.extend profile (AccountProfile.fields
         (case fromBase64 (ac_publicKey profile) of
            Inl e \<Rightarrow> [] | Inr key \<Rightarrow> publicKeyFingerprint pf key (ac_email profile)))))"

definition sessionKey :: "('s, 'z, addr) aprog" where
  "sessionKey = withSession (\<lambda>s. bindR (getKeys s) (\<lambda>(userKey, privateKey). Inr userKey))"

definition passwordBody :: "jstr \<Rightarrow> RotationResult \<Rightarrow> json" where
  "passwordBody current rotation =
     jsObj [(''currentAuthHash'', JStr current), (''kdfSalt'', JStr (toBase64 (ro_kdfSalt rotation))),
       (''params'', JStr DEFAULT_KDF_PARAMS_JSON), (''authHash'', JStr (toBase64 (ro_authHash rotation))),
       (''protectedUserKey'', JStr (ro_protectedUserKey rotation))]"

definition changeMasterPassword ::
  "platform \<Rightarrow> ('s, 'z, PreloginResponse) call \<Rightarrow> ('s, 'z, 'r) call \<Rightarrow> jstr \<Rightarrow> jstr \<Rightarrow> jstr \<Rightarrow> ('s, 'z, unit) aprog" where
  "changeMasterPassword pf postPrelogin postPassword email currentPassword newPassword =
     andThen (currentAuthHash pf postPrelogin email currentPassword) (\<lambda>current.
     andThen sessionKey (\<lambda>userKey.
     andThen (rotateMasterPassword pf newPassword userKey DEFAULT_KDF_PARAMS) (\<lambda>rotation.
     andThen (postPassword (js ''/api/account/password'') (Some (passwordBody current rotation))) (\<lambda>answer. ret ()))))"

definition recoveryUpdateBody :: "jstr \<Rightarrow> RecoveryBlob \<Rightarrow> jstr \<Rightarrow> json" where
  "recoveryUpdateBody current blob recoveryAuthHash =
     jsObj [(''currentAuthHash'', JStr current), (''recoverySalt'', JStr (toBase64 (rb_recoverySalt blob))),
       (''recoveryKdfParams'', JStr DEFAULT_KDF_PARAMS_JSON),
       (''recoveryProtectedUserKey'', JStr (rb_recoveryProtectedUserKey blob)),
       (''recoveryAuthHash'', JStr recoveryAuthHash)]"

definition regenerateRecoveryCode ::
  "platform \<Rightarrow> ('s, 'z, PreloginResponse) call \<Rightarrow> ('s, 'z, 'r) call \<Rightarrow> jstr \<Rightarrow> jstr \<Rightarrow> ('s, 'z, jstr) aprog" where
  "regenerateRecoveryCode pf postPrelogin postRecovery email currentPassword =
     andThen (currentAuthHash pf postPrelogin email currentPassword) (\<lambda>current.
     andThen (issueRecovery pf sessionKey) (\<lambda>(recoveryCode, blob, recoveryAuthHash).
     andThen (postRecovery (js ''/api/account/recovery'')
         (Some (recoveryUpdateBody current blob recoveryAuthHash))) (\<lambda>answer.
       ret recoveryCode)))"

definition listSessions :: "('s, 'z, DeviceSession list) call \<Rightarrow> ('s, 'z, DeviceSession list) aprog" where
  "listSessions get = get (js ''/api/account/sessions'') None"

definition revokeSession :: "('s, 'z, 'r) call \<Rightarrow> jstr \<Rightarrow> ('s, 'z, unit) aprog" where
  "revokeSession del sessionId = andThen (del (js ''/api/account/sessions/'' @ sessionId) None) (\<lambda>x. ret ())"

section \<open>How the programs run\<close>

text \<open>
  Argon2id accepts the default parameters for what the library documents: a password that is not
  empty, a salt of at least 8 bytes and a hash of at least 4. Unicode normalisation leaves a text
  that is not empty so.
\<close>

definition argonLaw :: "platform \<Rightarrow> bool" where
  "argonLaw pf =
     ((\<forall>password salt n. password \<noteq> [] \<longrightarrow> 8 \<le> length salt \<longrightarrow> 4 \<le> n \<longrightarrow>
         (\<exists>h. callArgon2id pf password salt DEFAULT_KDF_PARAMS n = Inr h)) \<and>
      (\<forall>s. s \<noteq> [] \<longrightarrow> pf_nfc pf s \<noteq> []))"

lemma argon_accepts:
  assumes "argonLaw pf" "password \<noteq> []" "length salt = 16"
  obtains h where "callArgon2id pf password salt DEFAULT_KDF_PARAMS 32 = Inr h"
proof -
  have "8 \<le> length salt" "(4 :: nat) \<le> 32" using assms(3) by simp_all
  then show ?thesis using assms(1,2) that unfolding argonLaw_def by meson
qed

lemma params_plain: "plainKey ''algorithm''" "plainKey ''memoryKiB''" "plainKey ''iterations''" "plainKey ''parallelism''"
  by (simp_all add: plainKey_def isIndexKey_def js_simps isDigit_def)

lemma params_ints: "jint 65536 = Dec 65536 0" "jint 3 = Dec 3 0" "jint 4 = Dec 4 0"
  by (simp_all add: jint_def normDec.simps)

lemma params_show: "showNat 65536 = js ''65536''" "showNat 3 = js ''3''" "showNat 4 = js ''4''"
  by (simp_all add: showNat_step showNat_small js_simps)

lemma params_nums: "numWf (jint 65536)" "numWf (jint 3)" "numWf (jint 4)" 
  by (simp_all add: params_ints params_show js_simps)

lemma shows_nums: "showNum (jint 65536) = js ''65536''" "showNum (jint 3) = js ''3''" "showNum (jint 4) = js ''4''"
  by (simp_all add: params_ints params_show Let_def js_simps zeros_def)

lemma default_wf: "jsonWf DEFAULT_KDF_PARAMS"
  unfolding DEFAULT_KDF_PARAMS_def by (rule jsObj_wf) (simp_all add: params_plain params_nums)

lemma params_quoted: "quote (js ''algorithm'') = js ''\"algorithm\"''" "quote (js ''memoryKiB'') = js ''\"memoryKiB\"''" "quote (js ''argon2id'') = js ''\"argon2id\"''"
  "quote (js ''iterations'') = js ''\"iterations\"''" "quote (js ''parallelism'') = js ''\"parallelism\"''"
  by code_simp+

lemma default_json: "stringify DEFAULT_KDF_PARAMS = DEFAULT_KDF_PARAMS_JSON"
  by (simp add: DEFAULT_KDF_PARAMS_def DEFAULT_KDF_PARAMS_JSON_def jsObj_def shows_nums params_quoted) (simp add: js_simps)

lemma parseParams_default: "parseParams DEFAULT_KDF_PARAMS_JSON = Inr DEFAULT_KDF_PARAMS"
  using jsonParse_stringify [OF default_wf] unfolding default_json by (simp add: parseParams_def)

lemma masterBytes_default:
  assumes "argonLaw pf" "pw \<noteq> []" "length salt = 16"
  obtains mk where "masterBytes pf pw salt DEFAULT_KDF_PARAMS = Inr mk"
proof -
  have "pf_nfc pf pw \<noteq> []" using assms(1,2) unfolding argonLaw_def by blast
  from argon_accepts [OF assms(1) this assms(3)] obtain h where
    "callArgon2id pf (pf_nfc pf pw) salt DEFAULT_KDF_PARAMS 32 = Inr h" .
  then have "masterBytes pf pw salt DEFAULT_KDF_PARAMS = Inr h"
    using assms(2,3) by (simp add: masterBytes_def assertKdfSalt_def)
  then show ?thesis by (rule that)
qed

text \<open>What a recovery code gives: the credential registered with it and the user key's bytes.\<close>

definition recoversTo ::
  "platform \<Rightarrow> jstr \<Rightarrow> bytes \<Rightarrow> KdfParams \<Rightarrow> jstr \<Rightarrow> bytes \<Rightarrow> bytes \<Rightarrow> bool" where
  "recoversTo pf code salt params protected auth user =
     (\<exists>rk. recoveryBytes pf code salt params = Inr rk \<and> auth = recoveryAuth pf rk \<and>
        opens pf protected (recoveryWrap pf rk) user)"

lemma issueRecovery_run:
  assumes laws: "gcmLaw pf" "kdfLaws pf" "argonLaw pf" and key: "\<And>w1. world.more w1 = world.more w \<Longrightarrow> userKeyOf w1 = (Inr a, w1)"
    and a: "a < length (wd_heap w)"
  obtains code blob auth w' where "issueRecovery pf userKeyOf w = (Inr (code, blob, toBase64 auth), w')"
    "recoversTo pf code (rb_recoverySalt blob) DEFAULT_KDF_PARAMS (rb_recoveryProtectedUserKey blob) auth (bufOf w a)"
    "wd_heap w' = wd_heap w @ [zeroBytes 32, zeroBytes 32, zeroBytes 32]" "world.more w' = world.more w"
proof -
  obtain code w1 where g: "generateRecoveryCode w = (Inr code, w1)"
    by (simp add: generateRecoveryCode_def run_simps)
  note ok = generated_accepted [OF g]
  have w1: "wd_heap w1 = wd_heap w" "bufOf w1 a = bufOf w a" "world.more w1 = world.more w" by (simp_all add: ok(2))
  obtain rk where rk: "recoveryBytes pf code (drawn 16 w1) DEFAULT_KDF_PARAMS = Inr rk"
  proof -
    have "encodeCrockford (drawn 25 w) \<noteq> []" using length_encodeCrockford [of "drawn 25 w"] by force
    from argon_accepts [OF laws(3) this] obtain h where
      "callArgon2id pf (encodeCrockford (drawn 25 w)) (drawn 16 w1) DEFAULT_KDF_PARAMS 32 = Inr h"
      by (metis length_drawn)
    then have "recoveryBytes pf code (drawn 16 w1) DEFAULT_KDF_PARAMS = Inr h"
      by (simp add: recoveryBytes_def assertKdfSalt_def ok(1))
    then show ?thesis by (rule that)
  qed
  have a1: "a < length (wd_heap w1)" using a w1(1) by simp
  from createRecoveryBlob_run [OF laws(1,2) rk a1] obtain blob w2 where
    b: "createRecoveryBlob pf a code DEFAULT_KDF_PARAMS w1 = (Inr blob, w2)" "rb_recoverySalt blob = drawn 16 w1"
      "opens pf (rb_recoveryProtectedUserKey blob) (recoveryWrap pf rk) (bufOf w1 a)"
      "rb_recoveryAuthHash blob = length (wd_heap w1) + 2"
      "wd_heap w2 = wd_heap w1 @ [zeroBytes 32, zeroBytes 32, recoveryAuth pf rk]" "world.more w2 = world.more w1"
    by metis
  let ?c = "Suc (Suc (length (wd_heap w)))"
  have auth: "bufOf w2 ?c = recoveryAuth pf rk" by (simp add: bufOf_def b(5) w1(1) nth_append)
  have heap: "wd_heap (clearBuf ?c w2) = wd_heap w @ [zeroBytes 32, zeroBytes 32, zeroBytes 32]"
    using laws(2) by (simp add: clearBuf_heap auth b(5) w1(1) list_update_append)
  have run: "issueRecovery pf userKeyOf w = (Inr (code, blob, toBase64 (recoveryAuth pf rk)), clearBuf ?c w2)"
    using g b(1) key [OF w1(3)] by (simp add: issueRecovery_def andThen_def readBuf_def auth b(4) w1(1))
  show ?thesis
  proof (rule that [OF run _ heap])
    show "recoversTo pf code (rb_recoverySalt blob) DEFAULT_KDF_PARAMS (rb_recoveryProtectedUserKey blob)
        (recoveryAuth pf rk) (bufOf w a)"
      using rk b(2,3) w1(2) unfolding recoversTo_def by auto
    show "world.more (clearBuf ?c w2) = world.more w" using b(6) w1(3) by (simp add: clearBuf_def)
  qed
qed

section \<open>A server that answers from what it was sent\<close>

text \<open>
  The answers of the server to an account whose stored fields are those of the body \<open>b\<close>: the
  prelogin endpoints return the salt and parameters, the login endpoints compare the credential
  and return the wrapped keys.
\<close>

definition textField :: "json \<Rightarrow> string \<Rightarrow> jstr" where
  "textField b k = (case field b (js k) of Some (JStr s) \<Rightarrow> s | _ \<Rightarrow> [])"

definition unauthorizedError :: exn where
  "unauthorizedError = ApiError Unauthorized 401 [] None"

definition servedPrelogin :: "json \<Rightarrow> ('s, 'z, PreloginResponse) call" where
  "servedPrelogin b path body w = (Inr \<lparr> pl_kdfSalt = textField b ''kdfSalt'', pl_params = textField b ''params'' \<rparr>, w)"

definition loginFrom :: "json \<Rightarrow> jstr \<Rightarrow> SessionTokens \<Rightarrow> SessionUser \<Rightarrow> LoginResponse" where
  "loginFrom b encryptedPrivateKey tokens user =
     \<lparr> lr_accessToken = st_accessToken tokens, lr_refreshToken = st_refreshToken tokens,
       lr_protectedUserKey = textField b ''protectedUserKey'', lr_encryptedPrivateKey = encryptedPrivateKey,
       lr_user = user \<rparr>"

definition servedLogin :: "json \<Rightarrow> jstr \<Rightarrow> SessionTokens \<Rightarrow> SessionUser \<Rightarrow> ('s, 'z, LoginResponse) call" where
  "servedLogin b encryptedPrivateKey tokens user path body w =
     (if textField (the body) ''authHash'' = textField b ''authHash''
      then Inr (loginFrom b encryptedPrivateKey tokens user) else Inl unauthorizedError, w)"

definition servedRecoverPrelogin :: "json \<Rightarrow> ('s, 'z, RecoverPreloginResponse) call" where
  "servedRecoverPrelogin b path body w =
     (Inr \<lparr> rp_recoverySalt = textField b ''recoverySalt'', rp_recoveryKdfParams = textField b ''recoveryKdfParams'' \<rparr>, w)"

definition servedRecover :: "json \<Rightarrow> jstr \<Rightarrow> jstr \<Rightarrow> ('s, 'z, RecoverResponse) call" where
  "servedRecover b encryptedPrivateKey token path body w =
     (if textField (the body) ''recoveryAuthHash'' = textField b ''recoveryAuthHash''
      then Inr \<lparr> rr_recoveryProtectedUserKey = textField b ''recoveryProtectedUserKey'',
        rr_encryptedPrivateKey = encryptedPrivateKey, rr_recoveryToken = token, rr_expiresIn = 600 \<rparr>
      else Inl unauthorizedError, w)"

text \<open>\<^verbatim>\<open>rememberEmail\<close> returned and touched neither buffers nor the session.\<close>

definition quiet :: "('s, 'z, unit) aprog \<Rightarrow> bool" where
  "quiet m = (\<forall>w. \<exists>w'. m w = (Inr (), w') \<and> wd_heap w' = wd_heap w \<and> ap_session w' = ap_session w \<and>
     sv_server w' = sv_server w)"

text \<open>
  All it may do, whether it returns or throws, is outside the vault: it is the application's write
  of the address to the browser's storage.
\<close>

definition localOnly :: "('s, 'z, unit) aprog \<Rightarrow> bool" where
  "localOnly m = (\<forall>w. wd_heap (snd (m w)) = wd_heap w \<and> ap_session (snd (m w)) = ap_session w \<and>
     sv_server (snd (m w)) = sv_server w)"

lemma bufOf_same: "wd_heap w' = wd_heap w \<Longrightarrow> bufOf w' a = bufOf w a"
  by (simp add: bufOf_def)

text \<open>An open session and the bytes of its keys.\<close>

definition sessionHolds :: "('s, 'z) app_scheme \<Rightarrow> SessionUser \<Rightarrow> bytes \<Rightarrow> bytes \<Rightarrow> bool" where
  "sessionHolds w user uk pk =
     (\<exists>a b. se_userKey (ap_session w) = Some a \<and> se_privateKey (ap_session w) = Some b \<and> bufOf w a = uk \<and>
        bufOf w b = pk \<and> se_user (ap_session w) = Some user)"

lemma sessionHolds_opened:
  assumes "keysExist w" "a \<notin> held (ap_session w)" "b \<notin> held (ap_session w)" "bufOf w a = uk" "bufOf w b = pk"
  shows "sessionHolds (openSession t user a b w) user uk pk"
  using open_buf(2) [OF assms(2), of t user a b] open_buf(2) [OF assms(3), of t user a b] assms(4,5)
  unfolding sessionHolds_def by (simp add: openSession_def Let_def notifyListeners_def)

lemma sessionHolds_same:
  "sessionHolds w user uk pk \<Longrightarrow> wd_heap w' = wd_heap w \<Longrightarrow> ap_session w' = ap_session w \<Longrightarrow> sessionHolds w' user uk pk"
  unfolding sessionHolds_def by (metis bufOf_same)

lemma login_authHash: "textField (loginBody email auth label) ''authHash'' = toBase64 auth"
  by (simp add: textField_def loginBody_def field_jsObj)

lemma toBase64_eq [simp]: "toBase64 x = toBase64 y \<longleftrightarrow> x = y"
  using fromBase64_toBase64 by (metis Inr_inject)

text \<open>The fields \<open>b\<close> of an account whose password unwraps to \<open>uk\<close>.\<close>

definition passwordFields :: "platform \<Rightarrow> json \<Rightarrow> jstr \<Rightarrow> bytes \<Rightarrow> bytes \<Rightarrow> bytes \<Rightarrow> bool" where
  "passwordFields pf b pw salt mk uk =
     (textField b ''params'' = DEFAULT_KDF_PARAMS_JSON \<and> textField b ''kdfSalt'' = toBase64 salt \<and>
      masterBytes pf pw salt DEFAULT_KDF_PARAMS = Inr mk \<and> textField b ''authHash'' = toBase64 (authBytes pf mk) \<and>
      opens pf (textField b ''protectedUserKey'') (wrapBytes pf mk) uk)"

lemma rethrowAs_run:
  "rethrowAs wrong e w =
     (Inl (case e of ApiError Unauthorized status message body \<Rightarrow> wrong | _ \<Rightarrow> e), w)"
  by (simp add: rethrowAs_def throw_def split: exn.split ApiErrorCode.split)

lemma unlock_served:
  assumes laws: "kdfLaws pf" and fields: "passwordFields pf b pw salt mk uk" "opens pf encrypted uk pk"
    and w: "keysExist w" "quiet (rememberEmail email)"
  shows "\<exists>w'. unlock pf (servedPrelogin b) (servedLogin b encrypted tokens user) rememberEmail email pw label w = (Inr (), w') \<and>
    sessionHolds w' user uk pk"
proof -
  note f = fields(1) [unfolded passwordFields_def]
  let ?n = "length (wd_heap w)"
  define w2 where "w2 = pushBuf (wrapBytes pf mk) (pushBuf mk w)"
  let ?us = "\<lparr> us_authHash = authBytes pf mk, us_masterKey = ?n, us_wrappingKey = Suc ?n, us_destroyed = False \<rparr>"
  have mk: "masterBytes pf pw salt DEFAULT_KDF_PARAMS = Inr mk" using f by blast
  have start: "beginUnlock pf pw salt DEFAULT_KDF_PARAMS w = (Inr ?us, w2)"
    unfolding w2_def by (rule beginUnlock_run [OF laws mk])
  have wrapped: "opens pf (textField b ''protectedUserKey'') (bufOf w2 (us_wrappingKey ?us)) uk"
    using f by (simp add: w2_def)
  define w4 where "w4 = pushBuf pk (pushBuf uk w2)"
  let ?keys = "\<lparr> uk_userKey = length (wd_heap w2), uk_privateKey = Suc (length (wd_heap w2)) \<rparr>"
  have finish: "unlockFinish pf ?us (textField b ''protectedUserKey'') encrypted w2 = (Inr ?keys, w4)"
    unfolding w4_def by (rule unlockFinish_run [OF _ wrapped fields(2)]) simp
  have s4: "ap_session w4 = ap_session w" by (rule same_session(1)) (simp add: w4_def w2_def)
  have n4: "length (wd_heap w4) = ?n + 4" by (simp add: w4_def w2_def)
  have keys4: "keysExist w4" using w(1) by (fastforce simp: keysExist_def s4 n4)
  have n2: "length (wd_heap w2) = Suc (Suc ?n)" by (simp add: w2_def)
  have fresh: "Suc (Suc ?n) \<notin> held (ap_session w4)" "Suc (Suc (Suc ?n)) \<notin> held (ap_session w4)"
    using w(1) by (auto simp: keysExist_def s4)
  define w5 where "w5 = openSession (loginTokens (loginFrom b encrypted tokens user)) user (Suc (Suc ?n)) (Suc (Suc (Suc ?n))) w4"
  have holds5: "sessionHolds w5 user uk pk"
    unfolding w5_def by (rule sessionHolds_opened [OF keys4 fresh]) (simp_all add: w4_def n2)
  obtain w6 where w6: "rememberEmail email w5 = (Inr (), w6)" "wd_heap w6 = wd_heap w5" "ap_session w6 = ap_session w5"
    using w(2) unfolding quiet_def by blast
  define w7 where "w7 = snd (unlockDestroy ?us w6)"
  have "unlock pf (servedPrelogin b) (servedLogin b encrypted tokens user) rememberEmail email pw label w = (Inr (), w7)"
    using f start finish w6(1)
    by (simp add: unlock_def andThen_def servedPrelogin_def ofResult_def parseParams_default fromBase64_toBase64
        tryFinally_def tryCatch_def servedLogin_def login_authHash loginFrom_def updateSession_def n2
        w5_def [unfolded loginFrom_def, simplified, symmetric] w7_def)
  moreover have "sessionHolds w7 user uk pk"
  proof -
    have keys: "se_userKey (ap_session w5) = Some (Suc (Suc ?n))" "se_privateKey (ap_session w5) = Some (Suc (Suc (Suc ?n)))"
      by (simp_all add: w5_def openSession_def Let_def notifyListeners_def)
    have "ap_session w7 = ap_session w5"
      unfolding w7_def unlockDestroy_def snd_conv w6(3) [symmetric] by (rule same_session(1)) (rule zeroize_more(2))
    moreover have "bufOf w7 a = bufOf w5 a" if "a > Suc ?n" for a
      using that bufOf_same [OF w6(2)] by (simp add: w7_def unlockDestroy_def)
    ultimately show ?thesis using holds5 unfolding sessionHolds_def keys by (auto simp: keys)
  qed
  ultimately show ?thesis by blast
qed

text \<open>The recovery fields: the code \<open>code\<close> opens them to \<open>uk\<close>.\<close>

definition recoveryFields :: "platform \<Rightarrow> json \<Rightarrow> jstr \<Rightarrow> bytes \<Rightarrow> bool" where
  "recoveryFields pf b code uk =
     (\<exists>salt auth. textField b ''recoveryKdfParams'' = DEFAULT_KDF_PARAMS_JSON \<and>
        textField b ''recoverySalt'' = toBase64 salt \<and> textField b ''recoveryAuthHash'' = toBase64 auth \<and>
        recoversTo pf code salt DEFAULT_KDF_PARAMS (textField b ''recoveryProtectedUserKey'') auth uk)"

lemma recover_served:
  assumes laws: "kdfLaws pf" and fields: "recoveryFields pf b code uk" "opens pf encrypted uk pk"
    and typed: "normalizeCrockford typed = normalizeCrockford code"
  shows "\<exists>rs w'. recoverAccount pf (servedRecoverPrelogin b) (servedRecover b encrypted token) email typed w = (Inr rs, w') \<and>
    bufOf w' (rs_userKey rs) = uk \<and> bufOf w' (rs_privateKey rs) = pk \<and> tidy w w' {rs_userKey rs, rs_privateKey rs} \<and>
    length (wd_heap w) \<le> rs_userKey rs \<and> length (wd_heap w) \<le> rs_privateKey rs \<and> world.more w' = world.more w"
proof -
  obtain salt rk where f: "textField b ''recoveryKdfParams'' = DEFAULT_KDF_PARAMS_JSON"
    "textField b ''recoverySalt'' = toBase64 salt" "textField b ''recoveryAuthHash'' = toBase64 (recoveryAuth pf rk)"
    "recoveryBytes pf code salt DEFAULT_KDF_PARAMS = Inr rk"
    "opens pf (textField b ''recoveryProtectedUserKey'') (recoveryWrap pf rk) uk"
    using fields(1) unfolding recoveryFields_def recoversTo_def by blast
  have rk: "recoveryBytes pf typed salt DEFAULT_KDF_PARAMS = Inr rk" using f(4) recoveryBytes_cong [OF typed] by simp
  have l: "length rk = 32" by (rule recoveryBytes_length [OF laws rk])
  let ?n = "length (wd_heap w)"
  define w1 where "w1 = pushBuf rk w"
  have n1: "length (wd_heap w1) = Suc ?n" by (simp add: w1_def)
  have key: "deriveRecoveryKey pf typed salt DEFAULT_KDF_PARAMS w = (Inr ?n, w1)"
    unfolding w1_def by (rule deriveRecoveryKey_run(1) [OF rk])
  define w2 where "w2 = clearBuf (Suc ?n) (pushBuf (recoveryAuth pf rk) w1)"
  have auth: "deriveRecoveryAuthHash pf ?n w1 = (Inr (Suc ?n), pushBuf (recoveryAuth pf rk) w1)"
    using expandRecovery_run(2) [of w1 ?n pf] l by (simp add: w1_def)
  have heap2: "wd_heap w2 = wd_heap w @ [rk, zeroBytes 32]"
    using laws by (simp add: w2_def w1_def clearBuf_heap list_update_append)
  have wrap: "deriveRecoveryWrapKey pf ?n w2 = (Inr (Suc (Suc ?n)), pushBuf (recoveryWrap pf rk) w2)"
    using expandRecovery_run(1) [of w2 ?n pf] l by (simp add: bufOf_def heap2 nth_append)
  define w3 where "w3 = pushBuf (recoveryWrap pf rk) w2"
  have wrapped: "opens pf (textField b ''recoveryProtectedUserKey'') (bufOf w3 (Suc (Suc ?n))) uk"
    using f(5) by (simp add: w3_def heap2)
  define w5 where "w5 = pushBuf pk (pushBuf uk w3)"
  have n3: "length (wd_heap w3) = Suc (Suc (Suc ?n))" by (simp add: w3_def heap2)
  have user: "unwrapKey pf (textField b ''recoveryProtectedUserKey'') (Suc (Suc ?n)) w3 = (Inr (Suc (Suc (Suc ?n))), pushBuf uk w3)"
    using unwrapKey_run [OF wrapped] n3 by simp
  have own: "unwrapKey pf encrypted (Suc (Suc (Suc ?n))) (pushBuf uk w3) = (Inr (Suc (Suc (Suc (Suc ?n)))), w5)"
    using unwrapKey_run [of pf encrypted "pushBuf uk w3" "Suc (Suc (Suc ?n))" pk] fields(2) n3 by (simp add: w5_def)
  let ?rs = "\<lparr> rs_email = email, rs_userKey = Suc (Suc (Suc ?n)), rs_privateKey = Suc (Suc (Suc (Suc ?n))),
    rs_recoveryToken = token, rs_expiresIn = 600 \<rparr>"
  define w6 where "w6 = zeroize [Some ?n] (zeroize [Some (Suc (Suc ?n))] w5)"
  have "recoverWith pf (servedRecover b encrypted token) email ?n w1 = (Inr ?rs, w6)"
    using auth wrap user own f(3) n1
    by (simp add: recoverWith_def andThen_def tryFinally_def tryCatch_def readBuf_def ret_def w2_def [symmetric]
        servedRecover_def textField_def [of "jsObj _"] field_jsObj w3_def [symmetric] w6_def w1_def [symmetric])
  then have run: "recoverAccount pf (servedRecoverPrelogin b) (servedRecover b encrypted token) email typed w = (Inr ?rs, w6)"
    using f(1,2) key
    by (simp add: recoverAccount_def andThen_def servedRecoverPrelogin_def ofResult_def parseParams_default fromBase64_toBase64)
  have heap6: "wd_heap w6 = wd_heap w @ [zeroBytes 32, zeroBytes 32, zeroBytes 32, uk, pk]"
    using l laws by (simp add: w6_def clearBuf_heap bufOf_def w5_def w3_def heap2 nth_append list_update_append)
  have "tidy w w6 {Suc (Suc (Suc ?n)), Suc (Suc (Suc (Suc ?n)))}"
    by (rule tidy_heap [OF heap6]) (auto simp: less_Suc_eq nth_Cons')
  moreover have "bufOf w6 (Suc (Suc (Suc ?n))) = uk" "bufOf w6 (Suc (Suc (Suc (Suc ?n)))) = pk"
    by (simp_all add: bufOf_def heap6 nth_append)
  moreover have "world.more w6 = world.more w" by (simp add: w6_def w5_def w3_def w2_def w1_def clearBuf_def)
  ultimately show ?thesis using run by auto
qed

lemma enrolBody_fields:
  "textField (enrolBody er blob h) ''params'' = DEFAULT_KDF_PARAMS_JSON"
  "textField (enrolBody er blob h) ''kdfSalt'' = toBase64 (er_kdfSalt er)"
  "textField (enrolBody er blob h) ''authHash'' = toBase64 (er_authHash er)"
  "textField (enrolBody er blob h) ''protectedUserKey'' = er_protectedUserKey er"
  "textField (enrolBody er blob h) ''encryptedPrivateKey'' = er_encryptedPrivateKey er"
  "textField (enrolBody er blob h) ''recoveryKdfParams'' = DEFAULT_KDF_PARAMS_JSON"
  "textField (enrolBody er blob h) ''recoverySalt'' = toBase64 (rb_recoverySalt blob)"
  "textField (enrolBody er blob h) ''recoveryAuthHash'' = h"
  "textField (enrolBody er blob h) ''recoveryProtectedUserKey'' = rb_recoveryProtectedUserKey blob"
  by (simp_all add: textField_def enrolBody_def field_jsObj)

text \<open>
  Enrolment up to the moment \<open>w1\<close> the server accepted it, and what follows from whatever
  \<^verbatim>\<open>rememberEmail\<close> does there.
\<close>

lemma enroll_run:
  fixes w :: "(json option list, 'z) app_scheme"
  assumes laws: "gcmLaw pf" "kdfLaws pf" "keyPairLaw pf" "argonLaw pf"
    and inputs: "pw \<noteq> []" "encodeURIComponent token = Inr tk"
    and calls: "ack (length (sv_server w)) = Inr x" "localOnly (rememberEmail email)" "keysExist w"
  obtains b code w1 salt mk uk pk where
    "sv_server w1 = sv_server w @ [Some b]"
    "passwordFields pf b pw salt mk uk" "opens pf (textField b ''encryptedPrivateKey'') uk pk"
    "recoveryFields pf b code uk"
    "case rememberEmail email w1 of
       (Inl e, v) \<Rightarrow> enroll pf (loggingPost ack) (loggingPost login) rememberEmail token email pw label w = (Inl e, v)
     | (Inr u, v) \<Rightarrow> \<exists>body w'.
         enroll pf (loggingPost ack) (loggingPost login) rememberEmail token email pw label w =
           (Inr \<lparr> eo_recoveryCode = code, eo_loggedIn = \<not> isl (login (Suc (length (sv_server w)))) \<rparr>, w') \<and>
         sv_server w' = sv_server w @ [Some b, Some body] \<and>
         (case login (Suc (length (sv_server w))) of Inl e \<Rightarrow> True | Inr l \<Rightarrow> sessionHolds w' (lr_user l) uk pk)"
proof -
  let ?n = "length (wd_heap w)"
  obtain mk where mk: "masterBytes pf pw (drawn 16 w) DEFAULT_KDF_PARAMS = Inr mk"
    using masterBytes_default [OF laws(4) inputs(1)] by (metis length_drawn)
  from enrollUser_run [OF laws(1-3) mk] obtain er w1 uk pk where er: "enrollUser pf pw DEFAULT_KDF_PARAMS w = (Inr er, w1)"
    "er_kdfSalt er = drawn 16 w" "er_authHash er = authBytes pf mk"
    "opens pf (er_protectedUserKey er) (wrapBytes pf mk) uk" "opens pf (er_encryptedPrivateKey er) uk pk"
    "er_userKey er = ?n + 2" "kp_privateKey (er_keyPair er) = ?n + 3"
    "wd_heap w1 = wd_heap w @ [zeroBytes 32, zeroBytes 32, uk, pk]" "world.more w1 = world.more w" by metis
  have a: "er_userKey er < length (wd_heap w1)" by (simp add: er(6,8))
  have uk: "bufOf w1 (er_userKey er) = uk" by (simp add: bufOf_def er(6,8) nth_append)
  from issueRecovery_run [OF laws(1,2,4) _ a, of "ret (er_userKey er)"] obtain code blob auth w2 where
    iss: "issueRecovery pf (ret (er_userKey er)) w1 = (Inr (code, blob, toBase64 auth), w2)"
    "recoversTo pf code (rb_recoverySalt blob) DEFAULT_KDF_PARAMS (rb_recoveryProtectedUserKey blob) auth uk"
    "wd_heap w2 = wd_heap w1 @ [zeroBytes 32, zeroBytes 32, zeroBytes 32]" "world.more w2 = world.more w1"
    unfolding uk by (metis ret_def)
  define b where "b = enrolBody er blob (toBase64 auth)"
  have s2: "ap_session w2 = ap_session w" "sv_server w2 = sv_server w" using same_session iss(4) er(9) by metis+
  define w3 where "w3 = w2\<lparr> sv_server := sv_server w @ [Some b] \<rparr>"
  obtain r w4 where w4: "rememberEmail email w3 = (r, w4)" by fastforce
  then have same4: "wd_heap w4 = wd_heap w3" "ap_session w4 = ap_session w3" "sv_server w4 = sv_server w3"
    using calls(2) unfolding localOnly_def by (metis snd_conv)+
  let ?body = "loginBody email (er_authHash er) label"
  define w5 where "w5 = w4\<lparr> sv_server := sv_server w4 @ [Some ?body] \<rparr>"
  have heap5: "wd_heap w5 = wd_heap w @ [zeroBytes 32, zeroBytes 32, uk, pk, zeroBytes 32, zeroBytes 32, zeroBytes 32]"
    by (simp add: w5_def same4(1) w3_def iss(3) er(8))
  have s5: "ap_session w5 = ap_session w" "sv_server w5 = sv_server w @ [Some b, Some ?body]"
    by (simp_all add: w5_def same4(2,3) w3_def s2)
  have keys5: "keysExist w5" using calls(3) by (fastforce simp: keysExist_def s5(1) heap5)
  have fresh: "?n + 2 \<notin> held (ap_session w5)" "?n + 3 \<notin> held (ap_session w5)"
    using calls(3) by (auto simp: keysExist_def s5(1))
  have sv4: "sv_server w4 = sv_server w @ [Some b]" by (simp add: same4(3) w3_def)
  then have w5e: "w4\<lparr> sv_server := sv_server w @ [Some b, Some ?body] \<rparr> = w5" by (simp add: w5_def)
  let ?r = "login (Suc (length (sv_server w)))"
  define w6 where "w6 = (case ?r of Inl e \<Rightarrow> w5 | Inr l \<Rightarrow> openSession (loginTokens l) (lr_user l) (?n + 2) (?n + 3) w5)"
  have "sv_server (openSession t u x y w5) = sv_server w5" for t u x y
    using same_session(2) [of "zeroize (heldKeys (ap_session w5)) w5" w5]
    by (simp add: openSession_def Let_def)
  then have sv6: "sv_server w6 = sv_server w @ [Some b, Some ?body]"
    by (simp add: w6_def s5(2) split: sum.split)
  have lost: "enroll pf (loggingPost ack) (loggingPost login) rememberEmail token email pw label w = (Inl e, w4)"
    if "r = Inl e" for e
    using er(1) iss(1) inputs(2) calls(1) w4
    by (simp add: that enroll_def andThen_def ofResult_def loggingPost_def s2 b_def [symmetric] w3_def [symmetric])
  have run: "enroll pf (loggingPost ack) (loggingPost login) rememberEmail token email pw label w =
      (Inr \<lparr> eo_recoveryCode = code, eo_loggedIn = \<not> isl ?r \<rparr>, w6)" if "r = Inr u" for u
    using er(1) iss(1) inputs(2) calls(1) w4 sv4 w5e
    by (cases ?r)
      (simp_all add: that enroll_def andThen_def ofResult_def loggingPost_def s2 b_def [symmetric] w3_def [symmetric]
        tryCatch_def updateSession_def ret_def w6_def er(6,7))
  have "bufOf w5 (?n + 2) = uk" "bufOf w5 (?n + 3) = pk" by (simp_all add: bufOf_def heap5 nth_append)
  then have holds: "case ?r of Inl e \<Rightarrow> True | Inr l \<Rightarrow> sessionHolds w6 (lr_user l) uk pk"
    using sessionHolds_opened [OF keys5 fresh] by (simp add: w6_def split: sum.split)
  show ?thesis
  proof (rule that [of w3])
    show "sv_server w3 = sv_server w @ [Some b]" by (simp add: w3_def)
    show "passwordFields pf b pw (drawn 16 w) mk uk"
      using mk er(2-4) by (simp add: passwordFields_def b_def enrolBody_fields)
    show "opens pf (textField b ''encryptedPrivateKey'') uk pk" using er(5) by (simp add: b_def enrolBody_fields)
    show "recoveryFields pf b code uk" using iss(2) by (auto simp: recoveryFields_def b_def enrolBody_fields)
    show "case rememberEmail email w3 of
       (Inl e, v) \<Rightarrow> enroll pf (loggingPost ack) (loggingPost login) rememberEmail token email pw label w = (Inl e, v)
     | (Inr u, v) \<Rightarrow> \<exists>body w'.
         enroll pf (loggingPost ack) (loggingPost login) rememberEmail token email pw label w =
           (Inr \<lparr> eo_recoveryCode = code, eo_loggedIn = \<not> isl ?r \<rparr>, w') \<and>
         sv_server w' = sv_server w @ [Some b, Some body] \<and>
         (case ?r of Inl e \<Rightarrow> True | Inr l \<Rightarrow> sessionHolds w' (lr_user l) uk pk)"
      using lost run sv6 holds unfolding w4 by (cases r) auto
  qed
qed

lemma recoveryBody_fields:
  "textField (recoveryBody t ro blob h) ''params'' = DEFAULT_KDF_PARAMS_JSON"
  "textField (recoveryBody t ro blob h) ''kdfSalt'' = toBase64 (ro_kdfSalt ro)"
  "textField (recoveryBody t ro blob h) ''authHash'' = toBase64 (ro_authHash ro)"
  "textField (recoveryBody t ro blob h) ''protectedUserKey'' = ro_protectedUserKey ro"
  "textField (recoveryBody t ro blob h) ''recoveryKdfParams'' = DEFAULT_KDF_PARAMS_JSON"
  "textField (recoveryBody t ro blob h) ''recoverySalt'' = toBase64 (rb_recoverySalt blob)"
  "textField (recoveryBody t ro blob h) ''recoveryAuthHash'' = h"
  "textField (recoveryBody t ro blob h) ''recoveryProtectedUserKey'' = rb_recoveryProtectedUserKey blob"
  by (simp_all add: textField_def recoveryBody_def field_jsObj)

lemma completeRecovery_run:
  fixes w :: "(json option list, 'z) app_scheme"
  assumes laws: "gcmLaw pf" "kdfLaws pf" "argonLaw pf"
    and inputs: "pw \<noteq> []" "rs_userKey session < length (wd_heap w)"
  obtains b code w' salt mk where
    "completeRecovery pf (loggingPost answer) session pw w =
       (case answer (length (sv_server w)) of
          Inr x \<Rightarrow> Inr \<lparr> ro_recoveryCode = code, ro_confirmed = True \<rparr>
        | Inl e \<Rightarrow> if refused e then Inl e else Inr \<lparr> ro_recoveryCode = code, ro_confirmed = False \<rparr>, w')"
    "sv_server w' = sv_server w @ [Some b]" "passwordFields pf b pw salt mk (bufOf w (rs_userKey session))"
    "recoveryFields pf b code (bufOf w (rs_userKey session))" "tidy w w' {}" "ap_session w' = ap_session w"
    "served.more w' = served.more w"
proof -
  let ?a = "rs_userKey session"
  obtain mk where mk: "masterBytes pf pw (drawn 16 w) DEFAULT_KDF_PARAMS = Inr mk"
    using masterBytes_default [OF laws(3) inputs(1)] by (metis length_drawn)
  from rotate_run [OF laws(1,2) mk inputs(2)] obtain ro w1 where
    ro: "rotateMasterPassword pf pw ?a DEFAULT_KDF_PARAMS w = (Inr ro, w1)" "ro_kdfSalt ro = drawn 16 w"
      "ro_authHash ro = authBytes pf mk" "opens pf (ro_protectedUserKey ro) (wrapBytes pf mk) (bufOf w ?a)"
      "wd_heap w1 = wd_heap w @ [zeroBytes 32, zeroBytes 32]" "world.more w1 = world.more w" by metis
  have a: "?a < length (wd_heap w1)" using inputs(2) by (simp add: ro(5))
  have same: "bufOf w1 ?a = bufOf w ?a" using inputs(2) by (simp add: bufOf_def ro(5) nth_append)
  from issueRecovery_run [OF laws _ a, of "ret ?a"] obtain code blob auth w2 where
    iss: "issueRecovery pf (ret ?a) w1 = (Inr (code, blob, toBase64 auth), w2)"
    "recoversTo pf code (rb_recoverySalt blob) DEFAULT_KDF_PARAMS (rb_recoveryProtectedUserKey blob) auth (bufOf w ?a)"
    "wd_heap w2 = wd_heap w1 @ [zeroBytes 32, zeroBytes 32, zeroBytes 32]" "world.more w2 = world.more w1"
    unfolding same by (metis ret_def)
  have s2: "ap_session w2 = ap_session w" "sv_server w2 = sv_server w" using same_session iss(4) ro(6) by metis+
  define b where "b = recoveryBody (rs_recoveryToken session) ro blob (toBase64 auth)"
  define w3 where "w3 = w2\<lparr> sv_server := sv_server w @ [Some b] \<rparr>"
  have run: "completeRecovery pf (loggingPost answer) session pw w =
       (case answer (length (sv_server w)) of
          Inr x \<Rightarrow> Inr \<lparr> ro_recoveryCode = code, ro_confirmed = True \<rparr>
        | Inl e \<Rightarrow> if refused e then Inl e else Inr \<lparr> ro_recoveryCode = code, ro_confirmed = False \<rparr>, w3)"
    using ro(1) iss(1)
    by (cases "answer (length (sv_server w))")
      (simp_all add: completeRecovery_def andThen_def tryCatch_def loggingPost_def ret_def throw_def s2
        b_def [symmetric] w3_def)
  show ?thesis
  proof (rule that [OF run])
    show "sv_server w3 = sv_server w @ [Some b]" "ap_session w3 = ap_session w" by (simp_all add: w3_def s2)
    show "served.more w3 = served.more w" using iss(4) ro(6) by (cases w; cases w2; cases w1) (simp add: w3_def)
    show "passwordFields pf b pw (drawn 16 w) mk (bufOf w ?a)"
      using mk ro(2-4) by (simp add: passwordFields_def b_def recoveryBody_fields)
    show "recoveryFields pf b code (bufOf w ?a)"
      using iss(2) by (auto simp: recoveryFields_def b_def recoveryBody_fields)
    show "tidy w w3 {}"
      by (rule tidy_heap [of _ _ "[zeroBytes 32, zeroBytes 32, zeroBytes 32, zeroBytes 32, zeroBytes 32]"])
        (auto simp: w3_def iss(3) ro(5) less_Suc_eq)
  qed
qed

section \<open>Opening the account again\<close>

text \<open>
  On every device, against a server that stored \<open>b\<close> and the wrapped private key: the password
  unlocks a session with the keys \<open>uk\<close> and \<open>pk\<close>, and the recovery code, however it is typed,
  recovers the same two.
\<close>

definition accountOpens ::
  "platform \<Rightarrow> json \<Rightarrow> jstr \<Rightarrow> jstr \<Rightarrow> jstr \<Rightarrow> jstr \<Rightarrow> bytes \<Rightarrow> bytes \<Rightarrow> bool" where
  "accountOpens pf b encrypted email pw code uk pk =
     ((\<forall>(device :: json option list app) tokens user label rememberEmail.
         keysExist device \<longrightarrow> quiet (rememberEmail email) \<longrightarrow>
         (\<exists>d. unlock pf (servedPrelogin b) (servedLogin b encrypted tokens user) rememberEmail email pw label device =
              (Inr (), d) \<and> sessionHolds d user uk pk)) \<and>
      (\<forall>(device :: json option list app) token typed.
         normalizeCrockford typed = normalizeCrockford code \<longrightarrow>
         (\<exists>rs d. recoverAccount pf (servedRecoverPrelogin b) (servedRecover b encrypted token) email typed device =
              (Inr rs, d) \<and> bufOf d (rs_userKey rs) = uk \<and> bufOf d (rs_privateKey rs) = pk)))"

lemma accountOpens_fields:
  assumes "kdfLaws pf" "passwordFields pf b pw salt mk uk" "recoveryFields pf b code uk" "opens pf encrypted uk pk"
  shows "accountOpens pf b encrypted email pw code uk pk"
  unfolding accountOpens_def
  using unlock_served [OF assms(1,2,4)] recover_served [OF assms(1,3,4)] by blast

text \<open>
  C2. Enrolment registers an account that opens. There is a moment when the server has accepted the
  enrolment; what was posted lets the master password unlock, and the recovery code recover, the
  same user key and private key on any device. The next thing the code does is to store the address.
  If that returns, the call returns that recovery code, whether or not the login that follows
  succeeded, and a session opened by the login holds those keys. If it throws, the call throws the
  same, and the code, which only this call held, is lost.
\<close>

theorem enrolled_account_opens:
  fixes w :: "(json option list, 'z) app_scheme"
  assumes "gcmLaw pf" "kdfLaws pf" "keyPairLaw pf" "argonLaw pf"
    and "pw \<noteq> []" "encodeURIComponent token = Inr tk"
    and "ack (length (sv_server w)) = Inr x" "localOnly (rememberEmail email)" "keysExist w"
  shows "\<exists>b code w1 uk pk. sv_server w1 = sv_server w @ [Some b] \<and>
    accountOpens pf b (textField b ''encryptedPrivateKey'') email pw code uk pk \<and>
    (case rememberEmail email w1 of
       (Inl e, v) \<Rightarrow> enroll pf (loggingPost ack) (loggingPost login) rememberEmail token email pw label w = (Inl e, v)
     | (Inr u, v) \<Rightarrow> \<exists>body w'.
         enroll pf (loggingPost ack) (loggingPost login) rememberEmail token email pw label w =
           (Inr \<lparr> eo_recoveryCode = code, eo_loggedIn = \<not> isl (login (Suc (length (sv_server w)))) \<rparr>, w') \<and>
         sv_server w' = sv_server w @ [Some b, Some body] \<and>
         (case login (Suc (length (sv_server w))) of Inl e \<Rightarrow> True | Inr l \<Rightarrow> sessionHolds w' (lr_user l) uk pk))"
proof -
  from enroll_run [where rememberEmail = rememberEmail and email = email and ack = ack, OF assms, of login label]
  obtain b code w1 salt mk uk pk where
    run: "sv_server w1 = sv_server w @ [Some b]"
      "passwordFields pf b pw salt mk uk" "opens pf (textField b ''encryptedPrivateKey'') uk pk"
      "recoveryFields pf b code uk" and
    after: "case rememberEmail email w1 of
       (Inl e, v) \<Rightarrow> enroll pf (loggingPost ack) (loggingPost login) rememberEmail token email pw label w = (Inl e, v)
     | (Inr u, v) \<Rightarrow> \<exists>body w'.
         enroll pf (loggingPost ack) (loggingPost login) rememberEmail token email pw label w =
           (Inr \<lparr> eo_recoveryCode = code, eo_loggedIn = \<not> isl (login (Suc (length (sv_server w)))) \<rparr>, w') \<and>
         sv_server w' = sv_server w @ [Some b, Some body] \<and>
         (case login (Suc (length (sv_server w))) of Inl e \<Rightarrow> True | Inr l \<Rightarrow> sessionHolds w' (lr_user l) uk pk)" .
  show ?thesis
    by (intro exI conjI) (rule run(1), rule accountOpens_fields [OF assms(2) run(2,4,3)], rule after)
qed

text \<open>
  C8. A finished recovery never loses the code. With a new password that is not empty,
  \<^verbatim>\<open>completeRecovery\<close> throws only what the
  server refused with a status of the 400s; for any other failure it returns the new code,
  unconfirmed. Either way what it posted opens, with the new password and with that code, to the
  unchanged user key and the private key that was wrapped under it, and it leaves no key of its own.
\<close>

theorem recovery_completes:
  fixes w :: "(json option list, 'z) app_scheme"
  assumes "gcmLaw pf" "kdfLaws pf" "argonLaw pf" "pw \<noteq> []" "rs_userKey session < length (wd_heap w)"
    and "opens pf encrypted (bufOf w (rs_userKey session)) private"
  shows "\<exists>b code w'.
    completeRecovery pf (loggingPost answer) session pw w =
      (case answer (length (sv_server w)) of
         Inr x \<Rightarrow> Inr \<lparr> ro_recoveryCode = code, ro_confirmed = True \<rparr>
       | Inl e \<Rightarrow> if refused e then Inl e else Inr \<lparr> ro_recoveryCode = code, ro_confirmed = False \<rparr>, w') \<and>
    sv_server w' = sv_server w @ [Some b] \<and>
    accountOpens pf b encrypted (rs_email session) pw code (bufOf w (rs_userKey session)) private \<and>
    tidy w w' {} \<and> ap_session w' = ap_session w"
proof -
  from completeRecovery_run [OF assms(1-5), of answer] obtain b code w' salt mk where
    "completeRecovery pf (loggingPost answer) session pw w =
       (case answer (length (sv_server w)) of
          Inr x \<Rightarrow> Inr \<lparr> ro_recoveryCode = code, ro_confirmed = True \<rparr>
        | Inl e \<Rightarrow> if refused e then Inl e else Inr \<lparr> ro_recoveryCode = code, ro_confirmed = False \<rparr>, w')"
    "sv_server w' = sv_server w @ [Some b]" "passwordFields pf b pw salt mk (bufOf w (rs_userKey session))"
    "recoveryFields pf b code (bufOf w (rs_userKey session))" "tidy w w' {}" "ap_session w' = ap_session w"
    "served.more w' = served.more w" .
  then show ?thesis using accountOpens_fields [OF assms(2) _ _ assms(6)] by blast
qed

text \<open>
  A failed login is reported as what it was. When the login request fails, \<^verbatim>\<open>unlock\<close>
  throws \<^verbatim>\<open>WrongMasterPasswordError\<close> for the code \<^verbatim>\<open>unauthorized\<close> and the very same error for
  everything else, the session is what it was, and every buffer the attempt made is zero.
\<close>

theorem failed_login_reported:
  fixes w :: "(json option list, 'z) app_scheme"
  assumes "kdfLaws pf" "remoteOnly prelogin"
    and "prelogin (js ''/api/auth/prelogin'') (Some (emailBody email)) w = (Inr pre, w1)"
    and "parseParams (pl_params pre) = Inr params" "fromBase64 (pl_kdfSalt pre) = Inr salt"
    and "masterBytes pf pw salt params = Inr mk" "login (length (sv_server w1)) = Inl e"
  shows "\<exists>w'. unlock pf prelogin (loggingPost login) rememberEmail email pw label w =
      (Inl (case e of ApiError Unauthorized status message body \<Rightarrow> WrongMasterPasswordError | _ \<Rightarrow> e), w') \<and>
    ap_session w' = ap_session w \<and> tidy w w' {}"
proof -
  have w1: "wd_heap w1 = wd_heap w" "ap_session w1 = ap_session w"
    using assms(2,3) unfolding remoteOnly_def by (metis snd_conv)+
  let ?n = "length (wd_heap w)"
  define w2 where "w2 = pushBuf (wrapBytes pf mk) (pushBuf mk w1)"
  let ?us = "\<lparr> us_authHash = authBytes pf mk, us_masterKey = ?n, us_wrappingKey = Suc ?n, us_destroyed = False \<rparr>"
  have start: "beginUnlock pf pw salt params w1 = (Inr ?us, w2)"
    unfolding w2_def using beginUnlock_run [OF assms(1,6), of w1] by (simp add: w1(1))
  have s2: "sv_server w2 = sv_server w1" "ap_session w2 = ap_session w"
    using same_session [of w2 w1] w1(2) by (simp_all add: w2_def)
  define w3 where "w3 = w2\<lparr> sv_server := sv_server w1 @ [Some (loginBody email (authBytes pf mk) label)] \<rparr>"
  define w4 where "w4 = snd (unlockDestroy ?us w3)"
  have "unlock pf prelogin (loggingPost login) rememberEmail email pw label w =
      (Inl (case e of ApiError Unauthorized status message body \<Rightarrow> WrongMasterPasswordError | _ \<Rightarrow> e), w4)"
    using assms(3-5,7) start
    by (simp add: unlock_def andThen_def ofResult_def tryFinally_def tryCatch_def loggingPost_def s2
        w3_def [symmetric] w4_def rethrowAs_run)
  moreover have "ap_session w4 = ap_session w3"
    unfolding w4_def unlockDestroy_def snd_conv by (rule same_session(1)) (rule zeroize_more(2))
  moreover have "ap_session w3 = ap_session w" by (simp add: w3_def s2)
  moreover have "wd_heap w3 = wd_heap w @ [mk, wrapBytes pf mk]" by (simp add: w3_def w2_def w1(1))
  then have "wd_heap w4 = wd_heap w @ [zeroBytes 32, zeroBytes 32]"
    using masterBytes_length [OF assms(1,6)] assms(1)
    by (simp add: w4_def unlockDestroy_def clearBuf_heap bufOf_def nth_append list_update_append)
  then have "tidy w w4 {}" by (rule tidy_heap) (auto simp: less_Suc_eq)
  ultimately show ?thesis by auto
qed

text \<open>
  A throw of \<^verbatim>\<open>rememberEmail\<close>, which comes after the server accepted the enrolment and outside
  the \<^verbatim>\<open>try\<close>, makes the whole call throw: the invite is spent and the code is lost.
\<close>

theorem remember_failure_loses_code:
  fixes w :: "(json option list, 'z) app_scheme"
  assumes laws: "gcmLaw pf" "kdfLaws pf" "keyPairLaw pf" "argonLaw pf"
    and inputs: "pw \<noteq> []" "encodeURIComponent token = Inr tk"
    and calls: "ack (length (sv_server w)) = Inr x" "\<And>v. rememberEmail email v = (Inl e, v)"
  shows "\<exists>b w'. enroll pf (loggingPost ack) login rememberEmail token email pw label w = (Inl e, w') \<and>
    sv_server w' = sv_server w @ [Some b]"
proof -
  obtain mk where mk: "masterBytes pf pw (drawn 16 w) DEFAULT_KDF_PARAMS = Inr mk"
    using masterBytes_default [OF laws(4) inputs(1)] by (metis length_drawn)
  from enrollUser_run [OF laws(1-3) mk] obtain er w1 uk pk where er: "enrollUser pf pw DEFAULT_KDF_PARAMS w = (Inr er, w1)"
    "er_userKey er = length (wd_heap w) + 2" "wd_heap w1 = wd_heap w @ [zeroBytes 32, zeroBytes 32, uk, pk]"
    "world.more w1 = world.more w" by metis
  have a: "er_userKey er < length (wd_heap w1)" by (simp add: er(2,3))
  from issueRecovery_run [OF laws(1,2,4) _ a, of "ret (er_userKey er)"] obtain code blob auth w2 where
    iss: "issueRecovery pf (ret (er_userKey er)) w1 = (Inr (code, blob, toBase64 auth), w2)"
      "world.more w2 = world.more w1" by (metis ret_def)
  have s2: "sv_server w2 = sv_server w" using same_session iss(2) er(4) by metis
  show ?thesis
    using er(1) iss(1) inputs(2) calls by (simp add: enroll_def andThen_def ofResult_def loggingPost_def s2)
qed

section \<open>The theorems on a concrete account\<close>

definition sampleAccount :: "json option list app" where
  "sampleAccount = \<lparr> wd_random = (\<lambda>i. 0), wd_heap = [replicate 32 7], sv_server = [], ap_session = createSession \<rparr>"

lemma sample_argon: "argonLaw samplePlatform"
  by (simp add: argonLaw_def callArgon2id_def DEFAULT_KDF_PARAMS_def jsObj_def samplePlatform_def)

lemma sampleAccount_ready: "keysExist sampleAccount" "sv_server sampleAccount = []" "0 < length (wd_heap sampleAccount)"
  "bufOf sampleAccount 0 = replicate 32 7"
  by (simp_all add: sampleAccount_def keysExist_def held_eq createSession_def bufOf_def)

theorem enrolled_account_opens_witness:
  "(\<exists>b body code w' uk pk.
      enroll samplePlatform (loggingPost (\<lambda>n. Inr ())) (loggingPost (\<lambda>n. Inl NetworkError)) (\<lambda>e w. (Inr (), w))
        (js ''t'') (js ''me'') (js ''pw'') [] sampleAccount = (Inr \<lparr> eo_recoveryCode = code, eo_loggedIn = False \<rparr>, w') \<and>
      sv_server w' = [Some b, Some body] \<and>
      accountOpens samplePlatform b (textField b ''encryptedPrivateKey'') (js ''me'') (js ''pw'') code uk pk) \<and>
   (\<exists>b w'. enroll samplePlatform (loggingPost (\<lambda>n. Inr ())) (loggingPost (\<lambda>n. Inl NetworkError)) (\<lambda>e w. (Inl (JsError []), w))
      (js ''t'') (js ''me'') (js ''pw'') [] sampleAccount = (Inl (JsError []), w') \<and> sv_server w' = [Some b])"
proof -
  have t: "encodeURIComponent (js ''t'') = Inr (js ''t'')" by code_simp
  have q: "localOnly ((\<lambda>e w. (Inr (), w)) (js ''me''))" "localOnly ((\<lambda>e w. (Inl (JsError []), w)) (js ''me''))"
    by (simp_all add: localOnly_def)
  note run = enrolled_account_opens [where email = "js ''me''" and ack = "\<lambda>n. Inr ()",
      OF sample_laws sample_argon _ t refl _ sampleAccount_ready(1), of "js ''pw''" _ "\<lambda>n. Inl NetworkError" "[]"]
  show ?thesis
    using run [where rememberEmail = "\<lambda>e w. (Inr (), w)", OF _ q(1)]
      run [where rememberEmail = "\<lambda>e w. (Inl (JsError []), w)", OF _ q(2)]
    unfolding sampleAccount_ready(2) by (simp add: js_simps) blast
qed

definition sampleRecovery :: RecoverySession where
  "sampleRecovery = \<lparr> rs_email = js ''me'', rs_userKey = 0, rs_privateKey = 0, rs_recoveryToken = [], rs_expiresIn = 600 \<rparr>"

theorem recovery_completes_witness:
  "\<exists>b code w'. completeRecovery samplePlatform (loggingPost (\<lambda>n. Inl NetworkError :: unit result)) sampleRecovery (js ''pw'') sampleAccount =
      (Inr \<lparr> ro_recoveryCode = code, ro_confirmed = False \<rparr>, w') \<and> sv_server w' = [Some b] \<and>
    accountOpens samplePlatform b (wrapText samplePlatform [9] (replicate 32 7) (replicate 12 0)) (js ''me'') (js ''pw'')
      code (replicate 32 7) [9]"
proof -
  have n: "rs_userKey sampleRecovery < length (wd_heap sampleAccount)" "js ''pw'' \<noteq> []"
    and e: "rs_email sampleRecovery = js ''me''" "rs_userKey sampleRecovery = 0"
    by (simp_all add: sampleRecovery_def sampleAccount_def js_simps)
  have "opens samplePlatform (wrapText samplePlatform [9] (replicate 32 7) (replicate 12 0))
      (bufOf sampleAccount (rs_userKey sampleRecovery)) [9]"
    unfolding e sampleAccount_ready(4) by (rule opens_wrapText [OF sample_laws(1)]) simp_all
  from recovery_completes [OF sample_laws(1,2) sample_argon n(2) n(1) this, of "\<lambda>n. Inl NetworkError :: unit result"]
  show ?thesis unfolding sampleAccount_ready(2,4) e by (simp add: refused_def) (elim exE conjE, intro exI conjI)
qed

theorem failed_login_reported_witness:
  "\<exists>w'. unlock samplePlatform (\<lambda>path body w. (Inr \<lparr> pl_kdfSalt = toBase64 (replicate 16 0), pl_params = DEFAULT_KDF_PARAMS_JSON \<rparr>, w))
      (loggingPost (\<lambda>n. Inl unauthorizedError)) (\<lambda>e w. (Inr (), w)) (js ''me'') (js ''pw'') [] sampleAccount =
      (Inl WrongMasterPasswordError, w') \<and> tidy sampleAccount w' {}"
proof -
  let ?pre = "\<lparr> pl_kdfSalt = toBase64 (replicate 16 0), pl_params = DEFAULT_KDF_PARAMS_JSON \<rparr>"
  obtain mk where mk: "masterBytes samplePlatform (js ''pw'') (replicate 16 0) DEFAULT_KDF_PARAMS = Inr mk"
    by (rule masterBytes_default [OF sample_argon, of "js ''pw''" "replicate 16 0"]) (simp_all add: js_simps)
  have r: "remoteOnly (\<lambda>path body w. (Inr ?pre, w))" by (simp add: remoteOnly_def)
  have p: "parseParams (pl_params ?pre) = Inr DEFAULT_KDF_PARAMS" "fromBase64 (pl_kdfSalt ?pre) = Inr (replicate 16 0)"
    by (simp_all add: parseParams_default fromBase64_toBase64)
  show ?thesis
    using failed_login_reported [where prelogin = "\<lambda>path body w. (Inr ?pre, w)" and login = "\<lambda>n. Inl unauthorizedError",
        OF sample_laws(2) r refl p mk refl, of "\<lambda>e w. (Inr (), w)" "js ''me''" "[]" sampleAccount]
    by (auto simp: unauthorizedError_def)
qed

end
