(* ===== verification/ServiceWorker.thy ===== *)
theory ServiceWorker
  imports Errors "HOL-Library.List_Lexorder" "HOL-Library.Multiset"
begin

text \<open>
  The service worker (\<^verbatim>\<open>apps/web/src/sw\<close>): how a request is routed, what is read from and
  written to the cache, the precached shell and the name of its cache. Parsing a URL is the
  platform's, as is the network; the cache is one cache of the browser, and the worker's are those
  of its \<^verbatim>\<open>CacheStorage\<close>, by name.

  Shown: no request to the API reads or changes a cache; a navigation without network gets the
  shell; an asset once cached is served without network; activation leaves one cache, whose name
  does not depend on the order of the build's files.
\<close>

section \<open>Routing\<close>

record SwUrl =
  su_origin :: jstr
  su_pathname :: jstr

type_synonym sw_parser = "jstr \<Rightarrow> SwUrl option"

record RoutableRequest =
  rq_url :: jstr
  rq_mode :: "jstr option"

datatype Route = Bypass | CacheFirst | NetworkFirst | NetworkOnly

definition pathRoute :: "jstr \<Rightarrow> jstr option \<Rightarrow> Route" where
  "pathRoute pathname mode =
     (if pathname = js ''/api'' \<or> startsWith pathname (js ''/api/'') then Bypass
      else if mode = Some (js ''navigate'') then NetworkFirst
      else if startsWith pathname (js ''/assets/'') then CacheFirst
      else NetworkOnly)"

text \<open>\<^verbatim>\<open>new URL\<close> throws a \<^verbatim>\<open>TypeError\<close> on what it cannot parse.\<close>

definition route :: "sw_parser \<Rightarrow> RoutableRequest \<Rightarrow> Route result" where
  "route parse request =
     (case parse (rq_url request) of
        None \<Rightarrow> Inl TypeError | Some u \<Rightarrow> Inr (pathRoute (su_pathname u) (rq_mode request)))"

section \<open>Handling a request\<close>

record SwResponse =
  sr_status :: nat
  sr_body :: jstr

definition sr_ok :: "SwResponse \<Rightarrow> bool" where
  "sr_ok r = (200 \<le> sr_status r \<and> sr_status r \<le> 299)"

text \<open>
  A cache and the network, whose state is the platform's. A fetch names its request by URL; writing
  to a cache may fail.
\<close>

type_synonym 'n fetcher = "jstr \<Rightarrow> 'n \<Rightarrow> SwResponse result \<times> 'n"
type_synonym 'c matcher = "'c \<Rightarrow> jstr \<Rightarrow> SwResponse option"
type_synonym 'c putter = "'c \<Rightarrow> jstr \<Rightarrow> SwResponse \<Rightarrow> unit result \<times> 'c"

definition handleRequest ::
  "sw_parser \<Rightarrow> 'c matcher \<Rightarrow> 'c putter \<Rightarrow> 'n fetcher \<Rightarrow> jstr \<Rightarrow> RoutableRequest \<Rightarrow> 'c \<times> 'n \<Rightarrow>
   SwResponse result \<times> 'c \<times> 'n" where
  "handleRequest parse matchIn putIn fetch shellUrl request w =
     (case w of (cache, net) \<Rightarrow>
        (case route parse request of
           Inl e \<Rightarrow> (Inl e, cache, net)
         | Inr CacheFirst \<Rightarrow>
             (case matchIn cache (rq_url request) of
                Some cached \<Rightarrow> (Inr cached, cache, net)
              | None \<Rightarrow>
                  (case fetch (rq_url request) net of
                     (Inl e, net') \<Rightarrow> (Inl e, cache, net')
                   | (Inr response, net') \<Rightarrow>
                       if sr_ok response then
                         (case putIn cache (rq_url request) response of
                            (Inl e, cache') \<Rightarrow> (Inl e, cache', net')
                          | (Inr u, cache') \<Rightarrow> (Inr response, cache', net'))
                       else (Inr response, cache, net')))
         | Inr NetworkFirst \<Rightarrow>
             (case fetch (rq_url request) net of
                (Inr response, net') \<Rightarrow> (Inr response, cache, net')
              | (Inl error, net') \<Rightarrow>
                  (case matchIn cache (rq_url request) of
                     Some shell \<Rightarrow> (Inr shell, cache, net')
                   | None \<Rightarrow>
                       (case matchIn cache shellUrl of
                          Some shell \<Rightarrow> (Inr shell, cache, net')
                        | None \<Rightarrow> (Inl error, cache, net'))))
         | Inr _ \<Rightarrow> (case fetch (rq_url request) net of (r, net') \<Rightarrow> (r, cache, net'))))"

section \<open>The precached shell\<close>

definition precacheUrl :: "jstr \<Rightarrow> jstr \<Rightarrow> jstr" where
  "precacheUrl shellUrl name = (if name = js ''index.html'' then shellUrl else js ''/'' @ name)"

definition precacheOne :: "'c putter \<Rightarrow> 'n fetcher \<Rightarrow> jstr \<Rightarrow> 'c \<times> 'n \<Rightarrow> unit result \<times> 'c \<times> 'n" where
  "precacheOne putIn fetch url w =
     (case w of (cache, net) \<Rightarrow>
        (case fetch url net of
           (Inl e, net') \<Rightarrow> (Inl e, cache, net')
         | (Inr response, net') \<Rightarrow>
             if \<not> sr_ok response
             then (Inl (JsError (js ''precache failed for '' @ url @ js '': '' @ showNat (sr_status response))), cache, net')
             else (case putIn cache url response of (r, cache') \<Rightarrow> (r, cache', net'))))"

text \<open>\<^verbatim>\<open>Promise.all\<close>: one file's failure does not stop the others, and is the result.\<close>

fun precacheShell :: "'c putter \<Rightarrow> 'n fetcher \<Rightarrow> jstr \<Rightarrow> jstr list \<Rightarrow> 'c \<times> 'n \<Rightarrow> unit result \<times> 'c \<times> 'n" where
  "precacheShell putIn fetch shellUrl [] w = (Inr (), w)"
| "precacheShell putIn fetch shellUrl (name # names) w =
     (case precacheOne putIn fetch (precacheUrl shellUrl name) w of
        (r, w') \<Rightarrow> (case precacheShell putIn fetch shellUrl names w' of
           (r', w'') \<Rightarrow> (case r of Inl e \<Rightarrow> Inl e | Inr u \<Rightarrow> r', w'')))"

definition buildPrecacheList :: "jstr list \<Rightarrow> jstr list" where
  "buildPrecacheList emitted = js ''index.html'' # sort (filter (\<lambda>name. startsWith name (js ''assets/'')) emitted)"

text \<open>FNV-1a on 32 bits, and \<^verbatim>\<open>toString(36)\<close>.\<close>

definition hashStep :: "code_unit \<Rightarrow> 32 word \<Rightarrow> 32 word" where
  "hashStep c hash = (hash XOR ucast c) * 0x01000193"

definition digit36 :: "nat \<Rightarrow> code_unit" where
  "digit36 n = (if n < 10 then 48 + of_nat n else 87 + of_nat n)"

fun base36 :: "nat \<Rightarrow> jstr" where
  "base36 n = (if n < 36 then [digit36 n] else base36 (n div 36) @ [digit36 (n mod 36)])"

declare base36.simps [simp del]

definition cacheName :: "jstr list \<Rightarrow> jstr" where
  "cacheName precache =
     js ''keyhole-shell-'' @ base36 (unat (fold hashStep (join [10] (sort precache)) 0x811c9dc5))"

section \<open>The worker\<close>

text \<open>The caches by name; \<^verbatim>\<open>caches.open\<close> makes an empty one where there is none.\<close>

record ('c, 'n) worker =
  wk_caches :: "(jstr, 'c) jmap"
  wk_net :: 'n

definition openCache :: "'c \<Rightarrow> jstr \<Rightarrow> ('c, 'n) worker \<Rightarrow> 'c" where
  "openCache emptyCache name wk = (case mapGet (wk_caches wk) name of None \<Rightarrow> emptyCache | Some c \<Rightarrow> c)"

definition withCache ::
  "'c \<Rightarrow> jstr \<Rightarrow> ('c \<times> 'n \<Rightarrow> 'a \<times> 'c \<times> 'n) \<Rightarrow> ('c, 'n) worker \<Rightarrow> 'a \<times> ('c, 'n) worker" where
  "withCache emptyCache name f wk =
     (case f (openCache emptyCache name wk, wk_net wk) of (r, c, net) \<Rightarrow>
        (r, wk\<lparr> wk_caches := mapSet (wk_caches wk) name c, wk_net := net \<rparr>))"

definition deleteStaleCaches :: "jstr \<Rightarrow> (jstr, 'c) jmap \<Rightarrow> (jstr, 'c) jmap" where
  "deleteStaleCaches currentName caches =
     fold (\<lambda>name m. mapDelete m name) (filter (\<lambda>name. name \<noteq> currentName) (map fst caches)) caches"

definition onInstall ::
  "'c \<Rightarrow> 'c putter \<Rightarrow> 'n fetcher \<Rightarrow> jstr list \<Rightarrow> ('c, 'n) worker \<Rightarrow> unit result \<times> ('c, 'n) worker" where
  "onInstall emptyCache putIn fetch precache =
     withCache emptyCache (cacheName precache) (precacheShell putIn fetch (js ''/'') precache)"

definition onActivate :: "jstr list \<Rightarrow> ('c, 'n) worker \<Rightarrow> ('c, 'n) worker" where
  "onActivate precache wk = wk\<lparr> wk_caches := deleteStaleCaches (cacheName precache) (wk_caches wk) \<rparr>"

text \<open>\<open>None\<close>: another origin, left to the browser.\<close>

definition onFetch ::
  "sw_parser \<Rightarrow> 'c \<Rightarrow> 'c matcher \<Rightarrow> 'c putter \<Rightarrow> 'n fetcher \<Rightarrow> jstr list \<Rightarrow> jstr \<Rightarrow> RoutableRequest \<Rightarrow>
   ('c, 'n) worker \<Rightarrow> SwResponse result option \<times> ('c, 'n) worker" where
  "onFetch parse emptyCache matchIn putIn fetch precache scope request wk =
     (case (parse scope, parse (rq_url request)) of
        (Some s, Some u) \<Rightarrow>
          if su_origin u \<noteq> su_origin s then (None, wk)
          else apfst Some (withCache emptyCache (cacheName precache)
            (handleRequest parse matchIn putIn fetch (js ''/'') request) wk)
      | _ \<Rightarrow> (None, wk))"

definition registerServiceWorker :: "bool \<Rightarrow> bool \<Rightarrow> ('n \<Rightarrow> 'n) \<Rightarrow> 'n \<Rightarrow> 'n" where
  "registerServiceWorker isProduction supported register net =
     (if \<not> isProduction then net else if \<not> supported then net else register net)"

section \<open>The contract of a cache\<close>

text \<open>Two URLs name the same entry when their keys, the URLs they resolve to, are equal.\<close>

locale cache_like =
  fixes matchIn :: "'c \<Rightarrow> jstr \<Rightarrow> SwResponse option"
    and putIn :: "'c \<Rightarrow> jstr \<Rightarrow> SwResponse \<Rightarrow> unit result \<times> 'c"
    and key :: "jstr \<Rightarrow> jstr"
  assumes match_put: "putIn c k v = (Inr (), c') \<Longrightarrow> matchIn c' j = (if key j = key k then Some v else matchIn c j)"
    and put_failed: "putIn c k v = (Inl e, c') \<Longrightarrow> c' = c"
begin

lemma put_match: "putIn c k v = (r, c') \<Longrightarrow> matchIn c' j = (if r = Inr () \<and> key j = key k then Some v else matchIn c j)"
  using match_put put_failed by (cases r) fastforce+

lemma only_assets_change:
  assumes "handleRequest parse matchIn putIn fetch shell request (c, net) = (r, c', net')"
    and "matchIn c' j \<noteq> matchIn c j"
  shows "route parse request = Inr CacheFirst \<and> key j = key (rq_url request)"
proof (cases "route parse request")
  case (Inl e)
  then show ?thesis using assms by (simp add: handleRequest_def)
next
  case (Inr way)
  then have "way = CacheFirst"
    using assms by (cases way) (auto simp: handleRequest_def split: prod.splits sum.splits option.splits)
  then show ?thesis
    using assms Inr
    by (auto simp: handleRequest_def dest!: put_match split: prod.splits sum.splits option.splits if_splits)
qed

lemma asset_kept:
  assumes "handleRequest parse matchIn putIn fetch shell request (c, net) = (Inr response, c', net')"
    and "route parse request = Inr CacheFirst" "sr_ok response"
  shows "matchIn c' (rq_url request) = Some response"
  using assms
  by (auto simp: handleRequest_def dest!: match_put [where j = "rq_url request"] split: prod.splits sum.splits option.splits if_splits)

lemma asset_served: "route parse request = Inr CacheFirst \<Longrightarrow> matchIn c (rq_url request) = Some response \<Longrightarrow>
    handleRequest parse matchIn putIn fetch shell request (c, net) = (Inr response, c, net)"
  by (simp add: handleRequest_def)

lemma precacheOne_kept:
  assumes "precacheOne putIn fetch url (c, net) = (r, c', net')" "\<exists>s. matchIn c j = Some s \<and> sr_ok s"
  shows "\<exists>s. matchIn c' j = Some s \<and> sr_ok s"
  using assms by (auto simp: precacheOne_def dest!: put_match [where j = j] split: prod.splits sum.splits if_splits)

lemma precacheOne_stored:
  assumes "precacheOne putIn fetch url (c, net) = (Inr (), c', net')"
  shows "\<exists>s. matchIn c' url = Some s \<and> sr_ok s"
  using assms
  by (auto simp: precacheOne_def dest!: match_put [where j = url] split: prod.splits sum.splits if_splits)

lemma precache_kept:
  "precacheShell putIn fetch shell names (c, net) = (r, c', net') \<Longrightarrow> \<exists>s. matchIn c j = Some s \<and> sr_ok s \<Longrightarrow>
   \<exists>s. matchIn c' j = Some s \<and> sr_ok s"
proof (induction names arbitrary: c net r)
  case (Cons name names)
  obtain r1 c1 n1 where one: "precacheOne putIn fetch (precacheUrl shell name) (c, net) = (r1, c1, n1)"
    by (metis prod_cases3)
  obtain r2 c2 n2 where rest: "precacheShell putIn fetch shell names (c1, n1) = (r2, c2, n2)" by (metis prod_cases3)
  have eq: "c2 = c'" "n2 = net'" using Cons.prems(1) one rest by (simp_all split: sum.splits)
  show ?case using Cons.IH [OF rest [unfolded eq]] precacheOne_kept [OF one Cons.prems(2)] by blast
qed simp

lemma precache_stored:
  "precacheShell putIn fetch shell names (c, net) = (Inr (), c', net') \<Longrightarrow> name \<in> set names \<Longrightarrow>
   \<exists>s. matchIn c' (precacheUrl shell name) = Some s \<and> sr_ok s"
proof (induction names arbitrary: c net)
  case (Cons n names)
  obtain r1 c1 n1 where one: "precacheOne putIn fetch (precacheUrl shell n) (c, net) = (r1, c1, n1)"
    by (metis prod_cases3)
  obtain r2 c2 n2 where rest: "precacheShell putIn fetch shell names (c1, n1) = (r2, c2, n2)" by (metis prod_cases3)
  have eq: "r1 = Inr ()" "r2 = Inr ()" "c2 = c'" "n2 = net'" using Cons.prems(1) one rest by (auto split: sum.splits)
  show ?case
  proof (cases "name = n")
    case True
    then show ?thesis
      using precache_kept [OF rest [unfolded eq]] precacheOne_stored [OF one [unfolded eq]] by blast
  next
    case False
    then show ?thesis using Cons.IH [OF rest [unfolded eq]] Cons.prems(2) by auto
  qed
qed simp

lemma offline_navigation:
  assumes "route parse request = Inr NetworkFirst" "fetch (rq_url request) net = (Inl e, net')"
    and "matchIn c shell = Some s"
  shows "handleRequest parse matchIn putIn fetch shell request (c, net) =
    (Inr (case matchIn c (rq_url request) of Some own \<Rightarrow> own | None \<Rightarrow> s), c, net')"
  using assms by (auto simp: handleRequest_def split: option.split)

end

section \<open>The browser's cache\<close>

text \<open>Entries by resolved URL, and a quota.\<close>

record BrowserCache =
  bc_entries :: "(jstr, SwResponse) jmap"
  bc_fits :: "(jstr, SwResponse) jmap \<Rightarrow> bool"

definition cacheMatch :: "(jstr \<Rightarrow> jstr) \<Rightarrow> BrowserCache \<Rightarrow> jstr \<Rightarrow> SwResponse option" where
  "cacheMatch resolve c url = mapGet (bc_entries c) (resolve url)"

definition cachePut :: "(jstr \<Rightarrow> jstr) \<Rightarrow> BrowserCache \<Rightarrow> jstr \<Rightarrow> SwResponse \<Rightarrow> unit result \<times> BrowserCache" where
  "cachePut resolve c url response =
     (let entries = mapSet (bc_entries c) (resolve url) response in
      if bc_fits c entries then (Inr (), c\<lparr> bc_entries := entries \<rparr>) else (Inl (JsError (js ''QuotaExceededError'')), c))"

interpretation bc: cache_like "cacheMatch resolve" "cachePut resolve" resolve for resolve
proof unfold_locales
  fix c c' :: BrowserCache and k j v e
  show "cachePut resolve c k v = (Inr (), c') \<Longrightarrow>
      cacheMatch resolve c' j = (if resolve j = resolve k then Some v else cacheMatch resolve c j)"
    by (auto simp: cachePut_def cacheMatch_def mapGet_set Let_def split: if_splits)
  show "cachePut resolve c k v = (Inl e, c') \<Longrightarrow> c' = c"
    by (auto simp: cachePut_def Let_def split: if_splits)
qed

section \<open>The properties\<close>

text \<open>Any number of requests, one after the other.\<close>

fun handleAll ::
  "sw_parser \<Rightarrow> 'c matcher \<Rightarrow> 'c putter \<Rightarrow> 'n fetcher \<Rightarrow> jstr \<Rightarrow> RoutableRequest list \<Rightarrow> 'c \<times> 'n \<Rightarrow>
   SwResponse result list \<times> 'c \<times> 'n" where
  "handleAll parse matchIn putIn fetch shell [] w = ([], w)"
| "handleAll parse matchIn putIn fetch shell (request # requests) w =
     (case handleRequest parse matchIn putIn fetch shell request w of
        (r, w') \<Rightarrow> apfst (\<lambda>rs. r # rs) (handleAll parse matchIn putIn fetch shell requests w'))"

definition apiRequest :: "sw_parser \<Rightarrow> RoutableRequest \<Rightarrow> bool" where
  "apiRequest parse request =
     (case parse (rq_url request) of
        None \<Rightarrow> False | Some u \<Rightarrow> su_pathname u = js ''/api'' \<or> startsWith (su_pathname u) (js ''/api/''))"

lemma api_bypass: "apiRequest parse request \<Longrightarrow> route parse request = Inr Bypass"
  by (auto simp: apiRequest_def route_def pathRoute_def split: option.splits)

lemma handleAll_changes:
  assumes "handleAll parse (cacheMatch resolve) (cachePut resolve) fetch shell requests (c, net) = (rs, c', net')"
    and "cacheMatch resolve c' j \<noteq> cacheMatch resolve c j"
  shows "\<exists>request \<in> set requests. route parse request = Inr CacheFirst \<and> resolve j = resolve (rq_url request)"
  using assms
proof (induction requests arbitrary: c net rs)
  case (Cons request requests)
  obtain r c1 n1 where one: "handleRequest parse (cacheMatch resolve) (cachePut resolve) fetch shell request (c, net) = (r, c1, n1)"
    by (metis prod_cases3)
  obtain rs1 where rest: "handleAll parse (cacheMatch resolve) (cachePut resolve) fetch shell requests (c1, n1) = (rs1, c', net')"
    using Cons.prems(1) one by (cases "handleAll parse (cacheMatch resolve) (cachePut resolve) fetch shell requests (c1, n1)") simp
  show ?case
  proof (cases "cacheMatch resolve c1 j = cacheMatch resolve c j")
    case True
    then show ?thesis using Cons.IH [OF rest] Cons.prems(2) by auto
  next
    case False
    then show ?thesis using bc.only_assets_change [OF one] by auto
  qed
qed simp

text \<open>
  C14. The API never touches the disk. A request to \<^verbatim>\<open>/api\<close> or below it is the network's answer,
  the same whatever is cached, and leaves the cache as it was; and over any sequence of requests
  the only entries that change are those of requests for assets, none of which is an API request.
\<close>

theorem api_never_cached:
  assumes "handleAll parse (cacheMatch resolve) (cachePut resolve) fetch shell requests (c, net) = (rs, c', net')"
  shows "(\<forall>request cache n. apiRequest parse request \<longrightarrow>
      handleRequest parse (cacheMatch resolve) (cachePut resolve) fetch shell request (cache, n) =
        (fst (fetch (rq_url request) n), cache, snd (fetch (rq_url request) n))) \<and>
    (\<forall>j. cacheMatch resolve c' j \<noteq> cacheMatch resolve c j \<longrightarrow>
      (\<exists>request \<in> set requests. resolve j = resolve (rq_url request) \<and> \<not> apiRequest parse request \<and>
         (\<exists>u. parse (rq_url request) = Some u \<and> startsWith (su_pathname u) (js ''/assets/''))))"
proof (intro conjI allI impI)
  fix request cache n
  assume "apiRequest parse request"
  then show "handleRequest parse (cacheMatch resolve) (cachePut resolve) fetch shell request (cache, n) =
        (fst (fetch (rq_url request) n), cache, snd (fetch (rq_url request) n))"
    by (simp add: handleRequest_def api_bypass split: prod.split)
next
  fix j
  assume "cacheMatch resolve c' j \<noteq> cacheMatch resolve c j"
  then obtain request where r: "request \<in> set requests" "route parse request = Inr CacheFirst" "resolve j = resolve (rq_url request)"
    using handleAll_changes [OF assms] by blast
  have "\<exists>u. parse (rq_url request) = Some u \<and> startsWith (su_pathname u) (js ''/assets/'')"
    using r(2) by (auto simp: route_def pathRoute_def split: option.splits if_splits)
  moreover have "\<not> apiRequest parse request" using r(2) api_bypass by fastforce
  ultimately show "\<exists>request \<in> set requests. resolve j = resolve (rq_url request) \<and> \<not> apiRequest parse request \<and>
         (\<exists>u. parse (rq_url request) = Some u \<and> startsWith (su_pathname u) (js ''/assets/''))"
    using r(1,3) by blast
qed

lemma deleteStale_fold:
  "fold (\<lambda>name m. mapDelete m name) names m = filter (\<lambda>(k, v). k \<notin> set names) m"
proof (induction names arbitrary: m)
  case Nil
  then show ?case by (simp add: case_prod_unfold)
next
  case (Cons n names)
  have "filter (\<lambda>(k, v). k \<notin> set names) (mapDelete m n) = filter (\<lambda>(k, v). k \<notin> set (n # names)) m"
    by (simp add: mapDelete_def AList.delete_eq filter_filter case_prod_unfold conj_commute eq_commute)
  then show ?case using Cons.IH by simp
qed

lemma deleteStale_names: "deleteStaleCaches name caches = filter (\<lambda>(k, v). k = name) caches"
  unfolding deleteStaleCaches_def deleteStale_fold by (rule filter_cong) (auto, force)

lemma openCache_active: "openCache e (cacheName pre) (onActivate pre wk) = openCache e (cacheName pre) wk"
proof -
  have "map_of (filter (\<lambda>(k, v). k = name) m) name = map_of m name" for name and m :: "(jstr, 'a) jmap"
    by (induction m) auto
  then show ?thesis unfolding openCache_def onActivate_def deleteStale_names mapGet_def by simp
qed

text \<open>
  An installed application opens offline. When the installation succeeded and the new worker
  was activated, every cache but this build's is gone, and a navigation of this origin outside the
  API that cannot reach the network is answered with a page the installation, or an earlier
  request, stored with a good status; a failed file fails the installation.
\<close>

theorem installed_shell_opens_offline:
  assumes "onInstall emptyCache (cachePut resolve) fetch (buildPrecacheList emitted) wk = (Inr (), wk1)"
    and "wk2 = onActivate (buildPrecacheList emitted) wk1"
    and "parse scope = Some s" "parse (rq_url request) = Some u" "su_origin u = su_origin s" "\<not> apiRequest parse request"
    and "rq_mode request = Some (js ''navigate'')" "offline (rq_url request) (wk_net wk2) = (Inl e, net)"
  shows "set (map fst (wk_caches wk2)) = {cacheName (buildPrecacheList emitted)} \<and>
    (\<exists>page wk3. onFetch parse emptyCache (cacheMatch resolve) (cachePut resolve) offline (buildPrecacheList emitted) scope request wk2 =
        (Some (Inr page), wk3) \<and>
      (let cache = openCache emptyCache (cacheName (buildPrecacheList emitted)) wk2 in
         cacheMatch resolve cache (rq_url request) = Some page \<or> cacheMatch resolve cache (js ''/'') = Some page \<and> sr_ok page))"
proof -
  let ?pre = "buildPrecacheList emitted" and ?name = "cacheName (buildPrecacheList emitted)"
  obtain c n where run: "precacheShell (cachePut resolve) fetch (js ''/'') ?pre (openCache emptyCache ?name wk, wk_net wk) = (Inr (), c, n)"
    and wk1: "wk1 = wk\<lparr> wk_caches := mapSet (wk_caches wk) ?name c, wk_net := n \<rparr>"
    using assms(1) by (auto simp: onInstall_def withCache_def split: prod.splits)
  have "js ''index.html'' \<in> set ?pre" by (simp add: buildPrecacheList_def)
  from bc.precache_stored [OF run this] obtain shell where shell: "cacheMatch resolve c (js ''/'') = Some shell" "sr_ok shell"
    by (auto simp: precacheUrl_def)
  have c: "openCache emptyCache ?name wk2 = c"
    unfolding assms(2) openCache_active by (simp add: wk1 openCache_def mapGet_set)
  have "mapGet (wk_caches wk1) ?name = Some c" by (simp add: wk1 mapGet_set)
  then have "(?name, c) \<in> set (wk_caches wk1)" unfolding mapGet_def by (rule map_of_SomeD)
  then have names: "set (map fst (wk_caches wk2)) = {?name}"
    by (force simp: assms(2) onActivate_def deleteStale_names)
  have way: "route parse request = Inr NetworkFirst"
    using assms(4,6,7) by (auto simp: route_def pathRoute_def apiRequest_def)
  note off = bc.offline_navigation [where fetch = offline and resolve = resolve, OF way assms(8) shell(1)]
  show ?thesis
    using names assms(3-5) shell
    by (auto simp: Let_def onFetch_def withCache_def c off split: option.split)
qed

text \<open>
  A cached asset needs no network. Once a request for an asset was answered with a good
  status, the same request is answered with the same response, without the network, whatever
  requests for other URLs came in between.
\<close>

theorem asset_served_from_cache:
  assumes "handleRequest parse (cacheMatch resolve) (cachePut resolve) fetch shell request (c, net) = (Inr response, c1, net1)"
    and "route parse request = Inr CacheFirst" "sr_ok response"
    and "handleAll parse (cacheMatch resolve) (cachePut resolve) fetch shell requests (c1, net1) = (rs, c2, net2)"
    and "\<And>other. other \<in> set requests \<Longrightarrow> resolve (rq_url other) \<noteq> resolve (rq_url request)"
  shows "handleRequest parse (cacheMatch resolve) (cachePut resolve) fetch' shell request (c2, net2) = (Inr response, c2, net2)"
proof -
  have "cacheMatch resolve c1 (rq_url request) = Some response" by (rule bc.asset_kept [OF assms(1-3)])
  moreover have "cacheMatch resolve c2 (rq_url request) = cacheMatch resolve c1 (rq_url request)"
    using handleAll_changes [OF assms(4)] assms(5) by metis
  ultimately show ?thesis using bc.asset_served [OF assms(2)] by simp
qed

text \<open>
  The cache's name is the build's. It does not depend on the order in which the build listed
  its files, and the precached list is the shell and the assets only.
\<close>

theorem cache_name_of_build:
  assumes "mset files = mset files'"
  shows "cacheName files = cacheName files' \<and> buildPrecacheList files = buildPrecacheList files' \<and>
    startsWith (cacheName files) (js ''keyhole-shell-'') \<and>
    set (buildPrecacheList files) = insert (js ''index.html'') {f \<in> set files. startsWith f (js ''assets/'')}"
proof -
  have sorted: "sort xs = sort ys" if "mset xs = mset ys" for xs ys :: "jstr list"
    using that by (metis properties_for_sort mset_sort sorted_sort)
  have "cacheName files = cacheName files'" by (simp add: cacheName_def sorted [OF assms])
  moreover have "buildPrecacheList files = buildPrecacheList files'"
    unfolding buildPrecacheList_def by (intro arg_cong2 [where f = Cons] refl sorted) (simp add: assms)
  moreover have "startsWith (cacheName files) (js ''keyhole-shell-'')" by (simp add: cacheName_def startsWith_def)
  moreover have "set (buildPrecacheList files) = insert (js ''index.html'') {f \<in> set files. startsWith f (js ''assets/'')}"
    by (auto simp: buildPrecacheList_def)
  ultimately show ?thesis by blast
qed

section \<open>The theorems on a concrete worker\<close>

definition samplePath :: sw_parser where
  "samplePath url = Some \<lparr> su_origin = [], su_pathname = url \<rparr>"

definition sampleFetch :: "unit fetcher" where
  "sampleFetch url net = (Inr \<lparr> sr_status = 200, sr_body = url \<rparr>, net)"

definition sampleCache :: BrowserCache where
  "sampleCache = \<lparr> bc_entries = [], bc_fits = (\<lambda>x. True) \<rparr>"

lemma sample_paths: "js ''/api/sync'' \<noteq> js ''/api''" "startsWith (js ''/api/sync'') (js ''/api/'')"
  "\<not> startsWith (js ''/assets/a'') (js ''/api/'')" "js ''/assets/a'' \<noteq> js ''/api''"
  "startsWith (js ''/assets/a'') (js ''/assets/'')" "\<not> startsWith (js ''/x'') (js ''/api/'')" "js ''/x'' \<noteq> js ''/api''"
  by code_simp+

theorem api_never_cached_witness:
  "handleRequest samplePath (cacheMatch id) (cachePut id) sampleFetch (js ''/'') \<lparr> rq_url = js ''/api/sync'', rq_mode = None \<rparr>
     (sampleCache, ()) = (Inr \<lparr> sr_status = 200, sr_body = js ''/api/sync'' \<rparr>, sampleCache, ())"
proof -
  have run: "handleAll samplePath (cacheMatch id) (cachePut id) sampleFetch (js ''/'') [] (sampleCache, ()) = ([], sampleCache, ())"
    by simp
  have api: "apiRequest samplePath \<lparr> rq_url = js ''/api/sync'', rq_mode = None \<rparr>"
    using sample_paths(2) by (simp add: apiRequest_def samplePath_def)
  show ?thesis using api_never_cached [OF run] api by (simp add: sampleFetch_def)
qed

theorem installed_shell_opens_offline_witness:
  "\<exists>page wk wk3. onInstall sampleCache (cachePut id) sampleFetch (buildPrecacheList []) \<lparr> wk_caches = [], wk_net = () \<rparr> = (Inr (), wk) \<and>
     onFetch samplePath sampleCache (cacheMatch id) (cachePut id) (\<lambda>u n. (Inl NetworkError, n)) (buildPrecacheList []) []
       \<lparr> rq_url = js ''/x'', rq_mode = Some (js ''navigate'') \<rparr> (onActivate (buildPrecacheList []) wk) = (Some (Inr page), wk3)"
proof -
  let ?wk = "\<lparr> wk_caches = [(cacheName (buildPrecacheList []), sampleCache\<lparr> bc_entries := [(js ''/'', \<lparr> sr_status = 200, sr_body = js ''/'' \<rparr>)] \<rparr>)],
    wk_net = () \<rparr>"
  have run: "onInstall sampleCache (cachePut id) sampleFetch (buildPrecacheList []) \<lparr> wk_caches = [], wk_net = () \<rparr> = (Inr (), ?wk)"
    by (simp add: onInstall_def withCache_def openCache_def mapGet_def buildPrecacheList_def precacheUrl_def precacheOne_def
        sampleFetch_def sr_ok_def cachePut_def sampleCache_def mapSet_def Let_def)
  have api: "\<not> apiRequest samplePath \<lparr> rq_url = js ''/x'', rq_mode = Some (js ''navigate'') \<rparr>"
    using sample_paths(6,7) by (simp add: apiRequest_def samplePath_def)
  let ?q = "\<lparr> rq_url = js ''/x'', rq_mode = Some (js ''navigate'') \<rparr>"
  have p: "samplePath [] = Some \<lparr> su_origin = [], su_pathname = [] \<rparr>"
    "samplePath (rq_url ?q) = Some \<lparr> su_origin = [], su_pathname = js ''/x'' \<rparr>"
    by (simp_all add: samplePath_def)
  have q: "su_origin \<lparr> su_origin = [], su_pathname = js ''/x'' \<rparr> = su_origin \<lparr> su_origin = [], su_pathname = [] \<rparr>"
    "rq_mode ?q = Some (js ''navigate'')" by simp_all
  from installed_shell_opens_offline [where parse = samplePath and resolve = id and fetch = sampleFetch
      and offline = "\<lambda>u n. (Inl NetworkError, n)" and request = ?q, OF run refl p q(1) api q(2) refl]
  obtain page wk3 where "onFetch samplePath sampleCache (cacheMatch id) (cachePut id) (\<lambda>u n. (Inl NetworkError, n))
      (buildPrecacheList []) [] ?q (onActivate (buildPrecacheList []) ?wk) = (Some (Inr page), wk3)"
    by (elim conjE exE)
  then show ?thesis using run by blast
qed

theorem asset_served_from_cache_witness:
  "handleRequest samplePath (cacheMatch id) (cachePut id) (\<lambda>u n. (Inl NetworkError, n)) (js ''/'')
     \<lparr> rq_url = js ''/assets/a'', rq_mode = None \<rparr>
     (sampleCache\<lparr> bc_entries := [(js ''/assets/a'', \<lparr> sr_status = 200, sr_body = js ''/assets/a'' \<rparr>)] \<rparr>, ()) =
   (Inr \<lparr> sr_status = 200, sr_body = js ''/assets/a'' \<rparr>,
    sampleCache\<lparr> bc_entries := [(js ''/assets/a'', \<lparr> sr_status = 200, sr_body = js ''/assets/a'' \<rparr>)] \<rparr>, ())"
proof -
  let ?q = "\<lparr> rq_url = js ''/assets/a'', rq_mode = None \<rparr>" and ?r = "\<lparr> sr_status = 200, sr_body = js ''/assets/a'' \<rparr>"
  let ?c = "sampleCache\<lparr> bc_entries := [(js ''/assets/a'', ?r)] \<rparr>"
  have way: "route samplePath ?q = Inr CacheFirst"
    using sample_paths(3-5) by (simp add: route_def samplePath_def pathRoute_def)
  have run: "handleRequest samplePath (cacheMatch id) (cachePut id) sampleFetch (js ''/'') ?q (sampleCache, ()) = (Inr ?r, ?c, ())"
    by (simp add: handleRequest_def way sampleFetch_def cacheMatch_def cachePut_def sampleCache_def mapGet_def mapSet_def
        sr_ok_def Let_def)
  have all: "handleAll samplePath (cacheMatch id) (cachePut id) sampleFetch (js ''/'') [] (?c, ()) = ([], ?c, ())" by simp
  show ?thesis by (rule asset_served_from_cache [OF run way _ all]) (simp_all add: sr_ok_def)
qed

theorem cache_name_of_build_witness:
  "cacheName [js ''index.html'', js ''assets/a'', js ''assets/b''] = cacheName [js ''assets/b'', js ''index.html'', js ''assets/a'']"
  using cache_name_of_build [of "[js ''index.html'', js ''assets/a'', js ''assets/b'']" "[js ''assets/b'', js ''index.html'', js ''assets/a'']"]
  by simp

end
