(* ===== verification/ImportPanel.thy ===== *)
theory ImportPanel
  imports Dedupe Zip Detect Upload Store
begin

text \<open>
  The import controller (\<^verbatim>\<open>apps/web/src/ui/useImportPanel.ts\<close>): a file is read as bytes, parsed
  by the format the user named, compared with the vault for the preview, and read and parsed
  again for the upload.

  Shown: every column of a header is either placed in a field or carried into the note, once;
  what is uploaded is what the preview listed less the rows the user skipped.
\<close>

section \<open>Files\<close>

text \<open>
  A \<^verbatim>\<open>File\<close> is a name and a handle. Its \<^verbatim>\<open>arrayBuffer\<close> is the platform's, an argument of the
  definitions that read it; the browser hands out the bytes the user chose or rejects.
\<close>

record ChosenFile =
  fi_name :: jstr
  fi_handle :: nat

definition readsAs :: "(ChosenFile \<Rightarrow> ('s, 'z, bytes) vprog) \<Rightarrow> ChosenFile \<Rightarrow> bytes \<Rightarrow> bool" where
  "readsAs arrayBuffer file bytes =
     (\<forall>w. arrayBuffer file w = (Inr bytes, w) \<or> (\<exists>e. arrayBuffer file w = (Inl e, w)))"

definition PANEL_PROBE_LIMIT :: nat where "PANEL_PROBE_LIMIT = 8192"

definition decodeText :: "bytes \<Rightarrow> jstr" where
  "decodeText bytes = utf8Decode bytes"

section \<open>The generic column map\<close>

definition presentCells :: "jstr option list \<Rightarrow> jstr list" where
  "presentCells cells = concat (map (\<lambda>c. case c of None \<Rightarrow> [] | Some x \<Rightarrow> [x]) cells)"

definition placedColumns :: "CsvColumnMapping \<Rightarrow> jstr list" where
  "placedColumns mapping =
     map columnKey (presentCells
       [cm_name mapping, cm_username mapping, cm_password mapping, cm_url mapping, cm_notes mapping,
        cm_folder mapping, cm_totp mapping])"

definition customStep :: "jstr list \<Rightarrow> jstr \<Rightarrow> jstr list \<times> jstr list \<Rightarrow> jstr list \<times> jstr list" where
  "customStep placed cell acc =
     (let (seen, custom) = acc; trimmed = trim cell; key = toLowerCase trimmed in
      if trimmed = [] \<or> key \<in> set placed \<or> key \<in> set seen then (seen, custom)
      else (seen @ [key], custom @ [trimmed]))"

definition normalizeMapping :: "CsvColumnMapping \<Rightarrow> jstr list \<Rightarrow> CsvColumnMapping" where
  "normalizeMapping mapping header =
     (let (seen, custom) = fold (customStep (placedColumns mapping)) header ([], [])
      in mapping\<lparr> cm_custom := custom \<rparr>)"

section \<open>Reading and parsing\<close>

text \<open>
  The bytes-or-text branch of \<^verbatim>\<open>parseFile\<close>. \<open>None\<close> would be the archive reader throwing past
  the end of its buffer, which \<open>parsed_total\<close> excludes.
\<close>

definition parseBytes ::
  "url_parser \<Rightarrow> (bytes \<Rightarrow> bytes option) \<Rightarrow> bytes \<Rightarrow> ManualFormat \<Rightarrow> CsvColumnMapping option \<Rightarrow> ImportResult option" where
  "parseBytes newURL inflate bytes format mapping =
     (if format = Detected Onepassword1pux then parseOnePassword1pux inflate bytes
      else
        (let t = decodeText bytes in
         case (if format = Detected GenericCsv then mapping else None) of
           Some m \<Rightarrow>
             (let header = tb_header (parseCsv (take PANEL_PROBE_LIMIT t)) in
              parseText newURL (Detected GenericCsv) t (Some (normalizeMapping m header)))
         | None \<Rightarrow> parseText newURL format t None))"

definition parseFile ::
  "url_parser \<Rightarrow> (bytes \<Rightarrow> bytes option) \<Rightarrow> (ChosenFile \<Rightarrow> ('s, 'z, bytes) vprog) \<Rightarrow>
   ChosenFile \<Rightarrow> ManualFormat \<Rightarrow> CsvColumnMapping option \<Rightarrow> ('s, 'z, ImportResult) vprog" where
  "parseFile newURL inflate arrayBuffer file format mapping =
     andThen (arrayBuffer file) (\<lambda>bytes.
       case parseBytes newURL inflate bytes format mapping of
         None \<Rightarrow> throw (JsError (js ''Offset is outside the bounds of the DataView''))
       | Some result \<Rightarrow> ret result)"

record InspectResult =
  in_filename :: jstr
  in_format :: ManualFormat
  in_vendors :: "ImportVendor list"
  in_header :: "jstr list"
  in_suggested :: CsvColumnMapping

definition inspectBytes :: "jstr \<Rightarrow> bytes \<Rightarrow> InspectResult" where
  "inspectBytes filename bytes =
     (let t = decodeText bytes; detected = detect filename t;
          header = tb_header (parseCsv (take PANEL_PROBE_LIMIT t))
      in \<lparr> in_filename = filename, in_format = Detected (df_parser detected), in_vendors = df_vendors detected,
           in_header = header, in_suggested = suggestMapping header \<rparr>)"

definition onInspect :: "(ChosenFile \<Rightarrow> ('s, 'z, bytes) vprog) \<Rightarrow> ChosenFile \<Rightarrow> ('s, 'z, InspectResult) vprog" where
  "onInspect arrayBuffer file = andThen (arrayBuffer file) (\<lambda>bytes. ret (inspectBytes (fi_name file) bytes))"

section \<open>The preview\<close>

record PreviewRow =
  pw_index :: nat
  pw_sourceRow :: nat
  pw_type :: ImportItemType
  pw_name :: jstr
  pw_username :: jstr
  pw_passwordPreview :: jstr
  pw_urls :: "jstr list"
  pw_carriedCount :: nat

record PreviewResult =
  pv_rows :: "PreviewRow list"
  pv_errors :: "ImportRowError list"
  pv_duplicates :: DuplicateReport

record PreviewRequest =
  rq_file :: ChosenFile
  rq_format :: ManualFormat
  rq_mapping :: "CsvColumnMapping option"

record ImportRequest = PreviewRequest +
  rq_skipRows :: "nat list"
  rq_collectionId :: "jstr option"

definition PASSWORD_PREVIEW_CHARS :: nat where "PASSWORD_PREVIEW_CHARS = 3"

definition toPreviewRow :: "ImportItem \<Rightarrow> nat \<Rightarrow> PreviewRow" where
  "toPreviewRow item index =
     \<lparr> pw_index = index, pw_sourceRow = it_sourceRow item, pw_type = it_type item, pw_name = it_name item,
       pw_username = it_username item,
       pw_passwordPreview =
         (if PASSWORD_PREVIEW_CHARS < length (it_password item)
          then take PASSWORD_PREVIEW_CHARS (it_password item) @ [0x2026] else it_password item),
       pw_urls = it_urls item,
       pw_carriedCount = length (it_extra item) + (if 0 < length (it_folderPath item) then 1 else 0) \<rparr>"

definition existingFromRecords :: "ItemRecord list \<Rightarrow> ExistingItem list" where
  "existingFromRecords records = existingFromPlaintexts (map (\<lambda>r. (ir_id r, ir_plaintext r)) records)"

definition previewOf :: "url_parser \<Rightarrow> ImportResult \<Rightarrow> ItemRecord list \<Rightarrow> PreviewResult" where
  "previewOf newURL result records =
     \<lparr> pv_rows = map (\<lambda>(i, item). toPreviewRow item i) (enumerate 0 (rs_items result)),
       pv_errors = rs_errors result,
       pv_duplicates = findDuplicates newURL (rs_items result) (existingFromRecords records) \<rparr>"

definition onPreview ::
  "url_parser \<Rightarrow> (bytes \<Rightarrow> bytes option) \<Rightarrow> (ChosenFile \<Rightarrow> ('s, 'z, bytes) vprog) \<Rightarrow>
   PreviewRequest \<Rightarrow> ('s, 'z, PreviewResult) vprog" where
  "onPreview newURL inflate arrayBuffer input =
     andThen (parseFile newURL inflate arrayBuffer (rq_file input) (rq_format input) (rq_mapping input))
       (\<lambda>result w. (Inr (previewOf newURL result (va_items (vs_state w))), w))"

section \<open>The import\<close>

definition keptItems :: "'a list \<Rightarrow> nat list \<Rightarrow> 'a list" where
  "keptItems items skipRows = map snd (filter (\<lambda>(index, item). index \<notin> set skipRows) (enumerate 0 items))"

definition onImport ::
  "platform \<Rightarrow> url_parser \<Rightarrow> (bytes \<Rightarrow> bytes option) \<Rightarrow> (ChosenFile \<Rightarrow> ('s, 'z, bytes) vprog) \<Rightarrow>
   ('s, 'z shop_ext, 'r) call \<Rightarrow> ('s, 'z shop_ext, SyncResponse) call \<Rightarrow> ImportRequest \<Rightarrow> ('s, 'z, UploadOutcome) vprog" where
  "onImport pf newURL inflate arrayBuffer post get input =
     andThen (parseFile newURL inflate arrayBuffer (rq_file input) (rq_format input) (rq_mapping input)) (\<lambda>result.
       let kept = keptItems (rs_items result) (rq_skipRows input);
           plaintexts = toItemPlaintexts None kept
       in andThen (uploadItems pf post plaintexts (rq_collectionId input)) (\<lambda>outcome.
          andThen (tryCatch (resync pf get) (\<lambda>e. ret ())) (\<lambda>u. ret outcome)))"

text \<open>The collections this device can import into.\<close>

definition importTargets :: "VaultState \<Rightarrow> (jstr \<times> jstr) list" where
  "importTargets state =
     map (\<lambda>collection. (cs_id collection, cs_name collection)) (filter cs_usable (va_collections state))"

section \<open>Every column is placed or carried\<close>

definition headerKeys :: "jstr list \<Rightarrow> jstr set" where
  "headerKeys header = {columnKey cell | cell. cell \<in> set header \<and> trim cell \<noteq> []}"

lemma customStep_eq:
  "customStep placed cell (s, c) =
     (if trim cell = [] \<or> columnKey cell \<in> set placed \<or> columnKey cell \<in> set s then (s, c)
      else (s @ [columnKey cell], c @ [trim cell]))"
  by (simp add: customStep_def columnKey_def Let_def)

lemma columnKey_trim [simp]: "columnKey (trim cell) = columnKey cell"
  by (simp add: columnKey_def)

lemma headerKeys_snoc:
  "headerKeys (header @ [cell]) = (if trim cell = [] then headerKeys header else insert (columnKey cell) (headerKeys header))"
  by (auto simp: headerKeys_def)

lemma customStep_run:
  "fold (customStep placed) header ([], []) = (seen, custom) \<Longrightarrow>
   seen = map columnKey custom \<and> distinct seen \<and> set seen = headerKeys header - set placed"
proof (induction header arbitrary: seen custom rule: rev_induct)
  case Nil
  then show ?case by (simp add: headerKeys_def)
next
  case (snoc cell header)
  obtain s c where sc: "fold (customStep placed) header ([], []) = (s, c)" by fastforce
  have step: "customStep placed cell (s, c) = (seen, custom)" using snoc.prems by (simp add: sc)
  show ?case
  proof (cases "trim cell = [] \<or> columnKey cell \<in> set placed \<or> columnKey cell \<in> set s")
    case True
    then have "headerKeys (header @ [cell]) - set placed = headerKeys header - set placed"
      using snoc.IH [OF sc] by (auto simp: headerKeys_snoc)
    moreover have "seen = s" "custom = c" using step True by (simp_all add: customStep_eq)
    ultimately show ?thesis using snoc.IH [OF sc] by metis
  next
    case False
    then have e: "seen = s @ [columnKey cell]" "custom = c @ [trim cell]" using step by (auto simp: customStep_eq)
    have m: "s = map columnKey c" and d: "distinct s" and k: "set s = headerKeys header - set placed"
      using snoc.IH [OF sc] by blast+
    have "headerKeys (header @ [cell]) - set placed = insert (columnKey cell) (headerKeys header - set placed)"
      using False by (auto simp: headerKeys_snoc)
    moreover have "seen = map columnKey custom" unfolding e m by simp
    moreover have "distinct seen" unfolding e using d False by simp
    moreover have "set seen = insert (columnKey cell) (headerKeys header - set placed)" unfolding e by (simp add: k)
    ultimately show ?thesis by blast
  qed
qed

lemma normalizeMapping_custom:
  "distinct (map columnKey (cm_custom (normalizeMapping mapping header)))"
  "columnKey ` set (cm_custom (normalizeMapping mapping header)) = headerKeys header - set (placedColumns mapping)"
proof -
  obtain s c where sc: "fold (customStep (placedColumns mapping)) header ([], []) = (s, c)" by fastforce
  then have c: "cm_custom (normalizeMapping mapping header) = c" by (simp add: normalizeMapping_def)
  note run = customStep_run [OF sc]
  show "distinct (map columnKey (cm_custom (normalizeMapping mapping header)))" unfolding c using run by metis
  have "set (map columnKey c) = headerKeys header - set (placedColumns mapping)" using run by metis
  then show "columnKey ` set (cm_custom (normalizeMapping mapping header)) = headerKeys header - set (placedColumns mapping)"
    unfolding c by simp
qed

lemma placedColumns_normalize [simp]:
  "placedColumns (normalizeMapping mapping header) = placedColumns mapping"
  by (simp add: placedColumns_def normalizeMapping_def split: prod.split)

section \<open>Parsing always answers\<close>

lemma parseText_total: "format \<noteq> Detected Onepassword1pux \<Longrightarrow> parseText u format t m \<noteq> None"
proof (cases format)
  case (Detected p)
  then show "format \<noteq> Detected Onepassword1pux \<Longrightarrow> ?thesis" by (cases p) simp_all
qed simp

lemma parsed_total: "\<exists>result. parseBytes u inflate bytes format mapping = Some result"
proof (cases "format = Detected Onepassword1pux")
  case True
  obtain r where r: "openZip bytes = Some r" using openZip_total by blast
  have "zipReadText inflate a name \<noteq> None" for a name using zipReadText_total [of inflate a name] by auto
  then show ?thesis
    using True r by (cases r) (auto simp: parseBytes_def parseOnePassword1pux_def split: sum.split option.split)
next
  case False
  have t: "\<exists>result. parseText u format s m = Some result" for s m using parseText_total [OF False] by (simp only: not_None_eq)
  show ?thesis
  proof (cases "format = Detected GenericCsv \<and> mapping \<noteq> None")
    case True
    then show ?thesis using t by (clarsimp simp: parseBytes_def Let_def simp del: parseText.simps)
  next
    case other: False
    then have "(if format = Detected GenericCsv then mapping else None) = None" by (simp split: if_splits)
    then show ?thesis using t False by (simp add: parseBytes_def Let_def del: parseText.simps)
  qed
qed

lemma parseFile_run:
  assumes "readsAs arrayBuffer file bytes"
  shows "(\<exists>result. parseBytes u inflate bytes format mapping = Some result \<and>
      parseFile u inflate arrayBuffer file format mapping w = (Inr result, w)) \<or>
    (\<exists>e. parseFile u inflate arrayBuffer file format mapping w = (Inl e, w))"
proof (cases "arrayBuffer file w = (Inr bytes, w)")
  case True
  obtain result where "parseBytes u inflate bytes format mapping = Some result" using parsed_total by blast
  then show ?thesis using True by (simp add: parseFile_def andThen_def ret_def)
next
  case False
  then obtain e where "arrayBuffer file w = (Inl e, w)" using assms by (auto simp: readsAs_def)
  then show ?thesis by (simp add: parseFile_def andThen_def)
qed

section \<open>What is kept\<close>

lemma keptItems_nth: "keptItems items skipRows = map ((!) items) (filter (\<lambda>i. i \<notin> set skipRows) [0..<length items])"
proof -
  have "enumerate 0 items = map (\<lambda>i. (i, items ! i)) [0..<length items]"
    by (rule nth_equalityI) (simp_all add: nth_enumerate_eq)
  then show ?thesis by (simp add: keptItems_def filter_map comp_def)
qed

lemma keptItems_length:
  assumes "distinct skipRows" "set skipRows \<subseteq> {..<length items}"
  shows "length (keptItems items skipRows) + length skipRows = length items"
proof -
  have "length (keptItems items skipRows) = card ({..<length items} - set skipRows)"
    unfolding keptItems_nth length_map by (subst distinct_card [symmetric]) (auto intro: arg_cong [of _ _ card])
  also have "\<dots> = length items - length skipRows"
    using assms by (simp add: card_Diff_subset distinct_card)
  finally show ?thesis using assms card_mono [OF _ assms(2)] by (simp add: distinct_card)
qed

section \<open>The total an upload reports\<close>

lemma sendChunk_total:
  "sendChunk post all st w = (Inr (Inl outcome), w') \<Longrightarrow> ou_total outcome = all"
  by (auto simp: sendChunk_def Let_def split: prod.splits sum.splits)

lemma uploadLoop_total:
  "uploadLoop pf post all c a items st w = (Inr (Inl outcome), w') \<Longrightarrow> ou_total outcome = all"
  by (induction items arbitrary: st w)
    (auto simp: ret_def andThen_def Let_def dest: sendChunk_total split: prod.splits sum.splits if_splits)

lemma uploadItems_total:
  "uploadItems pf post items c w = (Inr outcome, w') \<Longrightarrow> ou_total outcome = length items"
  by (auto simp: uploadItems_def ret_def andThen_def Let_def withSession_def
      dest: sendChunk_total uploadLoop_total split: prod.splits sum.splits if_splits option.splits)

lemma onImport_total:
  assumes "onImport pf u inflate arrayBuffer post get input w = (Inr outcome, w')" "readsAs arrayBuffer (rq_file input) bytes"
  shows "\<exists>result. parseBytes u inflate bytes (rq_format input) (rq_mapping input) = Some result \<and>
    ou_total outcome = length (keptItems (rs_items result) (rq_skipRows input))"
proof -
  consider result where "parseBytes u inflate bytes (rq_format input) (rq_mapping input) = Some result"
      "parseFile u inflate arrayBuffer (rq_file input) (rq_format input) (rq_mapping input) w = (Inr result, w)"
    | e where "parseFile u inflate arrayBuffer (rq_file input) (rq_format input) (rq_mapping input) w = (Inl e, w)"
    using parseFile_run [OF assms(2)] by blast
  then show ?thesis
  proof cases
    case 1
    then show ?thesis using assms(1)
      by (auto simp: onImport_def andThen_def Let_def ret_def toItemPlaintexts_def
          dest!: uploadItems_total split: prod.splits sum.splits)
  next
    case 2
    then show ?thesis using assms(1) by (simp add: onImport_def andThen_def)
  qed
qed

text \<open>The outcome of an import is the outcome of uploading what was kept.\<close>

lemma onImport_uploads:
  assumes "onImport pf u inflate arrayBuffer post get input w = (Inr outcome, w')"
    and "parseFile u inflate arrayBuffer (rq_file input) (rq_format input) (rq_mapping input) w = (Inr result, w)"
  shows "\<exists>w1. uploadItems pf post (toItemPlaintexts None (keptItems (rs_items result) (rq_skipRows input)))
      (rq_collectionId input) w = (Inr outcome, w1)"
  using assms by (auto simp: onImport_def andThen_def Let_def ret_def split: prod.splits sum.splits)

end
