(* ===== verification/ImportScreen.thy ===== *)
theory ImportScreen
  imports ImportPanel Failures
begin

text \<open>
  The import screen (\<^verbatim>\<open>apps/web/src/ui/screens/ImportScreen.tsx\<close>): upload, map, preview, done.
  Its state is the component's, its handlers are functions on it, and a handler that awaits is
  two of them: what happens up to the call, and what happens when the call settles. What the
  user and the settling calls may do next is a step relation.

  Shown: the numbers a preview shows add up; what is imported is the preview less the groups
  the user skipped, as long as the choices of the map step are left alone while the preview is
  being made; and a run that does touch them imports by a format that was never previewed.
\<close>

section \<open>The state\<close>

datatype ImportStep = SUpload | SMap | SPreview | SDone

record Completed =
  cp_outcome :: UploadOutcome
  cp_skipped :: nat
  cp_errors :: "ImportRowError list"
  cp_targetName :: jstr

record ImportCounts =
  ct_total :: nat
  ct_toImport :: int
  ct_skipped :: nat
  ct_errors :: nat

text \<open>A call that has not settled, with what its continuation has captured.\<close>

datatype Pending =
    Inspecting ChosenFile
  | Previewing PreviewRequest
  | Importing ImportRequest ImportCounts PreviewResult "(jstr \<times> jstr) list"

record ImportUi =
  ui_step :: ImportStep
  ui_file :: "ChosenFile option"
  ui_inspect :: "InspectResult option"
  ui_format :: ManualFormat
  ui_mapping :: "CsvColumnMapping option"
  ui_collectionId :: "jstr option"
  ui_preview :: "PreviewResult option"
  ui_skipGroups :: "nat \<Rightarrow> bool"
  ui_confirming :: bool
  ui_progress :: "UploadProgress option"
  ui_completed :: "Completed option"
  ui_busy :: bool
  ui_error :: "jstr option"
  ui_pending :: "Pending option"

definition initialUi :: ImportUi where
  "initialUi =
     \<lparr> ui_step = SUpload, ui_file = None, ui_inspect = None, ui_format = Detected GenericCsv, ui_mapping = None,
       ui_collectionId = None, ui_preview = None, ui_skipGroups = (\<lambda>i. False), ui_confirming = False,
       ui_progress = None, ui_completed = None, ui_busy = False, ui_error = None, ui_pending = None \<rparr>"

section \<open>The handlers\<close>

text \<open>\<^verbatim>\<open>reset\<close> leaves \<^verbatim>\<open>busy\<close> and a call in flight as they are.\<close>

definition resetUi :: "ImportUi \<Rightarrow> ImportUi" where
  "resetUi ui = initialUi\<lparr> ui_busy := ui_busy ui, ui_pending := ui_pending ui \<rparr>"

definition chooseFile :: "ChosenFile option \<Rightarrow> ImportUi \<Rightarrow> ImportUi" where
  "chooseFile file ui = ui\<lparr> ui_file := file, ui_error := None \<rparr>"

definition inspectFile :: "ImportUi \<Rightarrow> ImportUi" where
  "inspectFile ui =
     (case ui_file ui of
        None \<Rightarrow> ui
      | Some file \<Rightarrow> ui\<lparr> ui_busy := True, ui_error := None, ui_pending := Some (Inspecting file) \<rparr>)"

definition settled :: "ImportUi \<Rightarrow> ImportUi" where
  "settled ui = ui\<lparr> ui_busy := False, ui_pending := None \<rparr>"

definition inspected :: "InspectResult result \<Rightarrow> ImportUi \<Rightarrow> ImportUi" where
  "inspected answer ui =
     settled (case answer of
        Inl failure \<Rightarrow> ui\<lparr> ui_error := Some (describeFailure failure (js ''Could not read that file'')) \<rparr>
      | Inr r \<Rightarrow> ui\<lparr> ui_inspect := Some r, ui_format := in_format r, ui_mapping := Some (in_suggested r),
                     ui_step := SMap \<rparr>)"

text \<open>The request both \<^verbatim>\<open>runPreview\<close> and \<^verbatim>\<open>runImport\<close> make of the state.\<close>

definition requestOf :: "ImportUi \<Rightarrow> ChosenFile \<Rightarrow> PreviewRequest" where
  "requestOf ui file =
     \<lparr> rq_file = file, rq_format = ui_format ui,
       rq_mapping = (if ui_format ui = Detected GenericCsv then ui_mapping ui else None) \<rparr>"

definition runPreview :: "ImportUi \<Rightarrow> ImportUi" where
  "runPreview ui =
     (case ui_file ui of
        None \<Rightarrow> ui
      | Some file \<Rightarrow> ui\<lparr> ui_busy := True, ui_error := None, ui_pending := Some (Previewing (requestOf ui file)) \<rparr>)"

definition defaultSkips :: "DuplicateReport \<Rightarrow> nat \<Rightarrow> bool" where
  "defaultSkips report i =
     (i < length (dr_groups report) \<and> 0 < length (dg_existing (dr_groups report ! i)))"

definition previewed :: "PreviewResult result \<Rightarrow> ImportUi \<Rightarrow> ImportUi" where
  "previewed answer ui =
     settled (case answer of
        Inl failure \<Rightarrow> ui\<lparr> ui_error := Some (describeFailure failure (js ''Could not read that file'')) \<rparr>
      | Inr r \<Rightarrow> ui\<lparr> ui_preview := Some r, ui_skipGroups := defaultSkips (pv_duplicates r), ui_step := SPreview \<rparr>)"

definition skipRowsOf :: "DuplicateGroup list \<Rightarrow> (nat \<Rightarrow> bool) \<Rightarrow> nat list" where
  "skipRowsOf groups skips =
     concat (map (\<lambda>(i, grp). if skips i then dg_rows grp else []) (enumerate 0 groups))"

definition skipRows :: "ImportUi \<Rightarrow> nat list" where
  "skipRows ui =
     (case ui_preview ui of
        None \<Rightarrow> []
      | Some preview \<Rightarrow> skipRowsOf (dr_groups (pv_duplicates preview)) (ui_skipGroups ui))"

definition counts :: "ImportUi \<Rightarrow> ImportCounts" where
  "counts ui =
     (case ui_preview ui of
        None \<Rightarrow> \<lparr> ct_total = 0, ct_toImport = 0, ct_skipped = 0, ct_errors = 0 \<rparr>
      | Some preview \<Rightarrow>
          (let skipped = length (skipRows ui) in
           \<lparr> ct_total = length (pv_rows preview) + length (pv_errors preview),
             ct_toImport = int (length (pv_rows preview)) - int skipped,
             ct_skipped = skipped, ct_errors = length (pv_errors preview) \<rparr>))"

definition importRequest :: "ImportUi \<Rightarrow> ChosenFile \<Rightarrow> ImportRequest" where
  "importRequest ui file =
     \<lparr> rq_file = file, rq_format = ui_format ui,
       rq_mapping = (if ui_format ui = Detected GenericCsv then ui_mapping ui else None),
       rq_skipRows = skipRows ui, rq_collectionId = ui_collectionId ui \<rparr>"

definition runImport :: "(jstr \<times> jstr) list \<Rightarrow> ImportUi \<Rightarrow> ImportUi" where
  "runImport collections ui =
     (case (ui_file ui, ui_preview ui) of
        (Some file, Some preview) \<Rightarrow>
          ui\<lparr> ui_confirming := False, ui_busy := True, ui_error := None,
              ui_progress := Some \<lparr> pr_uploaded = 0, pr_total = nat (ct_toImport (counts ui)) \<rparr>,
              ui_pending := Some (Importing (importRequest ui file) (counts ui) preview collections) \<rparr>
      | other \<Rightarrow> ui)"

definition targetName :: "(jstr \<times> jstr) list \<Rightarrow> jstr option \<Rightarrow> jstr" where
  "targetName collections collectionId =
     (case find (\<lambda>c. Some (fst c) = collectionId) collections of
        Some c \<Rightarrow> snd c
      | None \<Rightarrow> js ''Personal'')"

definition imported ::
  "ImportRequest \<Rightarrow> ImportCounts \<Rightarrow> PreviewResult \<Rightarrow> (jstr \<times> jstr) list \<Rightarrow> UploadOutcome result \<Rightarrow> ImportUi \<Rightarrow> ImportUi" where
  "imported request captured preview collections answer ui =
     (settled (case answer of
        Inl failure \<Rightarrow> ui\<lparr> ui_error := Some (describeFailure failure (js ''The import could not be completed'')) \<rparr>
      | Inr outcome \<Rightarrow>
          ui\<lparr> ui_completed := Some \<lparr> cp_outcome = outcome, cp_skipped = ct_skipped captured,
                                     cp_errors = pv_errors preview,
                                     cp_targetName = targetName collections (rq_collectionId request) \<rparr>,
              ui_step := SDone \<rparr>))\<lparr> ui_progress := None \<rparr>"

section \<open>The generic mapper\<close>

datatype MappingField = MfName | MfUsername | MfPassword | MfUrl | MfNotes | MfFolder | MfTotp

definition MAPPING_FIELDS :: "(MappingField \<times> jstr) list" where
  "MAPPING_FIELDS =
     [(MfName, js ''Name column''), (MfUsername, js ''Username column''), (MfPassword, js ''Password column''),
      (MfUrl, js ''Web address column''), (MfNotes, js ''Notes column''), (MfFolder, js ''Folder column''),
      (MfTotp, js ''One-time-password column'')]"

fun setColumn :: "MappingField \<Rightarrow> jstr option \<Rightarrow> CsvColumnMapping \<Rightarrow> CsvColumnMapping" where
  "setColumn MfName c m = m\<lparr> cm_name := c \<rparr>"
| "setColumn MfUsername c m = m\<lparr> cm_username := c \<rparr>"
| "setColumn MfPassword c m = m\<lparr> cm_password := c \<rparr>"
| "setColumn MfUrl c m = m\<lparr> cm_url := c \<rparr>"
| "setColumn MfNotes c m = m\<lparr> cm_notes := c \<rparr>"
| "setColumn MfFolder c m = m\<lparr> cm_folder := c \<rparr>"
| "setColumn MfTotp c m = m\<lparr> cm_totp := c \<rparr>"

text \<open>A select's empty value means no column.\<close>

definition chooseColumn :: "MappingField \<Rightarrow> jstr \<Rightarrow> CsvColumnMapping \<Rightarrow> CsvColumnMapping" where
  "chooseColumn which v m = setColumn which (if v = [] then None else Some v) m"

section \<open>What the screen says\<close>

fun vendorName :: "ImportVendor \<Rightarrow> jstr" where
  "vendorName VBitwarden = js ''Bitwarden''"
| "vendorName VLastpass = js ''LastPass''"
| "vendorName VOnepassword = js ''1Password''"
| "vendorName VChrome = js ''Chrome''"
| "vendorName VEdge = js ''Edge''"
| "vendorName VBrave = js ''Brave''"
| "vendorName VFirefox = js ''Firefox''"
| "vendorName VSafari = js ''Safari''"
| "vendorName VKeepass = js ''KeePass''"
| "vendorName VKeepassxc = js ''KeePassXC''"
| "vendorName VNordpass = js ''NordPass''"
| "vendorName VDashlane = js ''Dashlane''"
| "vendorName VProtonpass = js ''Proton Pass''"
| "vendorName VKeeper = js ''Keeper''"

definition vendorList :: "ImportVendor list \<Rightarrow> jstr" where
  "vendorList vendors =
     (let names = map vendorName vendors in
      if length names \<le> 1 then (case names of [] \<Rightarrow> [] | n # ns \<Rightarrow> n)
      else join (js '', '') (butlast names) @ js '' or '' @ last names)"

definition completedTarget :: "(jstr \<times> jstr) list \<Rightarrow> jstr option \<Rightarrow> jstr" where
  "completedTarget collections collectionId =
     (if collectionId = None then []
      else (case find (\<lambda>c. Some (fst c) = collectionId) collections of
              None \<Rightarrow> []
            | Some c \<Rightarrow> js '' in '' @ snd c))"

text \<open>What the last screen counts as not landed, and when it says so.\<close>

definition notLanded :: "Completed \<Rightarrow> int" where
  "notLanded completed = int (ou_total (cp_outcome completed)) - int (ou_uploaded (cp_outcome completed))"

definition showsNotLanded :: "Completed \<Rightarrow> bool" where
  "showsNotLanded completed = (ou_error (cp_outcome completed) \<noteq> None \<and> 0 < notLanded completed)"

section \<open>What may happen next\<close>

text \<open>
  What the screen is run against: the parse of a request (the bytes of a chosen file do not
  change, and parsing is a function of them), and the platform's URL parser.
\<close>

record import_env =
  en_parse :: "PreviewRequest \<Rightarrow> ImportResult"
  en_url :: url_parser

definition previewAnswer :: "import_env \<Rightarrow> PreviewRequest \<Rightarrow> PreviewResult result \<Rightarrow> bool" where
  "previewAnswer env request answer =
     (case answer of Inl e \<Rightarrow> True | Inr p \<Rightarrow> \<exists>records. p = previewOf (en_url env) (en_parse env request) records)"

definition previewPart :: "ImportRequest \<Rightarrow> PreviewRequest" where
  "previewPart request = \<lparr> rq_file = rq_file request, rq_format = rq_format request, rq_mapping = rq_mapping request \<rparr>"

definition importAnswer :: "import_env \<Rightarrow> ImportRequest \<Rightarrow> UploadOutcome result \<Rightarrow> bool" where
  "importAnswer env request answer =
     (case answer of
        Inl e \<Rightarrow> True
      | Inr outcome \<Rightarrow>
          ou_total outcome = length (keptItems (rs_items (en_parse env (previewPart request))) (rq_skipRows request)))"

datatype ScreenEvent =
    EvChooseFile | EvInspect | EvInspected | EvChooseFormat | EvChooseColumn | EvSeparator | EvTarget
  | EvPreview | EvStartOver | EvPreviewed | EvToggle | EvBack | EvOpen | EvCancel | EvConfirm | EvProgress
  | EvImported | EvAnother

text \<open>
  The guards are what is rendered: the step the control is on, and its \<^verbatim>\<open>disabled\<close>. While the
  confirmation is open its scrim covers the rest of the page.
\<close>

inductive screen_step :: "import_env \<Rightarrow> ScreenEvent \<Rightarrow> ImportUi \<Rightarrow> ImportUi \<Rightarrow> bool" where
  choose_file: "ui_step ui = SUpload \<Longrightarrow> screen_step env EvChooseFile ui (chooseFile file ui)"
| inspect: "ui_step ui = SUpload \<Longrightarrow> ui_file ui \<noteq> None \<Longrightarrow> \<not> ui_busy ui \<Longrightarrow> screen_step env EvInspect ui (inspectFile ui)"
| inspected: "ui_pending ui = Some (Inspecting file) \<Longrightarrow> screen_step env EvInspected ui (inspected answer ui)"
| choose_format: "ui_step ui = SMap \<Longrightarrow> screen_step env EvChooseFormat ui (ui\<lparr> ui_format := format \<rparr>)"
| choose_column: "ui_step ui = SMap \<Longrightarrow> ui_mapping ui = Some m \<Longrightarrow>
    screen_step env EvChooseColumn ui (ui\<lparr> ui_mapping := Some (chooseColumn which v m) \<rparr>)"
| separator: "ui_step ui = SMap \<Longrightarrow> ui_mapping ui = Some m \<Longrightarrow>
    screen_step env EvSeparator ui (ui\<lparr> ui_mapping := Some (m\<lparr> cm_folderSeparator := v \<rparr>) \<rparr>)"
| target: "ui_step ui = SMap \<Longrightarrow>
    screen_step env EvTarget ui (ui\<lparr> ui_collectionId := (if v = [] then None else Some v) \<rparr>)"
| preview: "ui_step ui = SMap \<Longrightarrow> \<not> ui_busy ui \<Longrightarrow> screen_step env EvPreview ui (runPreview ui)"
| start_over: "ui_step ui = SMap \<Longrightarrow> screen_step env EvStartOver ui (resetUi ui)"
| previewed: "ui_pending ui = Some (Previewing request) \<Longrightarrow> previewAnswer env request answer \<Longrightarrow>
    screen_step env EvPreviewed ui (previewed answer ui)"
| toggle: "ui_step ui = SPreview \<Longrightarrow> \<not> ui_confirming ui \<Longrightarrow>
    screen_step env EvToggle ui (ui\<lparr> ui_skipGroups := (ui_skipGroups ui)(i := skip) \<rparr>)"
| go_back: "ui_step ui = SPreview \<Longrightarrow> \<not> ui_busy ui \<Longrightarrow> \<not> ui_confirming ui \<Longrightarrow>
    screen_step env EvBack ui (ui\<lparr> ui_step := SMap \<rparr>)"
| asked: "ui_step ui = SPreview \<Longrightarrow> \<not> ui_busy ui \<Longrightarrow> ct_toImport (counts ui) \<noteq> 0 \<Longrightarrow>
    screen_step env EvOpen ui (ui\<lparr> ui_confirming := True \<rparr>)"
| cancel: "ui_step ui = SPreview \<Longrightarrow> ui_confirming ui \<Longrightarrow>
    screen_step env EvCancel ui (ui\<lparr> ui_confirming := False \<rparr>)"
| confirmed: "ui_step ui = SPreview \<Longrightarrow> ui_confirming ui \<Longrightarrow>
    screen_step env EvConfirm ui (runImport collections ui)"
| progress: "ui_pending ui = Some (Importing request captured p collections) \<Longrightarrow>
    screen_step env EvProgress ui (ui\<lparr> ui_progress := Some now \<rparr>)"
| imported: "ui_pending ui = Some (Importing request captured p collections) \<Longrightarrow> importAnswer env request answer \<Longrightarrow>
    screen_step env EvImported ui (imported request captured p collections answer ui)"
| another: "ui_step ui = SDone \<Longrightarrow> screen_step env EvAnother ui (resetUi ui)"

text \<open>The events that edit what a call in flight was made from.\<close>

definition edits :: "ScreenEvent \<Rightarrow> bool" where
  "edits ev = (ev \<in> {EvChooseFile, EvChooseFormat, EvChooseColumn, EvSeparator, EvStartOver})"

inductive reached :: "import_env \<Rightarrow> bool \<Rightarrow> ImportUi \<Rightarrow> bool" where
  start: "reached env calm initialUi"
| step: "reached env calm ui \<Longrightarrow> screen_step env ev ui ui' \<Longrightarrow> (calm \<and> ui_busy ui \<longrightarrow> \<not> edits ev) \<Longrightarrow>
    reached env calm ui'"

section \<open>The rows a choice of groups skips\<close>

lemma disjoint_rows:
  "i \<in> set (dg_rows (groupFor u rows ex k)) \<Longrightarrow> i \<in> set (dg_rows (groupFor u rows ex k')) \<Longrightarrow> k = k'"
  by (simp add: groupFor_def)

lemma distinct_groups_rows:
  assumes "distinct (map dg_key gs)" "\<forall>g \<in> set gs. g = groupFor u rows ex (dg_key g)"
  shows "distinct (concat (map dg_rows gs)) \<and> set (concat (map dg_rows gs)) \<subseteq> {..<length rows}"
  using assms
proof (induction gs)
  case (Cons g gs)
  have g: "g = groupFor u rows ex (dg_key g)" using Cons.prems(2) by simp
  have "dg_rows g = filter (\<lambda>i. rowKey u (rows ! i) = Some (dg_key g)) [0..<length rows]"
    by (subst g) (simp add: groupFor_def)
  then have rows: "distinct (dg_rows g)" "set (dg_rows g) \<subseteq> {..<length rows}" by auto
  have "set (dg_rows g) \<inter> set (dg_rows h) = {}" if h: "h \<in> set gs" for h
  proof -
    have "h = groupFor u rows ex (dg_key h)" "dg_key g \<noteq> dg_key h" using Cons.prems h by auto
    then show ?thesis using g disjoint_rows [of _ u rows ex "dg_key g" "dg_key h"] by (metis disjoint_iff)
  qed
  then show ?case using Cons rows by auto
qed simp

lemma skipRowsOf_groups:
  "skipRowsOf gs skips = concat (map dg_rows (map snd (filter (\<lambda>(i, g). skips i) (enumerate 0 gs))))"
proof -
  have "concat (map (\<lambda>(i, g). if skips i then dg_rows g else []) xs) =
      concat (map dg_rows (map snd (filter (\<lambda>(i, g). skips i) xs)))" for xs
    by (induction xs) auto
  then show ?thesis by (simp add: skipRowsOf_def)
qed

lemma skipRowsOf_report:
  assumes "urlsClean u"
  shows "distinct (skipRowsOf (dr_groups (findDuplicates u rows ex)) skips)"
    "set (skipRowsOf (dr_groups (findDuplicates u rows ex)) skips) \<subseteq> {..<length rows}"
proof -
  let ?gs = "dr_groups (findDuplicates u rows ex)"
  let ?chosen = "map snd (filter (\<lambda>(i, g). skips i) (enumerate 0 ?gs))"
  have e: "map (\<lambda>x. dg_key (snd x)) xs = map dg_key (map snd xs)" for xs :: "(nat \<times> DuplicateGroup) list"
    by (simp only: map_map comp_def)
  have "map snd (enumerate 0 ?gs) = ?gs" by simp
  then have "distinct (map (\<lambda>x. dg_key (snd x)) (enumerate 0 ?gs))"
    unfolding e using groups_distinct [OF assms] by metis
  then have "distinct (map (\<lambda>x. dg_key (snd x)) (filter (\<lambda>(i, g). skips i) (enumerate 0 ?gs)))"
    by (rule distinct_map_filter)
  then have d: "distinct (map dg_key ?chosen)" unfolding e .
  have "set ?chosen \<subseteq> set ?gs" by (auto simp: in_set_enumerate_eq)
  then have "\<forall>g \<in> set ?chosen. g = groupFor u rows ex (dg_key g)" using groups_exact [OF assms] by blast
  from distinct_groups_rows [OF d this]
  show "distinct (skipRowsOf ?gs skips)" "set (skipRowsOf ?gs skips) \<subseteq> {..<length rows}"
    unfolding skipRowsOf_groups by blast+
qed

section \<open>The numbers\<close>

definition addsUp :: "ImportCounts \<Rightarrow> bool" where
  "addsUp c = (int (ct_total c) = ct_toImport c + int (ct_skipped c) + int (ct_errors c) \<and> 0 \<le> ct_toImport c)"

definition previewsOf :: "import_env \<Rightarrow> PreviewResult \<Rightarrow> bool" where
  "previewsOf env p = (\<exists>request records. p = previewOf (en_url env) (en_parse env request) records)"

lemma previewOf_simps [simp]:
  "length (pv_rows (previewOf u result records)) = length (rs_items result)"
  "pv_errors (previewOf u result records) = rs_errors result"
  "pv_duplicates (previewOf u result records) = findDuplicates u (rs_items result) (existingFromRecords records)"
  by (simp_all add: previewOf_def)

lemma previewOf_index: "pw_index ` set (pv_rows (previewOf u result records)) = {..<length (rs_items result)}"
proof -
  have "map pw_index (pv_rows (previewOf u result records)) = map fst (enumerate 0 (rs_items result))"
    by (simp add: previewOf_def toPreviewRow_def comp_def case_prod_unfold)
  then have "set (map pw_index (pv_rows (previewOf u result records))) = set [0..<length (rs_items result)]"
    by (simp only: map_fst_enumerate add_0)
  then show ?thesis by auto
qed

lemma preview_numbers:
  assumes "urlsClean u" "ui_preview ui = Some (previewOf u result records)"
  shows "distinct (skipRows ui)" "set (skipRows ui) \<subseteq> {..<length (rs_items result)}"
    "ct_toImport (counts ui) = int (length (keptItems (rs_items result) (skipRows ui)))"
    "ct_skipped (counts ui) = length (skipRows ui)" "ct_errors (counts ui) = length (rs_errors result)"
    "ct_total (counts ui) = length (rs_items result) + length (rs_errors result)"
proof -
  show rows: "distinct (skipRows ui)" "set (skipRows ui) \<subseteq> {..<length (rs_items result)}"
    using skipRowsOf_report [OF assms(1), of "rs_items result" "existingFromRecords records" "ui_skipGroups ui"]
    by (simp_all add: skipRows_def assms(2))
  show "ct_toImport (counts ui) = int (length (keptItems (rs_items result) (skipRows ui)))"
    using keptItems_length [OF rows] by (simp add: counts_def assms(2) Let_def)
qed (simp_all add: counts_def assms(2) Let_def)

lemma preview_adds_up:
  assumes "urlsClean u" "ui_preview ui = Some (previewOf u result records)"
  shows "addsUp (counts ui)"
  using preview_numbers [OF assms] keptItems_length [OF preview_numbers(1,2) [OF assms]] by (simp add: addsUp_def)

lemma handler_preview [simp]:
  "ui_preview (inspectFile ui) = ui_preview ui" "ui_preview (runPreview ui) = ui_preview ui"
  "ui_preview (runImport collections ui) = ui_preview ui" "ui_preview (chooseFile file ui) = ui_preview ui"
  "ui_preview (inspected ianswer ui) = ui_preview ui" "ui_preview (imported rq c p cols oanswer ui) = ui_preview ui"
  "ui_preview (resetUi ui) = None"
  "ui_preview (previewed answer ui) = (case answer of Inl e \<Rightarrow> ui_preview ui | Inr p \<Rightarrow> Some p)"
  by (simp_all add: inspectFile_def runPreview_def runImport_def chooseFile_def inspected_def imported_def settled_def
      resetUi_def initialUi_def previewed_def split: option.split sum.split)

lemma reached_preview: "reached env calm ui \<Longrightarrow> ui_preview ui = Some p \<Longrightarrow> previewsOf env p"
proof (induction arbitrary: p rule: reached.induct)
  case (step env calm ui ev ui')
  from step.hyps(2) step.IH step.prems show ?case
    by cases (auto simp: previewAnswer_def previewsOf_def split: sum.splits)
qed (simp add: initialUi_def)

section \<open>Runs that leave a preview alone while it is made\<close>

definition importOf :: "import_env \<Rightarrow> ImportRequest \<Rightarrow> ImportCounts \<Rightarrow> PreviewResult \<Rightarrow> bool" where
  "importOf env request captured p =
     (\<exists>records. p = previewOf (en_url env) (en_parse env (previewPart request)) records \<and> addsUp captured \<and>
        ct_toImport captured = int (length (keptItems (rs_items (en_parse env (previewPart request))) (rq_skipRows request))) \<and>
        ct_total captured = length (rs_items (en_parse env (previewPart request))) + length (pv_errors p) \<and>
        ct_errors captured = length (pv_errors p))"

text \<open>Everything read from the file is uploaded, skipped, or listed as unreadable.\<close>

definition reconciled :: "import_env \<Rightarrow> Completed \<Rightarrow> bool" where
  "reconciled env cp =
     (\<exists>request. cp_errors cp = rs_errors (en_parse env request) \<and>
        length (rs_items (en_parse env request)) = ou_total (cp_outcome cp) + cp_skipped cp)"

definition pendingInv :: "import_env \<Rightarrow> ImportUi \<Rightarrow> bool" where
  "pendingInv env ui =
     (case ui_pending ui of
        None \<Rightarrow> \<not> ui_busy ui
      | Some (Inspecting file) \<Rightarrow> ui_busy ui \<and> ui_step ui = SUpload \<and> ui_file ui \<noteq> None
      | Some (Previewing request) \<Rightarrow>
          ui_busy ui \<and> ui_step ui = SMap \<and> (\<exists>file. ui_file ui = Some file \<and> request = requestOf ui file)
      | Some (Importing request captured p collections) \<Rightarrow>
          ui_busy ui \<and> ui_step ui = SPreview \<and> \<not> ui_confirming ui \<and> importOf env request captured p)"

definition shownInv :: "import_env \<Rightarrow> ImportUi \<Rightarrow> bool" where
  "shownInv env ui =
     (ui_step ui = SPreview \<longrightarrow>
        (\<exists>file records. ui_file ui = Some file \<and>
           ui_preview ui = Some (previewOf (en_url env) (en_parse env (requestOf ui file)) records)))"

definition calmInv :: "import_env \<Rightarrow> ImportUi \<Rightarrow> bool" where
  "calmInv env ui =
     (pendingInv env ui \<and> shownInv env ui \<and> (ui_step ui \<noteq> SUpload \<longrightarrow> ui_file ui \<noteq> None) \<and>
      (\<forall>cp. ui_completed ui = Some cp \<longrightarrow> reconciled env cp))"

lemma requestOf_keep:
  "ui_format ui' = ui_format ui \<Longrightarrow> ui_mapping ui' = ui_mapping ui \<Longrightarrow> requestOf ui' file = requestOf ui file"
  by (simp add: requestOf_def)

lemma previewPart_import: "previewPart (importRequest ui file) = requestOf ui file"
  by (simp add: previewPart_def importRequest_def requestOf_def)

lemma calm_confirm:
  assumes "urlsClean (en_url env)" "calmInv env ui" "ui_step ui = SPreview" "ui_confirming ui"
  shows "calmInv env (runImport collections ui)"
proof -
  obtain fl records where f: "ui_file ui = Some fl"
    "ui_preview ui = Some (previewOf (en_url env) (en_parse env (requestOf ui fl)) records)"
    using assms(2,3) by (auto simp: calmInv_def shownInv_def)
  note n = preview_numbers [OF assms(1) f(2)] preview_adds_up [OF assms(1) f(2)]
  have "importOf env (importRequest ui fl) (counts ui) (previewOf (en_url env) (en_parse env (requestOf ui fl)) records)"
    unfolding importOf_def previewPart_import using n
    by (intro exI [of _ records]) (simp add: importRequest_def)
  then show ?thesis
    using assms(2,3) f unfolding calmInv_def pendingInv_def shownInv_def
    by (auto simp: runImport_def requestOf_def)
qed

lemma calm_imported:
  assumes "calmInv env ui" "ui_pending ui = Some (Importing request captured p collections)" "importAnswer env request answer"
  shows "calmInv env (imported request captured p collections answer ui)"
proof (cases answer)
  case (Inl e)
  then show ?thesis using assms(1,2)
    by (auto simp: calmInv_def pendingInv_def shownInv_def imported_def settled_def requestOf_def)
next
  case (Inr outcome)
  have "importOf env request captured p" using assms(1,2) by (simp add: calmInv_def pendingInv_def)
  then have "reconciled env \<lparr> cp_outcome = outcome, cp_skipped = ct_skipped captured, cp_errors = pv_errors p,
      cp_targetName = targetName collections (rq_collectionId request) \<rparr>"
    using assms(3) Inr unfolding reconciled_def importOf_def importAnswer_def addsUp_def
    by (intro exI [of _ "previewPart request"]) auto
  then show ?thesis using assms(1,2) Inr
    by (auto simp: calmInv_def pendingInv_def shownInv_def imported_def settled_def)
qed

lemma calm_step:
  assumes "urlsClean (en_url env)" "screen_step env ev ui ui'" "calmInv env ui" "ui_busy ui \<longrightarrow> \<not> edits ev"
  shows "calmInv env ui'"
  using assms(2)
proof cases
  case confirmed
  then show ?thesis using calm_confirm [OF assms(1,3)] by simp
next
  case imported
  then show ?thesis using calm_imported [OF assms(3)] by simp
next
  case (previewed request answer)
  then show ?thesis using assms(3)
    by (cases answer) (auto simp: calmInv_def pendingInv_def shownInv_def ImportScreen.previewed_def settled_def
        previewAnswer_def requestOf_def)
next
  case (inspected f answer)
  then show ?thesis using assms(3)
    by (cases answer) (auto simp: calmInv_def pendingInv_def shownInv_def ImportScreen.inspected_def settled_def)
qed (use assms(3,4) in \<open>auto simp: calmInv_def pendingInv_def shownInv_def edits_def chooseFile_def inspectFile_def
      runPreview_def resetUi_def initialUi_def requestOf_def split: option.splits Pending.splits\<close>)

lemma reached_calm: "reached env calm ui \<Longrightarrow> calm \<Longrightarrow> urlsClean (en_url env) \<Longrightarrow> calmInv env ui"
proof (induction rule: reached.induct)
  case (step env calm ui ev ui')
  then show ?case using calm_step by blast
qed (simp add: calmInv_def pendingInv_def shownInv_def initialUi_def)

section \<open>Properties\<close>

text \<open>
  C26. What an import uploads is what its preview listed, less the rows of the groups the user
  skipped. For a file whose bytes do not change, and whatever the vault, the server and the
  choice of groups: preview and import parse the file to the same items; row \<open>i\<close> of the preview shows
  item \<open>i\<close>; what is uploaded, to give the outcome of the import, is exactly the items whose row is not
  skipped, in the order of the preview; and the uploaded items and the skipped rows together are the
  rows of the preview, where no row is skipped twice and every skipped row is one of the preview's.
\<close>

theorem import_uploads_the_rest:
  assumes "urlsClean u" "readsAs arrayBuffer (rq_file request) bytes"
    "onPreview u inflate arrayBuffer request w = (Inr p, w')"
    "previewPart input = request" "rq_skipRows input = skipRowsOf (dr_groups (pv_duplicates p)) skips"
    "onImport pf u inflate arrayBuffer post get input v = (Inr outcome, v')"
  shows "\<exists>result v1. parseBytes u inflate bytes (rq_format input) (rq_mapping input) = Some result \<and>
    pv_rows p = map (\<lambda>i. toPreviewRow (rs_items result ! i) i) [0..<length (rs_items result)] \<and>
    uploadItems pf post
      (map (\<lambda>i. toItemPlaintext None (rs_items result ! i))
        (filter (\<lambda>i. i \<notin> set (rq_skipRows input)) [0..<length (rs_items result)]))
      (rq_collectionId input) v = (Inr outcome, v1) \<and>
    ou_total outcome + length (rq_skipRows input) = length (pv_rows p) \<and>
    distinct (rq_skipRows input) \<and> set (rq_skipRows input) \<subseteq> pw_index ` set (pv_rows p)"
proof -
  have part: "rq_file input = rq_file request" "rq_format input = rq_format request" "rq_mapping input = rq_mapping request"
    using assms(4) by (auto simp: previewPart_def)
  obtain result where result: "parseBytes u inflate bytes (rq_format request) (rq_mapping request) = Some result"
    "parseFile u inflate arrayBuffer (rq_file request) (rq_format request) (rq_mapping request) w = (Inr result, w)"
    using parseFile_run [OF assms(2), of u inflate "rq_format request" "rq_mapping request" w] assms(3)
    by (auto simp: onPreview_def andThen_def)
  have again: "parseFile u inflate arrayBuffer (rq_file input) (rq_format input) (rq_mapping input) v = (Inr result, v)"
    using parseFile_run [OF assms(2), of u inflate "rq_format request" "rq_mapping request" v] result(1) assms(6)
    by (auto simp: part onImport_def andThen_def)
  have p: "p = previewOf u result (va_items (vs_state w))"
    using assms(3) result(2) by (auto simp: onPreview_def andThen_def)
  note rows = skipRowsOf_report [OF assms(1), of "rs_items result" "existingFromRecords (va_items (vs_state w))" skips]
  have shown: "pv_rows p = map (\<lambda>i. toPreviewRow (rs_items result ! i) i) [0..<length (rs_items result)]"
    unfolding p previewOf_def by (rule nth_equalityI) (simp_all add: nth_enumerate_eq)
  have upload: "\<exists>v1. uploadItems pf post
      (map (\<lambda>i. toItemPlaintext None (rs_items result ! i))
        (filter (\<lambda>i. i \<notin> set (rq_skipRows input)) [0..<length (rs_items result)]))
      (rq_collectionId input) v = (Inr outcome, v1)"
    using onImport_uploads [OF assms(6) again] unfolding toItemPlaintexts_def keptItems_nth map_map comp_def .
  have outcome: "ou_total outcome = length (keptItems (rs_items result) (rq_skipRows input))"
    using onImport_total [OF assms(6), of bytes] assms(2) result(1) by (simp add: part)
  have "pw_index ` set (pv_rows p) = {..<length (rs_items result)}" unfolding p by (rule previewOf_index)
  then have "ou_total outcome + length (rq_skipRows input) = length (pv_rows p) \<and>
      distinct (rq_skipRows input) \<and> set (rq_skipRows input) \<subseteq> pw_index ` set (pv_rows p)"
    using rows keptItems_length [OF rows] unfolding outcome by (simp add: assms(5) p)
  then show ?thesis using result(1) shown upload unfolding part by blast
qed

text \<open>
  C27. The numbers reconcile to the end. In any run in which the file, the format and the columns
  are left alone while a call is in flight, whatever the screen shows as ready to import is the
  preview of exactly the request the import will make, the counts shown add up to the rows read,
  and when an import completes, the items it tried to upload, the rows skipped and the errors
  listed account for everything one parse of the file produced.
\<close>

theorem completed_import_reconciles:
  assumes "urlsClean (en_url env)" "reached env True ui"
  shows "addsUp (counts ui) \<and>
    (ui_step ui = SPreview \<longrightarrow>
       (\<exists>chosen records. ui_file ui = Some chosen \<and>
          ui_preview ui = Some (previewOf (en_url env) (en_parse env (previewPart (importRequest ui chosen))) records))) \<and>
    (\<forall>cp. ui_completed ui = Some cp \<longrightarrow> reconciled env cp)"
proof -
  have "addsUp (counts ui)"
  proof (cases "ui_preview ui")
    case None
    then show ?thesis by (simp add: counts_def addsUp_def)
  next
    case (Some p)
    then show ?thesis using reached_preview [OF assms(2)] preview_adds_up [OF assms(1)] by (auto simp: previewsOf_def)
  qed
  then show ?thesis using reached_calm [OF assms(2) TrueI assms(1)]
    by (auto simp: calmInv_def shownInv_def previewPart_import)
qed

text \<open>
  C28. The controls of the map step stay enabled while a preview is being made. From the start, a
  user who changes the format in that time is shown the preview of the old format on the step
  whose import will parse the file by the new one: what is imported was never previewed.
\<close>

theorem edit_during_preview_escapes:
  "\<exists>ui p request chosen. reached env False ui \<and> ui_step ui = SPreview \<and> \<not> ui_busy ui \<and>
     ui_preview ui = Some p \<and> p = previewOf (en_url env) (en_parse env request) [] \<and>
     ui_file ui = Some chosen \<and> rq_format (importRequest ui chosen) \<noteq> rq_format request"
proof -
  let ?f = "\<lparr> fi_name = [], fi_handle = 0 \<rparr>"
  let ?r = "inspectBytes [] []\<lparr> in_format := KeeperCsv \<rparr>"
  define a where "a = chooseFile (Some ?f) initialUi"
  define b where "b = inspected (Inr ?r) (inspectFile a)"
  define c where "c = (runPreview b)\<lparr> ui_format := Detected BrowserCsv \<rparr>"
  let ?p = "previewOf (en_url env) (en_parse env (requestOf b ?f)) []"
  note defs = a_def b_def c_def initialUi_def chooseFile_def inspectFile_def inspected_def settled_def runPreview_def
    previewed_def
  have "reached env False a" unfolding a_def
    by (rule reached.step [OF reached.start screen_step.choose_file]) (simp_all add: initialUi_def)
  then have "reached env False (inspectFile a)"
    by (rule reached.step [OF _ screen_step.inspect]) (simp_all add: defs)
  then have "reached env False b" unfolding b_def
    by (rule reached.step [OF _ screen_step.inspected [of _ ?f]]) (simp_all add: defs)
  then have "reached env False (runPreview b)"
    by (rule reached.step [OF _ screen_step.preview]) (simp_all add: defs)
  then have "reached env False c" unfolding c_def
    by (rule reached.step [OF _ screen_step.choose_format]) (simp_all add: defs)
  then have "reached env False (previewed (Inr ?p) c)"
    by (rule reached.step [OF _ screen_step.previewed [of _ "requestOf b ?f"]])
      (auto simp: defs previewAnswer_def requestOf_def)
  moreover have "ui_step (previewed (Inr ?p) c) = SPreview" "\<not> ui_busy (previewed (Inr ?p) c)"
    "ui_preview (previewed (Inr ?p) c) = Some ?p" "ui_file (previewed (Inr ?p) c) = Some ?f"
    "rq_format (importRequest (previewed (Inr ?p) c) ?f) \<noteq> rq_format (requestOf b ?f)"
    by (simp_all add: defs importRequest_def requestOf_def)
  ultimately show ?thesis by blast
qed

text \<open>
  No column of a file is lost to the mapping. Whatever the user placed, a column of the
  header with a name is either one of the placed ones or carried into the note, never both, and
  no column is carried twice.
\<close>

theorem mapping_partitions_header:
  "headerKeys header \<subseteq> set (placedColumns (normalizeMapping mapping header)) \<union>
     columnKey ` set (cm_custom (normalizeMapping mapping header)) \<and>
   set (placedColumns (normalizeMapping mapping header)) \<inter>
     columnKey ` set (cm_custom (normalizeMapping mapping header)) = {} \<and>
   distinct (map columnKey (cm_custom (normalizeMapping mapping header)))"
  using normalizeMapping_custom [of mapping header] unfolding placedColumns_normalize by blast

section \<open>Witnesses\<close>

definition sampleEnv :: import_env where
  "sampleEnv = \<lparr> en_parse = (\<lambda>request. \<lparr> rs_items = [Dedupe.sampleRow ''Ann'', Dedupe.sampleRow ''ann'', blankImportItem 3],
     rs_errors = [] \<rparr>), en_url = sampleUrl \<rparr>"

lemma sampleUrl_clean: "urlsClean sampleUrl"
  by (simp add: urlsClean_def sampleUrl_def js_def)

definition sampleUi :: ImportUi where
  "sampleUi =
     previewed (Inr (previewOf sampleUrl (en_parse sampleEnv (requestOf initialUi \<lparr> fi_name = [], fi_handle = 0 \<rparr>)) []))
       (runPreview (inspected (Inr (inspectBytes [] []\<lparr> in_format := KeeperCsv \<rparr>))
         (inspectFile (chooseFile (Some \<lparr> fi_name = [], fi_handle = 0 \<rparr>) initialUi))))"

lemma sampleUi_reached: "reached sampleEnv True sampleUi"
proof -
  let ?f = "\<lparr> fi_name = [], fi_handle = 0 \<rparr>"
  define a where "a = chooseFile (Some ?f) initialUi"
  define b where "b = inspected (Inr (inspectBytes [] []\<lparr> in_format := KeeperCsv \<rparr>)) (inspectFile a)"
  note defs = a_def b_def initialUi_def chooseFile_def inspectFile_def inspected_def settled_def runPreview_def
  have "reached sampleEnv True a" unfolding a_def
    by (rule reached.step [OF reached.start screen_step.choose_file]) (simp_all add: initialUi_def)
  then have "reached sampleEnv True (inspectFile a)"
    by (rule reached.step [OF _ screen_step.inspect]) (simp_all add: defs)
  then have "reached sampleEnv True b" unfolding b_def
    by (rule reached.step [OF _ screen_step.inspected [of _ ?f]]) (simp_all add: defs edits_def)
  then have "reached sampleEnv True (runPreview b)"
    by (rule reached.step [OF _ screen_step.preview]) (simp_all add: defs)
  then have "reached sampleEnv True (previewed (Inr (previewOf sampleUrl (en_parse sampleEnv (requestOf initialUi ?f)) [])) (runPreview b))"
    by (rule reached.step [OF _ screen_step.previewed [of _ "requestOf b ?f"]])
      (auto simp: defs previewAnswer_def requestOf_def edits_def sampleEnv_def)
  then show ?thesis by (simp add: sampleUi_def a_def b_def)
qed

theorem completed_import_reconciles_witness:
  "ui_step sampleUi = SPreview \<and> addsUp (counts sampleUi) \<and>
   (\<exists>chosen records. ui_file sampleUi = Some chosen \<and> ui_preview sampleUi =
      Some (previewOf sampleUrl (en_parse sampleEnv (previewPart (importRequest sampleUi chosen))) records))"
proof -
  have "ui_step sampleUi = SPreview" by (simp add: sampleUi_def previewed_def settled_def)
  then show ?thesis
    using completed_import_reconciles [of sampleEnv sampleUi] sampleUi_reached sampleUrl_clean
    by (simp add: sampleEnv_def)
qed

definition sampleText :: jstr where
  "sampleText = js ''f,t,Ann,p,https://x.com'' @ [NL] @ js ''f,t,ann,p,https://x.com''"

lemma sampleText_parse:
  "skipRowsOf (dr_groups (findDuplicates sampleUrl (rs_items (parseKeeperCsv sampleText)) [])) (\<lambda>i. True) = [0, 1]"
  "length (rs_items (parseKeeperCsv sampleText)) = 2" "wellFormed sampleText" "hd sampleText \<noteq> 0xFEFF"
  by code_simp+

definition sampleRequest :: PreviewRequest where
  "sampleRequest = \<lparr> rq_file = \<lparr> fi_name = [], fi_handle = 0 \<rparr>, rq_format = KeeperCsv, rq_mapping = None \<rparr>"

definition sampleImportRequest :: ImportRequest where
  "sampleImportRequest =
     \<lparr> rq_file = \<lparr> fi_name = [], fi_handle = 0 \<rparr>, rq_format = KeeperCsv, rq_mapping = None,
       rq_skipRows = [0, 1], rq_collectionId = None \<rparr>"

definition sampleReader :: "ChosenFile \<Rightarrow> (unit, unit, bytes) vprog" where
  "sampleReader f w = (Inr (utf8Encode sampleText), w)"

definition offlineCall :: "(unit, unit shop_ext, 'r) call" where
  "offlineCall path body w = (Inl NetworkError, w)"

abbreviation offlinePost :: "(unit, unit shop_ext, unit) call" where "offlinePost \<equiv> offlineCall"

lemma sampleRequest_parse:
  "parseFile sampleUrl inflate sampleReader \<lparr> fi_name = [], fi_handle = 0 \<rparr> KeeperCsv None w =
     (Inr (parseKeeperCsv sampleText), w)"
  using utf8_roundtrip [OF sampleText_parse(3)] sampleText_parse(4)
  by (simp add: parseFile_def sampleReader_def andThen_def parseBytes_def decodeText_def ret_def)

theorem import_uploads_the_rest_witness:
  "\<exists>p outcome w'. onPreview sampleUrl (\<lambda>b. None) sampleReader sampleRequest sampleShop = (Inr p, sampleShop) \<and>
     length (pv_rows p) = 2 \<and>
     onImport samplePlatform sampleUrl (\<lambda>b. None) sampleReader offlinePost offlineCall sampleImportRequest sampleShop = (Inr outcome, w') \<and>
     ou_total outcome + 2 = length (pv_rows p)"
proof -
  let ?p = "previewOf sampleUrl (parseKeeperCsv sampleText) (va_items (vs_state sampleShop))"
  have preview: "onPreview sampleUrl (\<lambda>b. None) sampleReader sampleRequest sampleShop = (Inr ?p, sampleShop)"
    by (simp add: onPreview_def sampleRequest_def sampleRequest_parse andThen_def)
  have rows: "length (pv_rows ?p) = 2" by (simp add: sampleText_parse(2))
  have kept: "keptItems (rs_items (parseKeeperCsv sampleText)) [0, Suc 0] = []"
    by (simp add: keptItems_nth sampleText_parse(2) upt_rec)
  obtain outcome w' where import: "onImport samplePlatform sampleUrl (\<lambda>b. None) sampleReader offlinePost offlineCall
      sampleImportRequest sampleShop = (Inr outcome, w')"
    by (simp add: onImport_def sampleImportRequest_def sampleRequest_parse andThen_def kept toItemPlaintexts_def
        Let_def uploadItems_def ret_def tryCatch_def resync_def fetchInto_def offlineCall_def stepState_def throw_def)
  have empty: "existingFromRecords (va_items (vs_state sampleShop)) = []"
    by (simp add: sampleShop_def EMPTY_def existingFromRecords_def existingFromPlaintexts_def)
  have "readsAs sampleReader (rq_file sampleRequest) (utf8Encode sampleText)" by (simp add: readsAs_def sampleReader_def)
  moreover have "previewPart sampleImportRequest = sampleRequest"
    by (simp add: previewPart_def sampleRequest_def sampleImportRequest_def)
  moreover have "rq_skipRows sampleImportRequest = skipRowsOf (dr_groups (pv_duplicates ?p)) (\<lambda>i. True)"
    by (simp add: sampleImportRequest_def sampleText_parse(1) empty)
  ultimately have "ou_total outcome + length (rq_skipRows sampleImportRequest) = length (pv_rows ?p)"
    using import_uploads_the_rest [OF sampleUrl_clean _ preview _ _ import] by blast
  then have "ou_total outcome + 2 = length (pv_rows ?p)" by (simp add: sampleImportRequest_def)
  then show ?thesis using preview rows import by blast
qed

end
