(* ===== verification/VaultView.thy ===== *)
theory VaultView
  imports Store Generator UnicodeCase Failures
begin

text \<open>
  The vault screen (\<^verbatim>\<open>apps/web/src/ui/screens/VaultScreen.tsx\<close>) with its editor
  (\<^verbatim>\<open>ItemEditor.tsx\<close>) and folder rail (\<^verbatim>\<open>FolderSidebar.tsx\<close>): what the list shows, which item
  the editor holds, and what Save and Delete do. The state is the component's; a handler that
  awaits is split at its call, and a form is one mounted instance of the editor.

  Shown: every item is under exactly one of Personal and the folders; the editor never opens on
  an item that could not be decrypted; a save writes the item its form was opened on, unless the
  editor is left while a save is in flight.
\<close>

section \<open>The list\<close>

definition folderIdOf :: "ItemPlaintext \<Rightarrow> jstr option" where
  "folderIdOf p = (case p of PLogin l \<Rightarrow> li_folderId l | PNote n \<Rightarrow> ni_folderId n)"

definition nameOf :: "ItemPlaintext \<Rightarrow> jstr" where
  "nameOf p = (case p of PLogin l \<Rightarrow> li_name l | PNote n \<Rightarrow> ni_name n)"

definition itemFolder :: "ItemRecord \<Rightarrow> jstr option" where
  "itemFolder item = (case ir_plaintext item of None \<Rightarrow> None | Some p \<Rightarrow> folderIdOf p)"

definition filterByFolder :: "ItemRecord list \<Rightarrow> jstr \<Rightarrow> jstr list \<Rightarrow> ItemRecord list" where
  "filterByFolder items folderFilter liveFolderIds =
     (if folderFilter = [] then items
      else if folderFilter = js ''personal'' then
        filter (\<lambda>item. case itemFolder item of None \<Rightarrow> True | Some folderId \<Rightarrow> folderId \<notin> set liveFolderIds) items
      else filter (\<lambda>item. itemFolder item = Some folderFilter) items)"

definition listFilter :: "ItemRecord list \<Rightarrow> jstr \<Rightarrow> jstr \<Rightarrow> ItemRecord list" where
  "listFilter items query collectionFilter =
     (let needle = toLowerCase (trim query) in
      filter (\<lambda>item.
        if collectionFilter = js ''personal'' \<and> ir_collectionId item \<noteq> None then False
        else if collectionFilter \<noteq> [] \<and> collectionFilter \<noteq> js ''personal'' \<and>
                ir_collectionId item \<noteq> Some collectionFilter then False
        else if length needle = 0 then True
        else
          (let name = (case ir_plaintext item of None \<Rightarrow> [] | Some p \<Rightarrow> nameOf p);
               username = (case ir_plaintext item of Some (PLogin l) \<Rightarrow> li_username l | other \<Rightarrow> [])
           in includesStr (toLowerCase name) needle \<or> includesStr (toLowerCase username) needle)) items)"

section \<open>The screen's state\<close>

datatype Tab = TabVault | TabCollections | TabImport | TabSettings | TabAdmin

definition TABS :: "(Tab \<times> jstr) list" where
  "TABS = [(TabVault, js ''Vault''), (TabCollections, js ''Collections''), (TabImport, js ''Import''),
           (TabSettings, js ''Settings''), (TabAdmin, js ''Admin'')]"

definition shownTabs :: "bool \<Rightarrow> (Tab \<times> jstr) list" where
  "shownTabs isAdmin = filter (\<lambda>t. fst t \<noteq> TabAdmin \<or> isAdmin) TABS"

datatype Editing = NotEditing | NewItem | Existing ItemRecord

definition BLANK_LOGIN :: ItemPlaintext where
  "BLANK_LOGIN =
     PLogin \<lparr> li_name = [], li_username = [], li_password = [], li_urls = [], li_notes = [],
              li_favorite = False, li_folderId = None, li_passwordHistory = [] \<rparr>"

definition requirePlaintext :: "ItemRecord \<Rightarrow> ItemPlaintext result" where
  "requirePlaintext record =
     (case ir_plaintext record of
        None \<Rightarrow> Inl (JsError (js ''Cannot edit an item this device could not decrypt''))
      | Some p \<Rightarrow> Inr p)"

text \<open>
  One mounted instance of the editor: its number, its fields, and, for the statements only, what
  it was mounted on.
\<close>

record EditorForm =
  ef_instance :: nat
  ef_name :: jstr
  ef_notes :: jstr
  ef_username :: jstr
  ef_password :: jstr
  ef_busy :: bool
  ef_error :: "jstr option"
  ef_mountedOn :: Editing

datatype SaveCall = CreateCall ItemPlaintext "jstr option" | UpdateCall ItemUpdate

text \<open>A save in flight: the call, the instance whose setters it will use, what it captured.\<close>

record PendingSave =
  ps_call :: SaveCall
  ps_instance :: nat
  ps_editing :: Editing

record VaultUi =
  vu_activeTab :: Tab
  vu_editing :: Editing
  vu_undecryptable :: "ItemRecord option"
  vu_conflict :: "ItemPlaintext option"
  vu_collectionId :: "jstr option"
  vu_folderId :: "jstr option"
  vu_folderFilter :: jstr
  vu_form :: "EditorForm option"
  vu_mounts :: nat
  vu_saves :: "PendingSave list"
  vu_removes :: "jstr list"

definition initialView :: VaultUi where
  "initialView =
     \<lparr> vu_activeTab = TabVault, vu_editing = NotEditing, vu_undecryptable = None, vu_conflict = None,
       vu_collectionId = None, vu_folderId = None, vu_folderFilter = [], vu_form = None, vu_mounts = 0,
       vu_saves = [], vu_removes = [] \<rparr>"

section \<open>Mounting the editor\<close>

definition editorShown :: "VaultUi \<Rightarrow> bool" where
  "editorShown ui = (vu_activeTab ui = TabVault \<and> vu_undecryptable ui = None \<and> vu_editing ui \<noteq> NotEditing)"

definition editorInitial :: "Editing \<Rightarrow> ItemPlaintext result" where
  "editorInitial editing =
     (case editing of Existing record \<Rightarrow> requirePlaintext record | other \<Rightarrow> Inr BLANK_LOGIN)"

definition newForm :: "nat \<Rightarrow> Editing \<Rightarrow> ItemPlaintext \<Rightarrow> EditorForm" where
  "newForm n editing initial =
     \<lparr> ef_instance = n, ef_name = nameOf initial,
       ef_notes = (case initial of PLogin l \<Rightarrow> li_notes l | PNote i \<Rightarrow> ni_notes i),
       ef_username = (case initial of PLogin l \<Rightarrow> li_username l | PNote i \<Rightarrow> []),
       ef_password = (case initial of PLogin l \<Rightarrow> li_password l | PNote i \<Rightarrow> []),
       ef_busy = False, ef_error = None, ef_mountedOn = editing \<rparr>"

text \<open>
  What a render does to the instance. It has no key: while the editor stays on screen it is the
  same instance, whatever it is given, and it keeps its fields.
\<close>

definition rendered :: "VaultUi \<Rightarrow> VaultUi" where
  "rendered ui =
     (if \<not> editorShown ui then ui\<lparr> vu_form := None \<rparr>
      else
        (case (vu_form ui, editorInitial (vu_editing ui)) of
           (None, Inr initial) \<Rightarrow>
             ui\<lparr> vu_form := Some (newForm (vu_mounts ui) (vu_editing ui) initial), vu_mounts := vu_mounts ui + 1 \<rparr>
         | other \<Rightarrow> ui))"

section \<open>The handlers\<close>

definition selectRow :: "ItemRecord \<Rightarrow> VaultUi \<Rightarrow> VaultUi" where
  "selectRow record ui =
     (case ir_plaintext record of
        None \<Rightarrow> ui\<lparr> vu_undecryptable := Some record \<rparr>
      | Some p \<Rightarrow> ui\<lparr> vu_editing := Existing record, vu_collectionId := ir_collectionId record,
                       vu_folderId := folderIdOf p, vu_conflict := None \<rparr>)"

definition newRow :: "VaultUi \<Rightarrow> VaultUi" where
  "newRow ui = ui\<lparr> vu_editing := NewItem, vu_collectionId := None, vu_folderId := None, vu_conflict := None \<rparr>"

definition cancelEdit :: "VaultUi \<Rightarrow> VaultUi" where
  "cancelEdit ui = ui\<lparr> vu_editing := NotEditing, vu_conflict := None \<rparr>"

text \<open>The value of a picker; the empty one is Personal.\<close>

definition picked :: "jstr \<Rightarrow> jstr option" where
  "picked v = (if v = [] then None else Some v)"

definition withFolderId :: "jstr option \<Rightarrow> ItemPlaintext \<Rightarrow> ItemPlaintext" where
  "withFolderId folderId p =
     (case p of PLogin l \<Rightarrow> PLogin (l\<lparr> li_folderId := folderId \<rparr>) | PNote n \<Rightarrow> PNote (n\<lparr> ni_folderId := folderId \<rparr>))"

definition saveCall :: "FolderRecord list \<Rightarrow> VaultUi \<Rightarrow> ItemPlaintext \<Rightarrow> SaveCall option" where
  "saveCall folders ui next =
     (let folderId = (case vu_folderId ui of
                        None \<Rightarrow> None
                      | Some i \<Rightarrow> if i \<in> fr_id ` set folders then Some i else None);
          withFolder = withFolderId folderId next
      in case vu_editing ui of
           NewItem \<Rightarrow> Some (CreateCall withFolder (vu_collectionId ui))
         | NotEditing \<Rightarrow> None
         | Existing record \<Rightarrow>
             Some (UpdateCall \<lparr> up_id = ir_id record, up_revision = ir_revision record,
                                up_collectionId = vu_collectionId ui, up_plaintext = withFolder \<rparr>))"

text \<open>What the editor's Save hands over: its \<^verbatim>\<open>initial\<close> is the item being edited now.\<close>

definition editedItem :: "ItemPlaintext \<Rightarrow> EditorForm \<Rightarrow> ItemPlaintext" where
  "editedItem initial form =
     (case initial of
        PLogin l \<Rightarrow> PLogin (l\<lparr> li_name := ef_name form, li_notes := ef_notes form,
                               li_username := ef_username form, li_password := ef_password form \<rparr>)
      | PNote n \<Rightarrow> PNote (n\<lparr> ni_name := ef_name form, ni_notes := ef_notes form \<rparr>))"

definition submit :: "FolderRecord list \<Rightarrow> VaultUi \<Rightarrow> VaultUi" where
  "submit folders ui =
     (case (vu_form ui, editorInitial (vu_editing ui)) of
        (Some form, Inr initial) \<Rightarrow>
          (let ui' = ui\<lparr> vu_form := Some (form\<lparr> ef_busy := True, ef_error := None \<rparr>) \<rparr> in
           case saveCall folders ui (editedItem initial form) of
             None \<Rightarrow> ui\<lparr> vu_form := Some (form\<lparr> ef_error := None \<rparr>) \<rparr>
           | Some c \<Rightarrow>
               ui'\<lparr> vu_saves := vu_saves ui @
                 [\<lparr> ps_call = c, ps_instance = ef_instance form, ps_editing = vu_editing ui \<rparr>] \<rparr>)
      | other \<Rightarrow> ui)"

datatype SaveAnswer = SaveDone | SaveConflict int "ItemPlaintext option" exn | SaveFailed exn

definition setForm :: "nat \<Rightarrow> (EditorForm \<Rightarrow> EditorForm) \<Rightarrow> VaultUi \<Rightarrow> VaultUi" where
  "setForm n f ui =
     (case vu_form ui of
        None \<Rightarrow> ui
      | Some form \<Rightarrow> if ef_instance form = n then ui\<lparr> vu_form := Some (f form) \<rparr> else ui)"

definition saved :: "(exn \<Rightarrow> jstr) \<Rightarrow> PendingSave \<Rightarrow> SaveAnswer \<Rightarrow> VaultUi \<Rightarrow> VaultUi" where
  "saved engine save answer ui =
     (let ui' = ui\<lparr> vu_saves := remove1 save (vu_saves ui) \<rparr> in
      case answer of
        SaveDone \<Rightarrow> setForm (ps_instance save) (ef_busy_update (\<lambda>b. False))
            (ui'\<lparr> vu_editing := NotEditing, vu_conflict := None \<rparr>)
      | SaveConflict revision winner e \<Rightarrow>
          setForm (ps_instance save) (\<lambda>f. f\<lparr> ef_busy := False, ef_error := Some (messageOf engine e) \<rparr>)
            (case ps_editing save of
               Existing record \<Rightarrow>
                 ui'\<lparr> vu_editing := Existing (record\<lparr> ir_revision := revision \<rparr>), vu_conflict := winner \<rparr>
             | other \<Rightarrow> ui')
      | SaveFailed e \<Rightarrow>
          setForm (ps_instance save) (\<lambda>f. f\<lparr> ef_busy := False, ef_error := Some (messageOf engine e) \<rparr>) ui')"

definition removeRow :: "VaultUi \<Rightarrow> VaultUi" where
  "removeRow ui =
     (case vu_editing ui of
        Existing record \<Rightarrow> ui\<lparr> vu_removes := vu_removes ui @ [ir_id record] \<rparr>
      | other \<Rightarrow> ui)"

definition removed :: "jstr \<Rightarrow> bool \<Rightarrow> VaultUi \<Rightarrow> VaultUi" where
  "removed i ok ui =
     (let ui' = ui\<lparr> vu_removes := remove1 i (vu_removes ui) \<rparr> in
      if ok then ui'\<lparr> vu_editing := NotEditing, vu_conflict := None \<rparr> else ui')"

section \<open>What the calls do\<close>

text \<open>
  The awaited part of \<^verbatim>\<open>save\<close>. \<open>cast\<close> is the source's reading of the row a conflict carries as
  a wire item.
\<close>

definition performSave ::
  "platform \<Rightarrow> ('s, 'z shop_ext, WireItem) call \<Rightarrow> ('s, 'z shop_ext, WireItem) call \<Rightarrow> (json \<Rightarrow> WireItem) \<Rightarrow>
   SaveCall \<Rightarrow> ('s, 'z, SaveAnswer) vprog" where
  "performSave pf post put cast c =
     (case c of
        CreateCall item collectionId \<Rightarrow>
          tryCatch
            (andThen (createItem pf post item collectionId) (\<lambda>record.
             andThen (\<lambda>w. (Inr (), upsert record w)) (\<lambda>u. ret SaveDone)))
            (\<lambda>e. ret (SaveFailed e))
      | UpdateCall input \<Rightarrow>
          tryCatch
            (andThen (updateItem pf put input) (\<lambda>record.
             andThen (\<lambda>w. (Inr (), upsert record w)) (\<lambda>u. ret SaveDone)))
            (\<lambda>e. case e of
               ItemConflictError current \<Rightarrow>
                 tryCatch
                   (andThen (decryptRecords pf [cast current]) (\<lambda>records.
                      ret (SaveConflict (wi_revision (cast current))
                             (case records of [] \<Rightarrow> None | r # rs \<Rightarrow> ir_plaintext r) e)))
                   (\<lambda>e'. ret (SaveFailed e'))
             | other \<Rightarrow> ret (SaveFailed e)))"

definition performRemove :: "('s, 'z shop_ext, 'r) call \<Rightarrow> jstr \<Rightarrow> ('s, 'z, unit) vprog" where
  "performRemove del i = andThen (deleteItem del i) (\<lambda>u w. (Inr (), removeItem i w))"

section \<open>What the screen shows of them\<close>

definition usableCollections :: "VaultState \<Rightarrow> CollectionSummary list" where
  "usableCollections state = filter cs_usable (va_collections state)"

definition assignableFolders :: "VaultState \<Rightarrow> FolderRecord list" where
  "assignableFolders state = filter (\<lambda>folder. fr_name folder \<noteq> None) (va_folders state)"

definition currentFolder :: "VaultState \<Rightarrow> VaultUi \<Rightarrow> FolderRecord option" where
  "currentFolder state ui =
     (case vu_folderId ui of
        None \<Rightarrow> None
      | Some i \<Rightarrow> find (\<lambda>folder. fr_id folder = i) (va_folders state))"

definition currentFolderUndecryptable :: "VaultState \<Rightarrow> VaultUi \<Rightarrow> bool" where
  "currentFolderUndecryptable state ui =
     (case currentFolder state ui of None \<Rightarrow> False | Some folder \<Rightarrow> fr_name folder = None)"

definition folderSelectValue :: "VaultState \<Rightarrow> VaultUi \<Rightarrow> jstr" where
  "folderSelectValue state ui = (if currentFolder state ui \<noteq> None then orElse (vu_folderId ui) [] else [])"

definition isMovingOut :: "VaultUi \<Rightarrow> bool" where
  "isMovingOut ui =
     (case vu_editing ui of
        Existing record \<Rightarrow> ir_collectionId record \<noteq> None \<and> vu_collectionId ui \<noteq> ir_collectionId record
      | other \<Rightarrow> False)"

section \<open>What may happen next\<close>

datatype ViewEvent =
    EvTab | EvSelect | EvNew | EvReturn | EvCollection | EvFolder | EvFilter | EvEdit | EvCancelEdit | EvSubmit
  | EvSaved | EvRemove | EvRemoved

definition listShown :: "VaultUi \<Rightarrow> bool" where
  "listShown ui = (vu_activeTab ui = TabVault \<and> vu_undecryptable ui = None \<and> vu_editing ui = NotEditing)"

text \<open>
  The guards are what is rendered and what is disabled: Save while its form is busy, or with an
  empty name; nothing else.
\<close>

inductive view_step :: "(exn \<Rightarrow> jstr) \<Rightarrow> ViewEvent \<Rightarrow> VaultUi \<Rightarrow> VaultUi \<Rightarrow> bool" where
  tab: "view_step engine EvTab ui (rendered (ui\<lparr> vu_activeTab := t \<rparr>))"
| select: "listShown ui \<Longrightarrow> view_step engine EvSelect ui (rendered (selectRow record ui))"
| new: "listShown ui \<Longrightarrow> view_step engine EvNew ui (rendered (newRow ui))"
| return: "vu_undecryptable ui \<noteq> None \<Longrightarrow> view_step engine EvReturn ui (rendered (ui\<lparr> vu_undecryptable := None \<rparr>))"
| choose_collection: "editorShown ui \<Longrightarrow> view_step engine EvCollection ui (rendered (ui\<lparr> vu_collectionId := picked v \<rparr>))"
| choose_folder: "editorShown ui \<Longrightarrow> view_step engine EvFolder ui (rendered (ui\<lparr> vu_folderId := picked v \<rparr>))"
| choose_filter: "listShown ui \<Longrightarrow> view_step engine EvFilter ui (rendered (ui\<lparr> vu_folderFilter := v \<rparr>))"
| edit: "vu_form ui = Some form \<Longrightarrow> view_step engine EvEdit ui
    (rendered (ui\<lparr> vu_form := Some (form\<lparr> ef_name := n, ef_notes := ns, ef_username := un, ef_password := pw \<rparr>) \<rparr>))"
| cancel_edit: "editorShown ui \<Longrightarrow> view_step engine EvCancelEdit ui (rendered (cancelEdit ui))"
| submit: "vu_form ui = Some form \<Longrightarrow> \<not> ef_busy form \<Longrightarrow> ef_name form \<noteq> [] \<Longrightarrow>
    view_step engine EvSubmit ui (rendered (submit folders ui))"
| saved: "save \<in> set (vu_saves ui) \<Longrightarrow> view_step engine EvSaved ui (rendered (saved engine save answer ui))"
| remove: "editorShown ui \<Longrightarrow> view_step engine EvRemove ui (rendered (removeRow ui))"
| removed: "i \<in> set (vu_removes ui) \<Longrightarrow> view_step engine EvRemoved ui (rendered (removed i ok ui))"

text \<open>Leaving the editor, or deleting its item, with a call in flight.\<close>

definition leaves_in_flight :: "VaultUi \<Rightarrow> ViewEvent \<Rightarrow> bool" where
  "leaves_in_flight ui ev =
     ((vu_saves ui \<noteq> [] \<and> ev \<in> {EvTab, EvCancelEdit, EvRemove}) \<or> (vu_removes ui \<noteq> [] \<and> ev = EvSubmit))"

inductive viewed :: "(exn \<Rightarrow> jstr) \<Rightarrow> bool \<Rightarrow> VaultUi \<Rightarrow> bool" where
  start: "viewed engine calm initialView"
| step: "viewed engine calm ui \<Longrightarrow> view_step engine ev ui ui' \<Longrightarrow> (calm \<longrightarrow> \<not> leaves_in_flight ui ev) \<Longrightarrow>
    viewed engine calm ui'"

section \<open>The folder buckets\<close>

lemma filter_named:
  "i \<noteq> [] \<Longrightarrow> i \<noteq> js ''personal'' \<Longrightarrow> item \<in> set (filterByFolder items i live) \<longleftrightarrow> item \<in> set items \<and> itemFolder item = Some i"
  by (auto simp: filterByFolder_def)

lemma filter_personal:
  "item \<in> set (filterByFolder items (js ''personal'') live) \<longleftrightarrow>
     item \<in> set items \<and> (\<forall>i. itemFolder item = Some i \<longrightarrow> i \<notin> set live)"
proof -
  have "js ''personal'' \<noteq> []" by (simp add: js_def)
  then show ?thesis by (auto simp: filterByFolder_def split: option.splits)
qed

section \<open>The editor never opens on nothing\<close>

definition readable :: "Editing \<Rightarrow> bool" where
  "readable editing = (case editing of Existing record \<Rightarrow> ir_plaintext record \<noteq> None | other \<Rightarrow> True)"

definition readableUi :: "VaultUi \<Rightarrow> bool" where
  "readableUi ui = (readable (vu_editing ui) \<and> (\<forall>save \<in> set (vu_saves ui). readable (ps_editing save)))"

lemma rendered_simps [simp]:
  "vu_editing (rendered ui) = vu_editing ui" "vu_saves (rendered ui) = vu_saves ui" "vu_removes (rendered ui) = vu_removes ui"
  "vu_activeTab (rendered ui) = vu_activeTab ui" "vu_undecryptable (rendered ui) = vu_undecryptable ui"
  "vu_conflict (rendered ui) = vu_conflict ui"
  "vu_collectionId (rendered ui) = vu_collectionId ui" "vu_folderId (rendered ui) = vu_folderId ui"
  by (simp_all add: rendered_def split: option.split sum.split)

lemma setForm_simps [simp]:
  "vu_editing (setForm n f ui) = vu_editing ui" "vu_saves (setForm n f ui) = vu_saves ui"
  "vu_removes (setForm n f ui) = vu_removes ui" "vu_mounts (setForm n f ui) = vu_mounts ui"
  "vu_activeTab (setForm n f ui) = vu_activeTab ui" "vu_undecryptable (setForm n f ui) = vu_undecryptable ui"
  by (simp_all add: setForm_def split: option.split)

lemma readable_saved:
  assumes "save \<in> set (vu_saves ui)" "readableUi ui"
  shows "readableUi (saved engine save answer ui)"
proof -
  have "readable (ps_editing save)" "readable (vu_editing ui)" "\<forall>s \<in> set (remove1 save (vu_saves ui)). readable (ps_editing s)"
    using assms set_remove1_subset [of save "vu_saves ui"] by (auto simp: readableUi_def)
  then show ?thesis
    by (auto simp: readableUi_def saved_def Let_def readable_def split: SaveAnswer.split Editing.splits)
qed

lemma readable_rendered [simp]: "readableUi (rendered ui) = readableUi ui"
  by (simp add: readableUi_def)

lemma readable_handlers:
  assumes "readableUi ui"
  shows "readableUi (selectRow record ui)" "readableUi (newRow ui)" "readableUi (cancelEdit ui)"
    "readableUi (removeRow ui)" "readableUi (removed i ok ui)" "readableUi (submit folders ui)"
proof -
  show "readableUi (selectRow record ui)"
    using assms by (cases "ir_plaintext record") (simp_all add: readableUi_def selectRow_def readable_def)
  show "readableUi (newRow ui)" "readableUi (cancelEdit ui)"
    using assms by (simp_all add: readableUi_def newRow_def cancelEdit_def readable_def)
  show "readableUi (removeRow ui)"
    using assms by (cases "vu_editing ui") (simp_all add: readableUi_def removeRow_def)
  show "readableUi (removed i ok ui)"
    using assms by (cases ok) (simp_all add: readableUi_def removed_def Let_def readable_def)
  show "readableUi (submit folders ui)"
  proof (cases "vu_form ui")
    case None
    then show ?thesis using assms by (simp add: submit_def)
  next
    case (Some form)
    show ?thesis
    proof (cases "editorInitial (vu_editing ui)")
      case Inl
      then show ?thesis using assms by (simp add: submit_def Some)
    next
      case (Inr initial)
      then show ?thesis using assms
        by (cases "saveCall folders ui (editedItem initial form)") (simp_all add: submit_def Some readableUi_def)
    qed
  qed
qed

lemma readable_step: "view_step engine ev ui ui' \<Longrightarrow> readableUi ui \<Longrightarrow> readableUi ui'"
proof (induction rule: view_step.induct)
  case (saved save ui engine answer)
  then show ?case by (simp add: readable_saved)
qed (simp_all add: readable_handlers, simp_all add: readableUi_def)

lemma viewed_readable: "viewed engine calm ui \<Longrightarrow> readableUi ui"
proof (induction rule: viewed.induct)
  case start
  then show ?case by (simp add: readableUi_def initialView_def readable_def)
next
  case step
  then show ?case using readable_step by blast
qed

section \<open>Saves that stay with their form\<close>

definition sameItem :: "Editing \<Rightarrow> Editing \<Rightarrow> bool" where
  "sameItem x y =
     (case (x, y) of
        (NewItem, NewItem) \<Rightarrow> True
      | (Existing r, Existing r') \<Rightarrow> ir_id r = ir_id r' \<and> ir_plaintext r = ir_plaintext r'
      | other \<Rightarrow> False)"

text \<open>Everything of an item the editor has no field for is as it was.\<close>

definition editedFrom :: "ItemPlaintext \<Rightarrow> ItemPlaintext \<Rightarrow> bool" where
  "editedFrom q p =
     (case (q, p) of
        (PLogin l, PLogin l') \<Rightarrow> li_urls l' = li_urls l \<and> li_favorite l' = li_favorite l \<and>
          li_passwordHistory l' = li_passwordHistory l
      | (PNote n, PNote n') \<Rightarrow> ni_favorite n' = ni_favorite n
      | other \<Rightarrow> False)"

definition writesItemOf :: "Editing \<Rightarrow> SaveCall \<Rightarrow> bool" where
  "writesItemOf mounted c =
     (case c of
        CreateCall p collectionId \<Rightarrow> mounted = NewItem \<and> editedFrom BLANK_LOGIN p
      | UpdateCall input \<Rightarrow>
          (\<exists>record q. mounted = Existing record \<and> up_id input = ir_id record \<and> ir_plaintext record = Some q \<and>
             editedFrom q (up_plaintext input)))"

definition formInv :: "VaultUi \<Rightarrow> bool" where
  "formInv ui = (\<forall>f. vu_form ui = Some f \<longrightarrow> editorShown ui \<and> sameItem (ef_mountedOn f) (vu_editing ui))"

definition savesInv :: "VaultUi \<Rightarrow> bool" where
  "savesInv ui =
     (vu_saves ui = [] \<or>
      vu_removes ui = [] \<and>
      (\<exists>save f. vu_saves ui = [save] \<and> vu_form ui = Some f \<and> ef_instance f = ps_instance save \<and> ef_busy f \<and>
         ps_editing save = vu_editing ui \<and> writesItemOf (ef_mountedOn f) (ps_call save)))"

definition viewInv :: "VaultUi \<Rightarrow> bool" where
  "viewInv ui = (readableUi ui \<and> formInv ui \<and> savesInv ui)"

lemma sameItem_refl [simp]: "sameItem e e = (e \<noteq> NotEditing)"
  by (cases e) (simp_all add: sameItem_def)

lemma editedFrom_save: "editedFrom initial (withFolderId i (editedItem initial form))"
  by (cases initial) (simp_all add: editedFrom_def withFolderId_def editedItem_def)

lemma saveCall_writes:
  assumes "saveCall folders ui (editedItem initial form) = Some c" "editorInitial (vu_editing ui) = Inr initial"
    "sameItem mounted (vu_editing ui)"
  shows "writesItemOf mounted c"
proof (cases "vu_editing ui")
  case NotEditing
  then show ?thesis using assms(1) by (simp add: saveCall_def)
next
  case NewItem
  then have "initial = BLANK_LOGIN" "mounted = NewItem"
    using assms(2,3) by (auto simp: editorInitial_def sameItem_def split: Editing.splits)
  then show ?thesis using assms(1) NewItem
    by (auto simp: saveCall_def Let_def writesItemOf_def editedFrom_save)
next
  case (Existing rec)
  then obtain r where r: "mounted = Existing r" "ir_id r = ir_id rec" "ir_plaintext r = ir_plaintext rec"
    using assms(3) by (auto simp: sameItem_def split: Editing.splits)
  have "ir_plaintext rec = Some initial"
    using assms(2) Existing by (auto simp: editorInitial_def requirePlaintext_def split: option.splits)
  then show ?thesis using assms(1) Existing r
    by (auto simp: saveCall_def Let_def writesItemOf_def editedFrom_save)
qed

lemma rendered_form:
  assumes "formInv ui \<or> vu_form ui = None \<or> \<not> editorShown ui"
  shows "formInv (rendered ui)"
proof (cases "editorShown ui")
  case False
  then show ?thesis by (simp add: formInv_def rendered_def)
next
  case True
  then have e: "vu_editing ui \<noteq> NotEditing" by (simp add: editorShown_def)
  show ?thesis
  proof (cases "vu_form ui")
    case None
    then show ?thesis using True e
      by (cases "editorInitial (vu_editing ui)") (auto simp: formInv_def rendered_def newForm_def editorShown_def)
  next
    case (Some f)
    then show ?thesis using True assms by (auto simp: rendered_def)
  qed
qed

text \<open>A handler that leaves the editor shown, its item and the calls in flight as they were.\<close>

lemma viewInv_quiet:
  assumes "viewInv ui" "vu_editing ui' = vu_editing ui" "vu_saves ui' = vu_saves ui" "vu_removes ui' = vu_removes ui"
    "editorShown ui' = editorShown ui" "vu_form ui' = vu_form ui"
  shows "viewInv (rendered ui')"
proof -
  have "formInv ui'" using assms by (simp add: viewInv_def formInv_def)
  moreover have "vu_form (rendered ui') = vu_form ui" if "vu_saves ui \<noteq> []"
    using that assms by (auto simp: viewInv_def savesInv_def formInv_def rendered_def)
  ultimately show ?thesis
    using assms rendered_form [of ui'] by (auto simp: viewInv_def savesInv_def readableUi_def)
qed

text \<open>With nothing in flight, any readable editor will do.\<close>

lemma viewInv_idle:
  assumes "readableUi ui'" "vu_saves ui' = []" "formInv ui' \<or> vu_form ui' = None \<or> \<not> editorShown ui'"
  shows "viewInv (rendered ui')"
  using assms rendered_form [OF assms(3)] by (simp add: viewInv_def savesInv_def)

lemma listShown_no_form: "viewInv ui \<Longrightarrow> listShown ui \<Longrightarrow> vu_form ui = None \<and> vu_saves ui = []"
  by (auto simp: viewInv_def formInv_def savesInv_def listShown_def editorShown_def)

lemma viewInv_form:
  assumes "viewInv ui" "vu_form ui = Some f"
  shows "editorShown ui" "sameItem (ef_mountedOn f) (vu_editing ui)"
    "vu_saves ui \<noteq> [] \<Longrightarrow> ef_busy f"
  using assms by (auto simp: viewInv_def formInv_def savesInv_def)

lemma rendered_shown: "editorShown ui \<Longrightarrow> vu_form ui = Some f \<Longrightarrow> rendered ui = ui"
  by (simp add: rendered_def)

lemma calm_submit:
  assumes "viewInv ui" "vu_form ui = Some form" "\<not> ef_busy form" "vu_removes ui = []"
  shows "viewInv (rendered (submit folders ui))"
proof -
  have f: "editorShown ui" "sameItem (ef_mountedOn form) (vu_editing ui)" "vu_saves ui = []"
    using viewInv_form [OF assms(1,2)] assms(3) by auto
  have r: "readableUi (submit folders ui)" using assms(1) readable_handlers(6) by (simp add: viewInv_def)
  show ?thesis
  proof (cases "editorInitial (vu_editing ui)")
    case (Inl e)
    then show ?thesis using assms(1) f(1) by (simp add: submit_def assms(2) rendered_shown [OF f(1) assms(2)])
  next
    case (Inr initial)
    show ?thesis
    proof (cases "saveCall folders ui (editedItem initial form)")
      case None
      then show ?thesis using f r
        by (intro viewInv_idle) (simp_all add: submit_def assms(2) Inr formInv_def editorShown_def)
    next
      case (Some c)
      let ?ui = "submit folders ui"
      have s: "vu_form ?ui = Some (form\<lparr> ef_busy := True, ef_error := None \<rparr>)" "vu_editing ?ui = vu_editing ui"
        "vu_saves ?ui = [\<lparr> ps_call = c, ps_instance = ef_instance form, ps_editing = vu_editing ui \<rparr>]"
        "vu_removes ?ui = []" "editorShown ?ui"
        using f assms(2,4) Some Inr by (simp_all add: submit_def Let_def editorShown_def)
      then have "rendered ?ui = ?ui" using rendered_shown by blast
      then show ?thesis using s r f(2) saveCall_writes [OF Some Inr f(2)]
        by (simp add: viewInv_def formInv_def savesInv_def)
    qed
  qed
qed

lemma calm_saved:
  assumes "viewInv ui" "save \<in> set (vu_saves ui)"
  shows "viewInv (rendered (saved engine save answer ui))"
proof -
  obtain f where f: "vu_saves ui = [save]" "vu_form ui = Some f" "ef_instance f = ps_instance save"
    "ps_editing save = vu_editing ui"
    using assms by (auto simp: viewInv_def savesInv_def)
  have shown: "editorShown ui" "sameItem (ef_mountedOn f) (vu_editing ui)" using viewInv_form [OF assms(1) f(2)] by auto
  let ?ui = "saved engine save answer ui"
  have "readableUi ?ui" using readable_saved [OF assms(2)] assms(1) by (simp add: viewInv_def)
  moreover have "vu_saves ?ui = []"
    by (cases answer) (simp_all add: saved_def Let_def f split: Editing.split)
  moreover have "formInv ?ui \<or> \<not> editorShown ?ui"
  proof (cases answer)
    case SaveDone
    then show ?thesis by (simp add: saved_def Let_def editorShown_def)
  next
    case (SaveConflict revision winner e)
    then show ?thesis using shown f
      by (cases "vu_editing ui")
        (auto simp: saved_def Let_def editorShown_def formInv_def setForm_def sameItem_def split: Editing.splits)
  next
    case (SaveFailed e)
    then show ?thesis using shown f by (auto simp: saved_def Let_def editorShown_def formInv_def setForm_def)
  qed
  ultimately show ?thesis using viewInv_idle by blast
qed

lemma formInv_keep:
  "formInv ui \<Longrightarrow> vu_editing ui' = vu_editing ui \<Longrightarrow> vu_form ui' = vu_form ui \<Longrightarrow>
   editorShown ui' = editorShown ui \<Longrightarrow> formInv ui'"
  by (simp add: formInv_def)

lemma calm_edit:
  assumes "viewInv ui" "vu_form ui = Some form"
  shows "viewInv (rendered (ui\<lparr> vu_form := Some (form\<lparr> ef_name := n, ef_notes := ns, ef_username := un, ef_password := pw \<rparr>) \<rparr>))"
proof -
  let ?ui = "ui\<lparr> vu_form := Some (form\<lparr> ef_name := n, ef_notes := ns, ef_username := un, ef_password := pw \<rparr>) \<rparr>"
  have "editorShown ?ui" using viewInv_form [OF assms] by (simp add: editorShown_def)
  then have "rendered ?ui = ?ui" by (simp add: rendered_def)
  then show ?thesis using assms viewInv_form [OF assms]
    by (auto simp: viewInv_def readableUi_def formInv_def savesInv_def editorShown_def)
qed

lemma handler_keeps [simp]:
  "vu_saves (selectRow rec ui) = vu_saves ui" "vu_form (selectRow rec ui) = vu_form ui"
  "vu_saves (newRow ui) = vu_saves ui" "vu_form (newRow ui) = vu_form ui"
  "vu_saves (cancelEdit ui) = vu_saves ui" "vu_editing (cancelEdit ui) = NotEditing"
  "vu_saves (removeRow ui) = vu_saves ui" "vu_form (removeRow ui) = vu_form ui" "vu_editing (removeRow ui) = vu_editing ui"
  "editorShown (removeRow ui) = editorShown ui"
  "vu_saves (removed i ok ui) = vu_saves ui" "vu_form (removed i ok ui) = vu_form ui"
  "vu_editing (removed i ok ui) = (if ok then NotEditing else vu_editing ui)"
  "editorShown (removed i ok ui) = (\<not> ok \<and> editorShown ui)"
  by (simp_all add: selectRow_def newRow_def cancelEdit_def removeRow_def removed_def Let_def editorShown_def
      split: option.split Editing.split)

lemma calm_view_step:
  assumes "view_step engine ev ui ui'" "viewInv ui" "\<not> leaves_in_flight ui ev"
  shows "viewInv ui'"
  using assms(1)
proof cases
  case (tab t)
  have r: "readableUi ui" "formInv ui" using assms(2) by (simp_all add: viewInv_def)
  have "formInv (ui\<lparr> vu_activeTab := t \<rparr>) \<or> \<not> editorShown (ui\<lparr> vu_activeTab := t \<rparr>) \<or> vu_form ui = None"
    using r(2) by (auto simp: formInv_def editorShown_def)
  then show ?thesis using tab r assms(3)
    by (auto simp: leaves_in_flight_def readableUi_def intro!: viewInv_idle)
next
  case (select rec)
  have "readableUi (selectRow rec ui)" using readable_handlers(1) assms(2) by (simp add: viewInv_def)
  then show ?thesis using select listShown_no_form [OF assms(2)] viewInv_idle by simp
next
  case new
  have "readableUi (newRow ui)" using readable_handlers(2) assms(2) by (simp add: viewInv_def)
  then show ?thesis using new listShown_no_form [OF assms(2)] viewInv_idle by simp
next
  case return
  then have "vu_form ui = None" "vu_saves ui = []"
    using assms(2) by (auto simp: viewInv_def formInv_def savesInv_def editorShown_def)
  moreover have "readableUi (ui\<lparr> vu_undecryptable := None \<rparr>)" using assms(2) by (simp add: viewInv_def readableUi_def)
  ultimately show ?thesis using return viewInv_idle by simp
next
  case (choose_collection v)
  then show ?thesis using viewInv_quiet [OF assms(2), of "ui\<lparr> vu_collectionId := picked v \<rparr>"] by (simp add: editorShown_def)
next
  case (choose_folder v)
  then show ?thesis using viewInv_quiet [OF assms(2), of "ui\<lparr> vu_folderId := picked v \<rparr>"] by (simp add: editorShown_def)
next
  case (choose_filter v)
  then show ?thesis using viewInv_quiet [OF assms(2), of "ui\<lparr> vu_folderFilter := v \<rparr>"] by (simp add: editorShown_def)
next
  case edit
  then show ?thesis using calm_edit [OF assms(2)] by simp
next
  case cancel_edit
  have "readableUi (cancelEdit ui)" using readable_handlers(3) assms(2) by (simp add: viewInv_def)
  then show ?thesis using cancel_edit assms(3) viewInv_idle by (simp add: leaves_in_flight_def editorShown_def)
next
  case (submit form folders)
  then show ?thesis using calm_submit [OF assms(2)] assms(3) by (simp add: leaves_in_flight_def)
next
  case saved
  then show ?thesis using calm_saved [OF assms(2)] by simp
next
  case remove
  have "readableUi (removeRow ui)" "formInv (removeRow ui)"
    using assms(2) readable_handlers(4) by (auto simp: viewInv_def intro: formInv_keep)
  then show ?thesis using remove assms(3) viewInv_idle by (simp add: leaves_in_flight_def)
next
  case (removed i ok)
  have "vu_saves ui = []" using removed assms(2) by (auto simp: viewInv_def savesInv_def)
  moreover have "formInv (VaultView.removed i ok ui) \<or> \<not> editorShown (VaultView.removed i ok ui)"
    using assms(2) by (cases ok) (auto simp: viewInv_def intro: formInv_keep)
  moreover have "readableUi (VaultView.removed i ok ui)" using assms(2) readable_handlers(5) by (simp add: viewInv_def)
  ultimately have "viewInv (rendered (VaultView.removed i ok ui))" by (intro viewInv_idle) auto
  then show ?thesis using removed by simp
qed

lemma viewed_calm: "viewed engine calm ui \<Longrightarrow> calm \<Longrightarrow> viewInv ui"
proof (induction rule: viewed.induct)
  case start
  then show ?case by (simp add: viewInv_def readableUi_def readable_def formInv_def savesInv_def initialView_def)
next
  case step
  then show ?case using calm_view_step by blast
qed

section \<open>Properties\<close>

text \<open>
  C29. The folder rail loses no item. With folders whose ids are not the two words the filter
  reserves, every item of the vault is listed under exactly one of Personal and the live folders:
  an item whose folder was deleted, or that could not be decrypted, is under Personal.
\<close>

theorem folders_partition_items:
  assumes "[] \<notin> set live" "js ''personal'' \<notin> set live" "item \<in> set items"
  shows "\<exists>!bucket. bucket \<in> insert (js ''personal'') (set live) \<and> item \<in> set (filterByFolder items bucket live)"
proof -
  have named: "item \<in> set (filterByFolder items i live) \<longleftrightarrow> itemFolder item = Some i" if "i \<in> set live" for i
  proof -
    have "i \<noteq> []" "i \<noteq> js ''personal''" using that assms(1,2) by auto
    then show ?thesis using assms(3) by (simp add: filter_named)
  qed
  show ?thesis
  proof (cases "itemFolder item = None \<or> the (itemFolder item) \<notin> set live")
    case True
    then have p: "item \<in> set (filterByFolder items (js ''personal'') live)"
      using assms(3) by (auto simp: filter_personal)
    show ?thesis
    proof (rule ex1I)
      show "js ''personal'' \<in> insert (js ''personal'') (set live) \<and> item \<in> set (filterByFolder items (js ''personal'') live)"
        using p by simp
      show "bucket = js ''personal''"
        if "bucket \<in> insert (js ''personal'') (set live) \<and> item \<in> set (filterByFolder items bucket live)" for bucket
        using that True named by auto
    qed
  next
    case False
    then obtain i where i: "itemFolder item = Some i" "i \<in> set live" by auto
    then have p: "item \<notin> set (filterByFolder items (js ''personal'') live)" by (simp add: filter_personal)
    show ?thesis
    proof (rule ex1I)
      show "i \<in> insert (js ''personal'') (set live) \<and> item \<in> set (filterByFolder items i live)"
        using i named by simp
      show "bucket = i"
        if "bucket \<in> insert (js ''personal'') (set live) \<and> item \<in> set (filterByFolder items bucket live)" for bucket
        using that p i named by auto
    qed
  qed
qed

text \<open>
  C30. Save writes the item its form was opened on. In any run in which the editor is not left,
  nor its item deleted, while a save is in flight, there is at most one save at a time, and it
  writes under the id of the item the form still on screen was mounted on, and changes nothing
  of that item the editor has no field for. In every run whatsoever the editor holds no item
  this device could not decrypt.
\<close>

theorem save_writes_its_item:
  assumes "viewed engine calm ui"
  shows "readable (vu_editing ui) \<and>
    (calm \<longrightarrow> length (vu_saves ui) \<le> 1 \<and>
      (\<forall>save \<in> set (vu_saves ui). \<exists>form. vu_form ui = Some form \<and> ef_busy form \<and>
         writesItemOf (ef_mountedOn form) (ps_call save)))"
proof -
  have "readable (vu_editing ui)" using viewed_readable [OF assms] by (simp add: readableUi_def)
  moreover have "length (vu_saves ui) \<le> 1 \<and> (\<forall>save \<in> set (vu_saves ui). \<exists>form. vu_form ui = Some form \<and> ef_busy form \<and>
      writesItemOf (ef_mountedOn form) (ps_call save))" if calm
    using viewed_calm [OF assms that] by (auto simp: viewInv_def savesInv_def)
  ultimately show ?thesis by blast
qed

text \<open>
  C31. Cancel stays enabled while a save is in flight, and the editor's instance has no key. For
  any two logins, this run is possible, without a key typed: open the first and Save; while the save
  is in flight, Cancel, open the second; the conflict of the first save arrives; Save. It ends with
  a form that was opened on the second item and one save in flight, which writes the second login's
  name, username and password under the id of the first.
\<close>

theorem cancelled_save_overwrites_other_item:
  fixes a b :: ItemRecord and la lb :: LoginItem
  assumes "ir_plaintext a = Some (PLogin la)" "ir_plaintext b = Some (PLogin lb)" "li_name la \<noteq> []" "li_name lb \<noteq> []"
  shows "let u1 = rendered (selectRow a initialView);
      u2 = rendered (submit folders u1);
      u3 = rendered (cancelEdit u2);
      u4 = rendered (selectRow b u3);
      u5 = rendered (saved engine (hd (vu_saves u2)) (SaveConflict revision winner e) u4);
      u6 = rendered (submit folders u5)
    in view_step engine EvSelect initialView u1 \<and> view_step engine EvSubmit u1 u2 \<and>
       view_step engine EvCancelEdit u2 u3 \<and> view_step engine EvSelect u3 u4 \<and>
       view_step engine EvSaved u4 u5 \<and> view_step engine EvSubmit u5 u6 \<and>
       (\<exists>form save input l. vu_form u6 = Some form \<and> ef_mountedOn form = Existing b \<and>
          vu_saves u6 = [save] \<and> ps_call save = UpdateCall input \<and>
          up_id input = ir_id a \<and> up_plaintext input = PLogin l \<and>
          li_name l = li_name lb \<and> li_username l = li_username lb \<and> li_password l = li_password lb \<and>
          (ir_id a \<noteq> ir_id b \<longrightarrow> \<not> writesItemOf (ef_mountedOn form) (ps_call save)))"
proof -
  define u1 where "u1 = rendered (selectRow a initialView)"
  define u2 where "u2 = rendered (submit folders u1)"
  define u3 where "u3 = rendered (cancelEdit u2)"
  define u4 where "u4 = rendered (selectRow b u3)"
  define u5 where "u5 = rendered (saved engine (hd (vu_saves u2)) (SaveConflict revision winner e) u4)"
  define u6 where "u6 = rendered (submit folders u5)"
  define live where "live f = (case f of None \<Rightarrow> None | Some i \<Rightarrow> if i \<in> fr_id ` set folders then Some i else None)" for f
  note step_defs = rendered_def editorShown_def editorInitial_def requirePlaintext_def newForm_def nameOf_def assms
  have u1: "u1 = initialView\<lparr> vu_editing := Existing a, vu_collectionId := ir_collectionId a, vu_folderId := li_folderId la,
      vu_form := Some (newForm 0 (Existing a) (PLogin la)), vu_mounts := 1 \<rparr>"
    by (simp add: u1_def selectRow_def initialView_def folderIdOf_def step_defs)
  let ?save = "\<lparr> ps_call = UpdateCall \<lparr> up_id = ir_id a, up_revision = ir_revision a, up_collectionId = ir_collectionId a,
      up_plaintext = PLogin (la\<lparr> li_folderId := live (li_folderId la) \<rparr>) \<rparr>, ps_instance = 0, ps_editing = Existing a \<rparr>"
  have u2: "u2 = u1\<lparr> vu_form := Some ((newForm 0 (Existing a) (PLogin la))\<lparr> ef_busy := True \<rparr>), vu_saves := [?save] \<rparr>"
    by (simp add: u2_def u1 submit_def saveCall_def Let_def initialView_def editedItem_def withFolderId_def live_def step_defs)
  have u3: "u3 = u2\<lparr> vu_form := None, vu_editing := NotEditing, vu_conflict := None \<rparr>"
    by (simp add: u3_def u2 u1 cancelEdit_def initialView_def step_defs)
  have u4: "u4 = u3\<lparr> vu_editing := Existing b, vu_collectionId := ir_collectionId b, vu_folderId := li_folderId lb,
      vu_form := Some (newForm 1 (Existing b) (PLogin lb)), vu_mounts := 2 \<rparr>"
    by (simp add: u4_def u3 u2 u1 selectRow_def initialView_def folderIdOf_def step_defs)
  have s: "hd (vu_saves u2) = ?save" by (simp add: u2)
  have u5: "u5 = u4\<lparr> vu_editing := Existing (a\<lparr> ir_revision := revision \<rparr>), vu_conflict := winner, vu_saves := [] \<rparr>"
    unfolding u5_def s by (simp add: u4 u3 u2 u1 saved_def Let_def setForm_def initialView_def step_defs)
  have u6: "vu_form u6 = Some ((newForm 1 (Existing b) (PLogin lb))\<lparr> ef_busy := True \<rparr>)"
    "vu_saves u6 = [\<lparr> ps_call = UpdateCall \<lparr> up_id = ir_id a, up_revision = revision, up_collectionId = ir_collectionId b,
      up_plaintext = PLogin (la\<lparr> li_name := li_name lb, li_notes := li_notes lb, li_username := li_username lb,
        li_password := li_password lb, li_folderId := live (li_folderId lb) \<rparr>) \<rparr>, ps_instance = 1,
      ps_editing = Existing (a\<lparr> ir_revision := revision \<rparr>) \<rparr>]"
    by (simp_all add: u6_def u5 u4 u3 u2 u1 submit_def saveCall_def Let_def initialView_def editedItem_def withFolderId_def
        live_def step_defs)
  have "view_step engine EvSelect initialView u1"
    unfolding u1_def by (rule view_step.select) (simp add: listShown_def initialView_def)
  moreover have "view_step engine EvSubmit u1 u2" unfolding u2_def
    by (rule view_step.submit [of _ "newForm 0 (Existing a) (PLogin la)"]) (simp_all add: u1 newForm_def nameOf_def assms)
  moreover have "view_step engine EvCancelEdit u2 u3"
    unfolding u3_def by (rule view_step.cancel_edit) (simp add: u2 u1 editorShown_def initialView_def)
  moreover have "view_step engine EvSelect u3 u4"
    unfolding u4_def by (rule view_step.select) (simp add: u3 u2 u1 listShown_def initialView_def)
  moreover have "view_step engine EvSaved u4 u5"
    unfolding u5_def by (rule view_step.saved) (simp add: u4 u3 u2)
  moreover have "view_step engine EvSubmit u5 u6" unfolding u6_def
    by (rule view_step.submit [of _ "newForm 1 (Existing b) (PLogin lb)"]) (simp_all add: u5 u4 newForm_def nameOf_def assms)
  moreover have "\<exists>form save input l. vu_form u6 = Some form \<and> ef_mountedOn form = Existing b \<and>
      vu_saves u6 = [save] \<and> ps_call save = UpdateCall input \<and>
      up_id input = ir_id a \<and> up_plaintext input = PLogin l \<and>
      li_name l = li_name lb \<and> li_username l = li_username lb \<and> li_password l = li_password lb \<and>
      (ir_id a \<noteq> ir_id b \<longrightarrow> \<not> writesItemOf (ef_mountedOn form) (ps_call save))"
    unfolding u6 by (simp add: newForm_def writesItemOf_def)
  ultimately show ?thesis
    unfolding Let_def u1_def [symmetric] u2_def [symmetric] u3_def [symmetric] u4_def [symmetric] u5_def [symmetric]
      u6_def [symmetric] by blast
qed

section \<open>Witnesses\<close>

definition sampleLogin :: "string \<Rightarrow> string \<Rightarrow> ItemRecord" where
  "sampleLogin i pw =
     \<lparr> ir_id = js i, ir_revision = 1, ir_collectionId = None, ir_deletedAt = None,
       ir_plaintext = Some (PLogin \<lparr> li_name = js i, li_username = [], li_password = js pw, li_urls = [], li_notes = [],
         li_favorite = False, li_folderId = Some (js ''gone''), li_passwordHistory = [] \<rparr>) \<rparr>"

theorem folders_partition_items_witness:
  "\<exists>!bucket. bucket \<in> {js ''personal'', js ''work''} \<and>
     sampleLogin ''a'' ''x'' \<in> set (filterByFolder [sampleLogin ''a'' ''x''] bucket [js ''work''])"
  using folders_partition_items [of "[js ''work'']" "sampleLogin ''a'' ''x''" "[sampleLogin ''a'' ''x'']"]
  by (simp add: js_def)

theorem save_writes_its_item_witness:
  "\<exists>ui :: VaultUi. vu_editing ui = Existing (sampleLogin ''a'' ''x'') \<and> readable (vu_editing ui) \<and> length (vu_saves ui) \<le> 1"
proof -
  let ?ui = "rendered (selectRow (sampleLogin ''a'' ''x'') initialView)"
  have "viewed (\<lambda>e. []) True ?ui"
    by (rule viewed.step [OF viewed.start view_step.select])
      (simp_all add: listShown_def initialView_def leaves_in_flight_def)
  note p = save_writes_its_item [OF this]
  have e: "vu_editing ?ui = Existing (sampleLogin ''a'' ''x'')" by (simp add: selectRow_def sampleLogin_def)
  show ?thesis by (rule exI [of _ ?ui], rule conjI [OF e], rule conjI [OF conjunct1 [OF p]], use p in blast)
qed

theorem cancelled_save_overwrites_other_item_witness:
  "\<exists>ui form save input l. viewed (\<lambda>e. []) False ui \<and> vu_form ui = Some form \<and>
     ef_mountedOn form = Existing (sampleLogin ''b'' ''y'') \<and> vu_saves ui = [save] \<and> ps_call save = UpdateCall input \<and>
     up_id input = js ''a'' \<and> up_plaintext input = PLogin l \<and> li_password l = js ''y''"
proof -
  let ?l = "\<lambda>i pw. \<lparr> li_name = js i, li_username = [], li_password = js pw, li_urls = [], li_notes = [],
         li_favorite = False, li_folderId = Some (js ''gone''), li_passwordHistory = [] \<rparr>"
  have p: "ir_plaintext (sampleLogin i pw) = Some (PLogin (?l i pw))" for i pw by (simp add: sampleLogin_def)
  have n: "li_name (?l ''a'' ''x'') \<noteq> []" "li_name (?l ''b'' ''y'') \<noteq> []" by (simp_all add: js_def)
  have next_state: "viewed engine False v'" if "viewed engine False v" "view_step engine ev v v'" for engine ev v v'
    using viewed.step [OF that] by simp
  have c: "li_password (?l ''b'' ''y'') = js ''y''" "ir_id (sampleLogin ''a'' ''x'') = js ''a''" by (simp_all add: sampleLogin_def)
  note run = cancelled_save_overwrites_other_item [OF p [of "''a''" "''x''"] p [of "''b''" "''y''"] n, unfolded Let_def c,
      of "\<lambda>e. []" "[]" 0 None NetworkError]
  show ?thesis using run viewed.start next_state by meson
qed

end
