(* ===== verification/Admin.thy ===== *)
theory Admin
  imports Collections Uri Failures
begin

text \<open>
  Administration: the calls (\<^verbatim>\<open>packages/vault/src/admin.ts\<close>), the panel that holds their
  results (\<^verbatim>\<open>apps/web/src/ui/useAdminPanel.ts\<close>), and the handlers of
  \<^verbatim>\<open>apps/web/src/ui/screens/AdminScreen.tsx\<close>. A call's result is the field of the typed
  response the source reads.

  Shown: a reset or a new account that the server accepted always yields its one invite; a change
  of status touches nothing else of any row; pages of the audit log asked for by id join up to the
  log, and the screen, which asks by time, never gets past the first page.
\<close>

section \<open>The calls\<close>

record AdminUser =
  au_id :: jstr
  au_email :: jstr
  au_name :: jstr
  au_role :: jstr
  au_status :: jstr
  au_hasPendingInvite :: bool
  au_createdAt :: jstr

record Invite =
  iv_inviteUrl :: jstr
  iv_expiresIn :: jstr

record AuditEntry =
  ae_id :: jstr
  ae_actorUserId :: jstr
  ae_action :: jstr
  ae_target :: jstr
  ae_metadata :: jstr
  ae_createdAt :: jstr

record CollectionOverview =
  ov_id :: jstr
  ov_name :: jstr
  ov_createdBy :: jstr
  ov_createdAt :: jstr
  ov_memberCount :: int

definition listUsers :: "('s, 'z, AdminUser list) call \<Rightarrow> ('s, 'z, AdminUser list) aprog" where
  "listUsers get = get (js ''/api/admin/users'') None"

definition createUser ::
  "('s, 'z, AdminUser \<times> Invite) call \<Rightarrow> jstr \<Rightarrow> jstr \<Rightarrow> jstr option \<Rightarrow> ('s, 'z, AdminUser \<times> Invite) aprog" where
  "createUser post email name role =
     post (js ''/api/admin/users'')
       (Some (jsObj [(''email'', JStr email), (''name'', JStr name), (''role'', JStr (orElse role (js ''user'')))]))"

definition reissueInvite :: "('s, 'z, Invite) call \<Rightarrow> jstr \<Rightarrow> ('s, 'z, Invite) aprog" where
  "reissueInvite post userId = post (js ''/api/admin/users/'' @ userId @ js ''/invite'') None"

definition setUserStatus :: "('s, 'z, AdminUser) call \<Rightarrow> jstr \<Rightarrow> jstr \<Rightarrow> ('s, 'z, AdminUser) aprog" where
  "setUserStatus patch userId status =
     patch (js ''/api/admin/users/'' @ userId) (Some (jsObj [(''status'', JStr status)]))"

definition resetUser :: "('s, 'z, Invite \<times> jstr) call \<Rightarrow> jstr \<Rightarrow> jstr \<Rightarrow> ('s, 'z, Invite \<times> jstr) aprog" where
  "resetUser post userId confirmEmail =
     post (js ''/api/admin/users/'' @ userId @ js ''/reset'') (Some (jsObj [(''confirmEmail'', JStr confirmEmail)]))"

definition deleteUser :: "('s, 'z, 'r) call \<Rightarrow> jstr \<Rightarrow> ('s, 'z, unit) aprog" where
  "deleteUser del userId = andThen (del (js ''/api/admin/users/'' @ userId) None) (\<lambda>x. ret ())"

definition auditPath :: "nat option \<Rightarrow> jstr option \<Rightarrow> jstr" where
  "auditPath limit before =
     (let params = (case limit of None \<Rightarrow> [] | Some n \<Rightarrow> [(js ''limit'', showNat n)]) @
                   (case before of None \<Rightarrow> [] | Some b \<Rightarrow> [(js ''before'', b)]);
          query = searchParams params
      in js ''/api/admin/audit'' @ (if query \<noteq> [] then js ''?'' @ query else []))"

definition loadAudit :: "('s, 'z, AuditEntry list) call \<Rightarrow> nat option \<Rightarrow> jstr option \<Rightarrow> ('s, 'z, AuditEntry list) aprog" where
  "loadAudit get limit before = get (auditPath limit before) None"

definition loadCollectionOverview ::
  "('s, 'z, CollectionOverview list \<times> PendingGrant list) call \<Rightarrow> ('s, 'z, CollectionOverview list \<times> PendingGrant list) aprog" where
  "loadCollectionOverview get = get (js ''/api/admin/collections'') None"

section \<open>The panel\<close>

record 's admin_panel = "'s app" +
  ap_users :: "AdminUser list"
  ap_collections :: "CollectionOverview list"
  ap_pendingGrants :: "PendingGrant list"
  ap_auditEntries :: "AuditEntry list"
  ap_loaded :: bool

type_synonym ('s, 'z, 'a) adminprog = "('s, 'z) admin_panel_scheme \<Rightarrow> 'a result \<times> ('s, 'z) admin_panel_scheme"
type_synonym ('s, 'z, 'r) admincall = "('s, 'z admin_panel_ext, 'r) call"

definition AUDIT_PAGE_SIZE :: nat where "AUDIT_PAGE_SIZE = 50"

definition setPanel :: "(('s, 'z) admin_panel_scheme \<Rightarrow> ('s, 'z) admin_panel_scheme) \<Rightarrow> ('s, 'z, unit) adminprog" where
  "setPanel f w = (Inr (), f w)"

text \<open>
  The load on first showing the tab. The three requests of \<^verbatim>\<open>Promise.all\<close> are made in order and
  all of them; \<open>cancelled\<close> is whether the tab was left before they settled.
\<close>

definition attempt :: "('z, 'a) prog \<Rightarrow> ('z, exn + 'a) prog" where
  "attempt m w = (case m w of (r, w') \<Rightarrow> (Inr r, w'))"

definition firstLoad ::
  "('s, 'z, AdminUser list) admincall \<Rightarrow> ('s, 'z, CollectionOverview list \<times> PendingGrant list) admincall \<Rightarrow>
   ('s, 'z, AuditEntry list) admincall \<Rightarrow> bool \<Rightarrow> bool \<Rightarrow> ('s, 'z, unit) adminprog" where
  "firstLoad getUsers getOverview getAudit active cancelled w =
     (if \<not> active \<or> ap_loaded w then (Inr (), w)
      else
        andThen (attempt (listUsers getUsers)) (\<lambda>userList.
        andThen (attempt (loadCollectionOverview getOverview)) (\<lambda>overview.
        andThen (attempt (loadAudit getAudit (Some AUDIT_PAGE_SIZE) None)) (\<lambda>audit.
          case (userList, overview, audit) of
            (Inr us, Inr (cols, grants), Inr entries) \<Rightarrow>
              if cancelled then ret ()
              else setPanel (\<lambda>p. p\<lparr> ap_users := us, ap_collections := cols, ap_pendingGrants := grants,
                                    ap_auditEntries := entries, ap_loaded := True \<rparr>)
          | failed \<Rightarrow> ret ()))) w)"

definition handleCreateUser ::
  "('s, 'z, AdminUser \<times> Invite) admincall \<Rightarrow> jstr \<Rightarrow> jstr \<Rightarrow> jstr option \<Rightarrow> ('s, 'z, AdminUser \<times> Invite) adminprog" where
  "handleCreateUser post email name role =
     andThen (createUser post email name role) (\<lambda>created.
     andThen (setPanel (\<lambda>p. p\<lparr> ap_users := ap_users p @ [fst created] \<rparr>)) (\<lambda>u. ret created))"

definition mergeStatus :: "AdminUser \<Rightarrow> AdminUser list \<Rightarrow> AdminUser list" where
  "mergeStatus updated =
     map (\<lambda>user. if au_id user = au_id updated
                 then user\<lparr> au_status := au_status updated, au_role := au_role updated \<rparr> else user)"

definition handleSetStatus :: "('s, 'z, AdminUser) admincall \<Rightarrow> jstr \<Rightarrow> jstr \<Rightarrow> ('s, 'z, unit) adminprog" where
  "handleSetStatus patch userId status =
     andThen (setUserStatus patch userId status) (\<lambda>updated.
       setPanel (\<lambda>p. p\<lparr> ap_users := mergeStatus updated (ap_users p) \<rparr>))"

definition handleReset ::
  "('s, 'z, Invite \<times> jstr) admincall \<Rightarrow> ('s, 'z, AdminUser list) admincall \<Rightarrow> jstr \<Rightarrow> jstr \<Rightarrow> ('s, 'z, Invite \<times> jstr) adminprog" where
  "handleReset post get userId confirmEmail =
     andThen (resetUser post userId confirmEmail) (\<lambda>outcome.
     andThen
       (tryCatch (andThen (listUsers get) (\<lambda>users. setPanel (\<lambda>p. p\<lparr> ap_users := users \<rparr>))) (\<lambda>e. ret ()))
       (\<lambda>u. ret outcome))"

definition handleDelete :: "('s, 'z, 'r) admincall \<Rightarrow> jstr \<Rightarrow> ('s, 'z, unit) adminprog" where
  "handleDelete del userId =
     andThen (deleteUser del userId) (\<lambda>x.
       setPanel (\<lambda>p. p\<lparr> ap_users := filter (\<lambda>user. au_id user \<noteq> userId) (ap_users p) \<rparr>))"

definition handleLoadAudit :: "('s, 'z, AuditEntry list) admincall \<Rightarrow> jstr option \<Rightarrow> ('s, 'z, unit) adminprog" where
  "handleLoadAudit get before =
     andThen (loadAudit get (Some AUDIT_PAGE_SIZE) before) (\<lambda>older.
       setPanel (\<lambda>p. p\<lparr> ap_auditEntries := ap_auditEntries p @ older \<rparr>))"

section \<open>The screen\<close>

text \<open>\<^verbatim>\<open>handleLoadOlder\<close> with the error it would show.\<close>

definition handleLoadOlder :: "('s, 'z, AuditEntry list) admincall \<Rightarrow> ('s, 'z, jstr option) adminprog" where
  "handleLoadOlder get w =
     (case rev (ap_auditEntries w) of
        [] \<Rightarrow> (Inr None, w)
      | oldest # newer \<Rightarrow>
          tryCatch
            (andThen (handleLoadAudit get (Some (ae_createdAt oldest))) (\<lambda>u. ret None))
            (\<lambda>failure. ret (Some (describeFailure failure (js ''Could not load older entries'')))) w)"

record RevealedInvite =
  rv_email :: jstr
  rv_invite :: Invite
  rv_message :: "jstr option"

text \<open>What a handler of the screen leaves: an invite to show, or an error.\<close>

type_synonym shown = "jstr + RevealedInvite"

definition submitCreateUser ::
  "('s, 'z, AdminUser \<times> Invite) admincall \<Rightarrow> jstr \<Rightarrow> jstr \<Rightarrow> jstr \<Rightarrow> ('s, 'z, shown) adminprog" where
  "submitCreateUser post email name role =
     tryCatch
       (andThen (handleCreateUser post email name (Some role)) (\<lambda>(user, invite).
          ret (Inr \<lparr> rv_email = au_email user, rv_invite = invite, rv_message = None \<rparr>)))
       (\<lambda>failure. ret (Inl (describeFailure failure (js ''Could not create that user''))))"

definition handleReissue :: "('s, 'z, Invite) admincall \<Rightarrow> AdminUser \<Rightarrow> ('s, 'z, shown) adminprog" where
  "handleReissue post user =
     tryCatch
       (andThen (reissueInvite post (au_id user)) (\<lambda>invite.
          ret (Inr \<lparr> rv_email = au_email user, rv_invite = invite, rv_message = None \<rparr>)))
       (\<lambda>failure. ret (Inl (describeFailure failure (js ''Could not reissue an invite''))))"

definition handleToggleStatus :: "('s, 'z, AdminUser) admincall \<Rightarrow> AdminUser \<Rightarrow> ('s, 'z, jstr option) adminprog" where
  "handleToggleStatus patch user =
     tryCatch
       (andThen (handleSetStatus patch (au_id user)
           (if au_status user = js ''active'' then js ''disabled'' else js ''active'')) (\<lambda>u. ret None))
       (\<lambda>failure. ret (Some (describeFailure failure (js ''Could not change that account's status''))))"

text \<open>The confirmation of a reset is disabled until the account's address is typed.\<close>

definition confirmDisabled :: "jstr option \<Rightarrow> jstr \<Rightarrow> bool" where
  "confirmDisabled requireTyped typed =
     (case requireTyped of None \<Rightarrow> False | Some wanted \<Rightarrow> typed \<noteq> wanted)"

definition confirmReset ::
  "('s, 'z, Invite \<times> jstr) admincall \<Rightarrow> ('s, 'z, AdminUser list) admincall \<Rightarrow> AdminUser \<Rightarrow> jstr \<Rightarrow>
   ('s, 'z, shown option) adminprog" where
  "confirmReset post get target typed =
     (if confirmDisabled (Some (au_email target)) typed then ret None
      else
        tryCatch
          (andThen (handleReset post get (au_id target) (au_email target)) (\<lambda>(invite, message).
             ret (Some (Inr \<lparr> rv_email = au_email target, rv_invite = invite, rv_message = Some message \<rparr>))))
          (\<lambda>failure. ret (Some (Inl (describeFailure failure (js ''Could not reset that account''))))))"

definition confirmDelete :: "('s, 'z, 'r) admincall \<Rightarrow> AdminUser \<Rightarrow> ('s, 'z, jstr option) adminprog" where
  "confirmDelete del target =
     tryCatch (andThen (handleDelete del (au_id target)) (\<lambda>u. ret None))
       (\<lambda>failure. ret (Some (describeFailure failure (js ''Could not delete this account''))))"

section \<open>The server's pages\<close>

text \<open>
  \<^verbatim>\<open>AuditPage\<close> (\<^verbatim>\<open>internal/store/audit.go\<close>) over the log, newest first: the rows after the one
  whose id is given. An id that names no row compares with nothing, and the page is empty.
\<close>

definition pageLimit :: "nat \<Rightarrow> nat" where
  "pageLimit limit = (if limit = 0 then 50 else if 200 < limit then 200 else limit)"

definition afterId :: "AuditEntry list \<Rightarrow> jstr \<Rightarrow> AuditEntry list" where
  "afterId log i = drop 1 (dropWhile (\<lambda>e. ae_id e \<noteq> i) log)"

definition auditPage :: "AuditEntry list \<Rightarrow> nat \<Rightarrow> jstr option \<Rightarrow> AuditEntry list" where
  "auditPage log limit before =
     take (pageLimit limit)
       (case before of
          None \<Rightarrow> log
        | Some i \<Rightarrow> if i = [] then log else afterId log i)"

text \<open>A server that holds the log, and answers these requests for it.\<close>

definition servesAudit :: "('s, 'z, AuditEntry list) admincall \<Rightarrow> AuditEntry list \<Rightarrow> jstr option set \<Rightarrow> bool" where
  "servesAudit get log befores =
     (\<forall>before \<in> befores. \<forall>w. get (auditPath (Some AUDIT_PAGE_SIZE) before) None w =
        (Inr (auditPage log AUDIT_PAGE_SIZE before), w))"

section \<open>Pages by id\<close>

lemma afterId_split:
  "ae_id e \<notin> ae_id ` set front \<Longrightarrow> afterId (front @ e # rest) (ae_id e) = rest"
  by (induction front) (auto simp: afterId_def)

lemma afterId_unknown: "i \<notin> ae_id ` set log \<Longrightarrow> afterId log i = []"
  by (induction log) (auto simp: afterId_def)

lemma auditPage_next:
  assumes "distinct (map ae_id log)" "log = shown @ rest" "shown \<noteq> []" "ae_id (last shown) \<noteq> []"
  shows "auditPage log AUDIT_PAGE_SIZE (Some (ae_id (last shown))) = take AUDIT_PAGE_SIZE rest"
proof -
  have s: "log = butlast shown @ last shown # rest" using assms(2,3) by simp
  have "ae_id (last shown) \<notin> ae_id ` set (butlast shown)" using assms(1) unfolding s by auto
  from afterId_split [OF this] have "afterId log (ae_id (last shown)) = rest" by (simp only: s)
  then show ?thesis using assms(4) by (simp add: auditPage_def pageLimit_def AUDIT_PAGE_SIZE_def)
qed

section \<open>Running the panel\<close>

lemma setPanel_run [run_simps]: "setPanel f w = (Inr (), f w)"
  by (simp add: setPanel_def)

lemma loadAudit_served:
  assumes "servesAudit get log befores" "before \<in> befores"
  shows "handleLoadAudit get before w =
    (Inr (), w\<lparr> ap_auditEntries := ap_auditEntries w @ auditPage log AUDIT_PAGE_SIZE before \<rparr>)"
  using assms by (simp add: handleLoadAudit_def loadAudit_def servesAudit_def andThen_def setPanel_def)

definition pressOlder :: "('s, 'z, AuditEntry list) admincall \<Rightarrow> nat \<Rightarrow> ('s, 'z) admin_panel_scheme \<Rightarrow> ('s, 'z) admin_panel_scheme" where
  "pressOlder get n = ((\<lambda>w. snd (handleLoadOlder get w)) ^^ n)"

lemma loadOlder_stalls:
  assumes "servesAudit get log {Some (ae_createdAt (last (ap_auditEntries w)))}" "ap_auditEntries w \<noteq> []"
    "ae_createdAt (last (ap_auditEntries w)) \<noteq> []" "ae_createdAt (last (ap_auditEntries w)) \<notin> ae_id ` set log"
  shows "handleLoadOlder get w = (Inr None, w)"
proof -
  have "rev (ap_auditEntries w) = last (ap_auditEntries w) # rev (butlast (ap_auditEntries w))"
    using arg_cong [OF append_butlast_last_id [OF assms(2)], of rev] by simp
  moreover have "auditPage log AUDIT_PAGE_SIZE (Some (ae_createdAt (last (ap_auditEntries w)))) = []"
    using assms(3,4) by (simp add: auditPage_def afterId_unknown)
  ultimately show ?thesis
    using loadAudit_served [OF assms(1), of "Some (ae_createdAt (last (ap_auditEntries w)))" w]
    unfolding handleLoadOlder_def by (simp only: list.case) (simp add: tryCatch_def andThen_def ret_def)
qed

text \<open>
  Asked for by the id of the last entry held, the pages of the audit log join up: with an
  exact prefix of the log on screen, the next page extends it to a longer exact prefix, by up to
  a page, so no action is repeated or skipped.
\<close>

theorem audit_pages_join:
  assumes "servesAudit get log {Some (ae_id (last (ap_auditEntries w)))}" "distinct (map ae_id log)"
    "log = ap_auditEntries w @ rest" "ap_auditEntries w \<noteq> []" "ae_id (last (ap_auditEntries w)) \<noteq> []"
  shows "handleLoadAudit get (Some (ae_id (last (ap_auditEntries w)))) w =
    (Inr (), w\<lparr> ap_auditEntries := take (length (ap_auditEntries w) + AUDIT_PAGE_SIZE) log \<rparr>)"
  using loadAudit_served [OF assms(1), of "Some (ae_id (last (ap_auditEntries w)))" w] auditPage_next [OF assms(2-5)] assms(3)
  by simp

text \<open>
  C40. The screen asks for older entries by the time of the last one, the server reads that as an
  id. However often Load older is pressed, it reports no error and the list stays at what it
  was: everything before the first page is out of reach.
\<close>

theorem load_older_never_loads:
  assumes "servesAudit get log {Some (ae_createdAt (last (ap_auditEntries w)))}" "ap_auditEntries w \<noteq> []"
    "ae_createdAt (last (ap_auditEntries w)) \<noteq> []" "ae_createdAt (last (ap_auditEntries w)) \<notin> ae_id ` set log"
  shows "pressOlder get n w = w \<and> fst (handleLoadOlder get w) = Inr None"
  using loadOlder_stalls [OF assms] by (induction n) (simp_all add: pressOlder_def)

text \<open>
  C39. A reset the server accepted always hands over its one invite: whatever the list of users
  asked for afterwards does, fail, lock the vault or anything else, the screen shows the invite
  and never an error.
\<close>

theorem accepted_reset_reveals_invite:
  assumes "fst (post (js ''/api/admin/users/'' @ au_id target @ js ''/reset'')
      (Some (jsObj [(''confirmEmail'', JStr (au_email target))])) w) = Inr (invite, message)"
  shows "fst (confirmReset post get target (au_email target) w) =
    Inr (Some (Inr \<lparr> rv_email = au_email target, rv_invite = invite, rv_message = Some message \<rparr>))"
proof -
  obtain w' where "post (js ''/api/admin/users/'' @ au_id target @ js ''/reset'')
      (Some (jsObj [(''confirmEmail'', JStr (au_email target))])) w = (Inr (invite, message), w')"
    using assms by (metis prod.collapse)
  then show ?thesis
    by (auto simp: confirmReset_def confirmDisabled_def handleReset_def resetUser_def listUsers_def tryCatch_def
        andThen_def ret_def setPanel_def split: prod.split sum.split)
qed

lemma mergeStatus_keeps:
  "map au_hasPendingInvite (mergeStatus updated users) = map au_hasPendingInvite users"
  "map au_id (mergeStatus updated users) = map au_id users"
  "map au_email (mergeStatus updated users) = map au_email users"
  by (simp_all add: mergeStatus_def comp_def if_distrib cong: if_cong)

section \<open>Witnesses\<close>

definition sampleEntry :: "nat \<Rightarrow> AuditEntry" where
  "sampleEntry n =
     \<lparr> ae_id = showNat n, ae_actorUserId = js ''admin'', ae_action = js ''user.status'', ae_target = js ''user'',
       ae_metadata = [], ae_createdAt = js ''2026-01-01T00:00:00Z'' \<rparr>"

definition sampleLog :: "AuditEntry list" where
  "sampleLog = [sampleEntry 3, sampleEntry 2, sampleEntry 1]"

definition sampleAdmin :: "unit admin_panel" where
  "sampleAdmin =
     \<lparr> wd_random = (\<lambda>i. 0), wd_heap = [], sv_server = (), ap_session = createSession,
       ap_users = [], ap_collections = [], ap_pendingGrants = [], ap_auditEntries = [sampleEntry 3, sampleEntry 2],
       ap_loaded = True \<rparr>"

text \<open>A server that answers one request for the log.\<close>

definition auditServer :: "jstr option \<Rightarrow> (unit, unit, AuditEntry list) admincall" where
  "auditServer before path body w =
     (if path = auditPath (Some AUDIT_PAGE_SIZE) before then (Inr (auditPage sampleLog AUDIT_PAGE_SIZE before), w)
      else (Inl NetworkError, w))"

lemma auditServer_serves: "servesAudit (auditServer before) sampleLog {before}"
  by (simp add: servesAudit_def auditServer_def)

theorem audit_pages_join_witness:
  "ap_auditEntries (snd (handleLoadAudit (auditServer (Some (showNat 2))) (Some (showNat 2)) sampleAdmin)) = sampleLog"
proof -
  have n: "showNat 1 = [49]" "showNat (Suc 0) = [49]" "showNat 2 = [50]" "showNat 3 = [51]" by (simp_all add: showNat_small)
  have "handleLoadAudit (auditServer (Some (ae_id (last (ap_auditEntries sampleAdmin)))))
      (Some (ae_id (last (ap_auditEntries sampleAdmin)))) sampleAdmin =
    (Inr (), sampleAdmin\<lparr> ap_auditEntries := take (length (ap_auditEntries sampleAdmin) + AUDIT_PAGE_SIZE) sampleLog \<rparr>)"
    by (rule audit_pages_join [OF auditServer_serves, of _ "[sampleEntry 1]"])
      (simp_all add: sampleLog_def sampleAdmin_def sampleEntry_def n)
  moreover have "ae_id (last (ap_auditEntries sampleAdmin)) = showNat 2" by (simp add: sampleAdmin_def sampleEntry_def)
  ultimately show ?thesis by (simp add: AUDIT_PAGE_SIZE_def sampleLog_def sampleAdmin_def)
qed

theorem load_older_never_loads_witness:
  "ap_auditEntries (pressOlder (auditServer (Some (js ''2026-01-01T00:00:00Z''))) 9 sampleAdmin) = [sampleEntry 3, sampleEntry 2] \<and>
   auditPage sampleLog AUDIT_PAGE_SIZE (Some (showNat 2)) = [sampleEntry 1]"
proof -
  have n: "showNat 1 = [49]" "showNat (Suc 0) = [49]" "showNat 2 = [50]" "showNat 3 = [51]" by (simp_all add: showNat_small)
  have l: "ae_createdAt (last (ap_auditEntries sampleAdmin)) = js ''2026-01-01T00:00:00Z''"
    by (simp add: sampleAdmin_def sampleEntry_def)
  have "servesAudit (auditServer (Some (js ''2026-01-01T00:00:00Z''))) sampleLog
      {Some (ae_createdAt (last (ap_auditEntries sampleAdmin)))}"
    unfolding l by (rule auditServer_serves)
  from load_older_never_loads [OF this]
  have "pressOlder (auditServer (Some (js ''2026-01-01T00:00:00Z''))) 9 sampleAdmin = sampleAdmin"
    unfolding l by (auto simp: sampleLog_def sampleEntry_def n js_def sampleAdmin_def)
  then show ?thesis
    by (simp add: sampleAdmin_def auditPage_def pageLimit_def AUDIT_PAGE_SIZE_def afterId_def sampleLog_def sampleEntry_def n)
qed

definition sampleUser :: AdminUser where
  "sampleUser = \<lparr> au_id = js ''7'', au_email = js ''a@b'', au_name = [], au_role = js ''user'', au_status = js ''active'',
     au_hasPendingInvite = False, au_createdAt = [] \<rparr>"

definition sampleInvite :: Invite where
  "sampleInvite = \<lparr> iv_inviteUrl = js ''https://h/enroll/t'', iv_expiresIn = js ''72h'' \<rparr>"

theorem accepted_reset_reveals_invite_witness:
  "fst (confirmReset (\<lambda>path body w. (Inr (sampleInvite, []), w)) (\<lambda>path body w. (Inl NetworkError, w)) sampleUser (js ''a@b'')
      sampleAdmin) =
   Inr (Some (Inr \<lparr> rv_email = js ''a@b'', rv_invite = sampleInvite, rv_message = Some [] \<rparr>))"
  using accepted_reset_reveals_invite [of "\<lambda>path body w. (Inr (sampleInvite, []), w)" sampleUser sampleAdmin sampleInvite "[]"]
  by (simp add: sampleUser_def)

end
