(* ===== verification/Sharing.thy ===== *)
theory Sharing
  imports Account Store Failures
begin

text \<open>
  Sharing and folders as the screens drive them: \<^verbatim>\<open>apps/web/src/ui/useCollectionsPanel.ts\<close> with
  \<^verbatim>\<open>CollectionsScreen.tsx\<close>, and \<^verbatim>\<open>useFoldersPanel.ts\<close> with \<^verbatim>\<open>FolderSidebar.tsx\<close>.

  Shown: what succeeded on the server is never reported as failed by a display refresh; a grant is
  fulfilled to the person it names or nothing is sent; and the members shown are those of the
  collection shown once every request is answered, if answers come in the order of the requests,
  but not before and not otherwise.
\<close>

section \<open>Best effort\<close>

definition quietly :: "('z, unit) prog \<Rightarrow> ('z, unit) prog" where
  "quietly m = tryCatch m (\<lambda>e. ret ())"

lemma quietly_returns: "\<exists>w'. quietly m w = (Inr (), w')"
  by (auto simp: quietly_def tryCatch_def ret_def split: prod.split sum.split)

lemma andThen_quietly: "fst (andThen (quietly m) (\<lambda>u. ret x) w) = Inr x"
  using quietly_returns [of m w] by (auto simp: andThen_def ret_def)

section \<open>The collections panel\<close>

record 's panel = "'s shop" +
  pn_directory :: "DirectoryPerson list"
  pn_pendingGrants :: "PendingGrant list"
  pn_loaded :: bool
  pn_selected :: "jstr option"
  pn_members :: "Member list"

type_synonym ('s, 'z, 'a) panelprog = "('s, 'z) panel_scheme \<Rightarrow> 'a result \<times> ('s, 'z) panel_scheme"
type_synonym ('s, 'z, 'r) panelcall = "('s, 'z panel_ext shop_ext, 'r) call"

definition setShown :: "(('s, 'z) panel_scheme \<Rightarrow> ('s, 'z) panel_scheme) \<Rightarrow> ('s, 'z, unit) panelprog" where
  "setShown f w = (Inr (), f w)"

text \<open>The lazy load; both requests of \<^verbatim>\<open>Promise.all\<close> are made.\<close>

definition loadSharing ::
  "platform \<Rightarrow> ('s, 'z, DirectoryUser list) panelcall \<Rightarrow> ('s, 'z, PendingGrant list) panelcall \<Rightarrow> bool \<Rightarrow> bool \<Rightarrow>
   ('s, 'z, unit) panelprog" where
  "loadSharing pf getDirectory getGrants active cancelled w =
     (if \<not> active \<or> pn_loaded w then (Inr (), w)
      else
        (case loadDirectory pf getDirectory w of (dir, w1) \<Rightarrow>
         case loadPendingGrants getGrants w1 of (grants, w2) \<Rightarrow>
           (case (dir, grants) of
              (Inr d, Inr g) \<Rightarrow>
                (Inr (), if cancelled then w2 else w2\<lparr> pn_directory := d, pn_pendingGrants := g, pn_loaded := True \<rparr>)
            | failed \<Rightarrow> (Inr (), w2))))"

definition handleCreateCollection ::
  "platform \<Rightarrow> ('s, 'z, AccountRow) panelcall \<Rightarrow> ('s, 'z, WireCollection) panelcall \<Rightarrow> ('s, 'z, SyncResponse) panelcall \<Rightarrow>
   jstr \<Rightarrow> ('s, 'z, unit) panelprog" where
  "handleCreateCollection pf getAccount post getSync name =
     andThen (loadAccount pf getAccount) (\<lambda>profile.
     andThen (createCollection pf post name (ac_publicKey profile)) (\<lambda>created.
       quietly (resync pf getSync)))"

text \<open>The refresh of the open collection's members.\<close>

definition refreshMembers :: "('s, 'z, Member list) panelcall \<Rightarrow> jstr \<Rightarrow> ('s, 'z, unit) panelprog" where
  "refreshMembers get collectionId =
     quietly (andThen (listMembers get collectionId) (\<lambda>ms. setShown (\<lambda>p. p\<lparr> pn_members := ms \<rparr>)))"

text \<open>\<open>selected\<close> is the selection the callback closed over.\<close>

definition handleFulfil ::
  "platform \<Rightarrow> ('s, 'z, 'r) panelcall \<Rightarrow> ('s, 'z, SyncResponse) panelcall \<Rightarrow> ('s, 'z, Member list) panelcall \<Rightarrow>
   jstr option \<Rightarrow> PendingGrant \<Rightarrow> DirectoryPerson \<Rightarrow> ('s, 'z, unit) panelprog" where
  "handleFulfil pf post getSync getMembers selected grant recipient =
     andThen (fulfilGrant pf post grant recipient) (\<lambda>u.
     andThen (setShown (\<lambda>p. p\<lparr> pn_pendingGrants :=
         filter (\<lambda>g. \<not> (pg_collectionId g = pg_collectionId grant \<and> pg_userId g = pg_userId grant)) (pn_pendingGrants p) \<rparr>)) (\<lambda>u.
     andThen (quietly (resync pf getSync)) (\<lambda>u.
       if selected = Some (pg_collectionId grant) then refreshMembers getMembers (pg_collectionId grant) else ret ())))"

definition handleAddMember ::
  "platform \<Rightarrow> ('s, 'z, jstr option) panelcall \<Rightarrow> ('s, 'z, Member list) panelcall \<Rightarrow> jstr option \<Rightarrow>
   jstr \<Rightarrow> DirectoryPerson \<Rightarrow> CollectionRole \<Rightarrow> ('s, 'z, AddOutcome) panelprog" where
  "handleAddMember pf post getMembers selected collectionId recipient role =
     andThen (addMember pf post collectionId recipient role) (\<lambda>outcome.
     andThen (if outcome = Granted \<and> selected = Some collectionId then refreshMembers getMembers collectionId else ret ())
       (\<lambda>u. ret outcome))"

definition handleRemoveMember :: "('s, 'z, 'r) panelcall \<Rightarrow> jstr \<Rightarrow> jstr \<Rightarrow> ('s, 'z, unit) panelprog" where
  "handleRemoveMember del collectionId userId =
     andThen (removeMember del collectionId userId) (\<lambda>u.
       setShown (\<lambda>p. p\<lparr> pn_members := filter (\<lambda>m. mb_userId m \<noteq> userId) (pn_members p) \<rparr>))"

section \<open>The collections screen\<close>

text \<open>The person a pending grant is for, if the directory still lists them.\<close>

definition recipientFor :: "DirectoryPerson list \<Rightarrow> PendingGrant \<Rightarrow> DirectoryPerson option" where
  "recipientFor directory grant = find (\<lambda>entry. du_id entry = pg_userId grant) directory"

definition grantAccess ::
  "platform \<Rightarrow> ('s, 'z, 'r) panelcall \<Rightarrow> ('s, 'z, SyncResponse) panelcall \<Rightarrow> ('s, 'z, Member list) panelcall \<Rightarrow>
   PendingGrant \<Rightarrow> ('s, 'z, jstr option) panelprog" where
  "grantAccess pf post getSync getMembers grant w =
     (case recipientFor (pn_directory w) grant of
        None \<Rightarrow> (Inr None, w)
      | Some recipient \<Rightarrow>
          tryCatch (andThen (handleFulfil pf post getSync getMembers (pn_selected w) grant recipient) (\<lambda>u. ret None))
            (\<lambda>failure. ret (Some (describeFailure failure (js ''Could not grant access'')))) w)"

record AddForm =
  af_recipientId :: jstr
  af_role :: CollectionRole
  af_notice :: "jstr option"
  af_error :: "jstr option"

definition PENDING_NOTICE :: jstr where
  "PENDING_NOTICE = js ''This was only recorded as a request: a member of this collection '' @
     js ''must grant access before it takes effect.''"

definition pressAdd ::
  "platform \<Rightarrow> ('s, 'z, jstr option) panelcall \<Rightarrow> ('s, 'z, Member list) panelcall \<Rightarrow> jstr \<Rightarrow> AddForm \<Rightarrow>
   ('s, 'z, AddForm) panelprog" where
  "pressAdd pf post getMembers collectionId form w =
     (case find (\<lambda>entry. du_id entry = af_recipientId form) (pn_directory w) of
        None \<Rightarrow> (Inr form, w)
      | Some recipient \<Rightarrow>
          (let form' = form\<lparr> af_notice := None, af_error := None \<rparr> in
           tryCatch
             (andThen (handleAddMember pf post getMembers (pn_selected w) collectionId recipient (af_role form)) (\<lambda>outcome.
                ret (if outcome = Pending then form'\<lparr> af_notice := Some PENDING_NOTICE \<rparr>
                     else form'\<lparr> af_recipientId := [] \<rparr>)))
             (\<lambda>failure. ret (form'\<lparr> af_error := Some (describeFailure failure (js ''Could not add that member'')) \<rparr>)) w))"

definition confirmRemove :: "('s, 'z, 'r) panelcall \<Rightarrow> jstr \<Rightarrow> Member \<Rightarrow> ('s, 'z, jstr option) panelprog" where
  "confirmRemove del collectionId target =
     tryCatch (andThen (handleRemoveMember del collectionId (mb_userId target)) (\<lambda>u. ret None))
       (\<lambda>failure. ret (Some (describeFailure failure (js ''Could not remove that member''))))"

text \<open>The form of a new collection: the name it is left with, whether it stays open, and the error.\<close>

definition submitCreateCollection ::
  "platform \<Rightarrow> ('s, 'z, AccountRow) panelcall \<Rightarrow> ('s, 'z, WireCollection) panelcall \<Rightarrow> ('s, 'z, SyncResponse) panelcall \<Rightarrow>
   jstr \<Rightarrow> ('s, 'z, jstr \<times> bool \<times> jstr option) panelprog" where
  "submitCreateCollection pf getAccount post getSync newName =
     tryCatch (andThen (handleCreateCollection pf getAccount post getSync newName) (\<lambda>u. ret ([], False, None)))
       (\<lambda>failure. ret (newName, True, Some (describeFailure failure (js ''Could not create that collection''))))"

text \<open>The members a row of the list is given.\<close>

definition rowMembers :: "('s, 'z) panel_scheme \<Rightarrow> jstr \<Rightarrow> Member list" where
  "rowMembers p collectionId = (if Some collectionId = pn_selected p then pn_members p else [])"

section \<open>Folders\<close>

definition onCreateFolder ::
  "platform \<Rightarrow> ('s, 'z shop_ext, WireFolder) call \<Rightarrow> ('s, 'z shop_ext, SyncResponse) call \<Rightarrow> jstr \<Rightarrow> ('s, 'z, unit) vprog" where
  "onCreateFolder pf post getSync name =
     andThen (createFolder pf post name) (\<lambda>folder. quietly (resync pf getSync))"

definition onRenameFolder ::
  "platform \<Rightarrow> ('s, 'z shop_ext, WireFolder) call \<Rightarrow> ('s, 'z shop_ext, SyncResponse) call \<Rightarrow> FolderRecord \<Rightarrow> jstr \<Rightarrow>
   ('s, 'z, unit) vprog" where
  "onRenameFolder pf put getSync folder name =
     andThen (renameFolder pf put (fr_id folder) (fr_revision folder) name) (\<lambda>renamed. quietly (resync pf getSync))"

definition onDeleteFolder ::
  "platform \<Rightarrow> ('s, 'z shop_ext, 'r) call \<Rightarrow> ('s, 'z shop_ext, SyncResponse) call \<Rightarrow> FolderRecord \<Rightarrow> ('s, 'z, unit) vprog" where
  "onDeleteFolder pf del getSync folder =
     andThen (deleteFolder del (fr_id folder)) (\<lambda>u. quietly (resync pf getSync))"

text \<open>The rail's handlers: the filter they leave, and the error they show.\<close>

definition confirmDeleteFolder ::
  "platform \<Rightarrow> ('s, 'z shop_ext, 'r) call \<Rightarrow> ('s, 'z shop_ext, SyncResponse) call \<Rightarrow> jstr \<Rightarrow> FolderRecord \<Rightarrow>
   ('s, 'z, jstr \<times> jstr option) vprog" where
  "confirmDeleteFolder pf del getSync selected target =
     tryCatch
       (andThen (onDeleteFolder pf del getSync target) (\<lambda>u.
          ret (if selected = fr_id target then [] else selected, None)))
       (\<lambda>failure. ret (selected, Some (describeFailure failure (js ''Could not delete that folder''))))"

definition submitCreateFolder ::
  "platform \<Rightarrow> ('s, 'z shop_ext, WireFolder) call \<Rightarrow> ('s, 'z shop_ext, SyncResponse) call \<Rightarrow> jstr \<Rightarrow> ('s, 'z, jstr \<times> jstr option) vprog" where
  "submitCreateFolder pf post getSync newName =
     tryCatch (andThen (onCreateFolder pf post getSync newName) (\<lambda>u. ret ([], None)))
       (\<lambda>failure. ret (newName, Some (describeFailure failure (js ''Could not create that folder''))))"

definition submitRename ::
  "platform \<Rightarrow> ('s, 'z shop_ext, WireFolder) call \<Rightarrow> ('s, 'z shop_ext, SyncResponse) call \<Rightarrow> FolderRecord \<Rightarrow> jstr \<Rightarrow>
   ('s, 'z, bool \<times> jstr option) vprog" where
  "submitRename pf put getSync folder name =
     tryCatch (andThen (onRenameFolder pf put getSync folder name) (\<lambda>u. ret (False, None)))
       (\<lambda>failure. ret (True, Some (describeFailure failure (js ''Could not rename that folder''))))"

section \<open>Which members are shown\<close>

text \<open>
  \<^verbatim>\<open>handleSelectCollection\<close> in two parts: the selection, and the answer to its request, which
  is not checked against the selection it finds.
\<close>

definition selectCollection :: "jstr option \<Rightarrow> ('s, 'z) panel_scheme \<Rightarrow> ('s, 'z) panel_scheme" where
  "selectCollection collectionId p =
     (let p' = p\<lparr> pn_selected := collectionId \<rparr> in if collectionId = None then p'\<lparr> pn_members := [] \<rparr> else p')"

definition membersArrived :: "Member list result \<Rightarrow> ('s, 'z) panel_scheme \<Rightarrow> ('s, 'z) panel_scheme" where
  "membersArrived answer p = p\<lparr> pn_members := (case answer of Inl e \<Rightarrow> [] | Inr ms \<Rightarrow> ms) \<rparr>"

text \<open>
  Selecting rows while requests are out; \<open>membersOf\<close> is what the server answers for each
  collection, when it answers. In an ordered run the oldest request settles first.
\<close>

inductive browsed :: "(jstr \<Rightarrow> Member list) \<Rightarrow> bool \<Rightarrow> ('s, 'z) panel_scheme \<Rightarrow> jstr list \<Rightarrow> bool" where
  start: "pn_selected p = None \<Longrightarrow> browsed membersOf ordered p []"
| pick: "browsed membersOf ordered p asked \<Longrightarrow> browsed membersOf ordered (selectCollection (Some c) p) (asked @ [c])"
| collapse: "browsed membersOf ordered p asked \<Longrightarrow> browsed membersOf ordered (selectCollection None p) asked"
| arrive: "browsed membersOf ordered p (older @ c # newer) \<Longrightarrow> (ordered \<longrightarrow> older = []) \<Longrightarrow>
    answer = Inr (membersOf c) \<or> (\<exists>e. answer = Inl e) \<Longrightarrow>
    browsed membersOf ordered (membersArrived answer p) (older @ newer)"

lemma browsed_ordered:
  "browsed membersOf ordered p asked \<Longrightarrow> ordered \<Longrightarrow> pn_selected p = Some c \<Longrightarrow>
   (if asked = [] then pn_members p \<in> {membersOf c, []} else last asked = c)"
proof (induction rule: browsed.induct)
  case (arrive membersOf ordered p older c' newer answer)
  then show ?case by (cases "newer = []") (auto simp: membersArrived_def split: if_splits)
qed (auto simp: selectCollection_def Let_def)

section \<open>Properties\<close>

text \<open>
  C37. Whose members are shown under a collection. In any run of opening and closing rows in which
  the answers come in the order of the requests, once every request has been answered they are that
  collection's, or none. Until then they need not be: opening one collection, receiving its members
  and opening a second shows the first one's under the second, for nothing clears them, until its
  own answer comes. And when both are opened before either is answered and the answers come in the
  other order, the first one's members stay under the second with no request left.
\<close>

theorem members_shown_are_its_own:
  fixes p :: "('s, 'z) panel_scheme"
  assumes "pn_selected p = None"
  shows "(\<forall>q c. browsed membersOf True (q :: ('s, 'z) panel_scheme) [] \<longrightarrow> pn_selected q = Some c \<longrightarrow> rowMembers q c \<in> {membersOf c, []}) \<and>
    (let q = selectCollection (Some b) (membersArrived (Inr (membersOf a)) (selectCollection (Some a) p))
     in browsed membersOf True q [b] \<and> pn_selected q = Some b \<and> rowMembers q b = membersOf a) \<and>
    (let q = membersArrived (Inr (membersOf a)) (membersArrived (Inr (membersOf b))
         (selectCollection (Some b) (selectCollection (Some a) p)))
     in browsed membersOf False q [] \<and> pn_selected q = Some b \<and> rowMembers q b = membersOf a)"
proof -
  have first: "rowMembers q c \<in> {membersOf c, []}" if "browsed membersOf True q []" "pn_selected q = Some c"
    for q :: "('s, 'z) panel_scheme" and c
    using that browsed_ordered by (fastforce simp: rowMembers_def)
  let ?one = "selectCollection (Some a) p"
  have start: "browsed membersOf ordered ?one [a]" for ordered
    using browsed.pick [OF browsed.start [of p membersOf ordered], of a] assms by simp
  have "browsed membersOf True (membersArrived (Inr (membersOf a)) ?one) ([] @ [])"
    using browsed.arrive [of membersOf True ?one "[]" a "[]" "Inr (membersOf a)"] start by simp
  then have early: "browsed membersOf True (selectCollection (Some b) (membersArrived (Inr (membersOf a)) ?one)) [b]"
    using browsed.pick by fastforce
  let ?two = "selectCollection (Some b) ?one"
  have "browsed membersOf False ?two ([] @ [a] @ [b])" using browsed.pick [OF start] by simp
  then have "browsed membersOf False (membersArrived (Inr (membersOf b)) ?two) ([a] @ [])"
    using browsed.arrive [of membersOf False ?two "[a]" b "[]" "Inr (membersOf b)"] by simp
  then have late: "browsed membersOf False (membersArrived (Inr (membersOf a)) (membersArrived (Inr (membersOf b)) ?two)) []"
    using browsed.arrive [of membersOf False _ "[]" a "[]" "Inr (membersOf a)"] by simp
  show ?thesis
    using first early late by (simp add: membersArrived_def selectCollection_def rowMembers_def)
qed

text \<open>
  C38. A grant goes to the person it names. Pressing Grant access for a pending grant sends a
  request only when the directory lists a person with the grant's user id; and when the server
  has taken the sealed key, no later refresh, failing or not, turns that into an error: the
  grant leaves the list.
\<close>

theorem granted_access_is_reported:
  assumes "recipientFor (pn_directory w) grant = Some recipient"
    "fulfilGrant pf post grant recipient w = (Inr (), w')"
  shows "du_id recipient = pg_userId grant \<and> fst (grantAccess pf post getSync getMembers grant w) = Inr None"
proof -
  have "du_id recipient = pg_userId grant" using assms(1) by (auto simp: recipientFor_def find_Some_iff)
  moreover have "fst (handleFulfil pf post getSync getMembers (pn_selected w) grant recipient w) = Inr ()"
  proof -
    let ?w = "w'\<lparr> pn_pendingGrants := filter (\<lambda>g. \<not> (pg_collectionId g = pg_collectionId grant \<and> pg_userId g = pg_userId grant))
      (pn_pendingGrants w') \<rparr>"
    obtain v where v: "quietly (resync pf getSync) ?w = (Inr (), v)" using quietly_returns by blast
    obtain v' where "refreshMembers getMembers (pg_collectionId grant) v = (Inr (), v')"
      unfolding refreshMembers_def using quietly_returns by blast
    then show ?thesis using assms(2) v by (simp add: handleFulfil_def andThen_def setShown_def ret_def)
  qed
  ultimately show ?thesis
    using assms(1) by (auto simp: grantAccess_def tryCatch_def andThen_def ret_def split: prod.split)
qed

lemma folder_change_reported:
  assumes "deleteFolder del (fr_id target) w = (Inr (), w')"
  shows "fst (confirmDeleteFolder pf del getSync selected target w) =
    Inr (if selected = fr_id target then [] else selected, None)"
proof -
  obtain v where "quietly (resync pf getSync) w' = (Inr (), v)" using quietly_returns by blast
  then show ?thesis using assms by (simp add: confirmDeleteFolder_def onDeleteFolder_def tryCatch_def andThen_def ret_def)
qed

section \<open>Witnesses\<close>

definition samplePanel :: "unit panel" where
  "samplePanel =
     \<lparr> wd_random = (\<lambda>i. 0), wd_heap = [replicate 32 7], sv_server = (),
       ap_session = createSession\<lparr> se_userKey := Some 0, se_privateKey := Some 0 \<rparr>,
       vs_state = EMPTY, vs_listeners = [], vs_notified = [],
       pn_directory = [], pn_pendingGrants = [], pn_loaded = True, pn_selected = None, pn_members = [] \<rparr>"

theorem members_shown_are_its_own_witness:
  "\<exists>(q :: unit panel) (q' :: unit panel).
     browsed (\<lambda>c. if c = [] then [] else [\<lparr> mb_userId = c, mb_name = c, mb_email = c, mb_role = c, mb_grantedAt = c \<rparr>])
       True q [js ''b''] \<and> pn_selected q = Some (js ''b'') \<and> map mb_userId (rowMembers q (js ''b'')) = [js ''a''] \<and>
     browsed (\<lambda>c. if c = [] then [] else [\<lparr> mb_userId = c, mb_name = c, mb_email = c, mb_role = c, mb_grantedAt = c \<rparr>])
       False q' [] \<and> pn_selected q' = Some (js ''b'') \<and> map mb_userId (rowMembers q' (js ''b'')) = [js ''a'']"
proof -
  let ?m = "\<lambda>c. if c = [] then [] else [\<lparr> mb_userId = c, mb_name = c, mb_email = c, mb_role = c, mb_grantedAt = c \<rparr>]"
  have "pn_selected samplePanel = None" by (simp add: samplePanel_def)
  from members_shown_are_its_own [OF this, of ?m "js ''b''" "js ''a''"]
  obtain q :: "unit panel" and q' :: "unit panel" where r: "browsed ?m True q [js ''b'']" "pn_selected q = Some (js ''b'')"
    "rowMembers q (js ''b'') = ?m (js ''a'')" "browsed ?m False q' []" "pn_selected q' = Some (js ''b'')"
    "rowMembers q' (js ''b'') = ?m (js ''a'')"
    unfolding Let_def by blast
  have "js ''a'' \<noteq> []" by (simp add: js_def)
  then have "map mb_userId (rowMembers q (js ''b'')) = [js ''a'']" "map mb_userId (rowMembers q' (js ''b'')) = [js ''a'']"
    using r(3,6) by simp_all
  then show ?thesis using r(1,2,4,5) by - (rule exI [of _ q], rule exI [of _ q'], intro conjI)
qed

definition sharingPanel :: "unit panel" where
  "sharingPanel =
     samplePanel\<lparr> wd_heap := [replicate 32 7, replicate 32 9],
       ap_session := (createSession\<lparr> se_userKey := Some 0, se_privateKey := Some 0 \<rparr>)
         \<lparr> se_collectionKeys := [(pg_collectionId sampleGrant, 1)] \<rparr>,
       pn_directory := [sampleRecipient], pn_pendingGrants := [sampleGrant] \<rparr>"

lemma fulfilGrant_accepted:
  assumes "gcmLaw pf" "kdfLaws pf" "keyPairLaw pf" "exchangeLaw pf"
    and "getCollectionKey (ap_session w) (pg_collectionId grant) = Some key" "key < length (wd_heap w)" "length (bufOf w key) = 32"
    and "du_publicKey recipient = toBase64 public" "pf_publicKey pf (bufOf device privateKey) = Inr public" "length public = 32"
    and "du_id recipient = pg_userId grant"
  shows "\<exists>w'. fulfilGrant pf (\<lambda>path body w. (Inr x, w)) grant recipient w = (Inr (), w')"
proof -
  obtain sealed w1 where "sealToUser pf key public w = (Inr sealed, w1)"
    using sealToUser_opens [OF assms(1-4,6,7,9,10)] by blast
  then show ?thesis using assms(5,8,11)
    by (simp add: fulfilGrant_def throw_def andThen_def withSession_def ofResult_def fromBase64_toBase64 ret_def)
qed

theorem granted_access_is_reported_witness:
  "fst (grantAccess samplePlatform (\<lambda>path body w. (Inr (), w)) (\<lambda>path body w. (Inl NetworkError, w))
     (\<lambda>path body w. (Inl NetworkError, w)) sampleGrant sharingPanel) = Inr None"
proof -
  have p: "pf_publicKey samplePlatform (bufOf sampleWorld 0) = Inr (replicate 32 7)"
    by (simp add: samplePlatform_def sampleWorld_def padTo_def bufOf_def)
  have w: "getCollectionKey (ap_session sharingPanel) (pg_collectionId sampleGrant) = Some 1"
    "1 < length (wd_heap sharingPanel)" "length (bufOf sharingPanel 1) = 32"
    "recipientFor (pn_directory sharingPanel) sampleGrant = Some sampleRecipient"
    by (simp_all add: sharingPanel_def samplePanel_def getCollectionKey_def mapGet_def bufOf_def recipientFor_def
        sampleRecipient_def sampleGrant_def)
  have r: "du_publicKey sampleRecipient = toBase64 (replicate 32 7)" "du_id sampleRecipient = pg_userId sampleGrant"
    "length (replicate 32 (7::byte)) = 32"
    by (simp_all add: sampleRecipient_def sampleGrant_def)
  obtain w' where "fulfilGrant samplePlatform (\<lambda>path body w. (Inr (), w)) sampleGrant sampleRecipient sharingPanel = (Inr (), w')"
    using fulfilGrant_accepted [OF sample_laws sample_exchange w(1-3) r(1) p r(3,2), of "()"] by blast
  from granted_access_is_reported [OF w(4) this] show ?thesis by blast
qed

end
