(* ===== verification/Preferences.thy ===== *)
theory Preferences
  imports Errors
begin

text \<open>
  The only thing the application keeps on disk (\<^verbatim>\<open>packages/vault/src/preferences.ts\<close>) and its
  binding to the browser (\<^verbatim>\<open>apps/web/src/platform/localStoragePreferences.ts\<close>).

  Shown: a setting that was written is read back, whatever else is stored; whatever is stored, the
  setting read is one of the seven offered; and neither preference touches the other.
\<close>

definition EMAIL_STORAGE_KEY :: jstr where "EMAIL_STORAGE_KEY = js ''keyhole.email''"
definition AUTO_LOCK_STORAGE_KEY :: jstr where "AUTO_LOCK_STORAGE_KEY = js ''keyhole.autolock''"

text \<open>The union of five numbers and two strings.\<close>

datatype AutoLockSetting = Minutes nat | OnClose | NeverLock

definition DEFAULT_AUTO_LOCK :: AutoLockSetting where "DEFAULT_AUTO_LOCK = Minutes 15"

definition SETTINGS :: "AutoLockSetting list" where
  "SETTINGS = [Minutes 1, Minutes 5, Minutes 15, Minutes 30, Minutes 60, OnClose, NeverLock]"

text \<open>The value a setting is in the source, and its \<^verbatim>\<open>String\<close>.\<close>

definition settingValue :: "AutoLockSetting \<Rightarrow> nat + jstr" where
  "settingValue s = (case s of Minutes n \<Rightarrow> Inl n | OnClose \<Rightarrow> Inr (js ''on-close'') | NeverLock \<Rightarrow> Inr (js ''never''))"

definition settingText :: "AutoLockSetting \<Rightarrow> jstr" where
  "settingText s = (case settingValue s of Inl n \<Rightarrow> showNat n | Inr t \<Rightarrow> t)"

section \<open>The preferences\<close>

definition rememberEmail :: "('p \<Rightarrow> jstr \<Rightarrow> jstr \<Rightarrow> unit result \<times> 'p) \<Rightarrow> jstr \<Rightarrow> 'p \<Rightarrow> unit result \<times> 'p" where
  "rememberEmail put email s = put s EMAIL_STORAGE_KEY email"

definition rememberedEmail :: "('p \<Rightarrow> jstr \<Rightarrow> jstr option) \<Rightarrow> 'p \<Rightarrow> jstr option" where
  "rememberedEmail get s = get s EMAIL_STORAGE_KEY"

definition forgetEmail :: "('p \<Rightarrow> jstr \<Rightarrow> 'p) \<Rightarrow> 'p \<Rightarrow> 'p" where
  "forgetEmail remove s = remove s EMAIL_STORAGE_KEY"

text \<open>\<^verbatim>\<open>/^\d+$/\<close>, then \<^verbatim>\<open>Number\<close>; anything that is not offered falls back.\<close>

definition parsedSetting :: "jstr \<Rightarrow> nat + jstr" where
  "parsedSetting raw = (if raw \<noteq> [] \<and> list_all isDigit raw then Inl (digitsVal raw) else Inr raw)"

definition readAutoLock :: "('p \<Rightarrow> jstr \<Rightarrow> jstr option) \<Rightarrow> 'p \<Rightarrow> AutoLockSetting" where
  "readAutoLock get s =
     (case get s AUTO_LOCK_STORAGE_KEY of
        None \<Rightarrow> DEFAULT_AUTO_LOCK
      | Some raw \<Rightarrow>
          (case find (\<lambda>s. settingValue s = parsedSetting raw) SETTINGS of
             None \<Rightarrow> DEFAULT_AUTO_LOCK | Some setting \<Rightarrow> setting))"

definition writeAutoLock ::
  "('p \<Rightarrow> jstr \<Rightarrow> jstr \<Rightarrow> unit result \<times> 'p) \<Rightarrow> AutoLockSetting \<Rightarrow> 'p \<Rightarrow> unit result \<times> 'p" where
  "writeAutoLock put setting s = put s AUTO_LOCK_STORAGE_KEY (settingText setting)"

section \<open>Local storage\<close>

text \<open>Items by key, and the browser's quota, which makes \<^verbatim>\<open>setItem\<close> throw.\<close>

record LocalStorage =
  ls_items :: "(jstr, jstr) jmap"
  ls_fits :: "(jstr, jstr) jmap \<Rightarrow> bool"

definition QuotaExceeded :: exn where "QuotaExceeded = JsError (js ''QuotaExceededError'')"

definition getItem :: "LocalStorage \<Rightarrow> jstr \<Rightarrow> jstr option" where
  "getItem s key = mapGet (ls_items s) key"

definition setItem :: "LocalStorage \<Rightarrow> jstr \<Rightarrow> jstr \<Rightarrow> unit result \<times> LocalStorage" where
  "setItem s key v =
     (let items = mapSet (ls_items s) key v in
      if ls_fits s items then (Inr (), s\<lparr> ls_items := items \<rparr>) else (Inl QuotaExceeded, s))"

definition removeStored :: "LocalStorage \<Rightarrow> jstr \<Rightarrow> LocalStorage" where
  "removeStored s key = s\<lparr> ls_items := mapDelete (ls_items s) key \<rparr>"

section \<open>The contract of a store\<close>

lemma setting_cases: "s \<in> set SETTINGS \<Longrightarrow> s = OnClose \<or> s = NeverLock \<or> (\<exists>n. s = Minutes n)"
  by (auto simp: SETTINGS_def)

lemma parsed_text: "s \<in> set SETTINGS \<Longrightarrow> parsedSetting (settingText s) = settingValue s"
proof -
  have "\<not> list_all isDigit (js ''on-close'')" "\<not> list_all isDigit (js ''never'')" by code_simp+
  then show "s \<in> set SETTINGS \<Longrightarrow> ?thesis"
    using setting_cases [of s] by (auto simp: parsedSetting_def settingText_def settingValue_def showNat_digits showNat_not_Nil)
qed

lemma find_setting: "s \<in> set SETTINGS \<Longrightarrow> find (\<lambda>t. settingValue t = settingValue s) SETTINGS = Some s"
proof -
  have "\<forall>s \<in> set SETTINGS. find (\<lambda>t. settingValue t = settingValue s) SETTINGS = Some s" by code_simp
  then show "s \<in> set SETTINGS \<Longrightarrow> ?thesis" by blast
qed

lemma default_offered: "DEFAULT_AUTO_LOCK \<in> set SETTINGS"
  by (simp add: DEFAULT_AUTO_LOCK_def SETTINGS_def)

lemma keys_differ: "EMAIL_STORAGE_KEY \<noteq> AUTO_LOCK_STORAGE_KEY"
  by code_simp

locale preference_store =
  fixes get :: "'p \<Rightarrow> jstr \<Rightarrow> jstr option"
    and put :: "'p \<Rightarrow> jstr \<Rightarrow> jstr \<Rightarrow> unit result \<times> 'p"
    and remove :: "'p \<Rightarrow> jstr \<Rightarrow> 'p"
  assumes put_stored: "put s k v = (Inr (), s') \<Longrightarrow> get s' = (get s)(k \<mapsto> v)"
    and put_failed: "put s k v = (Inl e, s') \<Longrightarrow> s' = s"
    and get_removed: "get (remove s k) = (get s)(k := None)"
begin

lemma read_offered: "readAutoLock get s \<in> set SETTINGS"
  using default_offered
  by (auto simp: readAutoLock_def find_Some_iff split: option.split)

lemma read_written:
  assumes "setting \<in> set SETTINGS" "writeAutoLock put setting s = (Inr (), s')"
  shows "readAutoLock get s' = setting" "rememberedEmail get s' = rememberedEmail get s"
  using put_stored [OF assms(2) [unfolded writeAutoLock_def]] keys_differ
  by (simp_all add: readAutoLock_def parsed_text [OF assms(1)] find_setting [OF assms(1)] rememberedEmail_def)

lemma email_written:
  assumes "rememberEmail put email s = (Inr (), s')"
  shows "rememberedEmail get s' = Some email" "readAutoLock get s' = readAutoLock get s"
  using put_stored [OF assms [unfolded rememberEmail_def]] keys_differ
  by (simp_all add: readAutoLock_def rememberedEmail_def)

lemma email_forgotten:
  "rememberedEmail get (forgetEmail remove s) = None" "readAutoLock get (forgetEmail remove s) = readAutoLock get s"
  using get_removed [of s] keys_differ by (simp_all add: readAutoLock_def rememberedEmail_def forgetEmail_def)

lemma write_failed:
  assumes "writeAutoLock put setting s = (Inl e, s')"
  shows "s' = s"
  using assms put_failed unfolding writeAutoLock_def by blast

end

interpretation ls: preference_store getItem setItem removeStored
proof unfold_locales
  fix s s' k v e
  show "setItem s k v = (Inr (), s') \<Longrightarrow> getItem s' = (getItem s)(k \<mapsto> v)"
    by (auto simp: setItem_def getItem_def fun_eq_iff mapGet_set Let_def split: if_splits)
  show "setItem s k v = (Inl e, s') \<Longrightarrow> s' = s"
    by (auto simp: setItem_def Let_def split: if_splits)
  show "getItem (removeStored s k) = (getItem s)(k := None)"
    by (auto simp: removeStored_def getItem_def fun_eq_iff mapGet_delete)
qed

text \<open>
  The auto-lock setting survives. A setting the browser accepted is the one read back, and the
  remembered email is untouched; after a failed write, and with any other text under the key,
  what is read is still one of the seven settings.
\<close>

theorem autolock_setting_survives:
  assumes "setting \<in> set SETTINGS" "writeAutoLock setItem setting s = (r, s')"
  shows "readAutoLock getItem s' = (if isl r then readAutoLock getItem s else setting) \<and>
    rememberedEmail getItem s' = rememberedEmail getItem s \<and> readAutoLock getItem s \<in> set SETTINGS"
proof (cases r)
  case (Inl e)
  then show ?thesis using assms(2) ls.write_failed ls.read_offered by auto
next
  case (Inr u)
  then show ?thesis using assms ls.read_written ls.read_offered by auto
qed

theorem autolock_setting_survives_witness:
  "readAutoLock getItem (snd (writeAutoLock setItem (Minutes 30) \<lparr> ls_items = [], ls_fits = (\<lambda>x. True) \<rparr>)) = Minutes 30"
  using autolock_setting_survives [of "Minutes 30" "\<lparr> ls_items = [], ls_fits = (\<lambda>x. True) \<rparr>" "Inr ()"
      "snd (writeAutoLock setItem (Minutes 30) \<lparr> ls_items = [], ls_fits = (\<lambda>x. True) \<rparr>)"]
  by (simp add: SETTINGS_def writeAutoLock_def setItem_def Let_def)

end
