(* ===== verification/AutoLock.thy ===== *)
theory AutoLock
  imports Preferences
begin

text \<open>
  The idle lock (\<^verbatim>\<open>apps/web/src/vault/autolock.ts\<close>): the closure variables of
  \<^verbatim>\<open>startAutoLock\<close> as a record, one function per listener, and the runs of the browser's event
  loop as a relation. Times are those of \<^verbatim>\<open>Date.now\<close>, in milliseconds, and do not go back; a
  timeout runs at some time at or after the one it is due at.

  Shown: a vault nobody uses for the chosen time is locked, as soon as the browser has run the
  timeouts that are due; a lock never falls inside that time after an activity.
\<close>

record AutoLock =
  al_setting :: AutoLockSetting
  al_listening :: bool
  al_lastActivity :: int
  al_timer :: "int option"
  al_locks :: "int list"

text \<open>\<open>al_timer\<close> is when the pending timeout is due; \<open>al_locks\<close> are the times \<^verbatim>\<open>onLock\<close> was called.\<close>

definition idleMs :: "AutoLockSetting \<Rightarrow> int" where
  "idleMs setting = (case setting of Minutes n \<Rightarrow> int n * 60000 | _ \<Rightarrow> 0)"

definition fire :: "int \<Rightarrow> AutoLock \<Rightarrow> AutoLock" where
  "fire now s = s\<lparr> al_timer := None, al_locks := al_locks s @ [now] \<rparr>"

definition restart :: "int \<Rightarrow> AutoLock \<Rightarrow> AutoLock" where
  "restart now s = s\<lparr> al_lastActivity := now, al_timer := Some (now + idleMs (al_setting s)) \<rparr>"

definition checkElapsed :: "int \<Rightarrow> AutoLock \<Rightarrow> AutoLock" where
  "checkElapsed now s =
     (if now - al_lastActivity s \<ge> idleMs (al_setting s) then fire now (s\<lparr> al_timer := None \<rparr>) else restart now s)"

definition onHidden :: "bool \<Rightarrow> int \<Rightarrow> AutoLock \<Rightarrow> AutoLock" where
  "onHidden hidden now s = (if hidden then s\<lparr> al_locks := al_locks s @ [now] \<rparr> else s)"

definition startAutoLock :: "AutoLockSetting \<Rightarrow> int \<Rightarrow> AutoLock" where
  "startAutoLock setting now =
     (let s = \<lparr> al_setting = setting, al_listening = True, al_lastActivity = now, al_timer = None, al_locks = [] \<rparr> in
      case setting of
        NeverLock \<Rightarrow> s\<lparr> al_listening := False \<rparr>
      | OnClose \<Rightarrow> s
      | Minutes n \<Rightarrow> restart now s)"

text \<open>The function \<^verbatim>\<open>startAutoLock\<close> returns.\<close>

definition stopAutoLock :: "AutoLock \<Rightarrow> AutoLock" where
  "stopAutoLock s = s\<lparr> al_timer := None, al_listening := False \<rparr>"

section \<open>Events\<close>

datatype AutoLockEvent = Activity | Visibility bool | TimerRuns

definition visibilityEvent :: "bool \<Rightarrow> int \<Rightarrow> AutoLock \<Rightarrow> AutoLock" where
  "visibilityEvent hidden now s =
     (case al_setting s of Minutes n \<Rightarrow> checkElapsed now s | OnClose \<Rightarrow> onHidden hidden now s | NeverLock \<Rightarrow> s)"

definition activityEvent :: "int \<Rightarrow> AutoLock \<Rightarrow> AutoLock" where
  "activityEvent now s = (case al_setting s of Minutes n \<Rightarrow> restart now s | _ \<Rightarrow> s)"

definition handleEvent :: "AutoLockEvent \<Rightarrow> int \<Rightarrow> AutoLock \<Rightarrow> AutoLock" where
  "handleEvent e now s =
     (case e of
        Activity \<Rightarrow> if al_listening s then activityEvent now s else s
      | Visibility hidden \<Rightarrow> if al_listening s then visibilityEvent hidden now s else s
      | TimerRuns \<Rightarrow> fire now s)"

definition happens :: "AutoLockEvent \<Rightarrow> int \<Rightarrow> AutoLock \<Rightarrow> bool" where
  "happens e now s = (e = TimerRuns \<longrightarrow> (case al_timer s of None \<Rightarrow> False | Some due \<Rightarrow> due \<le> now))"

text \<open>\<open>autolock_run setting t0 es now s\<close>: started at \<open>t0\<close>, after the events \<open>es\<close>, it is \<open>now\<close> and the state is \<open>s\<close>.\<close>

inductive autolock_run :: "AutoLockSetting \<Rightarrow> int \<Rightarrow> (int \<times> AutoLockEvent) list \<Rightarrow> int \<Rightarrow> AutoLock \<Rightarrow> bool"
  for setting :: AutoLockSetting and t0 :: int where
  run_start: "autolock_run setting t0 [] t0 (startAutoLock setting t0)"
| run_wait: "autolock_run setting t0 es now s \<Longrightarrow> now \<le> later \<Longrightarrow> autolock_run setting t0 es later s"
| run_event: "autolock_run setting t0 es now s \<Longrightarrow> happens e now s \<Longrightarrow>
    autolock_run setting t0 (es @ [(now, e)]) now (handleEvent e now s)"

inductive_cases run_nilE: "autolock_run setting t0 [] now s"

section \<open>The invariant of an interval setting\<close>

text \<open>
  A pending timeout is due one idle time after the last activity; with none pending, a lock came
  that late. The last activity is the start or the time of an event of the user's.
\<close>

definition userTimes :: "(int \<times> AutoLockEvent) list \<Rightarrow> int set" where
  "userTimes es = {t. \<exists>e. (t, e) \<in> set es \<and> e \<noteq> TimerRuns}"

definition idleInv :: "nat \<Rightarrow> int \<Rightarrow> (int \<times> AutoLockEvent) list \<Rightarrow> int \<Rightarrow> AutoLock \<Rightarrow> bool" where
  "idleInv n t0 es now s =
     (let idle = int n * 60000; lastOne = al_lastActivity s; locks = al_locks s in
      al_setting s = Minutes n \<and> al_listening s \<and> lastOne \<le> now \<and>
      (\<forall>due. al_timer s = Some due \<longrightarrow> due = lastOne + idle) \<and>
      (al_timer s = None \<longrightarrow> locks \<noteq> [] \<and> lastOne + idle \<le> last locks) \<and>
      (\<forall>l \<in> set locks. l \<le> now \<and> (\<forall>u. (u, Activity) \<in> set es \<longrightarrow> u \<le> l - idle \<or> l \<le> u)) \<and>
      (\<forall>u \<in> userTimes es. u \<le> lastOne \<or> locks \<noteq> [] \<and> u \<le> last locks) \<and>
      (\<forall>u. (u, Activity) \<in> set es \<longrightarrow> u \<le> lastOne) \<and>
      (lastOne = t0 \<or> lastOne \<in> userTimes es) \<and> (\<forall>l \<in> set locks. locks \<noteq> [] \<and> l \<le> last locks))"

lemma idleInvD:
  assumes "idleInv n t0 es now s"
  shows "al_setting s = Minutes n" "al_listening s" "al_lastActivity s \<le> now"
    "al_timer s = Some due \<Longrightarrow> due = al_lastActivity s + int n * 60000"
    "al_timer s = None \<Longrightarrow> al_locks s \<noteq> [] \<and> al_lastActivity s + int n * 60000 \<le> last (al_locks s)"
    "l \<in> set (al_locks s) \<Longrightarrow> l \<le> now" "l \<in> set (al_locks s) \<Longrightarrow> l \<le> last (al_locks s)"
    "l \<in> set (al_locks s) \<Longrightarrow> (u, Activity) \<in> set es \<Longrightarrow> u \<le> l - int n * 60000 \<or> l \<le> u"
    "u \<in> userTimes es \<Longrightarrow> u \<le> al_lastActivity s \<or> al_locks s \<noteq> [] \<and> u \<le> last (al_locks s)"
    "(u, Activity) \<in> set es \<Longrightarrow> u \<le> al_lastActivity s"
    "al_lastActivity s = t0 \<or> al_lastActivity s \<in> userTimes es"
  using assms unfolding idleInv_def Let_def by blast+

lemma idleInv_later:
  assumes "now \<le> later" "idleInv n t0 es now s"
  shows "idleInv n t0 es later s"
proof -
  have a: "al_lastActivity s \<le> later" using idleInvD(3) [OF assms(2)] assms(1) by linarith
  have b: "\<forall>l \<in> set (al_locks s). l \<le> later \<and> (\<forall>u. (u, Activity) \<in> set es \<longrightarrow> u \<le> l - int n * 60000 \<or> l \<le> u)"
    using idleInvD(6,8) [OF assms(2)] assms(1) by (meson order_trans)
  show ?thesis
    using assms(2) unfolding idleInv_def Let_def
    by (elim conjE, intro conjI) (assumption | rule a b)+
qed

lemma idleInv_user:
  assumes "idleInv n t0 es now s" "u \<in> userTimes es"
  shows "u \<le> now"
proof -
  have "al_locks s \<noteq> [] \<Longrightarrow> last (al_locks s) \<le> now" using idleInvD(6) [OF assms(1)] by simp
  then show ?thesis using idleInvD(3,9) [OF assms(1)] assms(2) by force
qed

lemma userTimes_snoc:
  "userTimes (es @ [(t, e)]) = (if e = TimerRuns then userTimes es else insert t (userTimes es))"
  by (auto simp: userTimes_def)

lemmas autolock_defs = handleEvent_def activityEvent_def visibilityEvent_def checkElapsed_def restart_def fire_def
  idleMs_def

lemma idleInv_fire:
  assumes inv: "idleInv n t0 es now s" and late: "al_lastActivity s + int n * 60000 \<le> now" and e: "e \<noteq> Activity"
  shows "idleInv n t0 (es @ [(now, e)]) now (fire now s)"
proof -
  note i = idleInvD [OF inv]
  have act: "(u, Activity) \<in> set (es @ [(now, e)]) \<longleftrightarrow> (u, Activity) \<in> set es" for u using e by auto
  have old: "u \<le> now" if "u \<in> userTimes (es @ [(now, e)])" for u
    using that idleInv_user [OF inv] by (auto simp: userTimes_snoc split: if_splits)
  have locks: "l \<le> now \<and> (\<forall>u. (u, Activity) \<in> set es \<longrightarrow> u \<le> l - int n * 60000 \<or> l \<le> u)"
    if "l \<in> set (al_locks s @ [now])" for l
  proof (cases "l = now")
    case True
    have "u \<le> now - int n * 60000" if "(u, Activity) \<in> set es" for u using i(10) [OF that] late by linarith
    then show ?thesis using True by blast
  next
    case False
    then have "l \<in> set (al_locks s)" using that by simp
    then show ?thesis using i(6,8) by blast
  qed
  have "userTimes es \<subseteq> userTimes (es @ [(now, e)])" by (simp add: userTimes_snoc subset_insertI)
  then have "al_lastActivity s = t0 \<or> al_lastActivity s \<in> userTimes (es @ [(now, e)])" using i(11) by blast
  then show ?thesis
    unfolding idleInv_def Let_def act fire_def using i(1-3,10) late locks old by simp
qed

lemma idleInv_restart:
  assumes inv: "idleInv n t0 es now s" and e: "e \<noteq> TimerRuns"
  shows "idleInv n t0 (es @ [(now, e)]) now (restart now s)"
proof -
  note i = idleInvD [OF inv]
  have users: "userTimes (es @ [(now, e)]) = insert now (userTimes es)" using e by (simp add: userTimes_snoc)
  have act: "u \<le> now" if "(u, Activity) \<in> set (es @ [(now, e)])" for u
  proof (cases "u = now")
    case False
    then have "(u, Activity) \<in> set es" using that by auto
    then show ?thesis using i(3,10) by force
  qed simp
  have locks: "l \<le> now \<and> l \<le> last (al_locks s) \<and>
      (\<forall>u. (u, Activity) \<in> set (es @ [(now, e)]) \<longrightarrow> u \<le> l - int n * 60000 \<or> l \<le> u)"
    if "l \<in> set (al_locks s)" for l
    using i(6,7) [OF that] i(8) [OF that] by auto
  have "u \<le> now" if "u \<in> insert now (userTimes es)" for u using that idleInv_user [OF inv] by blast
  then show ?thesis
    unfolding idleInv_def Let_def users restart_def using i(1,2) act locks by (auto simp: idleMs_def)
qed

lemma idleInv_run: "autolock_run (Minutes n) t0 es now s \<Longrightarrow> idleInv n t0 es now s"
proof (induction rule: autolock_run.induct)
  case run_start
  then show ?case by (simp add: idleInv_def startAutoLock_def restart_def idleMs_def userTimes_def Let_def)
next
  case run_wait
  then show ?case using idleInv_later by blast
next
  case (run_event es now s e)
  have s: "al_setting s = Minutes n" "al_listening s" by (rule idleInvD(1,2) [OF run_event.IH])+
  show ?case
  proof (cases e)
    case Activity
    then show ?thesis using idleInv_restart [OF run_event.IH] s by (simp add: handleEvent_def activityEvent_def)
  next
    case (Visibility hidden)
    show ?thesis
    proof (cases "now - al_lastActivity s \<ge> int n * 60000")
      case True
      have "fire now (s\<lparr> al_timer := None \<rparr>) = fire now s" by (simp add: fire_def)
      then show ?thesis using idleInv_fire [OF run_event.IH, of e] True Visibility s
        by (simp add: handleEvent_def visibilityEvent_def checkElapsed_def idleMs_def)
    next
      case False
      then show ?thesis using idleInv_restart [OF run_event.IH, of e] Visibility s
        by (simp add: handleEvent_def visibilityEvent_def checkElapsed_def idleMs_def)
    qed
  next
    case TimerRuns
    then obtain due where "al_timer s = Some due" "due \<le> now"
      using run_event.hyps by (auto simp: happens_def split: option.splits)
    then have "al_lastActivity s + int n * 60000 \<le> now" using idleInvD(4) [OF run_event.IH] by auto
    then show ?thesis using idleInv_fire [OF run_event.IH, of e] TimerRuns by (simp add: handleEvent_def)
  qed
qed

text \<open>
  C15. An idle vault gets locked. With an interval of \<open>n\<close> minutes, when nothing of the user's has
  happened for \<open>n\<close> minutes and the browser has run every timeout that is due, \<^verbatim>\<open>onLock\<close> has been
  called, and no activity came after that call.
\<close>

theorem idle_vault_locks:
  assumes "autolock_run (Minutes n) t0 es now s"
    and "\<And>due. al_timer s = Some due \<Longrightarrow> now < due"
    and "t0 + int n * 60000 \<le> now" "\<And>u. u \<in> userTimes es \<Longrightarrow> u + int n * 60000 \<le> now"
  shows "\<exists>l \<in> set (al_locks s). l \<le> now \<and> (\<forall>u \<in> userTimes es. u \<le> l)"
proof -
  note i = idleInvD [OF idleInv_run [OF assms(1)]]
  have late: "al_lastActivity s + int n * 60000 \<le> now" using i(11) assms(3,4) by auto
  have none: "al_timer s = None"
  proof (cases "al_timer s")
    case (Some due)
    then show ?thesis using i(4) [OF Some] assms(2) [OF Some] late by simp
  qed
  then have l: "al_locks s \<noteq> []" "al_lastActivity s + int n * 60000 \<le> last (al_locks s)" using i(5) by auto
  have "u \<le> last (al_locks s)" if "u \<in> userTimes es" for u using i(9) [OF that] l(2) by auto
  moreover have "last (al_locks s) \<in> set (al_locks s)" using l(1) by simp
  ultimately show ?thesis using i(6) by blast
qed

text \<open>
  An active user is not locked out. With an interval of \<open>n\<close> minutes, \<^verbatim>\<open>onLock\<close> is never
  called within \<open>n\<close> minutes after a pointer, key or focus event.
\<close>

theorem active_user_not_locked:
  assumes "autolock_run (Minutes n) t0 es now s" "l \<in> set (al_locks s)" "(u, Activity) \<in> set es"
  shows "u + int n * 60000 \<le> l \<or> l \<le> u"
  using idleInvD(8) [OF idleInv_run [OF assms(1)] assms(2,3)] by linarith

lemma sample_run: "autolock_run (Minutes 1) 0 [(30000, Activity), (95000, TimerRuns)] 95000
    \<lparr> al_setting = Minutes 1, al_listening = True, al_lastActivity = 30000, al_timer = None, al_locks = [95000] \<rparr>"
proof -
  let ?s = "startAutoLock (Minutes 1) 0"
  have "autolock_run (Minutes 1) 0 ([] @ [(30000, Activity)]) 30000 (handleEvent Activity 30000 ?s)"
    by (rule run_event [OF run_wait [OF run_start]]) (simp_all add: happens_def)
  moreover have "handleEvent Activity 30000 ?s =
      \<lparr> al_setting = Minutes 1, al_listening = True, al_lastActivity = 30000, al_timer = Some 90000, al_locks = [] \<rparr>"
    by (simp add: autolock_defs startAutoLock_def)
  ultimately have a: "autolock_run (Minutes 1) 0 [(30000, Activity)] 30000
      \<lparr> al_setting = Minutes 1, al_listening = True, al_lastActivity = 30000, al_timer = Some 90000, al_locks = [] \<rparr>"
    by simp
  have "autolock_run (Minutes 1) 0 ([(30000, Activity)] @ [(95000, TimerRuns)]) 95000 (handleEvent TimerRuns 95000
      \<lparr> al_setting = Minutes 1, al_listening = True, al_lastActivity = 30000, al_timer = Some 90000, al_locks = [] \<rparr>)"
    by (rule run_event [OF run_wait [OF a]]) (simp_all add: happens_def)
  then show ?thesis by (simp add: handleEvent_def fire_def)
qed

theorem idle_vault_locks_witness:
  "\<exists>l \<in> set [95000 :: int]. l \<le> 95000 \<and> (\<forall>u \<in> userTimes [(30000, Activity), (95000, TimerRuns)]. u \<le> l)"
proof -
  have "u + int 1 * 60000 \<le> 95000" if "u \<in> userTimes [(30000, Activity), (95000, TimerRuns)]" for u
    using that by (auto simp: userTimes_def)
  from idle_vault_locks [OF sample_run _ _ this] show ?thesis by simp
qed

theorem active_user_not_locked_witness: "30000 + int 1 * 60000 \<le> (95000 :: int) \<or> 95000 \<le> (30000 :: int)"
  using active_user_not_locked [OF sample_run] by simp

text \<open>
  The wall clock is checked when the page becomes visible or hidden, not on every wake: a focus or
  key event an hour late, before the overdue timeout has run, restarts the interval and nothing
  is locked.
\<close>

theorem late_activity_restarts:
  "\<exists>s. autolock_run (Minutes 1) 0 [(3600000, Activity)] 3600000 s \<and> al_locks s = [] \<and> al_timer s = Some 3660000"
proof -
  have "autolock_run (Minutes 1) 0 ([] @ [(3600000, Activity)]) 3600000 (handleEvent Activity 3600000 (startAutoLock (Minutes 1) 0))"
    by (rule run_event [OF run_wait [OF run_start]]) (simp_all add: happens_def)
  then show ?thesis by (intro exI conjI, simp) (simp_all add: autolock_defs startAutoLock_def)
qed

end
