(* ===== verification/Settings.thy ===== *)
theory Settings
  imports Account Store Preferences Failures
begin

text \<open>
  The settings tab: \<^verbatim>\<open>apps/web/src/ui/useSettingsPanel.ts\<close> and
  \<^verbatim>\<open>screens/SettingsScreen.tsx\<close>. The panel's world is the store's, with the browser's
  storage and the panel's own state.

  Shown: the picker offers exactly the settings there are and every one of them comes back from
  its option; signing this device out locks it, and only then; a form never calls the server with
  two passwords that differ.
\<close>

section \<open>The panel\<close>

record 's settings = "'s shop" +
  sp_storage :: LocalStorage
  sp_autoLock :: AutoLockSetting
  sp_sessions :: "DeviceSession list"
  sp_loaded :: bool

type_synonym ('s, 'z, 'a) settingsprog = "('s, 'z) settings_scheme \<Rightarrow> 'a result \<times> ('s, 'z) settings_scheme"
type_synonym ('s, 'z, 'r) settingscall = "('s, 'z settings_ext shop_ext, 'r) call"

definition setSettings :: "(('s, 'z) settings_scheme \<Rightarrow> ('s, 'z) settings_scheme) \<Rightarrow> ('s, 'z, unit) settingsprog" where
  "setSettings f w = (Inr (), f w)"

definition loadSessions :: "('s, 'z, DeviceSession list) settingscall \<Rightarrow> bool \<Rightarrow> bool \<Rightarrow> ('s, 'z, unit) settingsprog" where
  "loadSessions get active cancelled w =
     (if \<not> active \<or> sp_loaded w then (Inr (), w)
      else
        tryCatch
          (andThen (listSessions get) (\<lambda>sessions.
             if cancelled then ret () else setSettings (\<lambda>p. p\<lparr> sp_sessions := sessions, sp_loaded := True \<rparr>)))
          (\<lambda>e. ret ()) w)"

text \<open>The store throws when it is full; the choice is then not adopted either.\<close>

definition handleAutoLockChange :: "AutoLockSetting \<Rightarrow> ('s, 'z, unit) settingsprog" where
  "handleAutoLockChange setting w =
     (case writeAutoLock setItem setting (sp_storage w) of
        (Inl e, s) \<Rightarrow> (Inl e, w\<lparr> sp_storage := s \<rparr>)
      | (Inr u, s) \<Rightarrow> (Inr (), w\<lparr> sp_storage := s, sp_autoLock := setting \<rparr>))"

definition sessionEmail :: "Session \<Rightarrow> jstr" where
  "sessionEmail s = (case se_user s of None \<Rightarrow> [] | Some user \<Rightarrow> su_email user)"

definition handleChangePassword ::
  "platform \<Rightarrow> ('s, 'z, PreloginResponse) settingscall \<Rightarrow> ('s, 'z, 'r) settingscall \<Rightarrow> jstr \<Rightarrow> jstr \<Rightarrow> ('s, 'z, unit) settingsprog" where
  "handleChangePassword pf postPrelogin postPassword currentPassword newPassword w =
     changeMasterPassword pf postPrelogin postPassword (sessionEmail (ap_session w)) currentPassword newPassword w"

definition handleRegenerateRecoveryCode ::
  "platform \<Rightarrow> ('s, 'z, PreloginResponse) settingscall \<Rightarrow> ('s, 'z, 'r) settingscall \<Rightarrow> jstr \<Rightarrow> ('s, 'z, jstr) settingsprog" where
  "handleRegenerateRecoveryCode pf postPrelogin postRecovery currentPassword w =
     regenerateRecoveryCode pf postPrelogin postRecovery (sessionEmail (ap_session w)) currentPassword w"

definition handleRevokeSession :: "('s, 'z, 'r) settingscall \<Rightarrow> jstr \<Rightarrow> ('s, 'z, unit) settingsprog" where
  "handleRevokeSession del sessionId =
     andThen (revokeSession del sessionId) (\<lambda>u.
       setSettings (\<lambda>p. p\<lparr> sp_sessions := filter (\<lambda>s. ds_id s \<noteq> sessionId) (sp_sessions p) \<rparr>))"

text \<open>\<^verbatim>\<open>handleLock\<close>, which is also what the header's Lock button and the auto-lock do.\<close>

definition handleLock :: "('s, 'z) shop_scheme \<Rightarrow> ('s, 'z) shop_scheme" where
  "handleLock w = lock (clearStore w)"

section \<open>The screen\<close>

definition AUTO_LOCK_OPTIONS :: "(AutoLockSetting \<times> jstr) list" where
  "AUTO_LOCK_OPTIONS =
     [(Minutes 1, js ''1 minute''), (Minutes 5, js ''5 minutes''), (Minutes 15, js ''15 minutes''),
      (Minutes 30, js ''30 minutes''), (Minutes 60, js ''60 minutes''),
      (OnClose, js ''When this tab closes''), (NeverLock, js ''Never'')]"

text \<open>\<^verbatim>\<open>Number(raw)\<close> of the option's value, which is a run of digits.\<close>

definition parseAutoLockValue :: "jstr \<Rightarrow> AutoLockSetting" where
  "parseAutoLockValue raw =
     (if raw = js ''on-close'' then OnClose else if raw = js ''never'' then NeverLock else Minutes (digitsVal raw))"

record PasswordForm =
  pf_current :: jstr
  pf_new :: jstr
  pf_confirm :: jstr
  pf_error :: "jstr option"
  pf_success :: bool

definition submitPassword ::
  "platform \<Rightarrow> ('s, 'z, PreloginResponse) settingscall \<Rightarrow> ('s, 'z, 'r) settingscall \<Rightarrow> PasswordForm \<Rightarrow>
   ('s, 'z, PasswordForm) settingsprog" where
  "submitPassword pf postPrelogin postPassword form =
     (if pf_new form \<noteq> pf_confirm form then
        ret (form\<lparr> pf_success := False, pf_error := Some (js ''The new password and confirmation do not match'') \<rparr>)
      else
        tryCatch
          (andThen (handleChangePassword pf postPrelogin postPassword (pf_current form) (pf_new form)) (\<lambda>u.
             ret \<lparr> pf_current = [], pf_new = [], pf_confirm = [], pf_error = None, pf_success = True \<rparr>))
          (\<lambda>failure. ret (form\<lparr> pf_success := False,
             pf_error := Some (describeFailure failure (js ''Could not change the master password'')) \<rparr>)))"

text \<open>\<^verbatim>\<open>handleRevoke\<close> with the error it would show.\<close>

definition handleRevoke :: "('s, 'z, 'r) settingscall \<Rightarrow> DeviceSession \<Rightarrow> ('s, 'z, jstr option) settingsprog" where
  "handleRevoke del target =
     tryCatch
       (andThen (handleRevokeSession del (ds_id target)) (\<lambda>u w.
          (Inr None, if ds_current target then handleLock w else w)))
       (\<lambda>failure. ret (Some (describeFailure failure (js ''Could not sign out that device''))))"

record RecoveryForm =
  rf_open :: bool
  rf_currentPassword :: jstr
  rf_error :: "jstr option"
  rf_code :: "jstr option"
  rf_acknowledged :: bool

definition submitRecovery ::
  "platform \<Rightarrow> ('s, 'z, PreloginResponse) settingscall \<Rightarrow> ('s, 'z, 'r) settingscall \<Rightarrow> RecoveryForm \<Rightarrow>
   ('s, 'z, RecoveryForm) settingsprog" where
  "submitRecovery pf postPrelogin postRecovery form =
     tryCatch
       (andThen (handleRegenerateRecoveryCode pf postPrelogin postRecovery (rf_currentPassword form)) (\<lambda>code.
          ret (form\<lparr> rf_error := None, rf_code := Some code, rf_open := False, rf_currentPassword := [] \<rparr>)))
       (\<lambda>failure. ret (form\<lparr> rf_error := Some (describeFailure failure (js ''Could not generate a new recovery code'')) \<rparr>))"

text \<open>Done, enabled by the acknowledgement.\<close>

definition doneRecovery :: "RecoveryForm \<Rightarrow> RecoveryForm" where
  "doneRecovery form =
     (if rf_acknowledged form then form\<lparr> rf_code := None, rf_acknowledged := False \<rparr> else form)"

section \<open>Properties\<close>

lemma option_roundtrip: "option \<in> set AUTO_LOCK_OPTIONS \<Longrightarrow> parseAutoLockValue (settingText (fst option)) = fst option"
proof -
  have "\<forall>option \<in> set AUTO_LOCK_OPTIONS. parseAutoLockValue (settingText (fst option)) = fst option" by code_simp
  then show "option \<in> set AUTO_LOCK_OPTIONS \<Longrightarrow> ?thesis" by blast
qed

lemma options_are_settings: "map fst AUTO_LOCK_OPTIONS = SETTINGS"
  by (simp add: AUTO_LOCK_OPTIONS_def SETTINGS_def)

lemma handleLock_eq:
  "handleLock w = (clearStore w)\<lparr> wd_heap := wd_heap (handleLock w), ap_session := ap_session (handleLock w) \<rparr>"
  unfolding handleLock_def lock_def Let_def by (subst (1) zeroize_heap) simp

lemma handleLock_state [simp]:
  "vs_state (handleLock v) = EMPTY" "sp_sessions (handleLock (w :: ('s, 'z) settings_scheme)) = sp_sessions w"
  by (subst handleLock_eq, simp add: clearStore_def)+

text \<open>
  C36. Signing out a device in the settings tab. When the server refuses or does not answer, nothing
  changes but the message shown. When it answers, exactly that device leaves the list; if it was
  this one, the vault is emptied, the session is locked and every key it held is zero; if it was
  another one, the session, its keys and the vault are as the call left them.
\<close>
theorem signing_out_this_device_locks:
  "case del (js ''/api/account/sessions/'' @ ds_id target) None w of
     (Inl e, w1) \<Rightarrow> handleRevoke del target w = (Inr (Some (describeFailure e (js ''Could not sign out that device''))), w1)
   | (Inr x, w1) \<Rightarrow>
       (\<exists>w'. handleRevoke del target w = (Inr None, w') \<and>
          sp_sessions w' = filter (\<lambda>s. ds_id s \<noteq> ds_id target) (sp_sessions w1) \<and>
          (if ds_current target
           then vs_state w' = EMPTY \<and> \<not> isUnlocked (ap_session w') \<and> getAccessToken (ap_session w') = None \<and>
             held (ap_session w1) \<subseteq> {a. isClear (bufOf w' a)}
           else vs_state w' = vs_state w1 \<and> ap_session w' = ap_session w1 \<and> wd_heap w' = wd_heap w1))"
proof (cases "del (js ''/api/account/sessions/'' @ ds_id target) None w")
  case (Pair r w1)
  let ?p = "w1\<lparr> sp_sessions := filter (\<lambda>s. ds_id s \<noteq> ds_id target) (sp_sessions w1) \<rparr>"
  let ?l = "handleLock ?p"
  have held: "held (ap_session w1) \<subseteq> {a. isClear (bufOf ?l a)}"
    using lock_buf(1) [of _ "clearStore ?p"] by (auto simp: handleLock_def clearStore_def)
  have locked: "\<not> isUnlocked (ap_session ?l)" "getAccessToken (ap_session ?l) = None"
    by (simp_all add: handleLock_def lock_session)
  show ?thesis
    using held locked Pair
    by (cases r) (simp_all add: handleRevoke_def handleRevokeSession_def revokeSession_def andThen_def tryCatch_def
        setSettings_def ret_def)
qed

end
