(* ===== verification/RecoverFlow.thy ===== *)
theory RecoverFlow
  imports Account Store Failures
begin

text \<open>
  The recovery screen and its controller (\<^verbatim>\<open>apps/web/src/ui/useRecoverScreen.ts\<close> and
  \<^verbatim>\<open>screens/RecoverScreen.tsx\<close>). The controller's one reference, the open recovery with its
  two key buffers, is a field of the world, as is whether the app shows the screen.

  Shown: setting the new password clears the recovery's keys and signs in with the same user key,
  and once the rotation was sent nothing keeps the new code from the user; a redemption still in
  flight when the screen is left puts its keys in the reference afterwards, where locking the
  vault does not reach them.
\<close>

section \<open>The controller\<close>

record 's recovering = "'s shop" +
  rc_recovery :: "RecoverySession option"
  rc_recovering :: bool

type_synonym ('s, 'z, 'a) recoverprog = "('s, 'z) recovering_scheme \<Rightarrow> 'a result \<times> ('s, 'z) recovering_scheme"
type_synonym ('s, 'z, 'r) recovercall = "('s, 'z recovering_ext shop_ext, 'r) call"

record RecoveryHandoff = RecoveryOutcome +
  rh_signedIn :: bool

definition discard :: "('s, 'z) recovering_scheme \<Rightarrow> ('s, 'z) recovering_scheme" where
  "discard w =
     (case rc_recovery w of None \<Rightarrow> w | Some r \<Rightarrow> destroyRecovery r w)\<lparr> rc_recovery := None \<rparr>"

text \<open>
  \<^verbatim>\<open>onRedeemCode\<close> in the two pieces its \<^verbatim>\<open>await\<close> makes of it, and as the whole it is when
  nothing happens in between.
\<close>

definition redemptionArrives ::
  "platform \<Rightarrow> ('s, 'z, RecoverPreloginResponse) recovercall \<Rightarrow> ('s, 'z, RecoverResponse) recovercall \<Rightarrow> jstr \<Rightarrow> jstr \<Rightarrow>
   ('s, 'z, unit) recoverprog" where
  "redemptionArrives pf postPrelogin postRecover email recoveryCode =
     andThen (recoverAccount pf postPrelogin postRecover email recoveryCode) (\<lambda>r w. (Inr (), w\<lparr> rc_recovery := Some r \<rparr>))"

definition onRedeemCode ::
  "platform \<Rightarrow> ('s, 'z, RecoverPreloginResponse) recovercall \<Rightarrow> ('s, 'z, RecoverResponse) recovercall \<Rightarrow> jstr \<Rightarrow> jstr \<Rightarrow>
   ('s, 'z, unit) recoverprog" where
  "onRedeemCode pf postPrelogin postRecover email recoveryCode w =
     redemptionArrives pf postPrelogin postRecover email recoveryCode (discard w)"

text \<open>The sign-in that follows a rotation: whatever it throws is only a flag.\<close>

definition signInAfter ::
  "platform \<Rightarrow> ('s, 'z, PreloginResponse) recovercall \<Rightarrow> ('s, 'z, LoginResponse) recovercall \<Rightarrow>
   ('s, 'z, SyncResponse) recovercall \<Rightarrow> (jstr \<Rightarrow> ('s, 'z, unit) recoverprog) \<Rightarrow> jstr \<Rightarrow> jstr \<Rightarrow> jstr \<Rightarrow>
   ('s, 'z, bool) recoverprog" where
  "signInAfter pf postPrelogin postLogin get rememberEmail deviceLabel email newMasterPassword =
     tryCatch
       (andThen (unlock pf postPrelogin postLogin rememberEmail email newMasterPassword deviceLabel) (\<lambda>u.
        andThen (load pf get) (\<lambda>u. ret True)))
       (\<lambda>e. ret False)"

definition onSetNewPassword ::
  "platform \<Rightarrow> ('s, 'z, 'r) recovercall \<Rightarrow> ('s, 'z, PreloginResponse) recovercall \<Rightarrow> ('s, 'z, LoginResponse) recovercall \<Rightarrow>
   ('s, 'z, SyncResponse) recovercall \<Rightarrow> (jstr \<Rightarrow> ('s, 'z, unit) recoverprog) \<Rightarrow> jstr \<Rightarrow> jstr \<Rightarrow>
   ('s, 'z, RecoveryHandoff) recoverprog" where
  "onSetNewPassword pf postComplete postPrelogin postLogin get rememberEmail deviceLabel newMasterPassword w =
     (case rc_recovery w of
        None \<Rightarrow> throw (JsError (js ''There is no recovery in progress'')) w
      | Some pending \<Rightarrow>
          andThen (completeRecovery pf postComplete pending newMasterPassword) (\<lambda>outcome w1.
            andThen (signInAfter pf postPrelogin postLogin get rememberEmail deviceLabel (rs_email pending) newMasterPassword)
              (\<lambda>signedIn. ret (RecoveryOutcome.extend outcome (RecoveryHandoff.fields signedIn)))
              (discard w1)) w)"

definition leave :: "('s, 'z) recovering_scheme \<Rightarrow> ('s, 'z) recovering_scheme" where
  "leave w = (discard w)\<lparr> rc_recovering := False \<rparr>"

section \<open>The screen\<close>

record RecoverForm =
  ro_email :: jstr
  ro_code :: jstr
  ro_redeemed :: bool
  ro_newPassword :: jstr
  ro_confirm :: jstr
  ro_newCode :: "jstr option"
  ro_wasConfirmed :: bool
  ro_signedIn :: bool
  ro_acknowledged :: bool
  ro_error :: "jstr option"

definition submitCode ::
  "platform \<Rightarrow> ('s, 'z, RecoverPreloginResponse) recovercall \<Rightarrow> ('s, 'z, RecoverResponse) recovercall \<Rightarrow> RecoverForm \<Rightarrow>
   ('s, 'z, RecoverForm) recoverprog" where
  "submitCode pf postPrelogin postRecover form =
     tryCatch
       (andThen (onRedeemCode pf postPrelogin postRecover (ro_email form) (ro_code form)) (\<lambda>u.
          ret (form\<lparr> ro_error := None, ro_redeemed := True, ro_code := [] \<rparr>)))
       (\<lambda>failure. ret (form\<lparr> ro_error := Some (describeRedemptionFailure failure) \<rparr>))"

definition submitNewPassword :: "(jstr \<Rightarrow> ('s, 'z, RecoveryHandoff) recoverprog) \<Rightarrow> RecoverForm \<Rightarrow> ('s, 'z, RecoverForm) recoverprog" where
  "submitNewPassword setNewPassword form =
     (if ro_newPassword form \<noteq> ro_confirm form then
        ret (form\<lparr> ro_error := Some (js ''The new password and confirmation do not match'') \<rparr>)
      else
        tryCatch
          (andThen (setNewPassword (ro_newPassword form)) (\<lambda>outcome.
             ret (form\<lparr> ro_error := None, ro_newCode := Some (ro_recoveryCode outcome), ro_wasConfirmed := ro_confirmed outcome,
               ro_signedIn := rh_signedIn outcome, ro_newPassword := [], ro_confirm := [] \<rparr>)))
          (\<lambda>failure. ret (form\<lparr> ro_error := Some (describeFailure failure (js ''Could not set the new master password'')) \<rparr>)))"

datatype CodeNotice = NotConfirmed | NotSignedIn | OldCodeGone | SaveThisOne

datatype RecoverStep = SaveCode jstr "CodeNotice list" | SetPassword | EnterCode

text \<open>What is rendered: the code beside the notices that go with it, or one of the two forms.\<close>

definition codeNotices :: "RecoverForm \<Rightarrow> CodeNotice list" where
  "codeNotices form =
     (if \<not> ro_wasConfirmed form then [NotConfirmed] else []) @
     (if ro_wasConfirmed form \<and> \<not> ro_signedIn form then [NotSignedIn] else []) @
     (if ro_wasConfirmed form then [OldCodeGone] else []) @ [SaveThisOne]"

definition recoverStep :: "RecoverForm \<Rightarrow> RecoverStep" where
  "recoverStep form =
     (case ro_newCode form of
        Some code \<Rightarrow> SaveCode code (codeNotices form)
      | None \<Rightarrow> if ro_redeemed form then SetPassword else EnterCode)"

definition continueToVault :: "RecoverForm \<Rightarrow> ('s, 'z, RecoverForm) recoverprog" where
  "continueToVault form w =
     (if ro_acknowledged form
      then (Inr (form\<lparr> ro_newCode := None, ro_wasConfirmed := True, ro_signedIn := True, ro_acknowledged := False \<rparr>), leave w)
      else (Inr form, w))"

section \<open>Clearing\<close>

lemma bufOf_recovering [simp]:
  "bufOf (w\<lparr> rc_recovery := r \<rparr>) a = bufOf w a" "bufOf (w\<lparr> rc_recovering := b \<rparr>) a = bufOf w a"
  by (simp_all add: bufOf_def)

lemma destroy_heap: "destroyRecovery r w = w\<lparr> wd_heap := wd_heap (destroyRecovery r w) \<rparr>"
  unfolding destroyRecovery_def by (rule zeroize_heap)

lemma destroy_local [simp]:
  "rc_recovering (destroyRecovery r w) = rc_recovering w" "ap_session (destroyRecovery r v) = ap_session v"
  "sv_server (destroyRecovery r v) = sv_server v" "length (wd_heap (destroyRecovery r v)) = length (wd_heap v)"
     apply (subst destroy_heap, simp)
    apply (subst destroy_heap, simp)
   apply (subst destroy_heap, simp)
  by (simp add: destroyRecovery_def)

lemma destroy_clears:
  "isClear (bufOf (destroyRecovery r w) (rs_userKey r))" "isClear (bufOf (destroyRecovery r w) (rs_privateKey r))"
  unfolding destroyRecovery_def by (rule zeroize_clears, simp)+

lemma discard_state [simp]:
  "rc_recovery (discard w) = None" "rc_recovering (discard w) = rc_recovering w" "ap_session (discard w) = ap_session w"
  "sv_server (discard w) = sv_server w" "length (wd_heap (discard w)) = length (wd_heap w)"
  by (simp_all add: discard_def split: option.split)

lemma discard_clears:
  assumes "rc_recovery w = Some r"
  shows "isClear (bufOf (discard w) (rs_userKey r))" "isClear (bufOf (discard w) (rs_privateKey r))"
  using assms destroy_clears [of r w] by (simp_all add: discard_def)

lemma keysExist_grows:
  "keysExist w \<Longrightarrow> ap_session w' = ap_session w \<Longrightarrow> length (wd_heap w) \<le> length (wd_heap w') \<Longrightarrow> keysExist w'"
  unfolding keysExist_def by fastforce

lemma signInAfter_run:
  "signInAfter pf postPrelogin postLogin get rememberEmail label email pw v =
    (case andThen (unlock pf postPrelogin postLogin rememberEmail email pw label) (\<lambda>u. load pf get) v of
       (r, w') \<Rightarrow> (Inr (\<not> isl r), w'))"
  by (simp add: signInAfter_def tryCatch_def andThen_def ret_def split: prod.split sum.split)

text \<open>
  C34. A finished recovery leads into the vault. When the server accepted the rotation or did not
  answer, setting the new password clears both key buffers of the recovery and empties the
  reference, then signs in. It hands over the new code whatever the prelogin, the login, the fetch
  of the vault and the store of the address do, failures of each included: how they end is only the
  flag beside the code. On a server that holds what was posted, unlocking with the new password
  succeeds, and the session then holds the same user key and private key.
\<close>

theorem recovery_signs_in:
  fixes w :: "(json option list, 'z) recovering_scheme"
  assumes laws: "gcmLaw pf" "kdfLaws pf" "argonLaw pf"
    and inputs: "pw \<noteq> []" "rs_userKey pending < length (wd_heap w)"
    and pending: "rc_recovery w = Some pending" "opens pf encrypted (bufOf w (rs_userKey pending)) private"
    and answer: "case answer (length (sv_server w)) of Inl e \<Rightarrow> \<not> refused e | Inr x \<Rightarrow> True"
  shows "\<exists>b code w1. let confirmed = \<not> isl (answer (length (sv_server w))) in
    completeRecovery pf (loggingPost answer) pending pw w = (Inr \<lparr> ro_recoveryCode = code, ro_confirmed = confirmed \<rparr>, w1) \<and>
    sv_server w1 = sv_server w @ [Some b] \<and>
    rc_recovery (discard w1) = None \<and>
    isClear (bufOf (discard w1) (rs_userKey pending)) \<and> isClear (bufOf (discard w1) (rs_privateKey pending)) \<and>
    (\<forall>postPrelogin postLogin get rememberEmail label.
      onSetNewPassword pf (loggingPost answer) postPrelogin postLogin get rememberEmail label pw w =
      (case andThen (unlock pf postPrelogin postLogin rememberEmail (rs_email pending) pw label) (\<lambda>u. load pf get) (discard w1) of
         (r, w') \<Rightarrow> (Inr \<lparr> ro_recoveryCode = code, ro_confirmed = confirmed, rh_signedIn = \<not> isl r \<rparr>, w'))) \<and>
    (\<forall>tokens user rememberEmail label. keysExist w \<longrightarrow> quiet (rememberEmail (rs_email pending)) \<longrightarrow>
      (\<exists>wu. unlock pf (servedPrelogin b) (servedLogin b encrypted tokens user) rememberEmail (rs_email pending) pw label
           (discard w1) = (Inr (), wu) \<and>
         sessionHolds wu user (bufOf w (rs_userKey pending)) private))"
proof -
  from completeRecovery_run [OF laws inputs(1,2), of answer] obtain b code w1 salt mk where
    c: "completeRecovery pf (loggingPost answer) pending pw w =
       (case answer (length (sv_server w)) of
          Inr x \<Rightarrow> Inr \<lparr> ro_recoveryCode = code, ro_confirmed = True \<rparr>
        | Inl e \<Rightarrow> if refused e then Inl e else Inr \<lparr> ro_recoveryCode = code, ro_confirmed = False \<rparr>, w1)"
    "sv_server w1 = sv_server w @ [Some b]" "passwordFields pf b pw salt mk (bufOf w (rs_userKey pending))"
    "recoveryFields pf b code (bufOf w (rs_userKey pending))" "tidy w w1 {}" "ap_session w1 = ap_session w"
    "served.more w1 = served.more w" .
  let ?confirmed = "\<not> isl (answer (length (sv_server w)))"
  have kept: "rc_recovery w1 = Some pending" using c(7) pending(1) by (cases w; cases w1) simp
  have run: "completeRecovery pf (loggingPost answer) pending pw w =
      (Inr \<lparr> ro_recoveryCode = code, ro_confirmed = ?confirmed \<rparr>, w1)"
    using answer unfolding c(1) by (cases "answer (length (sv_server w))") simp_all
  have keys: "keysExist (discard w1)" if "keysExist w"
  proof (rule keysExist_grows [OF that])
    show "ap_session (discard w1) = ap_session w" using c(6) by simp
    show "length (wd_heap w) \<le> length (wd_heap (discard w1))" using c(5) unfolding tidy_def by simp
  qed
  have reported: "onSetNewPassword pf (loggingPost answer) postPrelogin postLogin get rememberEmail label pw w =
      (case andThen (unlock pf postPrelogin postLogin rememberEmail (rs_email pending) pw label) (\<lambda>u. load pf get) (discard w1) of
         (r, w') \<Rightarrow> (Inr \<lparr> ro_recoveryCode = code, ro_confirmed = ?confirmed, rh_signedIn = \<not> isl r \<rparr>, w'))"
    for postPrelogin postLogin get rememberEmail label
    by (simp add: onSetNewPassword_def pending(1) andThen_def [of "completeRecovery _ _ _ _"] run
        andThen_def [of "signInAfter _ _ _ _ _ _ _ _"] signInAfter_run ret_def
        RecoveryOutcome.extend_def RecoveryHandoff.fields_def split: prod.split)
  note opened = unlock_served [OF laws(2) c(3) pending(2) keys]
  show ?thesis
    unfolding Let_def using run c(2) reported opened discard_clears [OF kept]
    by (intro exI [of _ b] exI [of _ code] exI [of _ w1]) auto
qed

section \<open>Leaving while a redemption is in flight\<close>

lemma live_not_held:
  assumes "keysExist w" "ap_session w' = ap_session w" "length (wd_heap w) \<le> a"
  shows "bufOf (lock w') a = bufOf w' a"
  using assms lock_buf(2) [of a w'] unfolding keysExist_def by fastforce

lemma leave_state [simp]:
  "ap_session (leave w) = ap_session w" "length (wd_heap (leave w)) = length (wd_heap w)" "\<not> rc_recovering (leave w)"
  "rc_recovery (leave w) = None"
  by (simp_all add: leave_def)

lemma recovering_more: "world.more w' = world.more (w :: ('s, 'z) recovering_scheme) \<Longrightarrow> rc_recovering w' = rc_recovering w"
  by (cases w; cases w') simp

text \<open>
  C35. Leaving the recovery screen while the code is still being redeemed keeps the keys. The
  screen is gone and the reference was cleared, and then the answer arrives: the reference holds
  the account's user key and private key, live, with no recovery screen shown, and locking the
  vault leaves both as they are. Nothing clears them until the screen is opened again, where leaving
  it or another recovery would.
\<close>
theorem left_recovery_keeps_keys:
  assumes "kdfLaws pf" "recoveryFields pf b code uk" "opens pf encrypted uk pk" "keysExist w"
    and "normalizeCrockford typed = normalizeCrockford code"
  shows "\<exists>rs w'.
    redemptionArrives pf (servedRecoverPrelogin b) (servedRecover b encrypted token) email typed (leave (discard w)) = (Inr (), w') \<and>
    \<not> rc_recovering w' \<and> rc_recovery w' = Some rs \<and>
    bufOf (lock w') (rs_userKey rs) = uk \<and> bufOf (lock w') (rs_privateKey rs) = pk \<and>
    isClear (bufOf (leave w') (rs_userKey rs)) \<and> isClear (bufOf (leave w') (rs_privateKey rs))"
proof -
  let ?v = "leave (discard w)"
  from recover_served [OF assms(1-3,5)] obtain rs w1 where
    run: "recoverAccount pf (servedRecoverPrelogin b) (servedRecover b encrypted token) email typed ?v = (Inr rs, w1)"
      "bufOf w1 (rs_userKey rs) = uk" "bufOf w1 (rs_privateKey rs) = pk"
      "length (wd_heap ?v) \<le> rs_userKey rs" "length (wd_heap ?v) \<le> rs_privateKey rs" "world.more w1 = world.more ?v" by blast
  define w2 where "w2 = w1\<lparr> rc_recovery := Some rs \<rparr>"
  have s: "ap_session w2 = ap_session ?v" using same_session(1) [OF run(6)] by (simp add: w2_def)
  have "rc_recovering w1 = rc_recovering ?v" by (rule recovering_more [OF run(6)])
  then have shown: "\<not> rc_recovering w2" "rc_recovery w2 = Some rs" by (simp_all add: w2_def)
  have k: "keysExist ?v" using assms(4) by (simp add: keysExist_def)
  have "bufOf (lock w2) (rs_userKey rs) = uk" "bufOf (lock w2) (rs_privateKey rs) = pk"
    using live_not_held [OF k s run(4)] live_not_held [OF k s run(5)] run(2,3) by (simp_all add: w2_def)
  moreover have "isClear (bufOf (leave w2) (rs_userKey rs))" "isClear (bufOf (leave w2) (rs_privateKey rs))"
    using discard_clears [OF shown(2)] by (simp_all add: leave_def)
  moreover have "redemptionArrives pf (servedRecoverPrelogin b) (servedRecover b encrypted token) email typed ?v = (Inr (), w2)"
    by (simp add: redemptionArrives_def andThen_def run(1) w2_def)
  ultimately show ?thesis using shown by blast
qed

section \<open>The theorems on a concrete recovery\<close>

definition sampleRecovering :: "json option list recovering" where
  "sampleRecovering =
     \<lparr> wd_random = (\<lambda>i. 0), wd_heap = [replicate 32 7], sv_server = [], ap_session = createSession, vs_state = EMPTY,
       vs_listeners = [], vs_notified = [], rc_recovery = Some sampleRecovery, rc_recovering = True \<rparr>"

lemma sampleRecovering_ready:
  "rs_userKey sampleRecovery < length (wd_heap sampleRecovering)" "keysExist sampleRecovering" "js ''pw'' \<noteq> []"
  "rc_recovery sampleRecovering = Some sampleRecovery" "bufOf sampleRecovering (rs_userKey sampleRecovery) = replicate 32 7"
  "opens samplePlatform (wrapText samplePlatform [9] (replicate 32 7) (replicate 12 0))
     (bufOf sampleRecovering (rs_userKey sampleRecovery)) [9]"
proof -
  show b: "bufOf sampleRecovering (rs_userKey sampleRecovery) = replicate 32 7"
    by (simp add: bufOf_def sampleRecovering_def sampleRecovery_def)
  show "opens samplePlatform (wrapText samplePlatform [9] (replicate 32 7) (replicate 12 0))
     (bufOf sampleRecovering (rs_userKey sampleRecovery)) [9]"
    unfolding b by (rule opens_wrapText [OF sample_laws(1)]) simp_all
qed (simp_all add: sampleRecovering_def sampleRecovery_def keysExist_def held_def heldKeys_def createSession_def js_simps)

theorem recovery_signs_in_witness:
  "\<exists>b code w'.
    (\<exists>w''. onSetNewPassword samplePlatform (loggingPost (\<lambda>n. Inl NetworkError :: unit result))
      (\<lambda>path body w. (Inl NetworkError, w)) (\<lambda>path body w. (Inl NetworkError, w)) (\<lambda>path body w. (Inl NetworkError, w))
      (\<lambda>e w. (Inl (JsError []), w)) [] (js ''pw'') sampleRecovering =
      (Inr \<lparr> ro_recoveryCode = code, ro_confirmed = False, rh_signedIn = False \<rparr>, w'')) \<and>
    unlock samplePlatform (servedPrelogin b)
      (servedLogin b (wrapText samplePlatform [9] (replicate 32 7) (replicate 12 0)) \<lparr> st_accessToken = [], st_refreshToken = [] \<rparr>
        \<lparr> su_id = [], su_email = [], su_name = [], su_role = [] \<rparr>)
      (\<lambda>e w. (Inr (), w)) (rs_email sampleRecovery) (js ''pw'') []
      (discard (snd (completeRecovery samplePlatform (loggingPost (\<lambda>n. Inl NetworkError :: unit result)) sampleRecovery
        (js ''pw'') sampleRecovering))) = (Inr (), w') \<and>
    sessionHolds w' \<lparr> su_id = [], su_email = [], su_name = [], su_role = [] \<rparr> (replicate 32 7) [9]"
proof -
  have q: "quiet ((\<lambda>e w. (Inr (), w)) (rs_email sampleRecovery))" by (simp add: quiet_def)
  have a: "case (\<lambda>n. Inl NetworkError :: unit result) (length (sv_server sampleRecovering)) of
      Inl e \<Rightarrow> \<not> refused e | Inr x \<Rightarrow> True" by (simp add: refused_def)
  have l: "andThen (unlock samplePlatform (\<lambda>path body w. (Inl NetworkError, w)) postLogin rememberEmail email pw label) f v =
      (Inl NetworkError, v)" for postLogin rememberEmail email pw label f and v :: "json option list recovering"
    by (simp add: andThen_def unlock_def)
  from recovery_signs_in [where answer = "\<lambda>n. Inl NetworkError :: unit result",
      OF sample_laws(1,2) sample_argon sampleRecovering_ready(3,1,4,6) a] obtain b code w1 where
    run: "completeRecovery samplePlatform (loggingPost (\<lambda>n. Inl NetworkError :: unit result)) sampleRecovery (js ''pw'')
        sampleRecovering = (Inr \<lparr> ro_recoveryCode = code, ro_confirmed = \<not> isl (Inl NetworkError :: unit result) \<rparr>, w1)" and
    reported: "\<forall>postPrelogin postLogin get rememberEmail label.
      onSetNewPassword samplePlatform (loggingPost (\<lambda>n. Inl NetworkError :: unit result)) postPrelogin postLogin get
        rememberEmail label (js ''pw'') sampleRecovering =
      (case andThen (unlock samplePlatform postPrelogin postLogin rememberEmail (rs_email sampleRecovery) (js ''pw'') label)
          (\<lambda>u. load samplePlatform get) (discard w1) of
         (r, w') \<Rightarrow> (Inr \<lparr> ro_recoveryCode = code, ro_confirmed = \<not> isl (Inl NetworkError :: unit result),
           rh_signedIn = \<not> isl r \<rparr>, w'))" and
    opened: "\<forall>tokens user rememberEmail label. keysExist sampleRecovering \<longrightarrow>
      quiet (rememberEmail (rs_email sampleRecovery)) \<longrightarrow>
      (\<exists>wu. unlock samplePlatform (servedPrelogin b)
           (servedLogin b (wrapText samplePlatform [9] (replicate 32 7) (replicate 12 0)) tokens user)
           rememberEmail (rs_email sampleRecovery) (js ''pw'') label (discard w1) = (Inr (), wu) \<and>
         sessionHolds wu user (replicate 32 7) [9])"
    unfolding Let_def sampleRecovering_ready(5) by blast
  show ?thesis
    using spec [OF reported, of "\<lambda>path body w. (Inl NetworkError, w)"] sampleRecovering_ready(2)
      opened [rule_format, of "\<lambda>e w. (Inr (), w)" "\<lparr> st_accessToken = [], st_refreshToken = [] \<rparr>"
        "\<lparr> su_id = [], su_email = [], su_name = [], su_role = [] \<rparr>" "[]", OF _ q]
    unfolding run snd_conv l by auto
qed

theorem left_recovery_keeps_keys_witness:
  "\<exists>b code rs w'.
    redemptionArrives samplePlatform (servedRecoverPrelogin b)
      (servedRecover b (wrapText samplePlatform [9] (replicate 32 7) (replicate 12 0)) []) (js ''me'') code
      (leave (discard sampleRecovering)) = (Inr (), w') \<and> rc_recovery w' = Some rs \<and> \<not> rc_recovering w' \<and>
    bufOf (lock w') (rs_userKey rs) = replicate 32 7 \<and> bufOf (lock w') (rs_privateKey rs) = [9]"
proof -
  note sample = sampleRecovering_ready(6) [unfolded sampleRecovering_ready(5)]
  from completeRecovery_run [OF sample_laws(1,2) sample_argon sampleRecovering_ready(3,1), of "\<lambda>n. Inr ()"]
  obtain b code where "recoveryFields samplePlatform b code (replicate 32 7)"
    unfolding sampleRecovering_ready(5) by metis
  from left_recovery_keeps_keys [OF sample_laws(2) this sample sampleRecovering_ready(2) refl] show ?thesis by blast
qed

end
