(* ===== verification/AppShell.thy ===== *)
theory AppShell
  imports Uri AutoLock Settings RecoverFlow
begin

text \<open>
  The application itself (\<^verbatim>\<open>apps/web/src/ui/App.tsx\<close>), with the two forms it shows before there
  is a vault (\<^verbatim>\<open>screens/UnlockScreen.tsx\<close>, \<^verbatim>\<open>screens/EnrolScreen.tsx\<close>): the API client is
  instantiated with the refresh callback the app gives it, so that a request, the refresh, the
  retry and the lock are one program.

  Shown: every request asks for a refresh at most once, and when the refresh fails the vault is
  emptied and every key it held is zero; the token in an invite link survives the address bar.
\<close>

section \<open>The address bar\<close>

definition inviteTokenFromPath :: "jstr \<Rightarrow> jstr option result" where
  "inviteTokenFromPath pathname =
     (case filter (\<lambda>part. part \<noteq> []) (split pathname (js ''/'')) of
        [first, token] \<Rightarrow>
          if first \<noteq> js ''enroll'' then Inr None else bindR (decodeURIComponent token) (\<lambda>decoded. Inr (Some decoded))
      | _ \<Rightarrow> Inr None)"

section \<open>State\<close>

record 's shell = "'s recovering" +
  sh_refreshFailed :: bool
  sh_enrolled :: bool
  sh_path :: jstr
  sh_storage :: LocalStorage

type_synonym ('s, 'z) shellworld = "('s, 'z) shell_scheme"
type_synonym ('s, 'z, 'a) shellprog = "('s, 'z) shell_scheme \<Rightarrow> 'a result \<times> ('s, 'z) shell_scheme"
type_synonym ('s, 'z, 'r) shellcall = "('s, 'z shell_ext recovering_ext shop_ext, 'r) call"

definition DEVICE_LABEL :: jstr where
  "DEVICE_LABEL = js ''Web''"

text \<open>\<^verbatim>\<open>prefs.rememberEmail\<close>, on the storage of this browser.\<close>

definition rememberHere :: "jstr \<Rightarrow> ('s, 'z, unit) shellprog" where
  "rememberHere email w =
     (case rememberEmail setItem email (sh_storage w) of (r, storage) \<Rightarrow> (r, w\<lparr> sh_storage := storage \<rparr>))"

definition onLock :: "('s, 'z) shell_scheme \<Rightarrow> ('s, 'z) shell_scheme" where
  "onLock w = lock (clearStore w)"

section \<open>Refreshing\<close>

definition refreshRequest :: "jstr \<Rightarrow> Request" where
  "refreshRequest refreshToken =
     \<lparr> rq_method = js ''POST'', rq_path = js ''/api/auth/refresh'', rq_authorization = None,
       rq_body = Some (stringify (jsObj [(''refreshToken'', JStr refreshToken)])) \<rparr>"

text \<open>The pair of tokens is what the source casts the body to.\<close>

definition refreshedTokens :: "Response option \<Rightarrow> SessionTokens result" where
  "refreshedTokens answer =
     (case answer of
        None \<Rightarrow> Inl TypeError
      | Some response \<Rightarrow>
          if \<not> rp_ok response then Inl (JsError (js ''refresh failed''))
          else case rp_text response of
              None \<Rightarrow> Inl TypeError
            | Some text \<Rightarrow>
                (case jsonParse text of
                   None \<Rightarrow> Inl SyntaxError
                 | Some body \<Rightarrow>
                     Inr \<lparr> st_accessToken = textField body ''accessToken'', st_refreshToken = textField body ''refreshToken'' \<rparr>))"

type_synonym ('s, 'z) shellfetch = "('s, 'z shell_ext recovering_ext shop_ext app_ext) fetch"

text \<open>
  The two pieces that the \<^verbatim>\<open>await\<close>s make of the callback: the request, with the token read when
  it starts, and what is done with the answer.
\<close>

definition refreshStarts :: "('s, 'z) shell_scheme \<Rightarrow> Request option" where
  "refreshStarts w = map_option refreshRequest (getRefreshToken (ap_session w))"

definition refreshSettles :: "Response option \<Rightarrow> ('s, 'z) shell_scheme \<Rightarrow> bool \<times> ('s, 'z) shell_scheme" where
  "refreshSettles answer w =
     (case refreshedTokens answer of
        Inr tokens \<Rightarrow> (True, replaceTokens tokens w)
      | Inl e \<Rightarrow> (False, onLock (w\<lparr> sh_refreshFailed := True \<rparr>)))"

definition onUnauthorized :: "('s, 'z) shellfetch \<Rightarrow> ('s, 'z) shell_scheme \<Rightarrow> bool \<times> ('s, 'z) shell_scheme" where
  "onUnauthorized fetch w =
     (case refreshStarts w of
        None \<Rightarrow> (False, w)
      | Some request \<Rightarrow> (case fetch request w of (answer, w1) \<Rightarrow> refreshSettles answer w1))"

definition apiOptions :: "('s, 'z) shellfetch \<Rightarrow> ('s, 'z shell_ext recovering_ext shop_ext app_ext) ApiClientOptions" where
  "apiOptions fetch =
     \<lparr> op_baseUrl = [], op_getAccessToken = (\<lambda>w. getAccessToken (ap_session w)), op_onUnauthorized = onUnauthorized fetch,
       op_fetch = fetch \<rparr>"

section \<open>Handlers\<close>

definition handleUnlock ::
  "platform \<Rightarrow> ('s, 'z, PreloginResponse) shellcall \<Rightarrow> ('s, 'z, LoginResponse) shellcall \<Rightarrow> ('s, 'z, SyncResponse) shellcall \<Rightarrow>
   jstr \<Rightarrow> jstr \<Rightarrow> ('s, 'z, unit) shellprog" where
  "handleUnlock pf postPrelogin postLogin get email masterPassword w =
     andThen (unlock pf postPrelogin postLogin rememberHere email masterPassword DEVICE_LABEL) (\<lambda>u. load pf get)
       (w\<lparr> sh_refreshFailed := False \<rparr>)"

definition handleEnrol ::
  "platform \<Rightarrow> ('s, 'z, 'r) shellcall \<Rightarrow> ('s, 'z, LoginResponse) shellcall \<Rightarrow> ('s, 'z, SyncResponse) shellcall \<Rightarrow>
   jstr \<Rightarrow> jstr \<Rightarrow> jstr \<Rightarrow> ('s, 'z, EnrolmentOutcome) shellprog" where
  "handleEnrol pf postEnroll postLogin get inviteToken email masterPassword =
     andThen (enroll pf postEnroll postLogin rememberHere inviteToken email masterPassword DEVICE_LABEL) (\<lambda>outcome.
     andThen (if eo_loggedIn outcome then tryCatch (load pf get) (\<lambda>e. ret ()) else ret ()) (\<lambda>u. ret outcome))"

definition onFinishEnrol :: "('s, 'z) shell_scheme \<Rightarrow> ('s, 'z) shell_scheme" where
  "onFinishEnrol w = w\<lparr> sh_path := js ''/'', sh_enrolled := True \<rparr>"

definition onForgotPassword :: "('s, 'z) shell_scheme \<Rightarrow> ('s, 'z) shell_scheme" where
  "onForgotPassword w = w\<lparr> rc_recovering := True \<rparr>"

text \<open>What the components see of the session (\<^verbatim>\<open>useVault.ts\<close>).\<close>

definition useSession :: "Session \<Rightarrow> bool \<times> SessionUser option" where
  "useSession session = (isUnlocked session, if isUnlocked session then se_user session else None)"

text \<open>The effect that keeps an idle timer while the vault is open, under the setting of the moment.\<close>

definition autoLockEffect :: "AutoLockSetting \<Rightarrow> int \<Rightarrow> ('s, 'z) shell_scheme \<Rightarrow> AutoLock option" where
  "autoLockEffect autoLock now w = (if isUnlocked (ap_session w) then Some (startAutoLock autoLock now) else None)"

datatype Screen = InsecureScreen | EnrolScreen jstr | RecoverScreen | UnlockScreen bool | VaultScreen

definition screenOf :: "bool \<Rightarrow> bool \<Rightarrow> jstr option \<Rightarrow> ('s, 'z) shell_scheme \<Rightarrow> Screen" where
  "screenOf isSecureContext subtle inviteToken w =
     (if \<not> isSecureContext \<or> \<not> subtle then InsecureScreen
      else case (inviteToken, sh_enrolled w) of
          (Some token, False) \<Rightarrow> EnrolScreen token
        | _ \<Rightarrow>
            if rc_recovering w then RecoverScreen
            else if \<not> isUnlocked (ap_session w) then UnlockScreen (sh_refreshFailed w)
            else VaultScreen)"

section \<open>The forms\<close>

record UnlockForm =
  uf_email :: jstr
  uf_masterPassword :: jstr
  uf_error :: "jstr option"

definition submitUnlock ::
  "(exn \<Rightarrow> jstr) \<Rightarrow> (jstr \<Rightarrow> jstr \<Rightarrow> ('s, 'z, unit) shellprog) \<Rightarrow> UnlockForm \<Rightarrow> ('s, 'z, UnlockForm) shellprog" where
  "submitUnlock engine onUnlock form =
     tryCatch
       (andThen (onUnlock (uf_email form) (uf_masterPassword form)) (\<lambda>u.
          ret (form\<lparr> uf_error := None, uf_masterPassword := [] \<rparr>)))
       (\<lambda>failure. ret (form\<lparr> uf_error := Some (unlockErrorMessage engine failure), uf_masterPassword := [] \<rparr>))"

record EnrolForm =
  ef_email :: jstr
  ef_masterPassword :: jstr
  ef_confirm :: jstr
  ef_recoveryCode :: "jstr option"
  ef_acknowledged :: bool
  ef_error :: "jstr option"

definition submitEnrol ::
  "(exn \<Rightarrow> jstr) \<Rightarrow> (jstr \<Rightarrow> jstr \<Rightarrow> ('s, 'z, EnrolmentOutcome) shellprog) \<Rightarrow> EnrolForm \<Rightarrow> ('s, 'z, EnrolForm) shellprog" where
  "submitEnrol engine onEnrol form =
     (if ef_masterPassword form \<noteq> ef_confirm form then ret (form\<lparr> ef_error := Some (js ''The passwords do not match'') \<rparr>)
      else
        tryCatch
          (andThen (onEnrol (ef_email form) (ef_masterPassword form)) (\<lambda>outcome.
             ret (form\<lparr> ef_error := None, ef_recoveryCode := Some (eo_recoveryCode outcome) \<rparr>)))
          (\<lambda>failure. ret (form\<lparr> ef_error := Some (messageOf engine failure) \<rparr>)))"

definition continueEnrol :: "EnrolForm \<Rightarrow> ('s, 'z, EnrolForm) shellprog" where
  "continueEnrol form w =
     (if ef_acknowledged form then (Inr (form\<lparr> ef_recoveryCode := None \<rparr>), onFinishEnrol w) else (Inr form, w))"

section \<open>The link of an invite\<close>

lemma splitFrom_one: "47 \<notin> set s \<Longrightarrow> splitFrom [47] acc 0 s = [rev acc @ s]"
  by (induction s arbitrary: acc) (auto simp: startsWith_def)

lemma splitFrom_more: "47 \<notin> set s \<Longrightarrow> splitFrom [47] acc 0 (s @ 47 # t) = (rev acc @ s) # splitFrom [47] [] 0 t"
  by (induction s arbitrary: acc) (auto simp: startsWith_def)

lemma slash_parts:
  assumes "47 \<notin> set a" "47 \<notin> set b" "a \<noteq> []" "b \<noteq> []"
  shows "filter (\<lambda>part. part \<noteq> []) (split (47 # a @ 47 # b) [47]) = [a, b]"
    "filter (\<lambda>part. part \<noteq> []) (split (47 # a @ 47 # b @ [47]) [47]) = [a, b]"
  using assms splitFrom_more [OF assms(1), of "[]"] splitFrom_one [OF assms(2), of "[]"]
    splitFrom_more [OF assms(2), of "[]" "[]"]
  by (simp_all add: split_def startsWith_def)

text \<open>
  An invite link names its token: the path made of the percent-encoded token, with or without a
  closing slash, is read back as exactly that token.
\<close>
theorem invite_link_roundtrip:
  assumes "encodeURIComponent token = Inr part" "token \<noteq> []"
  shows "inviteTokenFromPath (js ''/enroll/'' @ part) = Inr (Some token) \<and>
    inviteTokenFromPath (js ''/enroll/'' @ part @ js ''/'') = Inr (Some token)"
proof -
  have "47 \<in> set (js ''/?#&='')" by code_simp
  then have part: "47 \<notin> set part" "part \<noteq> []"
    using encoded_no_separator [OF assms(1)] encoded_nonempty [OF assms] by blast+
  have enroll: "js ''/enroll/'' = 47 # js ''enroll'' @ [47]" "js ''/'' = [47]" "47 \<notin> set (js ''enroll'')" "js ''enroll'' \<noteq> []"
    by code_simp+
  show ?thesis
    using slash_parts [OF enroll(3) part(1) enroll(4) part(2)] uri_roundtrip [OF assms(1)]
    by (simp add: inviteTokenFromPath_def enroll(1,2) bindR_def)
qed

theorem invite_link_roundtrip_witness:
  "inviteTokenFromPath (js ''/enroll/a%2Fb'') = Inr (Some (js ''a/b'')) \<and>
   inviteTokenFromPath (js ''/enroll/a%2Fb/'') = Inr (Some (js ''a/b''))"
proof -
  have e: "encodeURIComponent (js ''a/b'') = Inr (js ''a%2Fb'')" "js ''a/b'' \<noteq> []" by code_simp+
  have p: "js ''/enroll/a%2Fb'' = js ''/enroll/'' @ js ''a%2Fb''" "js ''/enroll/a%2Fb/'' = js ''/enroll/'' @ js ''a%2Fb'' @ js ''/''"
    by code_simp+
  show ?thesis unfolding p by (rule invite_link_roundtrip [OF e])
qed

text \<open>A link whose token is not valid percent-encoding makes the application throw while it renders.\<close>

lemma malformed_link_throws: "inviteTokenFromPath (js ''/enroll/%'') = Inl URIError"
  by code_simp

section \<open>A request, its refresh and its retry\<close>

definition recordingFetch :: "(Request \<Rightarrow> Response option) \<Rightarrow> (Request list, 'z) fetch" where
  "recordingFetch answer request w = (answer request, w\<lparr> sv_server := sv_server w @ [request] \<rparr>)"

lemma onLock_state [simp]:
  "vs_state (onLock w) = EMPTY" "sh_refreshFailed (onLock w) = sh_refreshFailed w" "sv_server (onLock w) = sv_server w"
  "\<not> isUnlocked (ap_session (onLock w))"
proof -
  have l: "onLock w = handleLock w" by (simp add: onLock_def handleLock_def)
  have "vs_state (handleLock w) = EMPTY" "sh_refreshFailed (handleLock w) = sh_refreshFailed w" "sv_server (handleLock w) = sv_server w"
    by (subst handleLock_eq, simp add: clearStore_def)+
  moreover have "\<not> isUnlocked (ap_session (handleLock w))" by (simp add: handleLock_def lock_session)
  ultimately show "vs_state (onLock w) = EMPTY" "sh_refreshFailed (onLock w) = sh_refreshFailed w"
    "sv_server (onLock w) = sv_server w" "\<not> isUnlocked (ap_session (onLock w))" by (simp_all add: l)
qed

lemma onLock_clears: "held (ap_session w) \<subseteq> {a. isClear (bufOf (onLock w) a)}"
  using lock_buf(1) [of _ "clearStore w"] by (auto simp: onLock_def clearStore_def)

text \<open>What a caller gets of an answer, and the refusal that asks for a refresh.\<close>

definition received :: "Response option \<Rightarrow> json result" where
  "received answer = (case answer of None \<Rightarrow> Inl NetworkError | Some response \<Rightarrow> interpretResponse response)"

definition refusal :: "Response option \<Rightarrow> Session \<Rightarrow> (Response \<times> jstr) option" where
  "refusal answer s =
     (case (answer, getRefreshToken s) of
        (Some response, Some t) \<Rightarrow> if rp_status response = 401 then Some (response, t) else None
      | _ \<Rightarrow> None)"

text \<open>Nothing but the server saw the request.\<close>

definition onlySent :: "Request list \<Rightarrow> (Request list, 'z) shop_scheme \<Rightarrow> (Request list, 'z) shop_scheme \<Rightarrow> bool" where
  "onlySent requests w w' =
     (sv_server w' = sv_server w @ requests \<and> wd_heap w' = wd_heap w \<and> vs_state w' = vs_state w)"

lemma options_refresh [simp]: "op_onUnauthorized (apiOptions fetch) = onUnauthorized fetch"
  by (simp add: apiOptions_def)

lemma send_recorded:
  "apiSend (apiOptions (recordingFetch answer)) verb path body w =
     (let request = \<lparr> rq_method = verb, rq_path = path,
            rq_authorization = map_option (\<lambda>t. js ''Bearer '' @ t) (getAccessToken (ap_session w)),
            rq_body = map_option stringify body \<rparr> in
      (case answer request of None \<Rightarrow> Inl NetworkError | Some r \<Rightarrow> Inr r, w\<lparr> sv_server := sv_server w @ [request] \<rparr>))"
  by (simp add: apiSend_def apiOptions_def recordingFetch_def Let_def split: option.split)

text \<open>
  C32. One request of the application, with everything that may follow it. It is sent once, unless
  the server answers 401 and there is a refresh token: then that token is sent once, and either the
  request is sent again under the new pair, whose answer is final, with the keys untouched; or the
  refresh failed, and then nothing more is sent, the vault is emptied, the session is locked, every
  key it held is zero, and the user is told that the session expired.
\<close>
theorem request_refreshes_once:
  fixes w :: "(Request list, 'z) shell_scheme"
  shows "let s = ap_session w;
    ask = (\<lambda>token. \<lparr> rq_method = verb, rq_path = path, rq_authorization = map_option (\<lambda>t. js ''Bearer '' @ t) token,
      rq_body = map_option stringify body \<rparr>);
    old = ask (getAccessToken s);
    (r, w') = apiRequest (apiOptions (recordingFetch answer)) verb path body w in
    case refusal (answer old) s of
      None \<Rightarrow> r = received (answer old) \<and> onlySent [old] w w' \<and> ap_session w' = s
    | Some (response, t) \<Rightarrow>
        (case refreshedTokens (answer (refreshRequest t)) of
           Inr tokens \<Rightarrow>
             let again = ask (Some (st_accessToken tokens)) in
             r = received (answer again) \<and> onlySent [old, refreshRequest t, again] w w' \<and>
             ap_session w' = s\<lparr> se_tokens := Some tokens \<rparr>
         | Inl e \<Rightarrow>
             r = interpretResponse response \<and> sv_server w' = sv_server w @ [old, refreshRequest t] \<and>
             vs_state w' = EMPTY \<and> \<not> isUnlocked (ap_session w') \<and> held s \<subseteq> {a. isClear (bufOf w' a)} \<and> sh_refreshFailed w')"
proof -
  let ?ask = "\<lambda>token. \<lparr> rq_method = verb, rq_path = path, rq_authorization = map_option (\<lambda>t. js ''Bearer '' @ t) token,
      rq_body = map_option stringify body \<rparr>"
  let ?s = "ap_session w"
  let ?old = "?ask (getAccessToken ?s)"
  show ?thesis
  proof (cases "refusal (answer ?old) ?s")
    case None
    then show ?thesis
      by (cases "answer ?old"; cases "getRefreshToken ?s")
        (auto simp: apiRequest_def send_recorded Let_def refusal_def received_def onlySent_def onUnauthorized_def refreshStarts_def refreshSettles_def
          split: if_splits)
  next
    case (Some p)
    then obtain response t where p: "p = (response, t)" "answer ?old = Some response" "rp_status response = 401"
      "getRefreshToken ?s = Some t"
      by (cases "answer ?old"; cases "getRefreshToken ?s") (auto simp: refusal_def split: if_splits)
    define v where "v = w\<lparr> sv_server := sv_server w @ [?old, refreshRequest t], sh_refreshFailed := True \<rparr>"
    have clear: "held ?s \<subseteq> {a. isClear (bufOf (onLock v) a)}" using onLock_clears [of v] by (simp add: v_def)
    have told: "sh_refreshFailed (onLock v)" "sv_server (onLock v) = sv_server w @ [?old, refreshRequest t]"
      by (simp_all add: v_def)
    show ?thesis
    proof (cases "refreshedTokens (answer (refreshRequest t))")
      case (Inl e)
      then have "apiRequest (apiOptions (recordingFetch answer)) verb path body w = (interpretResponse response, onLock v)"
        using p by (simp add: apiRequest_def send_recorded Let_def onUnauthorized_def refreshStarts_def refreshSettles_def recordingFetch_def v_def)
      then show ?thesis using Inl Some p clear told by (simp add: Let_def)
    next
      case (Inr tokens)
      then show ?thesis
        using Some p
        by (cases "answer (?ask (Some (st_accessToken tokens)))")
          (simp_all add: apiRequest_def send_recorded Let_def onUnauthorized_def refreshStarts_def refreshSettles_def recordingFetch_def replaceTokens_def
            getAccessToken_def received_def onlySent_def)
    qed
  qed
qed

section \<open>Two requests at once\<close>

text \<open>
  A server whose refresh tokens are single-use (\<^verbatim>\<open>RotateSession\<close> of
  \<^verbatim>\<open>internal/store/sessions.go\<close>): given the refresh requests it has accepted, it refuses
  every one of them when it comes again.
\<close>

definition singleUse :: "(Request list \<Rightarrow> Request \<Rightarrow> Response option) \<Rightarrow> bool" where
  "singleUse serve = (\<forall>accepted request. request \<in> set accepted \<longrightarrow> isl (refreshedTokens (serve accepted request)))"

definition bothAnswers :: "(Request list \<Rightarrow> Request \<Rightarrow> Response option) \<Rightarrow> Request \<Rightarrow> Request \<Rightarrow> Response option \<times> Response option" where
  "bothAnswers serve first second =
     (let a = serve [] first in (a, serve (if isl (refreshedTokens a) then [] else [first]) second))"

lemma settles_locks:
  "isl (refreshedTokens answer) \<Longrightarrow>
     \<not> isUnlocked (ap_session (snd (refreshSettles answer w))) \<and> vs_state (snd (refreshSettles answer w)) = EMPTY \<and>
     sh_refreshFailed (snd (refreshSettles answer w))"
  by (cases "refreshedTokens answer") (simp_all add: refreshSettles_def)

lemma settles_stays_locked:
  "\<not> isUnlocked (ap_session w) \<and> vs_state w = EMPTY \<and> sh_refreshFailed w \<Longrightarrow>
     \<not> isUnlocked (ap_session (snd (refreshSettles answer w))) \<and> vs_state (snd (refreshSettles answer w)) = EMPTY \<and>
     sh_refreshFailed (snd (refreshSettles answer w))"
proof (cases "refreshedTokens answer")
  case (Inr tokens)
  then show "\<not> isUnlocked (ap_session w) \<and> vs_state w = EMPTY \<and> sh_refreshFailed w \<Longrightarrow> ?thesis"
    by (simp add: refreshSettles_def replaceTokens_def isUnlocked_def)
qed (simp add: settles_locks)

text \<open>
  C33. Two requests refused at the same time lock the vault. Each reads the refresh token before the
  other's answer has replaced it, so both send the same one; a server on which a token works once
  refuses the second; and in whichever order the two answers arrive, the vault ends empty and
  locked, with the session reported as expired, although the server has just renewed it. The
  panels of the application make their first requests in parallel.
\<close>
theorem parallel_refreshes_lock:
  assumes "refreshStarts w = Some first" "refreshStarts w = Some second"
    and "singleUse serve" "bothAnswers serve first second = (a, b)"
  shows "let v = snd (refreshSettles b (snd (refreshSettles a w))); v' = snd (refreshSettles a (snd (refreshSettles b w))) in
    \<not> isUnlocked (ap_session v) \<and> vs_state v = EMPTY \<and> sh_refreshFailed v \<and>
    \<not> isUnlocked (ap_session v') \<and> vs_state v' = EMPTY \<and> sh_refreshFailed v'"
proof -
  have "isl (refreshedTokens a) \<or> isl (refreshedTokens b)"
    using assms by (auto simp: bothAnswers_def singleUse_def Let_def split: if_splits)
  then show ?thesis
    using settles_locks settles_stays_locked unfolding Let_def by blast
qed

definition sampleShell :: "Request list shell" where
  "sampleShell =
     \<lparr> wd_random = (\<lambda>i. 0), wd_heap = [[7], [9]], sv_server = [],
       ap_session = \<lparr> se_tokens = Some \<lparr> st_accessToken = js ''a'', st_refreshToken = js ''r'' \<rparr>, se_user = None,
         se_userKey = Some 0, se_privateKey = Some 1, se_collectionKeys = [], se_listeners = [], se_notified = [] \<rparr>,
       vs_state = EMPTY, vs_listeners = [], vs_notified = [], rc_recovery = None, rc_recovering = False,
       sh_refreshFailed = False, sh_enrolled = False, sh_path = js ''/'', sh_storage = \<lparr> ls_items = [], ls_fits = (\<lambda>x. True) \<rparr> \<rparr>"

definition sampleRefresh :: "Request list \<Rightarrow> Request \<Rightarrow> Response option" where
  "sampleRefresh accepted request =
     Some (if request \<in> set accepted then \<lparr> rp_status = 401, rp_contentLength = None, rp_text = Some [] \<rparr>
           else \<lparr> rp_status = 200, rp_contentLength = None, rp_text = Some (js ''{}'') \<rparr>)"

theorem parallel_refreshes_lock_witness:
  "isUnlocked (ap_session sampleShell) \<and>
   (let (a, b) = bothAnswers sampleRefresh (refreshRequest (js ''r'')) (refreshRequest (js ''r''));
        v = snd (refreshSettles b (snd (refreshSettles a sampleShell))) in
    fst (refreshSettles a sampleShell) \<and> \<not> isUnlocked (ap_session v) \<and> sh_refreshFailed v)"
proof -
  let ?q = "refreshRequest (js ''r'')"
  have u: "isUnlocked (ap_session sampleShell)" by (simp add: sampleShell_def isUnlocked_def)
  have q: "refreshStarts sampleShell = Some ?q"
    by (simp add: refreshStarts_def sampleShell_def getRefreshToken_def)
  have s: "singleUse sampleRefresh"
    by (simp add: singleUse_def sampleRefresh_def refreshedTokens_def rp_ok_def)
  obtain a b where ab: "bothAnswers sampleRefresh ?q ?q = (a, b)" by fastforce
  have "jsonParse (js ''{}'') \<noteq> None" by code_simp
  then have "fst (refreshSettles a sampleShell)"
    using ab by (auto simp: bothAnswers_def Let_def sampleRefresh_def refreshSettles_def refreshedTokens_def rp_ok_def)
  then show ?thesis using u parallel_refreshes_lock [OF q q s ab] ab by (simp add: Let_def)
qed

text \<open>The code of a finished enrolment is handed on whatever the first fetch of the vault does.\<close>

lemma enrolment_outlives_load:
  assumes "enroll pf postEnroll postLogin rememberHere inviteToken email pw DEVICE_LABEL w = (Inr outcome, w1)"
  shows "fst (handleEnrol pf postEnroll postLogin get inviteToken email pw w) = Inr outcome"
  using assms by (simp add: handleEnrol_def andThen_def tryCatch_def ret_def split: prod.split sum.split)

text \<open>A completed recovery that signed in still shows its screen, and with it the code.\<close>

lemma recovery_screen_stays: "rc_recovering w \<Longrightarrow> screenOf True True None w = RecoverScreen"
  by (simp add: screenOf_def)

end
