(* ===== verification/Dialog.thy ===== *)
theory Dialog
  imports Prelude
begin

text \<open>
  The keyboard in a confirmation dialog (\<^verbatim>\<open>apps/web/src/ui/components/Confirm.tsx\<close>). The
  elements of the dialog that match its selector are numbered in document order; which of them are
  enabled is \<open>enabled\<close>. When the handler does not prevent it, the browser moves the focus: to the
  next or the previous enabled element of the page, of which the dialog, rendered at the end of the
  body, holds the last ones.

  Shown: once the focus is on an element of the dialog, Tab and Shift+Tab keep it there; right
  after the dialog opened, when the focus is on the dialog itself, Shift+Tab leaves it.
\<close>

datatype Focus = OnDialog | OnElement nat | Outside

datatype KeyOutcome = Cancelled | Moved Focus | Prevented | BrowserDefault

definition handleKeyDown :: "jstr \<Rightarrow> bool \<Rightarrow> nat \<Rightarrow> Focus \<Rightarrow> KeyOutcome" where
  "handleKeyDown key shiftKey count active =
     (if key = js ''Escape'' then Cancelled
      else if key \<noteq> js ''Tab'' then BrowserDefault
      else if count = 0 then Prevented
      else if shiftKey \<and> active = OnElement 0 then Moved (OnElement (count - 1))
      else if \<not> shiftKey \<and> active = OnElement (count - 1) then Moved (OnElement 0)
      else BrowserDefault)"

definition onlyEnabled :: "(nat \<Rightarrow> bool) \<Rightarrow> nat list \<Rightarrow> nat list" where
  "onlyEnabled enabled xs = filter enabled xs"

definition firstOr :: "nat list \<Rightarrow> Focus" where
  "firstOr xs = (case xs of [] \<Rightarrow> Outside | i # rest \<Rightarrow> OnElement i)"

text \<open>The browser's own move.\<close>

definition browserTab :: "(nat \<Rightarrow> bool) \<Rightarrow> bool \<Rightarrow> nat \<Rightarrow> Focus \<Rightarrow> Focus" where
  "browserTab enabled shiftKey count active =
     (case active of
        Outside \<Rightarrow> Outside
      | OnDialog \<Rightarrow> if shiftKey then Outside else firstOr (onlyEnabled enabled [0..<count])
      | OnElement i \<Rightarrow>
          if shiftKey then firstOr (onlyEnabled enabled (rev [0..<i])) else firstOr (onlyEnabled enabled [Suc i..<count]))"

definition pressTab :: "(nat \<Rightarrow> bool) \<Rightarrow> bool \<Rightarrow> nat \<Rightarrow> Focus \<Rightarrow> Focus" where
  "pressTab enabled shiftKey count active =
     (case handleKeyDown (js ''Tab'') shiftKey count active of
        Moved f \<Rightarrow> f | BrowserDefault \<Rightarrow> browserTab enabled shiftKey count active | _ \<Rightarrow> active)"

definition inside :: "(nat \<Rightarrow> bool) \<Rightarrow> nat \<Rightarrow> Focus \<Rightarrow> bool" where
  "inside enabled count f = (case f of OnElement i \<Rightarrow> i < count \<and> enabled i | _ \<Rightarrow> False)"

lemma firstOr_inside:
  assumes "j \<in> set xs" "enabled j" "set xs \<subseteq> {0..<count}"
  shows "inside enabled count (firstOr (onlyEnabled enabled xs))"
proof (cases "filter enabled xs")
  case Nil
  then show ?thesis using assms(1,2) by (auto simp: filter_empty_conv)
next
  case (Cons i rest)
  then have "i \<in> set (filter enabled xs)" by simp
  then have "enabled i" "i < count" using assms(3) by auto
  then show ?thesis using Cons by (auto simp: firstOr_def onlyEnabled_def inside_def)
qed

lemma tab_not_escape [simp]: "js ''Tab'' \<noteq> js ''Escape''"
  by (simp add: js_simps)

text \<open>The first and the last element of a dialog, an input or a button, and Cancel, are enabled.\<close>

lemma trap_keeps_focus:
  assumes "inside enabled count active" "enabled 0" "enabled (count - 1)"
  shows "inside enabled count (pressTab enabled shiftKey count active)"
proof -
  obtain i where i: "active = OnElement i" "i < count" "enabled i"
    using assms(1) by (cases active) (auto simp: inside_def)
  have ends: "inside enabled count (OnElement 0)" "inside enabled count (OnElement (count - 1))"
    using assms(2,3) i(2) by (simp_all add: inside_def)
  show ?thesis
  proof (cases "handleKeyDown (js ''Tab'') shiftKey count active = BrowserDefault")
    case True
    have "\<exists>j \<in> set (if shiftKey then rev [0..<i] else [Suc i..<count]). enabled j"
      using True i assms(2,3)
      by (cases shiftKey) (auto simp: handleKeyDown_def split: if_splits intro: bexI [of _ 0] bexI [of _ "count - 1"])
    moreover have "set (if shiftKey then rev [0..<i] else [Suc i..<count]) \<subseteq> {0..<count}" using i(2) by auto
    ultimately show ?thesis
      using True i(1) firstOr_inside [where count = count and enabled = enabled] by (auto simp: pressTab_def browserTab_def)
  next
    case False
    then have "handleKeyDown (js ''Tab'') shiftKey count active \<in> {Moved (OnElement 0), Moved (OnElement (count - 1))}"
      using i(2) by (auto simp: handleKeyDown_def split: if_splits)
    then show ?thesis using ends by (auto simp: pressTab_def)
  qed
qed

text \<open>The focus starts on the dialog itself, which no branch of the handler looks for.\<close>

lemma first_shift_tab_leaves: "0 < count \<Longrightarrow> pressTab enabled True count OnDialog = Outside"
  by (simp add: pressTab_def handleKeyDown_def browserTab_def)

lemma first_tab_enters: "enabled 0 \<Longrightarrow> 0 < count \<Longrightarrow> inside enabled count (pressTab enabled False count OnDialog)"
  using firstOr_inside [of 0 "[0..<count]" enabled count] by (simp add: pressTab_def handleKeyDown_def browserTab_def)

end
