(* ===== verification/Spec2Isabelle.thy ===== *)
theory Spec2Isabelle
  imports Dedupe Zip Detect Recovery Upload Store Generator Account ServiceWorker ImportScreen VaultView Admin Sharing AppShell Dialog
begin

text \<open>
  Keyhole is a password manager whose server never sees a key or a password: everything in it is
  encrypted and decrypted in the browser. The repository holds a Go server and a TypeScript client.
  This development models the client: the cryptographic package \<^verbatim>\<open>packages/crypto/src\<close>, the vault
  package \<^verbatim>\<open>packages/vault/src\<close> with its importers, and the web application \<^verbatim>\<open>apps/web/src\<close>. Every
  definition is translated from the function, type or handler of the same or a similar name there.

  \<^bold>\<open>How the parts interact.\<close> A screen calls a handler of its controller (a hook); the handler calls
  the vault package; that package calls the crypto package with the keys of the session, and the
  server through the API client. The session is the one holder of keys and the store the one
  holder of decrypted rows; locking clears both. An import is the one path that goes the other
  way round: a file of another product is read, detected, parsed, mapped to items, compared with
  the vault, encrypted and uploaded in batches.

  \<^bold>\<open>The model's conventions\<close> (Prelude, Json, Errors, World). A JavaScript string is a list of 16-bit
  words, a \<^verbatim>\<open>Map\<close> a list of pairs in insertion order, a value of \<^verbatim>\<open>JSON.parse\<close> a datatype, \<^verbatim>\<open>undefined\<close>
  and \<^verbatim>\<open>null\<close> are \<^verbatim>\<open>None\<close>, and a throw is the left of a sum. A program that handles keys is a function
  of a world: the key buffers by address, the random bytes still to come, the server, the session
  (Session), the store (Store), and the state of the panel it belongs to (Settings, Sharing, Admin,
  RecoverFlow, AppShell), each layer a record that extends the one below. A call of the API client
  is an argument: a function from a path and a body to the typed response the source casts it to.
  Programs are run whole; where something may happen during an \<^verbatim>\<open>await\<close>, the handler is
  split there, and an inductive step relation says what may come next (ImportScreen, VaultView, Sharing,
  and the two-part handlers of RecoverFlow and AppShell).

  \<^bold>\<open>Cryptography\<close> (\<^verbatim>\<open>packages/crypto/src\<close>).
  Encoding (\<^verbatim>\<open>encoding.ts\<close>, \<^verbatim>\<open>crockford.ts\<close>): round trips of base64, UTF-8 and the recovery alphabet.
  World (\<^verbatim>\<open>memory.ts\<close>, \<^verbatim>\<open>random.ts\<close>): buffers, what a program leaves behind.
  Symmetric (\<^verbatim>\<open>symmetric.ts\<close>): envelopes. Keys (\<^verbatim>\<open>kdf.ts\<close>, \<^verbatim>\<open>keys.ts\<close>): enrolment, unlock, rotation; what one makes
  the other opens. Recovery (\<^verbatim>\<open>recovery.ts\<close>): codes and the blob they open. ItemTypes and ItemCrypto
  (\<^verbatim>\<open>item.ts\<close>): an item decrypts to itself, and item keys are cleared. Seal (\<^verbatim>\<open>seal.ts\<close>, \<^verbatim>\<open>fingerprint.ts\<close>): a key
  sealed to a user opens with that user's private key.

  \<^bold>\<open>The vault\<close> (\<^verbatim>\<open>packages/vault/src\<close>).
  Api (\<^verbatim>\<open>api.ts\<close>): one request, one retry, what a response means.
  Uri: the URI functions it uses. Session (\<^verbatim>\<open>session.ts\<close>): a reachability invariant, every key ever
  given is held or zero. Items (\<^verbatim>\<open>items.ts\<close>, \<^verbatim>\<open>folders.ts\<close>): one bad row never affects another. Store
  (\<^verbatim>\<open>store.ts\<close>): a refinement, a sync takes a store that shows the server's rows to one that shows its
  new rows. Collections (\<^verbatim>\<open>collections.ts\<close>, \<^verbatim>\<open>directory.ts\<close>): the key ring after a sync, creation and
  grants. Account (\<^verbatim>\<open>unlock.ts\<close>, \<^verbatim>\<open>enroll.ts\<close>, \<^verbatim>\<open>recover.ts\<close>, \<^verbatim>\<open>account.ts\<close>): what is posted opens again on any
  device. Generator (\<^verbatim>\<open>generator.ts\<close>): no favoured index below a limit of 2^48, the bound within which its doubles
  are exact, and it returns. Preferences (\<^verbatim>\<open>preferences.ts\<close>, and
  \<^verbatim>\<open>localStoragePreferences.ts\<close> of the application). The calls of \<^verbatim>\<open>admin.ts\<close> are in Admin.

  \<^bold>\<open>Importing\<close> (\<^verbatim>\<open>packages/vault/src/import\<close>).
  ImportTypes (\<^verbatim>\<open>types.ts\<close>), Csv (\<^verbatim>\<open>csv.ts\<close>), Shared and JsonShared (\<^verbatim>\<open>parsers/shared.ts\<close>
  and what the JSON parsers repeat), one theory per parser (Browser, LastPass, KeePass, NordPass,
  Dashlane, Keeper, Bitwarden, ProtonPass, OnePassword), Zip (\<^verbatim>\<open>zip.ts\<close>), Detect (\<^verbatim>\<open>detect.ts\<close>), MapItems
  (\<^verbatim>\<open>map.ts\<close>), Dedupe (\<^verbatim>\<open>dedupe.ts\<close>), Upload (\<^verbatim>\<open>upload.ts\<close>). Shown: the reader inverts the writing rules of RFC
  4180, every row becomes an item or an error, no value of a row is lost on the way to an item, the
  duplicate report is exact, a batch keeps the server's limits, what was confirmed is a prefix, and
  how the reported numbers compare with what the server wrote.

  \<^bold>\<open>The application\<close> (\<^verbatim>\<open>apps/web/src\<close>).
  AutoLock (\<^verbatim>\<open>vault/autolock.ts\<close>): an idle vault is locked. ServiceWorker (\<^verbatim>\<open>sw\<close>):
  no request to the API meets a cache. Failures (\<^verbatim>\<open>ui/errors.ts\<close>). ImportPanel and ImportScreen, VaultView,
  Sharing, Admin, Settings, RecoverFlow: a controller of \<^verbatim>\<open>ui\<close> with its screen each, as their headers
  say. Dialog (\<^verbatim>\<open>ui/components/Confirm.tsx\<close>): the focus
  trap of a dialog. AppShell (\<^verbatim>\<open>ui/App.tsx\<close>): the refresh callback, the API client made with it, which screen is shown.
  Shown there: what the server accepted is never reported as failed; a refresh that fails leaves no
  key; a finished recovery hands over its code whatever follows and leads into the vault with the same
  keys; an import uploads exactly the rows of the preview that were not skipped; a save writes the item its form was opened on. Where the code does not
  keep such a promise under interleaving, the theorem says so for the run that breaks it.

  \<^bold>\<open>Contracts.\<close> Five locales state what a client relies on, each interpreted on the model's own
  definitions: \<^verbatim>\<open>ordered_map\<close> (Prelude, the laws of a \<^verbatim>\<open>Map\<close>), \<^verbatim>\<open>row_parser\<close> (Shared, what a row mapping
  promises; interpreted by every parser), \<^verbatim>\<open>synced_rows\<close> (Store, for items and for folders),
  \<^verbatim>\<open>preference_store\<close> (Preferences, for \<^verbatim>\<open>localStorage\<close>), \<^verbatim>\<open>cache_like\<close> (ServiceWorker, for the browser's cache).

  \<^bold>\<open>Parameters.\<close> What is not in the repository is an argument. \<^verbatim>\<open>platform\<close> holds AES-GCM, HKDF, Argon2id,
  X25519 and SHA-256; the laws assumed are \<^verbatim>\<open>gcmLaw\<close> (decryption inverts encryption under the
  same key and nonce), \<^verbatim>\<open>kdfLaws\<close> (lengths of derived keys, up to the longest HKDF gives), \<^verbatim>\<open>argonLaw\<close> (the
  default parameters are accepted for a password that is not empty, a salt of 8 bytes or more and a
  hash of 4 or more), \<^verbatim>\<open>keyPairLaw\<close> (a drawn private key has a public key of 32 bytes) and
  \<^verbatim>\<open>exchangeLaw\<close> (both ends of an exchange agree). They are
  stated as hypotheses, and a concrete \<^verbatim>\<open>samplePlatform\<close> satisfies them. Nothing is assumed or shown about
  secrecy. The DEFLATE decoder, the URL parser, the network and the server are arguments too;
  \<^verbatim>\<open>servesAudit\<close>, \<^verbatim>\<open>singleUse\<close> and the answers of Store state what the Go sources document.

  \<^bold>\<open>Loops.\<close> Every loop is a terminating recursion (a measure where it is not structural), except the
  rejection loop of \<^verbatim>\<open>randomIndex\<close>, which is a partial function: that it returns, given bytes that are
  not rejected for ever, is a theorem of its own. The JSON parser runs on fuel, twice the
  length of the text and two, and more never changes its verdict (\<^verbatim>\<open>parseVal_fuel\<close> of Json).

  \<^bold>\<open>Not modelled.\<close> The Go server (\<^verbatim>\<open>cmd\<close>, \<^verbatim>\<open>internal\<close>), which is another program, apart from the
  rules above; the markup, styles and clipboard of the screens; the subscription of
  React to the stores; \<^verbatim>\<open>packages/crypto/scripts/generate-vectors.ts\<close>, which prints vectors for the tests; the tests
  themselves. Numbers of JSON are exact decimals, and the case mappings leave out the
  final sigma and letters outside the basic multilingual plane. The numbers of the generator are the
  integers a double holds, rounded as IEEE 754 does, without the overflow to infinity; a length that is
  fractional or not a number is left out. A response is the record it is cast to, so a success whose
  body is \<^verbatim>\<open>null\<close> is left out where its fields are read. The program is otherwise sequential:
  two handlers that run at the same time are modelled only where a theory splits them.
\<close>

end
